(* ===== verification/Prelude.thy ===== *)
theory Prelude
  imports "HOL-Library.Word" "HOL-Library.Sublist"
begin

text \<open>
  Shared vocabulary of the development: the C and SystemVerilog integer types as words, the
  SystemVerilog part-select \<open>w[hi:lo]\<close>, C strings as characters and as bytes, and the generic
  lemmas on words and lists that the component theories use.
\<close>

unbundle bit_operations_syntax

type_synonym u8 = "8 word"
type_synonym u16 = "16 word"
type_synonym u32 = "32 word"
type_synonym u64 = "64 word"

named_theorems word_slices \<open>rules that evaluate and decompose part-selects of words\<close>
named_theorems frame \<open>fields an operation leaves alone\<close>


section \<open>Part-selects\<close>

text \<open>\<open>bits hi lo w\<close> is the SystemVerilog part-select \<open>w[hi:lo]\<close>, zero-extended.\<close>

definition bits :: "nat \<Rightarrow> nat \<Rightarrow> 'a::len word \<Rightarrow> 'a word" where
  "bits hi lo w = take_bit (Suc hi - lo) (drop_bit lo w)"

lemma bit_bits_iff [word_slices]:
  "bit (bits hi lo w) n \<longleftrightarrow> n < Suc hi - lo \<and> bit w (lo + n)"
  by (simp add: bits_def bit_take_bit_iff bit_drop_bit_eq)

lemma unat_bits: "unat (bits hi lo w) = (unat w div 2 ^ lo) mod 2 ^ (Suc hi - lo)"
  unfolding bits_def unsigned_take_bit_eq unat_drop_bit_eq
  by (simp only: take_bit_eq_mod drop_bit_eq_div)

lemma unat_bits_less: "unat (bits hi lo w) < 2 ^ (Suc hi - lo)"
  by (simp add: unat_bits)

lemma unat_pred: "n \<noteq> 0 \<Longrightarrow> unat (n - 1 :: 'a::len word) = unat n - 1"
  by (simp add: unat_minus_one)

lemma unat_pred_less: "n \<noteq> 0 \<Longrightarrow> unat (n - 1 :: 'a::len word) < unat n"
  by (simp add: unat_pred unat_gt_0)

lemma word_pred_less_iff:
  "k \<noteq> 0 \<Longrightarrow> n \<noteq> 0 \<Longrightarrow> k - 1 < n - 1 \<longleftrightarrow> k < (n :: 'a::len word)"
  by (simp add: word_less_nat_alt unat_pred) (metis One_nat_def diff_less_mono2 diff_Suc_1
      less_diff_conv2 Suc_leI linorder_neqE_nat nat_neq_iff unat_gt_0 Suc_pred Suc_less_eq)

lemma word_pred_le: "n \<noteq> 0 \<Longrightarrow> n - 1 \<le> (n :: 'a::len word)"
  by (simp add: word_le_nat_alt unat_pred)

lemma uint_pos_iff: "0 < uint w \<longleftrightarrow> w \<noteq> 0"
  by (metis uint_0_iff uint_ge_0 order_less_le)

lemma word_ge_1: "n \<noteq> 0 \<longleftrightarrow> (1 :: 'a::len word) \<le> n"
  by (metis word_gt_0 word_not_simps(1) word_less_1 not_le)

lemma word_minus_1_not_less: "\<not> (- 1 :: 'a::len word) < n"
  by simp

lemma split_at: "(w :: 'a::len word) = push_bit n (drop_bit n w) OR take_bit n w"
  by (rule bit_word_eqI) (auto simp: bit_simps)

text \<open>Assignments to a bit \<open>w[n] <= b\<close> and to a field \<open>w[lo+len-1:lo] <= v\<close>.\<close>

definition put_bit :: "nat \<Rightarrow> bool \<Rightarrow> 'a::len word \<Rightarrow> 'a word" where
  "put_bit n b w = (if b then w OR push_bit n 1 else w AND NOT (push_bit n 1))"

definition put_field :: "nat \<Rightarrow> nat \<Rightarrow> 'a::len word \<Rightarrow> 'a word \<Rightarrow> 'a word" where
  "put_field lo len v w = (w AND NOT (push_bit lo (mask len))) OR push_bit lo (take_bit len v)"

lemma bit_put_bit_iff [word_slices]:
  "bit (put_bit n b w) k \<longleftrightarrow> (if k = n then b \<and> k < LENGTH('a) else bit (w :: 'a::len word) k)"
  by (auto simp: put_bit_def bit_simps dest: bit_imp_le_length)

lemma bit_put_field_iff [word_slices]:
  "bit (put_field lo len v w) k \<longleftrightarrow>
     (if lo \<le> k \<and> k < lo + len \<and> k < LENGTH('a) then bit v (k - lo) else bit (w :: 'a::len word) k)"
  by (auto simp: put_field_def bit_simps not_le not_less dest: bit_imp_le_length)

text \<open>A masked register write: the mask selects the bits taken from the new value.\<close>

definition masked :: "'a::len word \<Rightarrow> 'a word \<Rightarrow> 'a word \<Rightarrow> 'a word" where
  "masked m new old = (new AND m) OR (old AND NOT m)"

lemma bit_masked_iff [word_slices]:
  "bit (masked m new old) k \<longleftrightarrow> (if bit m k then bit new k else bit old k)"
  by (auto simp: masked_def bit_simps dest: bit_imp_le_length)

lemma masked_all [simp]: "masked (- 1) new old = new"
  by (simp add: masked_def)

lemma masked_masked [simp]: "masked m new (masked m mid old) = masked m new old"
  by (rule bit_word_eqI) (simp add: bit_masked_iff)

lemma masked_same [simp]: "masked m w w = w"
  by (rule bit_word_eqI) (simp add: bit_masked_iff)

end
