(* ===== verification/CLib.thy ===== *)
theory CLib
  imports Prelude
begin

text \<open>
  \<open>core/test/os2_min/common.c\<close> and the macros of \<open>common.h\<close>: the freestanding C library the
  kernel links. Memory is a function from 64-bit addresses to bytes, so pointer increments wrap
  as the machine's do. \<open>printf\<close> is a function from the format and the variadic arguments to the
  characters it hands to \<open>putchar\<close>; \<open>None\<close> is a call whose behaviour C leaves undefined (a
  conversion without a matching argument).
\<close>


section \<open>Macros of common.h\<close>

definition align_up :: "u64 \<Rightarrow> u64 \<Rightarrow> u64" where
  "align_up value align = (value + align - 1) AND NOT (align - 1)"

definition is_aligned :: "u64 \<Rightarrow> u64 \<Rightarrow> bool" where
  "is_aligned value align \<longleftrightarrow> value AND (align - 1) = 0"

definition PAGE_SIZE :: u64 where "PAGE_SIZE = 4096"


section \<open>Memory: memset, memcpy, strcpy, strcmp\<close>

type_synonym mem = "u64 \<Rightarrow> u8"

function memset_loop :: "mem \<Rightarrow> u64 \<Rightarrow> u8 \<Rightarrow> u64 \<Rightarrow> mem" where
  "memset_loop m p c n = (if n = 0 then m else memset_loop (m(p := c)) (p + 1) c (n - 1))"
  by pat_completeness auto
termination
  by (relation "measure (\<lambda>(m, p, c, n). unat n)") (auto intro!: unat_pred_less)

declare memset_loop.simps [simp del]

definition c_memset :: "mem \<Rightarrow> u64 \<Rightarrow> u8 \<Rightarrow> u64 \<Rightarrow> mem \<times> u64" where
  "c_memset m buf c n = (memset_loop m buf c n, buf)"

function memcpy_loop :: "mem \<Rightarrow> u64 \<Rightarrow> u64 \<Rightarrow> u64 \<Rightarrow> mem" where
  "memcpy_loop m d s n = (if n = 0 then m else memcpy_loop (m(d := m s)) (d + 1) (s + 1) (n - 1))"
  by pat_completeness auto
termination
  by (relation "measure (\<lambda>(m, d, s, n). unat n)") (auto intro!: unat_pred_less)

declare memcpy_loop.simps [simp del]

definition c_memcpy :: "mem \<Rightarrow> u64 \<Rightarrow> u64 \<Rightarrow> u64 \<Rightarrow> mem \<times> u64" where
  "c_memcpy m dst src n = (memcpy_loop m dst src n, dst)"

function strcpy_loop :: "mem \<Rightarrow> u64 \<Rightarrow> u64 \<Rightarrow> u64 \<Rightarrow> mem" where
  "strcpy_loop m d src sz =
     (if m src \<noteq> 0 \<and> sz > 1
      then strcpy_loop (m(d := m src)) (d + 1) (src + 1) (sz - 1)
      else m(d := 0))"
  by pat_completeness auto
termination
  by (relation "measure (\<lambda>(m, d, s, n). unat n)") (auto intro!: unat_pred_less)

declare strcpy_loop.simps [simp del]

definition c_strcpy :: "mem \<Rightarrow> u64 \<Rightarrow> u64 \<Rightarrow> u64 \<Rightarrow> mem \<times> u64" where
  "c_strcpy m dst src sz = (if sz = 0 then (m, dst) else (strcpy_loop m dst src sz, dst))"

text \<open>
  \<open>strcmp\<close> stops at the first NUL or difference; on memory without either it never returns, so
  the loop is a \<open>partial_function\<close>. The result is the difference of two \<open>unsigned char\<close>s as an
  \<open>int\<close>.
\<close>

partial_function (option) c_strcmp :: "mem \<Rightarrow> u64 \<Rightarrow> u64 \<Rightarrow> int option" where
  "c_strcmp m s1 s2 =
     (if m s1 \<noteq> 0 \<and> m s2 \<noteq> 0 \<and> m s1 = m s2
      then c_strcmp m (s1 + 1) (s2 + 1)
      else Some (uint (m s1) - uint (m s2)))"


section \<open>printf\<close>

datatype varg = VInt u32 | VLong u64 | VStr string

definition digit_char :: "u64 \<Rightarrow> char" where
  "digit_char d = char_of (unat (48 + d))"

text \<open>The two loops of the \<open>%d\<close> case.\<close>

partial_function (option) find_divisor :: "u64 \<Rightarrow> u64 \<Rightarrow> u64 option" where
  "find_divisor magnitude divisor =
     (if magnitude div divisor > 9 then find_divisor magnitude (divisor * 10) else Some divisor)"

function emit_digits :: "u64 \<Rightarrow> u64 \<Rightarrow> string" where
  "emit_digits magnitude divisor =
     (if divisor > 0
      then digit_char (magnitude div divisor) # emit_digits (magnitude mod divisor) (divisor div 10)
      else [])"
  by pat_completeness auto
termination
  by (relation "measure (\<lambda>(m, d). unat d)") (auto simp: unat_div unat_gt_0)

declare emit_digits.simps [simp del]

definition print_dec :: "u64 \<Rightarrow> string option" where
  "print_dec value =
     (let neg = value <s 0;
          magnitude = (if neg then 0 - value else value)
      in map_option (\<lambda>divisor. (if neg then ''-'' else []) @ emit_digits magnitude divisor)
           (find_divisor magnitude 1))"

definition print_hex :: "bool \<Rightarrow> u64 \<Rightarrow> string" where
  "print_hex is_long value =
     map (\<lambda>i. ''0123456789abcdef'' ! unat (drop_bit (i * 4) value AND 0xf))
       (rev [0 ..< Suc (if is_long then 15 else 7)])"

text \<open>\<open>va_arg\<close> of \<open>int\<close>/\<open>unsigned\<close> and of \<open>long\<close>, converted to the 64-bit \<open>long\<close>.\<close>

definition arg_long :: "bool \<Rightarrow> varg list \<Rightarrow> (u64 \<times> varg list) option" where
  "arg_long is_long va =
     (case va of
        VLong v # va' \<Rightarrow> if is_long then Some (v, va') else None
      | VInt v # va' \<Rightarrow> if is_long then None else Some (scast v, va')
      | _ \<Rightarrow> None)"

definition arg_ulong :: "bool \<Rightarrow> varg list \<Rightarrow> (u64 \<times> varg list) option" where
  "arg_ulong is_long va =
     (case va of
        VLong v # va' \<Rightarrow> if is_long then Some (v, va') else None
      | VInt v # va' \<Rightarrow> if is_long then None else Some (ucast v, va')
      | _ \<Rightarrow> None)"

definition arg_str :: "varg list \<Rightarrow> (string \<times> varg list) option" where
  "arg_str va = (case va of VStr s # va' \<Rightarrow> Some (s, va') | _ \<Rightarrow> None)"

text \<open>One conversion: the text it prints and the arguments left.\<close>

definition convert :: "bool \<Rightarrow> char \<Rightarrow> varg list \<Rightarrow> (string \<times> varg list) option" where
  "convert is_long f va =
     (if f = CHR ''%'' then Some (''%'', va)
      else if f = CHR ''s'' then arg_str va
      else if f = CHR ''d'' then
        Option.bind (arg_long is_long va) (\<lambda>(v, va'). map_option (\<lambda>s. (s, va')) (print_dec v))
      else if f = CHR ''x'' then
        map_option (\<lambda>(v, va'). (print_hex is_long v, va')) (arg_ulong is_long va)
      else Some ([], va))"

definition long_flag :: "string \<Rightarrow> bool \<times> string" where
  "long_flag fmt = (case fmt of c # fmt' \<Rightarrow> if c = CHR ''l'' then (True, fmt') else (False, fmt) | [] \<Rightarrow> (False, []))"

lemma length_long_flag: "length (snd (long_flag fmt)) \<le> length fmt"
  by (auto simp: long_flag_def split: list.splits)

function c_printf :: "string \<Rightarrow> varg list \<Rightarrow> string option" where
  "c_printf [] va = Some []"
| "c_printf (c # fmt) va =
     (if c = CHR ''%'' then
        (case snd (long_flag fmt) of
           [] \<Rightarrow> Some ''%''
         | f # fmt' \<Rightarrow>
             (case convert (fst (long_flag fmt)) f va of
                None \<Rightarrow> None
              | Some (s, va') \<Rightarrow> map_option (\<lambda>r. s @ r) (c_printf fmt' va')))
      else map_option (\<lambda>r. c # r) (c_printf fmt va))"
  by pat_completeness auto
termination
proof (relation "measure (\<lambda>(fmt, va). length fmt)", goal_cases)
  case (2 c fmt va f fmt')
  then show ?case using length_long_flag [of fmt] by auto
qed auto


section \<open>What memset and memcpy do\<close>

lemma memset_loop_eq: "memset_loop m p c n = (\<lambda>a. if a - p < n then c else m a)"
proof (induction m p c n rule: memset_loop.induct)
  case (1 m p c n)
  show ?case
  proof (cases "n = 0")
    case True
    then show ?thesis by (subst memset_loop.simps) simp
  next
    case False
    have shift: "a - (p + 1) < n - 1 \<longleftrightarrow> a - p < n" if "a \<noteq> p" for a
      using word_pred_less_iff [of "a - p" n] that False by (simp add: algebra_simps)
    have "memset_loop m p c n = memset_loop (m(p := c)) (p + 1) c (n - 1)"
      using False by (subst memset_loop.simps) simp
    also note 1 [OF False]
    also have "(\<lambda>a. if a - (p + 1) < n - 1 then c else (m(p := c)) a) = (\<lambda>a. if a - p < n then c else m a)"
      using False by (auto simp: shift word_gt_0)
    finally show ?thesis .
  qed
qed

lemma memcpy_loop_eq:
  "d = s \<or> n \<le> d - s \<Longrightarrow>
   memcpy_loop m d s n = (\<lambda>a. if a - d < n then m (s + (a - d)) else m a)"
proof (induction m d s n rule: memcpy_loop.induct)
  case (1 m d s n)
  show ?case
  proof (cases "n = 0")
    case True
    then show ?thesis by (subst memcpy_loop.simps) simp
  next
    case False
    let ?m = "m(d := m s)"
    have shift: "a - (d + 1) < n - 1 \<longleftrightarrow> a - d < n" if "a \<noteq> d" for a
      using word_pred_less_iff [of "a - d" n] that False by (simp add: algebra_simps)
    have fresh: "s + (a - d) \<noteq> d" if "a \<noteq> d" "a - d < n" for a
    proof
      assume "s + (a - d) = d"
      then have "a - d = d - s" by (simp add: eq_diff_eq add.commute)
      then show False using "1.prems" that by auto
    qed
    have "d + 1 = s + 1 \<or> n - 1 \<le> (d + 1) - (s + 1)"
      using "1.prems" word_pred_le [OF False] by (auto intro: order_trans)
    note IH = "1.IH" [OF False this]
    have "memcpy_loop m d s n = memcpy_loop ?m (d + 1) (s + 1) (n - 1)"
      using False by (subst memcpy_loop.simps) simp
    also note IH
    also have "(\<lambda>a. if a - (d + 1) < n - 1 then ?m (s + 1 + (a - (d + 1))) else ?m a) = (\<lambda>a. if a - d < n then m (s + (a - d)) else m a)" (is "?l = ?r")
    proof
      fix a
      have eq: "s + 1 + (a - (d + 1)) = s + (a - d)" by simp
      show "?l a = ?r a"
        using False unfolding eq by (cases "a = d") (auto simp: shift fresh word_gt_0)
    qed
    finally show ?thesis .
  qed
qed


section \<open>Strings in memory: strcpy and strcmp\<close>

text \<open>\<open>cstring_at m p xs\<close>: the bytes at \<open>p\<close> are \<open>xs\<close>, none of them NUL, and then a NUL.\<close>

fun cstring_at :: "mem \<Rightarrow> u64 \<Rightarrow> u8 list \<Rightarrow> bool" where
  "cstring_at m p [] \<longleftrightarrow> m p = 0"
| "cstring_at m p (x # xs) \<longleftrightarrow> x \<noteq> 0 \<and> m p = x \<and> cstring_at m (p + 1) xs"

lemma cstring_at_cong:
  "(\<And>i. i \<le> length xs \<Longrightarrow> m' (p + of_nat i) = m (p + of_nat i)) \<Longrightarrow> cstring_at m' p xs = cstring_at m p xs"
proof (induction xs arbitrary: p)
  case Nil
  then show ?case using Nil [of 0] by simp
next
  case (Cons x xs)
  have "cstring_at m' (p + 1) xs = cstring_at m (p + 1) xs"
  proof (rule Cons.IH)
    fix i assume "i \<le> length xs"
    then show "m' (p + 1 + of_nat i) = m (p + 1 + of_nat i)"
      using Cons.prems [of "Suc i"] by (simp add: algebra_simps)
  qed
  then show ?case using Cons.prems [of 0] by simp
qed

lemma strcpy_loop_frame:
  "sz \<noteq> 0 \<Longrightarrow> \<not> a - d < sz \<Longrightarrow> strcpy_loop m d src sz a = m a"
proof (induction m d src sz rule: strcpy_loop.induct)
  case (1 m d src sz)
  have ne: "a \<noteq> d" using "1.prems" by (auto simp: word_gt_0)
  show ?case
  proof (cases "m src \<noteq> 0 \<and> sz > 1")
    case True
    have "\<not> a - (d + 1) < sz - 1"
      using word_pred_less_iff [of "a - d" sz] ne "1.prems" by (simp add: algebra_simps)
    moreover have "sz - 1 \<noteq> 0" using True by auto
    ultimately have "strcpy_loop (m(d := m src)) (d + 1) (src + 1) (sz - 1) a = (m(d := m src)) a"
      using "1.IH" True by blast
    with True ne show ?thesis by (subst strcpy_loop.simps) simp
  next
    case False
    with ne show ?thesis by (subst strcpy_loop.simps) auto
  qed
qed

text \<open>
  The copy itself. The source string and the \<open>sz\<close> bytes at \<open>d\<close> must not overlap: no byte of the
  string (its NUL included) is one of the bytes the loop may write.
\<close>

lemma strcpy_loop_copies:
  "cstring_at m src xs \<Longrightarrow> sz \<noteq> 0 \<Longrightarrow>
   (\<forall>i \<le> length xs. \<not> src + of_nat i - d < sz) \<Longrightarrow>
   cstring_at (strcpy_loop m d src sz) d (take (unat sz - 1) xs)"
proof (induction xs arbitrary: m d src sz)
  case Nil
  then show ?case by (subst strcpy_loop.simps) simp
next
  case (Cons x xs)
  show ?case
  proof (cases "sz > 1")
    case False
    then have "sz = 1" using Cons.prems(2) by (simp add: word_ge_1 not_less)
    then show ?thesis by (subst strcpy_loop.simps) simp
  next
    case True
    have ne1: "sz - 1 \<noteq> 0" using True by auto
    let ?m = "m(d := x)"
    have apart: "src + 1 + of_nat i \<noteq> d \<and> \<not> src + 1 + of_nat i - (d + 1) < sz - 1" if "i \<le> length xs" for i
    proof -
      have far: "\<not> src + of_nat (Suc i) - d < sz" using Cons.prems(3) that by auto
      then have "src + of_nat (Suc i) \<noteq> d" using Cons.prems(2) by (auto simp: word_gt_0)
      then show ?thesis
        using far word_pred_less_iff [of "src + of_nat (Suc i) - d" sz] Cons.prems(2)
        by (auto simp: algebra_simps)
    qed
    have src': "cstring_at ?m (src + 1) xs"
      using Cons.prems(1) apart by (subst cstring_at_cong [of _ _ _ m]) auto
    have "cstring_at (strcpy_loop ?m (d + 1) (src + 1) (sz - 1)) (d + 1) (take (unat (sz - 1) - 1) xs)"
      by (rule Cons.IH [OF src' ne1]) (use apart in auto)
    moreover have "strcpy_loop ?m (d + 1) (src + 1) (sz - 1) d = x"
      using ne1 by (subst strcpy_loop_frame) auto
    moreover have "take (unat sz - 1) (x # xs) = x # take (unat (sz - 1) - 1) xs"
      using True Cons.prems(2) by (cases "unat sz - 1") (auto simp: unat_pred word_less_nat_alt)
    ultimately show ?thesis
      using Cons.prems(1) True by (subst strcpy_loop.simps) auto
  qed
qed

lemma strcmp_sound:
  "cstring_at m p xs \<Longrightarrow> cstring_at m q ys \<Longrightarrow>
   \<exists>r. c_strcmp m p q = Some r \<and> (r = 0 \<longleftrightarrow> xs = ys) \<and>
       (r < 0 \<longleftrightarrow> (xs, ys) \<in> lexord {(a, b). a < b})"
proof (induction xs arbitrary: p q ys)
  case Nil
  then show ?case
    by (cases ys) (auto simp: c_strcmp.simps uint_pos_iff uint_0_iff)
next
  case (Cons x xs)
  show ?case
  proof (cases ys)
    case Nil
    then show ?thesis using Cons.prems by (subst c_strcmp.simps) (auto simp: uint_0_iff)
  next
    case (Cons y ys')
    show ?thesis
    proof (cases "x = y")
      case True
      with Cons.prems Cons Cons.IH [of "p + 1" "q + 1" ys'] show ?thesis
        by (subst c_strcmp.simps) auto
    next
      case False
      with Cons.prems Cons show ?thesis
        by (subst c_strcmp.simps) (auto simp: word_less_def word_uint_eq_iff)
    qed
  qed
qed


section \<open>Reference formatting and parsing\<close>

definition digit :: "nat \<Rightarrow> char" where
  "digit d = char_of (48 + d)"

fun show_nat :: "nat \<Rightarrow> string" where
  "show_nat n = (if n < 10 then [digit n] else show_nat (n div 10) @ [digit (n mod 10)])"

declare show_nat.simps [simp del]

definition show_int :: "int \<Rightarrow> string" where
  "show_int i = (if i < 0 then CHR ''-'' # show_nat (nat (- i)) else show_nat (nat i))"

definition read_nat :: "string \<Rightarrow> nat" where
  "read_nat s = foldl (\<lambda>acc c. 10 * acc + (of_char c - 48)) 0 s"

definition read_int :: "string \<Rightarrow> int" where
  "read_int s = (case s of c # t \<Rightarrow> if c = CHR ''-'' then - int (read_nat t) else int (read_nat s) | [] \<Rightarrow> 0)"

lemma of_char_digit: "d < 10 \<Longrightarrow> of_char (digit d) = 48 + d"
  by (simp add: digit_def)

lemma digit_char_eq: "unat d < 10 \<Longrightarrow> digit_char d = digit (unat d)"
  by (simp add: digit_char_def digit_def unat_word_ariths)

lemma read_show_nat: "read_nat (show_nat n) = n"
proof (induction n rule: show_nat.induct)
  case (1 n)
  show ?case
  proof (cases "n < 10")
    case True
    then show ?thesis by (subst show_nat.simps) (simp add: read_nat_def of_char_digit)
  next
    case False
    with 1 have "read_nat (show_nat (n div 10)) = n div 10" by simp
    with False show ?thesis by (subst show_nat.simps) (simp add: read_nat_def of_char_digit)
  qed
qed

lemma hd_show_nat: "\<exists>d t. d < 10 \<and> show_nat n = digit d # t"
proof (induction n rule: show_nat.induct)
  case (1 n)
  then show ?case by (subst show_nat.simps) fastforce
qed

lemma digit_not_minus: "d < 10 \<Longrightarrow> digit d \<noteq> CHR ''-''"
  using of_char_digit [of d] by force

lemma read_show_int: "read_int (show_int i) = i"
proof -
  obtain d t where dt: "d < 10" "show_nat (nat i) = digit d # t" using hd_show_nat by blast
  have "read_nat (digit d # t) = nat i" using read_show_nat [of "nat i"] dt by simp
  with dt show ?thesis
    by (auto simp: show_int_def read_int_def read_show_nat digit_not_minus)
qed


section \<open>The %d loops\<close>

text \<open>\<open>fixdec j n\<close>: \<open>n\<close> in exactly \<open>j + 1\<close> decimal digits, as the second loop prints it.\<close>

fun fixdec :: "nat \<Rightarrow> nat \<Rightarrow> string" where
  "fixdec 0 n = [digit n]"
| "fixdec (Suc j) n = digit (n div 10 ^ Suc j) # fixdec j (n mod 10 ^ Suc j)"

lemma fixdec_snoc: "fixdec (Suc j) n = fixdec j (n div 10) @ [digit (n mod 10)]"
proof (induction j arbitrary: n)
  case 0
  show ?case by simp
next
  case (Suc j)
  have "n mod (10 * 10 ^ Suc j) div 10 = n div 10 mod 10 ^ Suc j"
    by (simp only: mod_mult2_eq)
  then have "n mod 10 ^ Suc (Suc j) div 10 = n div 10 mod 10 ^ Suc j" by simp
  moreover have "n mod 10 ^ Suc (Suc j) mod 10 = n mod 10"
    by (simp add: mod_mod_cancel)
  moreover have "n div 10 ^ Suc (Suc j) = n div 10 div 10 ^ Suc j"
    by (simp only: power_Suc [of _ "Suc j"] div_mult2_eq)
  moreover note Suc [of "n mod 10 ^ Suc (Suc j)"]
  ultimately show ?case
    by (simp only: fixdec.simps(2) [of "Suc j"] fixdec.simps(2) [of j "n div 10"] append_Cons)
qed

lemma fixdec_show_nat:
  "n < 10 ^ Suc j \<Longrightarrow> j = 0 \<or> 10 ^ j \<le> n \<Longrightarrow> fixdec j n = show_nat n"
proof (induction j arbitrary: n)
  case 0
  then show ?case by (subst show_nat.simps) simp
next
  case (Suc j)
  have "(10::nat) \<le> 10 ^ Suc j" by simp
  with Suc.prems(2) have "\<not> n < 10" by linarith
  moreover have "n div 10 < 10 ^ Suc j" "10 ^ j \<le> n div 10"
    using Suc.prems by (auto simp: less_mult_imp_div_less less_eq_div_iff_mult_less_eq)
  moreover note Suc.IH [of "n div 10"]
  ultimately  show ?case by (subst show_nat.simps) (simp add: fixdec_snoc del: fixdec.simps)
qed

lemma unat_pow10: "k \<le> 19 \<Longrightarrow> unat (10 ^ k :: u64) = 10 ^ k"
proof (induction k)
  case 0
  show ?case by simp
next
  case (Suc k)
  then have "(10::nat) ^ Suc k \<le> 10 ^ 19" by (intro power_increasing) auto
  then have "(10::nat) ^ Suc k < 2 ^ 64" by simp
  with Suc show ?case by (simp add: unat_word_ariths)
qed


lemma find_divisor_unfold:
  "find_divisor m d = (if 9 < m div d then find_divisor m (d * 10) else Some d)"
  by (rule find_divisor.simps)

lemma div_pow10_gt: "k \<le> 19 \<Longrightarrow> 9 < m div 10 ^ k \<longleftrightarrow> 10 ^ Suc k \<le> unat (m :: u64)"
proof -
  assume k: "k \<le> 19"
  have "9 < m div 10 ^ k \<longleftrightarrow> 10 \<le> unat m div 10 ^ k"
    by (simp add: word_less_nat_alt unat_div unat_pow10 [OF k] Suc_le_eq [symmetric])
  also have "\<dots> \<longleftrightarrow> 10 * 10 ^ k \<le> unat m"
    by (simp add: less_eq_div_iff_mult_less_eq)
  finally show ?thesis by simp
qed

lemma find_divisor_finds:
  "k + n = 19 \<Longrightarrow> k = 0 \<or> 10 ^ k \<le> unat m \<Longrightarrow>
   \<exists>j \<le> 19. find_divisor m (10 ^ k) = Some (10 ^ j) \<and> unat m < 10 ^ Suc j \<and> (j = 0 \<or> 10 ^ j \<le> unat m)"
proof (induction n arbitrary: k)
  case 0
  have "unat m < 2 ^ 64" using unsigned_less [of m] by simp
  then have "unat m < 10 ^ Suc k" using 0 by simp
  then show ?case
    using 0 div_pow10_gt [of k m] by (intro exI [of _ k]) (simp add: find_divisor_unfold [of m] del: power_Suc)
next
  case (Suc n)
  have k: "k \<le> 19" using Suc.prems by simp
  show ?case
  proof (cases "10 ^ Suc k \<le> unat m")
    case True
    then have "find_divisor m (10 ^ k) = find_divisor m (10 ^ Suc k)"
      using div_pow10_gt [OF k, of m] by (subst find_divisor_unfold) (simp add: mult.commute)
    with Suc.IH [of "Suc k"] Suc.prems True show ?thesis by simp
  next
    case False
    then show ?thesis
      using Suc.prems k div_pow10_gt [OF k, of m]
      by (intro exI [of _ k]) (simp add: find_divisor_unfold [of m] not_le del: power_Suc)
  qed
qed

lemma emit_digits_fixdec:
  "j \<le> 19 \<Longrightarrow> unat m < 10 ^ Suc j \<Longrightarrow> emit_digits m (10 ^ j) = fixdec j (unat m)"
proof (induction j arbitrary: m)
  case 0
  then show ?case
    by (subst emit_digits.simps, subst emit_digits.simps) (simp add: digit_char_eq)
next
  case (Suc j)
  have p: "unat (10 ^ Suc j :: u64) = 10 ^ Suc j" "unat (10 ^ j :: u64) = 10 ^ j"
    using Suc.prems unat_pow10 by (simp_all del: power_Suc)
  have "unat (10 ^ Suc j div 10 :: u64) = unat (10 ^ j :: u64)"
    by (simp add: unat_div p del: power_Suc) simp
  then have d: "10 ^ Suc j div 10 = (10 ^ j :: u64)" by (rule unsigned_word_eqI)
  have m: "unat (m mod 10 ^ Suc j) = unat m mod 10 ^ Suc j"
    and q: "unat (m div 10 ^ Suc j) = unat m div 10 ^ Suc j"
    by (simp_all add: unat_mod unat_div p del: power_Suc)
  have "unat m div 10 ^ Suc j < 10"
    using Suc.prems by (simp add: less_mult_imp_div_less)
  moreover have "(0 :: u64) < 10 ^ Suc j" by (simp add: word_less_nat_alt p del: power_Suc)
  moreover have "emit_digits (m mod 10 ^ Suc j) (10 ^ j) = fixdec j (unat m mod 10 ^ Suc j)"
    using Suc.IH [of "m mod 10 ^ Suc j"] Suc.prems by (simp add: m del: power_Suc)
  ultimately show ?case
    by (subst emit_digits.simps) (simp add: d q digit_char_eq del: power_Suc)
qed

lemma print_mag: "\<exists>d. find_divisor m 1 = Some d \<and> emit_digits m d = show_nat (unat m)"
proof -
  obtain j where "j \<le> 19" "find_divisor m 1 = Some (10 ^ j)" "unat m < 10 ^ Suc j" "j = 0 \<or> 10 ^ j \<le> unat m"
    using find_divisor_finds [of 0 19 m] by auto
  then show ?thesis using emit_digits_fixdec [of j m] fixdec_show_nat [of "unat m" j] by auto
qed

lemma print_dec_show: "print_dec v = Some (show_int (sint v))"
proof -
  define mag where "mag = (if v <s 0 then 0 - v else v)"
  have neg: "v <s 0 \<longleftrightarrow> sint v < 0" by (simp add: word_sless_alt)
  have "uint mag = \<bar>sint v\<bar>"
  proof (cases "sint v < 0")
    case True
    have "mag = word_of_int (- sint v)" using True by (simp add: mag_def neg)
    then have "uint mag = take_bit LENGTH(64) (- sint v)" by (simp only: uint_word_of_int_eq)
    then show ?thesis
      using True sint_greater_eq [of v] by (simp add: take_bit_int_eq_self)
  next
    case False
    have "mag = word_of_int (sint v)" using False by (simp add: mag_def neg)
    then have "uint mag = take_bit LENGTH(64) (sint v)" by (simp only: uint_word_of_int_eq)
    then show ?thesis
      using False sint_less [of v] by (simp add: take_bit_int_eq_self)
  qed
  then have mag: "unat mag = nat \<bar>sint v\<bar>" by (simp add: unat_eq_nat_uint)
  obtain d where "find_divisor mag 1 = Some d" "emit_digits mag d = show_nat (unat mag)"
    using print_mag by blast
  then show ?thesis
    unfolding mag by (auto simp: print_dec_def show_int_def neg mag_def Let_def split: if_splits)
qed


section \<open>Hexadecimal output\<close>

definition hex_digit :: "nat \<Rightarrow> char" where
  "hex_digit d = ''0123456789abcdef'' ! d"

definition hex_value :: "char \<Rightarrow> nat" where
  "hex_value c = (if of_char c < (58 :: nat) then of_char c - 48 else of_char c - 87)"

definition read_hex :: "string \<Rightarrow> nat" where
  "read_hex s = foldl (\<lambda>acc c. 16 * acc + hex_value c) 0 s"

lemma nibble_cases: "d < 16 \<Longrightarrow> d \<in> {0, 1, 2, 3, 4, 5, 6, 7, 8, 9, 10, 11, 12, 13, 14, 15 :: nat}"
  by (simp add: numeral_eq_Suc less_Suc_eq)

lemma hex_value_digit: "d < 16 \<Longrightarrow> hex_value (hex_digit d) = d"
  by (drule nibble_cases) (auto simp: hex_value_def hex_digit_def)

text \<open>\<open>hex_fixed k n\<close>: the \<open>k\<close> low hexadecimal digits of \<open>n\<close>, most significant first.\<close>

definition hex_fixed :: "nat \<Rightarrow> nat \<Rightarrow> string" where
  "hex_fixed k n = map (\<lambda>i. hex_digit (n div 16 ^ i mod 16)) (rev [0 ..< k])"

lemma read_hex_fixed: "read_hex (hex_fixed k n) = n mod 16 ^ k"
proof (induction k arbitrary: n)
  case 0
  show ?case by (simp add: read_hex_def hex_fixed_def)
next
  case (Suc k)
  have "rev [0..<Suc k] = map Suc (rev [0..<k]) @ [0]"
    by (simp add: upt_conv_Cons map_Suc_upt rev_map [symmetric] del: upt_Suc)
  then have "hex_fixed (Suc k) n = hex_fixed k (n div 16) @ [hex_digit (n mod 16)]"
    by (simp add: hex_fixed_def div_mult2_eq del: upt_Suc)
  then have "read_hex (hex_fixed (Suc k) n) = 16 * read_hex (hex_fixed k (n div 16)) + n mod 16"
    by (simp add: read_hex_def hex_value_digit)
  then show ?case by (simp add: Suc mod_mult2_eq)
qed

lemma nibble_unat: "unat (drop_bit (i * 4) v AND (0xf :: u64)) = unat v div 16 ^ i mod 16"
proof -
  have "drop_bit (i * 4) v AND 0xf = take_bit 4 (drop_bit (i * 4) v)"
    by (simp add: take_bit_eq_mask mask_numeral)
  then show ?thesis
    by (simp only: unsigned_take_bit_eq unat_drop_bit_eq)
       (simp add: take_bit_eq_mod drop_bit_eq_div power_mult mult.commute [of i])
qed

lemma print_hex_eq: "print_hex is_long v = hex_fixed (if is_long then 16 else 8) (unat v)"
  by (simp add: print_hex_def hex_fixed_def hex_digit_def nibble_unat del: upt_Suc)

lemma length_print_hex: "length (print_hex is_long v) = (if is_long then 16 else 8)"
  by (simp add: print_hex_eq hex_fixed_def)

lemma read_print_hex: "read_hex (print_hex True v) = unat v"
proof -
  have "unat v < 2 ^ 64" using unsigned_less [of v] by simp
  then show ?thesis by (simp add: print_hex_eq read_hex_fixed)
qed

lemma read_print_hex32: "read_hex (print_hex False (ucast (w :: u32))) = unat w"
proof -
  have "unat w < 2 ^ 32" using unsigned_less [of w] by simp
  moreover from this have "unat (ucast w :: u64) = unat w"
    by (simp add: unsigned_ucast_eq take_bit_nat_eq_self)
  ultimately show ?thesis by (simp add: print_hex_eq read_hex_fixed)
qed


section \<open>printf as a whole\<close>

lemma printf_literal: "CHR ''%'' \<notin> set s \<Longrightarrow> c_printf s va = Some s"
  by (induction s) auto

lemma printf_prefix:
  "CHR ''%'' \<notin> set s \<Longrightarrow> c_printf (s @ fmt) va = map_option (\<lambda>r. s @ r) (c_printf fmt va)"
  by (cases "c_printf fmt va"; induction s) auto

text \<open>The argument kinds a format consumes, in order, as the loop of \<open>printf\<close> meets them.\<close>

datatype akind = KInt | KLong | KStr

fun kind_of :: "varg \<Rightarrow> akind" where
  "kind_of (VInt _) = KInt"
| "kind_of (VLong _) = KLong"
| "kind_of (VStr _) = KStr"

function fmt_kinds :: "string \<Rightarrow> akind list" where
  "fmt_kinds [] = []"
| "fmt_kinds (c # fmt) =
     (if c = CHR ''%'' then
        (case snd (long_flag fmt) of
           [] \<Rightarrow> []
         | f # fmt' \<Rightarrow>
             (if f = CHR ''s'' then [KStr]
              else if f = CHR ''d'' \<or> f = CHR ''x'' then [if fst (long_flag fmt) then KLong else KInt]
              else []) @ fmt_kinds fmt')
      else fmt_kinds fmt)"
  by pat_completeness auto
termination
proof (relation "measure length", goal_cases)
  case (2 c fmt f fmt')
  then show ?case using length_long_flag [of fmt] by auto
qed auto

text \<open>What one conversion character asks of the arguments.\<close>

definition need :: "bool \<Rightarrow> char \<Rightarrow> akind list" where
  "need l f = (if f = CHR ''s'' then [KStr]
               else if f = CHR ''d'' \<or> f = CHR ''x'' then [if l then KLong else KInt] else [])"

lemma convert_Some_iff:
  "(\<exists>r. convert l f va = Some r) \<longleftrightarrow> prefix (need l f) (map kind_of va)"
  by (cases va; cases "hd va")
     (auto simp: convert_def need_def arg_str_def arg_long_def arg_ulong_def print_dec_show split: if_splits)

lemma convert_rest:
  "convert l f va = Some (s, va') \<Longrightarrow> map kind_of va = need l f @ map kind_of va'"
  by (cases va; cases "hd va")
     (auto simp: convert_def need_def arg_str_def arg_long_def arg_ulong_def print_dec_show split: if_splits)

lemma fmt_kinds_conversion:
  "snd (long_flag fmt) = f # fmt' \<Longrightarrow>
   fmt_kinds (CHR ''%'' # fmt) = need (fst (long_flag fmt)) f @ fmt_kinds fmt'"
  by (simp add: need_def)

lemma printf_defined_iff:
  "(\<exists>s. c_printf fmt va = Some s) \<longleftrightarrow> prefix (fmt_kinds fmt) (map kind_of va)"
proof (induction fmt va rule: c_printf.induct)
  case (1 va)
  then show ?case by simp
next
  case (2 c fmt va)
  show ?case
  proof (cases "c = CHR ''%''")
    case False
    with 2 show ?thesis by auto
  next
    case True
    show ?thesis
    proof (cases "snd (long_flag fmt)")
      case Nil
      with True show ?thesis by simp
    next
      case (Cons f fmt')
      let ?l = "fst (long_flag fmt)"
      show ?thesis
      proof (cases "convert ?l f va")
        case None
        then have "\<not> prefix (need ?l f) (map kind_of va)"
          using convert_Some_iff [of ?l f va] by simp
        with True Cons None show ?thesis
          by (auto simp: fmt_kinds_conversion dest: append_prefixD simp del: fmt_kinds.simps)
      next
        case (Some r)
        obtain s va' where r: "r = (s, va')" by (cases r)
        with Some have "map kind_of va = need ?l f @ map kind_of va'" by (simp add: convert_rest)
        with True Cons Some r "2.IH"(1) [OF True Cons] show ?thesis
          by (auto simp: fmt_kinds_conversion simp del: fmt_kinds.simps)
      qed
    qed
  qed
qed


section \<open>Properties\<close>

text \<open>
  C38. For every 32-bit and every 64-bit argument, \<open>%d\<close> and \<open>%ld\<close> return and print the canonical
  decimal numeral of the signed value (no leading zero, a minus sign only for negative values),
  the most negative integers included, and reading the text back gives the argument.
\<close>
theorem printf_decimal:
  "c_printf ''%d'' [VInt n] = Some (show_int (sint n)) \<and>
   c_printf ''%ld'' [VLong v] = Some (show_int (sint v)) \<and>
   read_int (show_int (sint n)) = sint n \<and> read_int (show_int (sint v)) = sint v"
proof -
  have "sint (scast n :: u64) = sint n" by (rule sint_up_scast) (simp add: is_up)
  then show ?thesis
    by (simp add: long_flag_def convert_def arg_long_def print_dec_show read_show_int)
qed

text \<open>
  \<open>%x\<close> prints exactly eight and \<open>%lx\<close> exactly sixteen lower-case hexadecimal digits, and
  reading them back gives the argument.
\<close>
theorem printf_hexadecimal:
  "\<exists>s t. c_printf ''%x'' [VInt w] = Some s \<and> length s = 8 \<and> read_hex s = unat w \<and>
         c_printf ''%lx'' [VLong v] = Some t \<and> length t = 16 \<and> read_hex t = unat v"
  by (simp add: long_flag_def convert_def arg_ulong_def length_print_hex read_print_hex read_print_hex32)

text \<open>
  \<open>printf\<close> returns, with defined behaviour, exactly when the arguments begin with the kinds
  its format asks for: the loops inside \<open>%d\<close> always end, and no well-formed call is undefined.
\<close>
theorem printf_defined:
  "(\<exists>s. c_printf fmt va = Some s) \<longleftrightarrow> prefix (fmt_kinds fmt) (map kind_of va)"
  by (rule printf_defined_iff)

text \<open>
  \<open>memset\<close> returns its buffer and changes exactly the \<open>n\<close> bytes from it (addresses wrap),
  each to \<open>c\<close>.
\<close>
theorem memset_fills:
  "c_memset m buf c n = ((\<lambda>a. if a - buf < n then c else m a), buf)"
  by (simp add: c_memset_def memset_loop_eq)

text \<open>
  \<open>memcpy\<close> returns its destination, and unless the destination starts strictly inside the
  source block, it changes exactly the \<open>n\<close> destination bytes, to the bytes the source held before
  the call: the forward copy is right for disjoint blocks and for a destination below the source.
\<close>
theorem memcpy_copies:
  "dst = src \<or> n \<le> dst - src \<Longrightarrow>
   c_memcpy m dst src n = ((\<lambda>a. if a - dst < n then m (src + (a - dst)) else m a), dst)"
  by (simp add: c_memcpy_def memcpy_loop_eq)

theorem memcpy_copies_witness:
  "c_memcpy (\<lambda>a. ucast a) 0x1000 0x1008 16 =
     ((\<lambda>a. if a - 0x1000 < 16 then ucast (0x1008 + (a - 0x1000)) else ucast a), 0x1000)"
  by (rule memcpy_copies) simp

text \<open>
  \<open>strcpy\<close> with a nonzero \<open>size\<close> leaves a NUL-terminated string at the destination: the source
  string cut to \<open>size - 1\<close> bytes. It never writes outside the \<open>size\<close> bytes of the destination.
\<close>
theorem strcpy_truncates:
  assumes "cstring_at m src xs" and "sz \<noteq> 0"
    and "\<forall>i \<le> length xs. \<not> src + of_nat i - dst < sz"
  shows "cstring_at (fst (c_strcpy m dst src sz)) dst (take (unat sz - 1) xs) \<and>
         (\<forall>a. \<not> a - dst < sz \<longrightarrow> fst (c_strcpy m dst src sz) a = m a)"
  using assms
  by (auto simp: c_strcpy_def strcpy_loop_frame simp del: One_nat_def intro: strcpy_loop_copies)

definition demo_mem :: mem where
  "demo_mem = (\<lambda>_. 0)(0x100 := 104, 0x101 := 105, 0x102 := 33, 0x200 := 104, 0x201 := 111)"

theorem strcpy_truncates_witness:
  "cstring_at (fst (c_strcpy demo_mem 0x300 0x100 3)) 0x300 [104, 105]"
proof -
  have str: "cstring_at demo_mem 0x100 [104, 105, 33]" by (simp add: demo_mem_def)
  have apart: "\<forall>i \<le> length [104, 105, 33 :: u8]. \<not> (0x100 :: u64) + of_nat i - 0x300 < 3"
  proof (intro allI impI)
    fix i assume "i \<le> length [104, 105, 33 :: u8]"
    then have "i = 0 \<or> i = 1 \<or> i = 2 \<or> i = 3" by auto
    then show "\<not> (0x100 :: u64) + of_nat i - 0x300 < 3" by (elim disjE) simp_all
  qed
  show ?thesis using strcpy_truncates [OF str _ apart] by simp
qed

text \<open>
  On two NUL-terminated strings \<open>strcmp\<close> returns, its result is zero exactly for equal strings
  and negative exactly when the first precedes the second in the byte-wise lexicographic order.
\<close>
theorem strcmp_orders:
  assumes "cstring_at m s1 xs" and "cstring_at m s2 ys"
  shows "\<exists>r. c_strcmp m s1 s2 = Some r \<and> (r = 0 \<longleftrightarrow> xs = ys) \<and>
             (r < 0 \<longleftrightarrow> (xs, ys) \<in> lexord {(a, b). a < b})"
  using assms by (rule strcmp_sound)

theorem strcmp_orders_witness:
  "\<exists>r. c_strcmp demo_mem 0x100 0x200 = Some r \<and> r < 0"
proof -
  have "cstring_at demo_mem 0x100 [104, 105, 33]" "cstring_at demo_mem 0x200 [104, 111]"
    by (simp_all add: demo_mem_def)
  from strcmp_orders [OF this] show ?thesis by (auto simp: lexord_cons_cons)
qed

end
