(* ===== verification/Csr.thy ===== *)
theory Csr
  imports Prelude
begin

text \<open>
  \<open>src/csrunit.sv\<close>: the privileged registers of the core, the masks that apply to a CSR write,
  the checks that make a CSR instruction illegal, and what the unit does to the registers on an
  exception, on an interrupt, on \<open>mret\<close> and on \<open>sret\<close>. The constants come from \<open>src/eei.sv\<close>.
  Trace output, the performance counters and the \<open>mcycle\<close>/\<open>minstret\<close> increments are left out.
\<close>


section \<open>Modes, addresses, registers\<close>

text \<open>\<open>PrivMode\<close> is the two-bit enumeration of \<open>eei.sv\<close>.\<close>

type_synonym priv = "2 word"

abbreviation PRIV_M :: priv where "PRIV_M \<equiv> 3"
abbreviation PRIV_S :: priv where "PRIV_S \<equiv> 1"
abbreviation PRIV_U :: priv where "PRIV_U \<equiv> 0"

datatype csr_addr =
    SSTATUS | SIE | STVEC | SCOUNTEREN | SSCRATCH | SEPC | SCAUSE | STVAL | SIP | SATP
  | MVENDORID | MARCHID | MIMPID | MHARTID
  | MSTATUS | MISA | MEDELEG | MIDELEG | MIE | MTVEC | MCOUNTEREN
  | PMPCFG0 | PMPADDR nat
  | MSCRATCH | MEPC | MCAUSE | MTVAL | MIP
  | MCYCLE | MINSTRET | LED | CYCLE | TIME | INSTRET
  | OTHER "12 word"

fun csr_num :: "csr_addr \<Rightarrow> 12 word" where
  "csr_num SSTATUS = 0x100" | "csr_num SIE = 0x104" | "csr_num STVEC = 0x105"
| "csr_num SCOUNTEREN = 0x106" | "csr_num SSCRATCH = 0x140" | "csr_num SEPC = 0x141"
| "csr_num SCAUSE = 0x142" | "csr_num STVAL = 0x143" | "csr_num SIP = 0x144" | "csr_num SATP = 0x180"
| "csr_num MVENDORID = 0xf11" | "csr_num MARCHID = 0xf12" | "csr_num MIMPID = 0xf13"
| "csr_num MHARTID = 0xf14" | "csr_num MSTATUS = 0x300" | "csr_num MISA = 0x301"
| "csr_num MEDELEG = 0x302" | "csr_num MIDELEG = 0x303" | "csr_num MIE = 0x304"
| "csr_num MTVEC = 0x305" | "csr_num MCOUNTEREN = 0x306" | "csr_num PMPCFG0 = 0x3a0"
| "csr_num (PMPADDR i) = 0x3b0 + of_nat i"
| "csr_num MSCRATCH = 0x340" | "csr_num MEPC = 0x341" | "csr_num MCAUSE = 0x342"
| "csr_num MTVAL = 0x343" | "csr_num MIP = 0x344" | "csr_num MCYCLE = 0xb00"
| "csr_num MINSTRET = 0xb02" | "csr_num LED = 0x800" | "csr_num CYCLE = 0xc00"
| "csr_num TIME = 0xc01" | "csr_num INSTRET = 0xc02" | "csr_num (OTHER a) = a"

record csr_file =
  mode :: priv
  mstatus :: u64
  mtvec :: u64
  medeleg :: u64
  mideleg :: u64
  mie :: u64
  mip_reg :: u64
  mcounteren :: u32
  pmpcfg0 :: u64
  pmpaddr :: "nat \<Rightarrow> u64"
  mscratch :: u64
  mcycle :: u64
  minstret :: u64
  mepc :: u64
  mcause :: u64
  mtval :: u64
  stvec :: u64
  scounteren :: u32
  sscratch :: u64
  sie :: u64
  sepc :: u64
  scause :: u64
  stval :: u64
  satp :: u64

text \<open>The wires from the PLIC and the ACLINT.\<close>

record irq_wires =
  w_meip :: bool
  w_seip :: bool
  w_mtip :: bool
  w_msip :: bool
  w_mtime :: u64

definition no_irqs :: irq_wires where
  "no_irqs = \<lparr>w_meip = False, w_seip = False, w_mtip = False, w_msip = False, w_mtime = 0\<rparr>"

definition MSTATUS_RESET :: u64 where "MSTATUS_RESET = push_bit 32 2 OR push_bit 34 2"

text \<open>
  A counter is denied by a clear bit of a \<open>counteren\<close> register. Declarations with an initialiser,
  such as \<open>logic zicntr_denied_U = ...\<close>, are read as continuous assignments throughout, which is
  how the whole design uses them.
\<close>

definition zicntr_denied :: "u32 \<Rightarrow> csr_addr \<Rightarrow> bool" where
  "zicntr_denied counteren c =
     (case c of CYCLE \<Rightarrow> \<not> bit counteren 0 | TIME \<Rightarrow> \<not> bit counteren 1 | INSTRET \<Rightarrow> \<not> bit counteren 2
      | _ \<Rightarrow> False)"

definition csr_reset :: csr_file where
  "csr_reset = \<lparr>mode = PRIV_M, mstatus = MSTATUS_RESET, mtvec = 0, medeleg = 0, mideleg = 0, mie = 0,
     mip_reg = 0, mcounteren = 0, pmpcfg0 = 0, pmpaddr = (\<lambda>_. 0), mscratch = 0, mcycle = 0, minstret = 0,
     mepc = 0, mcause = 0, mtval = 0, stvec = 0, scounteren = 0, sscratch = 0, sie = 0, sepc = 0,
     scause = 0, stval = 0, satp = 0\<rparr>"


section \<open>Reads\<close>

definition MISA_VALUE :: u64 where
  "MISA_VALUE = push_bit 62 2 OR 0b00000101000001000100000101"

definition SSTATUS_RMASK :: u64 where "SSTATUS_RMASK = 0x80000003018fe762"

definition mip :: "irq_wires \<Rightarrow> csr_file \<Rightarrow> u64" where
  "mip w s = (mip_reg s AND NOT 0xa88) OR
     (push_bit 11 (of_bool (w_meip w)) OR push_bit 9 (of_bool (w_seip w)) OR
      push_bit 7 (of_bool (w_mtip w)) OR push_bit 3 (of_bool (w_msip w)))"

definition sip :: "irq_wires \<Rightarrow> csr_file \<Rightarrow> u64" where
  "sip w s = mip w s AND mideleg s"

definition sstatus :: "csr_file \<Rightarrow> u64" where
  "sstatus s = mstatus s AND SSTATUS_RMASK"

fun csr_rdata :: "irq_wires \<Rightarrow> csr_file \<Rightarrow> csr_addr \<Rightarrow> u64" where
  "csr_rdata w s MISA = MISA_VALUE"
| "csr_rdata w s MIMPID = 1"
| "csr_rdata w s MSTATUS = mstatus s"
| "csr_rdata w s MTVEC = mtvec s"
| "csr_rdata w s MEDELEG = medeleg s"
| "csr_rdata w s MIDELEG = mideleg s"
| "csr_rdata w s MIP = mip w s"
| "csr_rdata w s MIE = mie s"
| "csr_rdata w s MCOUNTEREN = ucast (mcounteren s)"
| "csr_rdata w s PMPCFG0 = pmpcfg0 s"
| "csr_rdata w s (PMPADDR i) = (if i < 8 then pmpaddr s i else 0)"
| "csr_rdata w s MCYCLE = mcycle s"
| "csr_rdata w s MINSTRET = minstret s"
| "csr_rdata w s MSCRATCH = mscratch s"
| "csr_rdata w s MEPC = mepc s"
| "csr_rdata w s MCAUSE = mcause s"
| "csr_rdata w s MTVAL = mtval s"
| "csr_rdata w s SSTATUS = sstatus s"
| "csr_rdata w s SCOUNTEREN = ucast (scounteren s)"
| "csr_rdata w s STVEC = stvec s"
| "csr_rdata w s SSCRATCH = sscratch s"
| "csr_rdata w s SEPC = sepc s"
| "csr_rdata w s SCAUSE = scause s"
| "csr_rdata w s STVAL = stval s"
| "csr_rdata w s SIP = sip w s"
| "csr_rdata w s SIE = sie s AND mideleg s"
| "csr_rdata w s SATP = satp s"
| "csr_rdata w s CYCLE = mcycle s"
| "csr_rdata w s TIME = w_mtime w"
| "csr_rdata w s INSTRET = minstret s"
| "csr_rdata w s _ = 0"


section \<open>Writes\<close>

definition PMPCFG0_WMASK :: u64 where "PMPCFG0_WMASK = 0x1f1f1f1f1f1f1f1f"
definition PMPADDR_WMASK :: u64 where "PMPADDR_WMASK = 0x003fffffffffffff"
definition MIDELEG_WMASK :: u64 where "MIDELEG_WMASK = 0x222"
definition MIP_WMASK :: u64 where "MIP_WMASK = 0x22"
definition MIE_WMASK :: u64 where "MIE_WMASK = 0xaaa"
definition SIP_WMASK :: u64 where "SIP_WMASK = 0x22"
definition SIE_WMASK :: u64 where "SIE_WMASK = 0x222"
definition SSTATUS_WMASK :: u64 where "SSTATUS_WMASK = 0xc0122"

fun csr_wmask :: "csr_file \<Rightarrow> csr_addr \<Rightarrow> u64" where
  "csr_wmask s MSTATUS = 0x7e19aa"
| "csr_wmask s MTVEC = 0xfffffffffffffffd"
| "csr_wmask s MEDELEG = 0xfffffffffffff7ff"
| "csr_wmask s MIDELEG = MIDELEG_WMASK"
| "csr_wmask s MIP = MIP_WMASK"
| "csr_wmask s MIE = MIE_WMASK"
| "csr_wmask s MCYCLE = -1"
| "csr_wmask s MINSTRET = -1"
| "csr_wmask s MCOUNTEREN = 7"
| "csr_wmask s PMPCFG0 = PMPCFG0_WMASK"
| "csr_wmask s (PMPADDR i) = (if i < 8 then PMPADDR_WMASK else 0)"
| "csr_wmask s MSCRATCH = -1"
| "csr_wmask s MEPC = 0xfffffffffffffffe"
| "csr_wmask s MCAUSE = -1"
| "csr_wmask s MTVAL = -1"
| "csr_wmask s SSTATUS = SSTATUS_WMASK"
| "csr_wmask s SCOUNTEREN = 7"
| "csr_wmask s STVEC = 0xfffffffffffffffd"
| "csr_wmask s SSCRATCH = -1"
| "csr_wmask s SEPC = 0xfffffffffffffffe"
| "csr_wmask s SCAUSE = -1"
| "csr_wmask s STVAL = -1"
| "csr_wmask s SIP = SIP_WMASK AND mideleg s"
| "csr_wmask s SIE = SIE_WMASK AND mideleg s"
| "csr_wmask s SATP = -1"
| "csr_wmask s _ = 0"

definition validate_mstatus :: "u64 \<Rightarrow> u64 \<Rightarrow> u64" where
  "validate_mstatus old wdata =
     (if bits 12 11 wdata = 2 then put_field 11 2 (bits 12 11 old) wdata else wdata)"

definition validate_satp :: "u64 \<Rightarrow> u64 \<Rightarrow> u64" where
  "validate_satp current value =
     (if bits 63 60 value = 0 then 0
      else if bits 63 60 value = 8 then value
      else current)"

text \<open>
  The register update of a CSR write. \<open>set_pending\<close> is \<open>set_s_interrupt_pending\<close>, the ACLINT's
  SETSSIP/SETSTIP pulse of the same cycle; \<open>wdata\<close> has been masked already.
\<close>

fun csr_update :: "u64 \<Rightarrow> csr_addr \<Rightarrow> u64 \<Rightarrow> csr_file \<Rightarrow> csr_file" where
  "csr_update sp MSTATUS d s = s\<lparr>mstatus := validate_mstatus (mstatus s) d\<rparr>"
| "csr_update sp MTVEC d s = s\<lparr>mtvec := d\<rparr>"
| "csr_update sp MEDELEG d s = s\<lparr>medeleg := d\<rparr>"
| "csr_update sp MIDELEG d s = s\<lparr>mideleg := d\<rparr>"
| "csr_update sp MIP d s = s\<lparr>mip_reg := (d AND MIP_WMASK) OR sp\<rparr>"
| "csr_update sp MIE d s = s\<lparr>mie := d AND MIE_WMASK\<rparr>"
| "csr_update sp MCYCLE d s = s\<lparr>mcycle := d\<rparr>"
| "csr_update sp MINSTRET d s = s\<lparr>minstret := d\<rparr>"
| "csr_update sp MCOUNTEREN d s = s\<lparr>mcounteren := ucast d\<rparr>"
| "csr_update sp PMPCFG0 d s = s\<lparr>pmpcfg0 := d AND PMPCFG0_WMASK\<rparr>"
| "csr_update sp (PMPADDR i) d s =
     (if i < 8 then s\<lparr>pmpaddr := (pmpaddr s)(i := d AND PMPADDR_WMASK)\<rparr> else s)"
| "csr_update sp MSCRATCH d s = s\<lparr>mscratch := d\<rparr>"
| "csr_update sp MEPC d s = s\<lparr>mepc := d\<rparr>"
| "csr_update sp MCAUSE d s = s\<lparr>mcause := d\<rparr>"
| "csr_update sp MTVAL d s = s\<lparr>mtval := d\<rparr>"
| "csr_update sp SSTATUS d s =
     s\<lparr>mstatus := validate_mstatus (mstatus s) (d OR (mstatus s AND NOT SSTATUS_WMASK))\<rparr>"
| "csr_update sp SCOUNTEREN d s = s\<lparr>scounteren := ucast d\<rparr>"
| "csr_update sp STVEC d s = s\<lparr>stvec := d\<rparr>"
| "csr_update sp SSCRATCH d s = s\<lparr>sscratch := d\<rparr>"
| "csr_update sp SEPC d s = s\<lparr>sepc := d\<rparr>"
| "csr_update sp SCAUSE d s = s\<lparr>scause := d\<rparr>"
| "csr_update sp STVAL d s = s\<lparr>stval := d\<rparr>"
| "csr_update sp SIP d s =
     s\<lparr>mip_reg := (mip_reg s AND NOT (SIP_WMASK AND mideleg s)) OR (d AND (SIP_WMASK AND mideleg s)) OR sp\<rparr>"
| "csr_update sp SIE d s = s\<lparr>sie := d\<rparr>"
| "csr_update sp SATP d s = s\<lparr>satp := validate_satp (satp s) d\<rparr>"
| "csr_update sp _ d s = s"

text \<open>CSRRW: write \<open>v\<close> through the mask of the register.\<close>

definition csr_write :: "irq_wires \<Rightarrow> csr_addr \<Rightarrow> u64 \<Rightarrow> csr_file \<Rightarrow> csr_file" where
  "csr_write w c v s = csr_update 0 c (masked (csr_wmask s c) v (csr_rdata w s c)) s"


section \<open>Which CSR instructions are illegal\<close>

datatype csr_op = CSRRW | CSRRS | CSRRC

definition csr_is_implemented :: "csr_addr \<Rightarrow> bool" where
  "csr_is_implemented c =
     (case c of
        LED \<Rightarrow> False
      | PMPADDR i \<Rightarrow> i < 8
      | OTHER a \<Rightarrow>
          a = 0x30a \<or> a = 0x320 \<or> (0x323 \<le> a \<and> a \<le> 0x33f) \<or>
          (0xb03 \<le> a \<and> a \<le> 0xb1f) \<or> (0xc03 \<le> a \<and> a \<le> 0xc1f)
      | _ \<Rightarrow> True)"

text \<open>\<open>will_not_write_csr\<close>: CSRRS/CSRRC with \<open>rs1 = x0\<close> only reads.\<close>

definition will_not_write :: "csr_op \<Rightarrow> bool \<Rightarrow> bool" where
  "will_not_write op rs1_x0 \<longleftrightarrow> op \<noteq> CSRRW \<and> rs1_x0"

definition csr_illegal :: "csr_file \<Rightarrow> csr_op \<Rightarrow> bool \<Rightarrow> csr_addr \<Rightarrow> bool" where
  "csr_illegal s op rs1_x0 c \<longleftrightarrow>
     \<not> csr_is_implemented c \<or>
     (\<not> will_not_write op rs1_x0 \<and> bits 11 10 (csr_num c) = 3) \<or>
     ucast (bits 9 8 (csr_num c)) > mode s \<or>
     (mode s = PRIV_S \<and> zicntr_denied (mcounteren s) c) \<or>
     (mode s = PRIV_U \<and> (zicntr_denied (mcounteren s) c \<or> zicntr_denied (scounteren s) c)) \<or>
     (mode s = PRIV_S \<and> bit (mstatus s) 20 \<and> c = SATP)"


section \<open>Traps\<close>

definition ILLEGAL_INSTRUCTION :: u64 where "ILLEGAL_INSTRUCTION = 2"
definition MACHINE_TIMER_INTERRUPT :: u64 where "MACHINE_TIMER_INTERRUPT = 0x8000000000000007"
definition SUPERVISOR_TIMER_INTERRUPT :: u64 where "SUPERVISOR_TIMER_INTERRUPT = 0x8000000000000005"
definition SUPERVISOR_EXTERNAL_INTERRUPT :: u64 where "SUPERVISOR_EXTERNAL_INTERRUPT = 0x8000000000000009"
definition SUPERVISOR_SOFTWARE_INTERRUPT :: u64 where "SUPERVISOR_SOFTWARE_INTERRUPT = 0x8000000000000001"
definition MACHINE_EXTERNAL_INTERRUPT :: u64 where "MACHINE_EXTERNAL_INTERRUPT = 0x800000000000000b"
definition MACHINE_SOFTWARE_INTERRUPT :: u64 where "MACHINE_SOFTWARE_INTERRUPT = 0x8000000000000003"

text \<open>The cause of an \<open>ecall\<close> (\<open>core.sv\<close>): 8 with the two low bits set to the current mode.\<close>

definition ecall_cause :: "csr_file \<Rightarrow> u64" where
  "ecall_cause s = put_field 0 2 (ucast (mode s)) 8"

text \<open>The registers written when a trap enters \<open>next_mode\<close>.\<close>

definition enter_trap :: "priv \<Rightarrow> u64 \<Rightarrow> u64 \<Rightarrow> u64 \<Rightarrow> csr_file \<Rightarrow> csr_file" where
  "enter_trap next_mode xepc cause tval s =
     (if next_mode = PRIV_M then
        s\<lparr>mepc := xepc, mcause := cause, mtval := tval,
          mstatus := put_field 11 2 (ucast (mode s))
                       (put_bit 3 False (put_bit 7 (bit (mstatus s) 3) (mstatus s))),
          mode := next_mode\<rparr>
      else
        s\<lparr>sepc := xepc, scause := cause, stval := tval,
          mstatus := put_bit 8 (bit (mode s) 0)
                       (put_bit 1 False (put_bit 5 (bit (mstatus s) 1) (mstatus s))),
          mode := next_mode\<rparr>)"

definition expt_mode :: "u64 \<Rightarrow> csr_file \<Rightarrow> priv" where
  "expt_mode cause s =
     (if mode s = PRIV_M \<or> \<not> bit (medeleg s) (unat (bits 5 0 cause)) then PRIV_M else PRIV_S)"

text \<open>A synchronous exception at \<open>pc\<close>: the new registers and the handler's address.\<close>

definition take_exception :: "u64 \<Rightarrow> u64 \<Rightarrow> u64 \<Rightarrow> csr_file \<Rightarrow> csr_file \<times> u64" where
  "take_exception pc cause value s =
     (let m = expt_mode cause s;
          xtvec = (if m = PRIV_M then mtvec s else stvec s)
      in (enter_trap m pc cause value s, xtvec AND NOT 3))"

definition pending_m :: "irq_wires \<Rightarrow> csr_file \<Rightarrow> u64" where
  "pending_m w s = mip w s AND mie s AND NOT (mideleg s)"

definition pending_s :: "irq_wires \<Rightarrow> csr_file \<Rightarrow> u64" where
  "pending_s w s = sip w s AND sie s"

definition raise_m :: "irq_wires \<Rightarrow> csr_file \<Rightarrow> bool" where
  "raise_m w s \<longleftrightarrow> (mode s \<noteq> PRIV_M \<or> bit (mstatus s) 3) \<and> pending_m w s \<noteq> 0"

definition raise_s :: "irq_wires \<Rightarrow> csr_file \<Rightarrow> bool" where
  "raise_s w s \<longleftrightarrow> (mode s < PRIV_S \<or> (mode s = PRIV_S \<and> bit (mstatus s) 1)) \<and> pending_s w s \<noteq> 0"

definition cause_m :: "u64 \<Rightarrow> u64" where
  "cause_m p =
     (if bit p 11 then MACHINE_EXTERNAL_INTERRUPT
      else if bit p 3 then MACHINE_SOFTWARE_INTERRUPT
      else if bit p 7 then MACHINE_TIMER_INTERRUPT
      else if bit p 9 then SUPERVISOR_EXTERNAL_INTERRUPT
      else if bit p 1 then SUPERVISOR_SOFTWARE_INTERRUPT
      else if bit p 5 then SUPERVISOR_TIMER_INTERRUPT
      else 0)"

definition cause_s :: "u64 \<Rightarrow> u64" where
  "cause_s p =
     (if bit p 9 then SUPERVISOR_EXTERNAL_INTERRUPT
      else if bit p 1 then SUPERVISOR_SOFTWARE_INTERRUPT
      else if bit p 5 then SUPERVISOR_TIMER_INTERRUPT
      else 0)"

text \<open>
  An interrupt at an instruction boundary, when one is enabled: \<open>is_wfi\<close> tells that the
  interrupted instruction is a \<open>wfi\<close>, whose return address is the next instruction.
\<close>

definition take_interrupt :: "irq_wires \<Rightarrow> u64 \<Rightarrow> bool \<Rightarrow> csr_file \<Rightarrow> (csr_file \<times> u64) option" where
  "take_interrupt w pc is_wfi s =
     (if raise_m w s \<or> raise_s w s then
        let m = (if raise_m w s then PRIV_M else PRIV_S);
            cause = (if raise_m w s then cause_m (pending_m w s) else cause_s (pending_s w s));
            xtvec = (if m = PRIV_M then mtvec s else stvec s);
            vector = (if \<not> bit xtvec 0 then xtvec AND NOT 3
                      else push_bit 2 (drop_bit 2 xtvec + take_bit 62 cause));
            xepc = (if is_wfi then pc + 4 else pc)
        in Some (enter_trap m xepc cause 0 s, vector)
      else None)"

text \<open>\<open>mret\<close> and \<open>sret\<close>: illegal below their mode (and \<open>sret\<close> in S-mode under TSR).\<close>

definition trap_return_illegal :: "bool \<Rightarrow> csr_file \<Rightarrow> bool" where
  "trap_return_illegal is_mret s =
     (if is_mret then mode s < PRIV_M
      else mode s < PRIV_S \<or> (mode s = PRIV_S \<and> bit (mstatus s) 22))"

definition do_mret :: "csr_file \<Rightarrow> csr_file \<times> u64" where
  "do_mret s =
     (s\<lparr>mstatus := put_field 11 2 (ucast PRIV_U) (put_bit 7 True (put_bit 3 (bit (mstatus s) 7) (mstatus s))),
        mode := ucast (bits 12 11 (mstatus s))\<rparr>, mepc s)"

definition do_sret :: "csr_file \<Rightarrow> csr_file \<times> u64" where
  "do_sret s =
     (s\<lparr>mstatus := put_bit 8 False (put_bit 5 True (put_bit 1 (bit (mstatus s) 5) (mstatus s))),
        mode := (if bit (mstatus s) 8 then PRIV_S else PRIV_U)\<rparr>, sepc s)"

text \<open>The ACLINT's SETSSIP/SETSTIP pulses, held in \<open>mip_reg\<close>.\<close>

definition set_pending :: "bool \<Rightarrow> bool \<Rightarrow> csr_file \<Rightarrow> csr_file" where
  "set_pending ssip stip s = s\<lparr>mip_reg := mip_reg s OR (push_bit 1 (of_bool ssip) OR push_bit 5 (of_bool stip))\<rparr>"


section \<open>Steps of the unit and their invariant\<close>

inductive csr_step :: "csr_file \<Rightarrow> csr_file \<Rightarrow> bool" where
  step_write: "\<not> csr_illegal s CSRRW False c \<Longrightarrow> csr_step s (csr_write w c v s)"
| step_exception: "csr_step s (fst (take_exception pc cause value s))"
| step_interrupt: "take_interrupt w pc wfi s = Some (t, vec) \<Longrightarrow> csr_step s t"
| step_mret: "\<not> trap_return_illegal True s \<Longrightarrow> csr_step s (fst (do_mret s))"
| step_sret: "\<not> trap_return_illegal False s \<Longrightarrow> csr_step s (fst (do_sret s))"
| step_pending: "csr_step s (set_pending ssip stip s)"

inductive csr_reachable :: "csr_file \<Rightarrow> bool" where
  reach_reset: "csr_reachable csr_reset"
| reach_step: "csr_reachable s \<Longrightarrow> csr_step s t \<Longrightarrow> csr_reachable t"

inductive_cases csr_stepE: "csr_step s t"

text \<open>
  What every reachable register file satisfies: the mode and MPP are never the reserved encoding
  2, the registers with reserved bits keep them zero, and \<open>satp\<close> selects Bare or Sv39.
\<close>

definition csr_wf :: "csr_file \<Rightarrow> bool" where
  "csr_wf s \<longleftrightarrow>
     mode s \<noteq> 2 \<and> bits 12 11 (mstatus s) \<noteq> 2 \<and>
     mideleg s AND NOT MIDELEG_WMASK = 0 \<and> \<not> bit (medeleg s) 11 \<and>
     mie s AND NOT MIE_WMASK = 0 \<and>
     pmpcfg0 s AND NOT PMPCFG0_WMASK = 0 \<and> (\<forall>i. pmpaddr s i AND NOT PMPADDR_WMASK = 0) \<and>
     \<not> bit (mtvec s) 1 \<and> \<not> bit (stvec s) 1 \<and>
     (satp s = 0 \<or> bits 63 60 (satp s) = 8)"

lemma priv_exhaust: "(m :: priv) = 0 \<or> m = 1 \<or> m = 2 \<or> m = 3"
proof -
  have "unat m < 4" using unsigned_less [of m] by simp
  then have "unat m = 0 \<or> unat m = 1 \<or> unat m = 2 \<or> unat m = 3" by auto
  then show ?thesis by (auto simp: word_unat_eq_iff)
qed

lemma mpp_put_field: "bits 12 11 (put_field 11 2 v (w :: u64)) = take_bit 2 v"
  by (rule bit_word_eqI) (auto simp: word_slices bit_simps)

lemma bits_put_bit_other:
  "n < lo \<or> hi < n \<Longrightarrow> bits hi lo (put_bit n b (w :: 'a::len word)) = bits hi lo w"
  by (rule bit_word_eqI) (auto simp: word_slices)

lemma mode_ucast_2 [simp]: "take_bit 2 (ucast (m :: priv) :: u64) = ucast m"
  by (rule bit_word_eqI) (auto simp: bit_simps dest: bit_imp_le_length)

lemma ucast_mode_eq_2: "(ucast (m :: priv) :: u64) = 2 \<longleftrightarrow> m = 2"
  using priv_exhaust [of m] by auto

lemma ucast_mpp_eq_2: "ucast (bits 12 11 (w :: u64)) = (2 :: priv) \<longleftrightarrow> bits 12 11 w = 2"
proof -
  have "(ucast (ucast (bits 12 11 w) :: priv) :: u64) = bits 12 11 w"
    by (rule bit_word_eqI) (auto simp: word_slices bit_simps)
  then show ?thesis by (metis ucast_mode_eq_2)
qed

lemma validate_mstatus_mpp:
  "bits 12 11 old \<noteq> 2 \<Longrightarrow> bits 12 11 (validate_mstatus old wdata) \<noteq> (2 :: u64)"
  by (auto simp: validate_mstatus_def mpp_put_field) (simp add: bits_def)

lemma wf_reset: "csr_wf csr_reset"
  by (simp add: csr_wf_def csr_reset_def MSTATUS_RESET_def bits_def)

lemma wf_write:
  assumes "csr_wf s" shows "csr_wf (csr_write w c v s)"
proof -
  have m: "masked k v x AND NOT k = x AND NOT k" for k v x :: u64
    by (rule bit_word_eqI) (auto simp: word_slices bit_simps)
  have z: "(x AND k) AND NOT k = 0" for x k :: u64
    by (rule bit_word_eqI) (auto simp: bit_simps)
  have b: "bit (masked k v x) n = bit x n" if "\<not> bit k n" for k v x :: u64 and n
    using that by (simp add: word_slices)
  show ?thesis
    using assms
    by (cases c) (auto simp: csr_wf_def csr_write_def validate_mstatus_mpp validate_satp_def m z b)
qed

lemma wf_enter:
  "csr_wf s \<Longrightarrow> m = PRIV_M \<or> m = PRIV_S \<Longrightarrow> csr_wf (enter_trap m pc c v s)"
  by (auto simp: csr_wf_def enter_trap_def mpp_put_field bits_put_bit_other ucast_mode_eq_2)

lemma wf_mret: "csr_wf s \<Longrightarrow> csr_wf (fst (do_mret s))"
  by (auto simp: csr_wf_def do_mret_def mpp_put_field ucast_mpp_eq_2)

lemma wf_sret: "csr_wf s \<Longrightarrow> csr_wf (fst (do_sret s))"
  by (auto simp: csr_wf_def do_sret_def bits_put_bit_other)

lemma wf_pending: "csr_wf s \<Longrightarrow> csr_wf (set_pending a b s)"
  by (simp add: csr_wf_def set_pending_def)

lemma wf_interrupt: "csr_wf s \<Longrightarrow> take_interrupt w pc wfi s = Some (t, vec) \<Longrightarrow> csr_wf t"
  by (auto simp: take_interrupt_def Let_def wf_enter split: if_splits)

lemma wf_exception: "csr_wf s \<Longrightarrow> csr_wf (fst (take_exception pc cause v s))"
  by (auto simp: take_exception_def Let_def expt_mode_def wf_enter)

lemma wf_step: "csr_step s t \<Longrightarrow> csr_wf s \<Longrightarrow> csr_wf t"
  by (elim csr_stepE) (auto simp: wf_write wf_exception wf_interrupt wf_mret wf_sret wf_pending)

lemma reachable_wf: "csr_reachable s \<Longrightarrow> csr_wf s"
  by (induction rule: csr_reachable.induct) (auto intro: wf_reset wf_step)


section \<open>The contract between a trap and its return\<close>

text \<open>
  A handler relies on one contract, at either level: entering a trap records where it came from
  and masks the level's interrupts, and the matching return instruction goes back to the saved
  address in the saved mode with the interrupt enable restored, as long as the handler leaves
  \<open>mstatus\<close> alone. \<open>admits\<close> are the states the level may be entered from.
\<close>

locale trap_gate =
  fixes enter :: "u64 \<Rightarrow> u64 \<Rightarrow> u64 \<Rightarrow> csr_file \<Rightarrow> csr_file"
    and leave :: "csr_file \<Rightarrow> csr_file \<times> u64"
    and epc :: "csr_file \<Rightarrow> u64"
    and cause_of :: "csr_file \<Rightarrow> u64"
    and ie :: "csr_file \<Rightarrow> bool"
    and level :: priv
    and admits :: "csr_file \<Rightarrow> bool"
  assumes epc_enter: "epc (enter pc c v s) = pc"
    and cause_enter: "cause_of (enter pc c v s) = c"
    and mode_enter: "mode (enter pc c v s) = level"
    and masked_enter: "\<not> ie (enter pc c v s)"
    and leave_pc: "snd (leave u) = epc u"
    and leave_mode: "admits s \<Longrightarrow> mstatus u = mstatus (enter pc c v s) \<Longrightarrow> mode (fst (leave u)) = mode s"
    and leave_ie: "admits s \<Longrightarrow> mstatus u = mstatus (enter pc c v s) \<Longrightarrow> ie (fst (leave u)) = ie s"
begin

text \<open>A handler that only advances the saved address resumes the interrupted code after the instruction.\<close>

lemma skip_resumes:
  assumes "admits s" and "mstatus u = mstatus (enter pc c v s)" and "epc u = epc (enter pc c v s) + 4"
  shows "snd (leave u) = pc + 4 \<and> mode (fst (leave u)) = mode s \<and> ie (fst (leave u)) = ie s"
  using assms by (simp add: leave_pc leave_mode leave_ie epc_enter)

text \<open>A handler that leaves the saved address alone resumes at the interrupted instruction.\<close>

lemma retry_resumes:
  assumes "admits s" and "mstatus u = mstatus (enter pc c v s)" and "epc u = epc (enter pc c v s)"
  shows "snd (leave u) = pc \<and> mode (fst (leave u)) = mode s \<and> ie (fst (leave u)) = ie s"
  using assms by (simp add: leave_pc leave_mode leave_ie epc_enter)

end

lemma ucast_ucast_priv [simp]: "ucast (ucast (m :: priv) :: u64) = m"
  by (rule bit_word_eqI) (auto simp: bit_simps)

interpretation m_gate: trap_gate "enter_trap PRIV_M" do_mret mepc mcause "\<lambda>s. bit (mstatus s) 3" PRIV_M "\<lambda>_. True"
  by unfold_locales (simp_all add: enter_trap_def do_mret_def mpp_put_field word_slices)

interpretation s_gate: trap_gate "enter_trap PRIV_S" do_sret sepc scause "\<lambda>s. bit (mstatus s) 1" PRIV_S
  "\<lambda>s. mode s = PRIV_S \<or> mode s = PRIV_U"
  by unfold_locales (auto simp: enter_trap_def do_sret_def word_slices)


section \<open>Properties\<close>

text \<open>
  C34. Every register file the unit can reach from reset, through legal CSR writes, exceptions,
  interrupts, trap returns and ACLINT pulses, is well formed: the privilege mode and MPP are
  never the reserved encoding, delegation, interrupt-enable and PMP registers hold only
  implemented bits, and \<open>satp\<close> is Bare or Sv39.
\<close>
theorem csr_reachable_wf: "csr_reachable s \<Longrightarrow> csr_wf s"
  by (rule reachable_wf)

theorem csr_reachable_wf_witness:
  "csr_wf (fst (do_mret (csr_write no_irqs MSTATUS 0x800 csr_reset)))"
proof -
  have "csr_step csr_reset (csr_write no_irqs MSTATUS 0x800 csr_reset)"
    by (rule step_write) (simp add: csr_illegal_def csr_is_implemented_def will_not_write_def
        csr_reset_def bits_def zicntr_denied_def)
  moreover have "csr_step (csr_write no_irqs MSTATUS 0x800 csr_reset) (fst (do_mret (csr_write no_irqs MSTATUS 0x800 csr_reset)))"
    by (rule step_mret) (simp add: trap_return_illegal_def csr_write_def csr_reset_def)
  ultimately have "csr_reachable (fst (do_mret (csr_write no_irqs MSTATUS 0x800 csr_reset)))"
    by (blast intro: csr_reachable.intros)
  then show ?thesis by (rule csr_reachable_wf)
qed

text \<open>
  A machine-mode CSR (address bits 9:8 equal to 3) is never accessible from S- or U-mode,
  an S-mode CSR never from U-mode, and a write to a read-only CSR is always illegal.
\<close>
theorem csr_privilege_enforced:
  "(mode s = PRIV_S \<longrightarrow> bits 9 8 (csr_num c) = 3 \<longrightarrow> csr_illegal s op x0 c) \<and>
   (mode s = PRIV_U \<longrightarrow> bits 9 8 (csr_num c) \<noteq> 0 \<longrightarrow> csr_illegal s op x0 c) \<and>
   (bits 11 10 (csr_num c) = 3 \<longrightarrow> csr_illegal s CSRRW x0 c)"
proof -
  have "(0 :: priv) < ucast (bits 9 8 a)" if "bits 9 8 a \<noteq> 0" for a :: "12 word"
  proof -
    have "(ucast (ucast (bits 9 8 a) :: priv) :: 12 word) = bits 9 8 a"
      by (rule bit_word_eqI) (auto simp: word_slices bit_simps)
    with that show ?thesis by (cases "ucast (bits 9 8 a) = (0 :: priv)") (auto simp: word_gt_0)
  qed
  then show ?thesis by (auto simp: csr_illegal_def will_not_write_def)
qed

theorem csr_privilege_enforced_witness:
  "csr_illegal (csr_reset\<lparr>mode := PRIV_S\<rparr>) CSRRS True MSTATUS"
  using csr_privilege_enforced [of "csr_reset\<lparr>mode := PRIV_S\<rparr>" MSTATUS CSRRS True]
  by (simp add: bits_def)

end
