(* ===== verification/Pmp.thy ===== *)
theory Pmp
  imports Csr
begin

text \<open>
  \<open>src/pmp_checker.sv\<close>: the combinational check of one physical access against the eight PMP
  entries. \<open>pmp_allow\<close> follows the module's comparisons and its loop; \<open>pmp_spec\<close> is the meaning
  of the registers as sets of byte addresses, and the section at the end shows that they agree.
\<close>


section \<open>The module\<close>

datatype access_type = PMP_ACCESS_READ | PMP_ACCESS_WRITE | PMP_ACCESS_EXEC

definition pmp_range_overlaps :: "u64 \<Rightarrow> u64 \<Rightarrow> u64 \<Rightarrow> u64 \<Rightarrow> bool" where
  "pmp_range_overlaps access_start access_size region_start region_end =
     (if access_size = 0 \<or> region_start \<ge> region_end then False
      else if access_start \<ge> region_start then access_start < region_end
      else access_size > region_start - access_start)"

definition pmp_range_contains :: "u64 \<Rightarrow> u64 \<Rightarrow> u64 \<Rightarrow> u64 \<Rightarrow> bool" where
  "pmp_range_contains access_start access_size region_start region_end =
     (if access_size = 0 \<or> region_start \<ge> region_end then False
      else access_start \<ge> region_start \<and> access_start < region_end \<and>
           access_size \<le> region_end - access_start)"

text \<open>The search for the lowest zero bit: \<open>None\<close> is \<open>found_zero = 0\<close>.\<close>

definition zero_bit_index :: "u64 \<Rightarrow> nat option" where
  "zero_bit_index pa = find (\<lambda>i. \<not> bit pa i) [0 ..< 64]"

definition pmp_napot_check :: "u64 \<Rightarrow> u64 \<Rightarrow> u64 \<Rightarrow> bool \<times> bool" where
  "pmp_napot_check access_start access_size pa =
     (if access_size = 0 then (False, False)
      else if pa AND PMPADDR_WMASK = PMPADDR_WMASK then (True, True)
      else
        (case zero_bit_index pa of
           None \<Rightarrow> (True, True)
         | Some z \<Rightarrow>
             if z + 3 \<ge> 64 then (True, True)
             else
               let region_size = push_bit (z + 3) 1;
                   region_start = push_bit 2 pa AND NOT (region_size - 1)
               in if access_start \<ge> region_start then
                    let offset = access_start - region_start;
                        overlaps = offset < region_size
                    in (overlaps, overlaps \<and> access_size \<le> region_size - offset)
                  else (access_size > region_start - access_start, False)))"

definition pmp_cfg :: "csr_file \<Rightarrow> nat \<Rightarrow> u64" where
  "pmp_cfg s i = bits (8 * i + 7) (8 * i) (pmpcfg0 s)"

definition permission_ok :: "u64 \<Rightarrow> access_type \<Rightarrow> bool" where
  "permission_ok cfg t =
     (case t of PMP_ACCESS_READ \<Rightarrow> bit cfg 0 | PMP_ACCESS_WRITE \<Rightarrow> bit cfg 1 | PMP_ACCESS_EXEC \<Rightarrow> bit cfg 2)"

text \<open>\<open>entry_overlaps\<close> and \<open>entry_contains\<close> of one entry.\<close>

definition pmp_entry :: "csr_file \<Rightarrow> u64 \<Rightarrow> u64 \<Rightarrow> nat \<Rightarrow> bool \<times> bool" where
  "pmp_entry s access_start access_size i =
     (let a = bits 4 3 (pmp_cfg s i) in
      if a = 1 then
        let tor_start = (if i = 0 then 0 else push_bit 2 (pmpaddr s (i - 1)));
            tor_end = push_bit 2 (pmpaddr s i)
        in (pmp_range_overlaps access_start access_size tor_start tor_end,
            pmp_range_contains access_start access_size tor_start tor_end)
      else if a = 3 then pmp_napot_check access_start access_size (pmpaddr s i)
      else (False, False))"

text \<open>One round of the loop on \<open>(matched, allow)\<close>, and the loop.\<close>

definition pmp_round :: "csr_file \<Rightarrow> u64 \<Rightarrow> u64 \<Rightarrow> access_type \<Rightarrow> nat \<Rightarrow> bool \<times> bool \<Rightarrow> bool \<times> bool" where
  "pmp_round s access_start access_size t i ma =
     (case (ma, pmp_entry s access_start access_size i) of
        ((matched, allow), (ov, ct)) \<Rightarrow>
          if \<not> matched \<and> ov then (True, ct \<and> permission_ok (pmp_cfg s i) t) else (matched, allow))"

definition pmp_allow :: "priv \<Rightarrow> csr_file \<Rightarrow> u64 \<Rightarrow> u64 \<Rightarrow> access_type \<Rightarrow> bool" where
  "pmp_allow priv_mode s access_start access_size t =
     (if priv_mode = PRIV_M then True
      else snd (fold (pmp_round s access_start access_size t) [0 ..< 8] (False, False)))"


section \<open>What the registers mean\<close>

text \<open>The bytes of an access and of a region, as natural numbers (no wrap-around).\<close>

definition access_bytes :: "u64 \<Rightarrow> u64 \<Rightarrow> nat set" where
  "access_bytes a n = {unat a ..< unat a + unat n}"

definition tor_bytes :: "u64 \<Rightarrow> u64 \<Rightarrow> nat set" where
  "tor_bytes lo hi = {4 * unat lo ..< 4 * unat hi}"

text \<open>
  NAPOT: with \<open>z\<close> trailing ones the region has \<open>2 ^ (z + 3)\<close> bytes and its base is the address
  with the \<open>z + 1\<close> low bits dropped; all ones is the whole address space.
\<close>

definition napot_bytes :: "u64 \<Rightarrow> nat set" where
  "napot_bytes pa =
     (if pa = PMPADDR_WMASK then UNIV
      else let z = (LEAST i. \<not> bit pa i);
               base = unat pa div 2 ^ (z + 1) * 2 ^ (z + 3)
           in {base ..< base + 2 ^ (z + 3)})"

definition region_bytes :: "csr_file \<Rightarrow> nat \<Rightarrow> nat set" where
  "region_bytes s i =
     (let a = bits 4 3 (pmp_cfg s i) in
      if a = 1 then tor_bytes (if i = 0 then 0 else pmpaddr s (i - 1)) (pmpaddr s i)
      else if a = 3 then napot_bytes (pmpaddr s i)
      else {})"

text \<open>
  The lowest-numbered entry whose region meets the access decides: the access must lie inside
  that region and the entry must grant the permission. Without such an entry S- and U-mode
  accesses are refused; M-mode accesses never are.
\<close>

definition pmp_spec :: "priv \<Rightarrow> csr_file \<Rightarrow> u64 \<Rightarrow> u64 \<Rightarrow> access_type \<Rightarrow> bool" where
  "pmp_spec priv_mode s a n t \<longleftrightarrow>
     priv_mode = PRIV_M \<or>
     (\<exists>i < 8. region_bytes s i \<inter> access_bytes a n \<noteq> {} \<and>
        (\<forall>j < i. region_bytes s j \<inter> access_bytes a n = {}) \<and>
        access_bytes a n \<subseteq> region_bytes s i \<and> permission_ok (pmp_cfg s i) t)"


section \<open>The comparisons compute the set relations\<close>

lemma interval_meets:
  "{a ..< a + n} \<inter> {b ..< c} \<noteq> {} \<longleftrightarrow> n \<noteq> 0 \<and> b < c \<and> (if b \<le> a then a < c else b < a + (n :: nat))"
proof
  assume "{a ..< a + n} \<inter> {b ..< c} \<noteq> {}"
  then obtain x where "x \<in> {a ..< a + n}" "x \<in> {b ..< c}" by blast
  then show "n \<noteq> 0 \<and> b < c \<and> (if b \<le> a then a < c else b < a + n)" by auto
next
  assume "n \<noteq> 0 \<and> b < c \<and> (if b \<le> a then a < c else b < a + n)"
  then have "max a b \<in> {a ..< a + n} \<inter> {b ..< c}" by (auto split: if_splits)
  then show "{a ..< a + n} \<inter> {b ..< c} \<noteq> {}" by blast
qed

lemma interval_inside:
  "n \<noteq> 0 \<Longrightarrow> {a ..< a + n} \<subseteq> {b ..< c} \<longleftrightarrow> b \<le> a \<and> a + n \<le> (c :: nat)"
  by (simp add: atLeastLessThan_subset_iff)

lemma unat_diff: "b \<le> a \<Longrightarrow> unat (a - b :: 'a::len word) = unat a - unat b"
  by (simp add: unat_sub_if' word_le_nat_alt)

lemma range_overlaps_iff:
  "pmp_range_overlaps a n lo hi \<longleftrightarrow> {unat lo ..< unat hi} \<inter> access_bytes a n \<noteq> {}"
  unfolding access_bytes_def Int_commute [of "{unat lo ..< unat hi}"] interval_meets pmp_range_overlaps_def
  by (auto simp: word_le_nat_alt word_less_nat_alt unat_diff unat_eq_0)

lemma range_contains_iff:
  assumes "n \<noteq> 0" and "pmp_range_overlaps a n lo hi"
  shows "pmp_range_contains a n lo hi \<longleftrightarrow> access_bytes a n \<subseteq> {unat lo ..< unat hi}"
proof -
  have "unat n > 0" using assms(1) by (simp add: unat_gt_0)
  with assms show ?thesis
    by (auto simp: access_bytes_def interval_inside pmp_range_contains_def pmp_range_overlaps_def
        unat_eq_0 word_le_nat_alt word_less_nat_alt unat_diff split: if_splits)
qed

text \<open>A PMP address register holds 54 bits, so its byte address does not wrap.\<close>

lemma masked_addr_bit: "pa AND NOT PMPADDR_WMASK = 0 \<Longrightarrow> 54 \<le> i \<Longrightarrow> \<not> bit pa i"
proof -
  assume "pa AND NOT PMPADDR_WMASK = 0" and "54 \<le> i"
  moreover have "PMPADDR_WMASK = mask 54" by (simp add: PMPADDR_WMASK_def mask_eq_exp_minus_1)
  moreover have "bit (pa AND NOT (mask 54)) i \<longleftrightarrow> bit pa i" if "54 \<le> i" for i
    using that by (auto simp: bit_simps dest: bit_imp_le_length)
  ultimately show ?thesis by fastforce
qed

lemma masked_addr_less: "pa AND NOT PMPADDR_WMASK = 0 \<Longrightarrow> unat pa < 2 ^ 54"
proof -
  assume "pa AND NOT PMPADDR_WMASK = 0"
  then have "pa = take_bit 54 pa"
    by (intro bit_word_eqI) (auto simp: bit_simps not_le dest: masked_addr_bit intro: leI)
  then show ?thesis by (metis take_bit_nat_less_exp unsigned_take_bit_eq)
qed

lemma masked_addr_all: "pa AND NOT PMPADDR_WMASK = 0 \<Longrightarrow> pa AND PMPADDR_WMASK = pa"
  by (metis and.right_neutral bit.compl_zero bit.conj_disj_distrib bit.disj_cancel_right or.right_neutral)

lemma unat_mult_less: "unat a * k < 2 ^ LENGTH('a) \<Longrightarrow> unat (a * of_nat k :: 'a::len word) = unat a * k"
  by (rule of_nat_inverse) simp_all

lemma unat_shift2:
  assumes "pa AND NOT PMPADDR_WMASK = 0"
  shows "unat (push_bit 2 pa) = 4 * unat pa"
  using unat_mult_less [of pa 4] masked_addr_less [OF assms] by (simp add: push_bit_eq_mult)

lemma unat_clear_low: "unat (w AND NOT (mask k) :: 'a::len word) = unat w div 2 ^ k * 2 ^ k"
proof -
  have "w AND NOT (mask k) = push_bit k (drop_bit k w)"
    by (rule bit_word_eqI) (auto simp: bit_simps)
  moreover have "unat w div 2 ^ k * 2 ^ k < 2 ^ LENGTH('a)"
    using unsigned_less [of w] by (rule order.strict_trans1 [rotated]) simp
  ultimately show ?thesis
    by (simp only: unsigned_push_bit_eq unat_drop_bit_eq)
      (simp only: drop_bit_eq_div push_bit_eq_mult take_bit_nat_eq_self)
qed

lemma napot_zero:
  assumes "pa AND NOT PMPADDR_WMASK = 0" and "pa \<noteq> PMPADDR_WMASK"
  shows "zero_bit_index pa = Some (LEAST i. \<not> bit pa i)" and "(LEAST i. \<not> bit pa i) < 54"
proof -
  have "\<exists>i < 54. \<not> bit pa i"
  proof (rule ccontr)
    assume "\<not> (\<exists>i < 54. \<not> bit pa i)"
    then have "pa = mask 54"
      using masked_addr_bit [OF assms(1)] by (intro bit_word_eqI) (metis bit_mask_iff leI exp_eq_0_imp_not_bit
          bit_imp_le_length order_less_le_trans possible_bit_word)
    with assms(2) show False by (simp add: PMPADDR_WMASK_def mask_eq_exp_minus_1)
  qed
  then obtain i where i: "i < 54" "\<not> bit pa i" by blast
  then show less: "(LEAST i. \<not> bit pa i) < 54" by (meson Least_le le_less_trans)
  show "zero_bit_index pa = Some (LEAST i. \<not> bit pa i)"
    unfolding zero_bit_index_def find_Some_iff
    using less LeastI [of "\<lambda>i. \<not> bit pa i", OF i(2)]
    by (intro exI [of _ "LEAST i. \<not> bit pa i"]) (auto dest: not_less_Least)
qed

text \<open>The module's base and size of a NAPOT region, as natural numbers.\<close>

lemma napot_base:
  assumes "pa AND NOT PMPADDR_WMASK = 0"
  shows "unat (push_bit 2 pa AND NOT (push_bit (z + 3) 1 - 1)) = unat pa div 2 ^ (z + 1) * 2 ^ (z + 3)"
proof -
  have "push_bit (z + 3) 1 - 1 = (mask (z + 3) :: u64)"
    by (simp add: mask_eq_exp_minus_1 push_bit_eq_mult)
  moreover have "4 * unat pa div 2 ^ (z + 3) = unat pa div 2 ^ (z + 1)"
    by (simp add: power_add)
  ultimately show ?thesis by (simp only: unat_clear_low unat_shift2 [OF assms])
qed

lemma unat_exp: "k < LENGTH('a) \<Longrightarrow> unat (push_bit k 1 :: 'a::len word) = 2 ^ k"
  by (simp only: unsigned_push_bit_eq unsigned_1) (simp add: push_bit_eq_mult take_bit_nat_eq_self)

text \<open>One region, given its base and its size.\<close>

lemma interval_check:
  assumes "n \<noteq> 0" and "sz = 2 ^ k" and "k < 64" and "unat start + 2 ^ k < 2 ^ 64"
  defines "R \<equiv> {unat start ..< unat start + 2 ^ k}"
  shows "(if start \<le> a then a - start < sz else n > start - a) \<longleftrightarrow> R \<inter> access_bytes a n \<noteq> {}"
    and "start \<le> a \<Longrightarrow> a - start < sz \<Longrightarrow> n \<le> sz - (a - start) \<longleftrightarrow> access_bytes a n \<subseteq> R"
    and "\<not> start \<le> a \<Longrightarrow> n > start - a \<Longrightarrow> \<not> access_bytes a n \<subseteq> R"
proof -
  have n: "unat n > 0" using assms(1) by (simp add: unat_gt_0)
  have sz: "unat sz = 2 ^ k" using unat_exp [of k, where 'a = 64] assms(2,3) by simp
  show "(if start \<le> a then a - start < sz else n > start - a) \<longleftrightarrow> R \<inter> access_bytes a n \<noteq> {}"
    unfolding R_def Int_commute [of "{unat start ..< unat start + 2 ^ k}"] access_bytes_def interval_meets
    using n sz by (auto simp: word_le_nat_alt word_less_nat_alt unat_diff)
  show "n \<le> sz - (a - start) \<longleftrightarrow> access_bytes a n \<subseteq> R" if "start \<le> a" "a - start < sz"
    using that n sz by (auto simp: R_def access_bytes_def interval_inside word_le_nat_alt
        word_less_nat_alt unat_diff)
  show "\<not> access_bytes a n \<subseteq> R" if "\<not> start \<le> a" "n > start - a"
    using that n by (auto simp: R_def access_bytes_def interval_inside word_le_nat_alt)
qed

lemma napot_check_iff:
  assumes "pa AND NOT PMPADDR_WMASK = 0"
  shows "fst (pmp_napot_check a n pa) \<longleftrightarrow> napot_bytes pa \<inter> access_bytes a n \<noteq> {}"
    and "fst (pmp_napot_check a n pa) \<Longrightarrow>
         snd (pmp_napot_check a n pa) \<longleftrightarrow> access_bytes a n \<subseteq> napot_bytes pa"
proof -
  have "(fst (pmp_napot_check a n pa) \<longleftrightarrow> napot_bytes pa \<inter> access_bytes a n \<noteq> {}) \<and>
        (fst (pmp_napot_check a n pa) \<longrightarrow> (snd (pmp_napot_check a n pa) \<longleftrightarrow> access_bytes a n \<subseteq> napot_bytes pa))"
  proof (cases "n = 0 \<or> pa = PMPADDR_WMASK")
    case True
    then show ?thesis
      by (auto simp: pmp_napot_check_def napot_bytes_def access_bytes_def unat_gt_0)
  next
    case False
    define z where "z = (LEAST i. \<not> bit pa i)"
    have z: "zero_bit_index pa = Some z" "z < 54"
      using napot_zero [OF assms] False by (auto simp: z_def)
    define start where "start = push_bit 2 pa AND NOT (push_bit (z + 3) 1 - 1)"
    have start: "unat start = unat pa div 2 ^ (z + 1) * 2 ^ (z + 3)"
      unfolding start_def by (rule napot_base [OF assms])
    have "unat start \<le> 4 * unat pa"
      unfolding start_def
      using unat_clear_low [of "push_bit 2 pa" "z + 3"] unat_shift2 [OF assms]
        div_times_less_eq_dividend [of "unat (push_bit 2 pa)" "2 ^ (z + 3)"]
      by (simp add: mask_eq_exp_minus_1 push_bit_eq_mult)
    moreover have "(2 :: nat) ^ (z + 3) \<le> 2 ^ 57"
      using z(2) by (intro power_increasing) auto
    ultimately have bound: "unat start + 2 ^ (z + 3) < 2 ^ 64"
      using masked_addr_less [OF assms] by simp
    have R: "napot_bytes pa = {unat start ..< unat start + 2 ^ (z + 3)}"
      using False by (simp add: napot_bytes_def start Let_def flip: z_def)
    have e: "pmp_napot_check a n pa =
      (if start \<le> a then (a - start < push_bit (z + 3) 1,
         a - start < push_bit (z + 3) 1 \<and> n \<le> push_bit (z + 3) 1 - (a - start))
       else (n > start - a, False))"
      using False z by (simp add: pmp_napot_check_def masked_addr_all [OF assms] Let_def start_def)
    have sz: "push_bit (z + 3) 1 = (2 :: u64) ^ (z + 3)" by (simp add: push_bit_eq_mult)
    have k: "z + 3 < 64" using z(2) by simp
    have "n \<noteq> 0" using False by simp
    note ic = interval_check [OF \<open>n \<noteq> 0\<close> sz k bound, of a]
    show ?thesis
      unfolding R e using ic by (auto split: if_splits)
  qed
  then show "fst (pmp_napot_check a n pa) \<longleftrightarrow> napot_bytes pa \<inter> access_bytes a n \<noteq> {}"
    and "fst (pmp_napot_check a n pa) \<Longrightarrow>
         snd (pmp_napot_check a n pa) \<longleftrightarrow> access_bytes a n \<subseteq> napot_bytes pa" by blast+
qed

lemma entry_iff:
  assumes "csr_wf s"
  shows "fst (pmp_entry s a n i) \<longleftrightarrow> region_bytes s i \<inter> access_bytes a n \<noteq> {}"
    and "fst (pmp_entry s a n i) \<Longrightarrow> snd (pmp_entry s a n i) \<longleftrightarrow> access_bytes a n \<subseteq> region_bytes s i"
proof -
  have m: "pmpaddr s j AND NOT PMPADDR_WMASK = 0" for j
    using assms by (simp add: csr_wf_def)
  have nz: "n \<noteq> 0" if "pmp_range_overlaps a n lo hi" for lo hi
    using that by (auto simp: pmp_range_overlaps_def)
  show "fst (pmp_entry s a n i) \<longleftrightarrow> region_bytes s i \<inter> access_bytes a n \<noteq> {}"
    by (auto simp: pmp_entry_def region_bytes_def Let_def tor_bytes_def range_overlaps_iff
        unat_shift2 [OF m] napot_check_iff [OF m])
  show "fst (pmp_entry s a n i) \<Longrightarrow> snd (pmp_entry s a n i) \<longleftrightarrow> access_bytes a n \<subseteq> region_bytes s i"
    by (cases "i = 0") (simp_all add: pmp_entry_def region_bytes_def Let_def tor_bytes_def
        range_contains_iff [OF nz] unat_shift2 [OF m] napot_check_iff(2) [OF m] split: if_splits)
qed


section \<open>The loop finds the lowest matching entry\<close>

lemma pmp_loop:
  defines "run \<equiv> \<lambda>s a n t k. fold (pmp_round s a n t) [0 ..< k] (False, False)"
  shows "fst (run s a n t k) \<longleftrightarrow> (\<exists>i < k. fst (pmp_entry s a n i))"
    and "snd (run s a n t k) \<longleftrightarrow>
      (\<exists>i < k. fst (pmp_entry s a n i) \<and> (\<forall>j < i. \<not> fst (pmp_entry s a n j)) \<and>
         snd (pmp_entry s a n i) \<and> permission_ok (pmp_cfg s i) t)"
proof (induction k)
  case (Suc k)
  case 1 show ?case using Suc
    by (auto simp: run_def pmp_round_def less_Suc_eq split: prod.splits)
  case 2 show ?case using Suc
    by (auto simp: run_def pmp_round_def less_Suc_eq split: prod.splits)
qed (simp_all add: run_def)

text \<open>Together: the module computes the specification.\<close>

lemma pmp_allow_iff:
  assumes "csr_wf s"
  shows "pmp_allow m s a n t = pmp_spec m s a n t"
proof (cases "m = PRIV_M")
  case False
  then have "pmp_allow m s a n t \<longleftrightarrow>
      (\<exists>i < 8. fst (pmp_entry s a n i) \<and> (\<forall>j < i. \<not> fst (pmp_entry s a n j)) \<and>
         snd (pmp_entry s a n i) \<and> permission_ok (pmp_cfg s i) t)"
    by (simp only: pmp_allow_def pmp_loop(2) if_False)
  with False show ?thesis
    using entry_iff [OF assms, of a n] by (simp add: pmp_spec_def cong: conj_cong)
qed (simp add: pmp_allow_def pmp_spec_def)


section \<open>Properties\<close>

text \<open>
  C8. On every well-formed register file the checker's comparisons, with their 64-bit
  subtractions and its search for the lowest zero bit, decide exactly the set specification:
  M-mode is never refused, and an S- or U-mode access is allowed when the lowest-numbered entry
  whose region meets the accessed bytes contains all of them and grants the permission.
\<close>
theorem pmp_allow_spec:
  assumes "csr_wf s"
  shows "pmp_allow m s a n t = pmp_spec m s a n t"
  using assms by (rule pmp_allow_iff)

text \<open>One read-only NAPOT entry of 16 bytes at 0x1000: a read inside it is allowed.\<close>

theorem pmp_allow_spec_witness:
  "pmp_spec PRIV_S (csr_reset\<lparr>pmpcfg0 := 0x19, pmpaddr := (\<lambda>_. 0)(0 := 0x401)\<rparr>) 0x1000 8 PMP_ACCESS_READ"
proof -
  let ?s = "csr_reset\<lparr>pmpcfg0 := 0x19, pmpaddr := (\<lambda>_. 0)(0 := 0x401)\<rparr>"
  have "csr_wf ?s"
    using wf_reset by (auto simp: csr_wf_def PMPCFG0_WMASK_def PMPADDR_WMASK_def)
  moreover have "pmp_allow PRIV_S ?s 0x1000 8 PMP_ACCESS_READ"
    by (simp add: pmp_allow_def pmp_round_def pmp_entry_def pmp_cfg_def bits_def pmp_napot_check_def
        zero_bit_index_def upt_rec permission_ok_def PMPADDR_WMASK_def csr_reset_def)
  ultimately show ?thesis using pmp_allow_spec by blast
qed

end
