(* ===== verification/TrapFrame.thy ===== *)
theory TrapFrame
  imports CLib
begin

text \<open>
  \<open>struct trap_frame\<close> of \<open>kernel.h\<close> and the two entry stubs of \<open>trap_entry.S\<close>, which build the
  frame on the interrupted stack, pass its address to the C handler and reload every register
  from it. Memory is the byte memory of \<open>CLib\<close>; \<open>sd\<close> and \<open>ld\<close> are little-endian.
\<close>


section \<open>The frame as C sees it\<close>

record trap_frame =
  f_ra :: u64
  f_gp :: u64
  f_tp :: u64
  f_t0 :: u64
  f_t1 :: u64
  f_t2 :: u64
  f_t3 :: u64
  f_t4 :: u64
  f_t5 :: u64
  f_t6 :: u64
  f_a0 :: u64
  f_a1 :: u64
  f_a2 :: u64
  f_a3 :: u64
  f_a4 :: u64
  f_a5 :: u64
  f_a6 :: u64
  f_a7 :: u64
  f_s0 :: u64
  f_s1 :: u64
  f_s2 :: u64
  f_s3 :: u64
  f_s4 :: u64
  f_s5 :: u64
  f_s6 :: u64
  f_s7 :: u64
  f_s8 :: u64
  f_s9 :: u64
  f_s10 :: u64
  f_s11 :: u64
  f_sp :: u64

text \<open>The layout of the packed struct: the members in order, eight bytes each.\<close>

definition frame_words :: "trap_frame \<Rightarrow> u64 list" where
  "frame_words f =
     [f_ra f, f_gp f, f_tp f, f_t0 f, f_t1 f, f_t2 f, f_t3 f, f_t4 f, f_t5 f, f_t6 f,
      f_a0 f, f_a1 f, f_a2 f, f_a3 f, f_a4 f, f_a5 f, f_a6 f, f_a7 f,
      f_s0 f, f_s1 f, f_s2 f, f_s3 f, f_s4 f, f_s5 f, f_s6 f, f_s7 f, f_s8 f, f_s9 f, f_s10 f, f_s11 f,
      f_sp f]"


section \<open>Doublewords in byte memory\<close>

definition ld :: "mem \<Rightarrow> u64 \<Rightarrow> u64" where
  "ld m a = fold (\<lambda>i w. w OR push_bit (8 * i) (ucast (m (a + of_nat i)))) [0 ..< 8] 0"

definition sd :: "u64 \<Rightarrow> u64 \<Rightarrow> mem \<Rightarrow> mem" where
  "sd a v m = (\<lambda>b. if b - a < 8 then ucast (drop_bit (8 * unat (b - a)) v) else m b)"

text \<open>The frame at an address, and writing one back (the effect of assignments through \<open>f\<close>).\<close>

definition frame_at :: "mem \<Rightarrow> u64 \<Rightarrow> trap_frame" where
  "frame_at m p = \<lparr>
     f_ra = ld m (p + 0), f_gp = ld m (p + 8), f_tp = ld m (p + 16), f_t0 = ld m (p + 24),
     f_t1 = ld m (p + 32), f_t2 = ld m (p + 40), f_t3 = ld m (p + 48), f_t4 = ld m (p + 56),
     f_t5 = ld m (p + 64), f_t6 = ld m (p + 72), f_a0 = ld m (p + 80), f_a1 = ld m (p + 88),
     f_a2 = ld m (p + 96), f_a3 = ld m (p + 104), f_a4 = ld m (p + 112), f_a5 = ld m (p + 120),
     f_a6 = ld m (p + 128), f_a7 = ld m (p + 136), f_s0 = ld m (p + 144), f_s1 = ld m (p + 152),
     f_s2 = ld m (p + 160), f_s3 = ld m (p + 168), f_s4 = ld m (p + 176), f_s5 = ld m (p + 184),
     f_s6 = ld m (p + 192), f_s7 = ld m (p + 200), f_s8 = ld m (p + 208), f_s9 = ld m (p + 216),
     f_s10 = ld m (p + 224), f_s11 = ld m (p + 232), f_sp = ld m (p + 240)\<rparr>"

definition put_frame :: "u64 \<Rightarrow> trap_frame \<Rightarrow> mem \<Rightarrow> mem" where
  "put_frame p f m = fold (\<lambda>(i, w). sd (p + of_nat (8 * i)) w) (enumerate 0 (frame_words f)) m"


section \<open>The stubs\<close>

text \<open>Register numbers (\<open>x1\<close> .. \<open>x31\<close> without \<open>sp = x2\<close>) and their offsets, in the order of the stub.\<close>

type_synonym regs = "nat \<Rightarrow> u64"

definition saved :: "(nat \<times> nat) list" where
  "saved =
     [(1, 0), (3, 8), (4, 16), (5, 24), (6, 32), (7, 40), (28, 48), (29, 56), (30, 64), (31, 72),
      (10, 80), (11, 88), (12, 96), (13, 104), (14, 112), (15, 120), (16, 128), (17, 136),
      (8, 144), (9, 152), (18, 160), (19, 168), (20, 176), (21, 184), (22, 192), (23, 200),
      (24, 208), (25, 216), (26, 224), (27, 232)]"

text \<open>
  Entry: \<open>sp\<close> drops by 256, the registers are stored, then the interrupted \<open>sp\<close> (recomputed into
  \<open>t0\<close>) at offset 240; the handler gets the frame's address in \<open>a0\<close>.
\<close>

definition trap_save :: "regs \<Rightarrow> mem \<Rightarrow> mem \<times> u64" where
  "trap_save x m =
     (let base = x 2 - 256;
          m' = fold (\<lambda>(r, off). sd (base + of_nat off) (x r)) saved m
      in (sd (base + 240) (base + 256) m', base))"

text \<open>Exit: every register is reloaded, \<open>sp\<close> last; \<open>x0\<close> is zero.\<close>

definition trap_restore :: "u64 \<Rightarrow> mem \<Rightarrow> regs" where
  "trap_restore base m r =
     (if r = 2 then ld m (base + 240)
      else case map_of saved r of Some off \<Rightarrow> ld m (base + of_nat off) | None \<Rightarrow> 0)"

text \<open>The frame the handler sees for a given register file.\<close>

definition frame_of :: "regs \<Rightarrow> trap_frame" where
  "frame_of x = \<lparr>
     f_ra = x 1, f_gp = x 3, f_tp = x 4, f_t0 = x 5, f_t1 = x 6, f_t2 = x 7, f_t3 = x 28,
     f_t4 = x 29, f_t5 = x 30, f_t6 = x 31, f_a0 = x 10, f_a1 = x 11, f_a2 = x 12, f_a3 = x 13,
     f_a4 = x 14, f_a5 = x 15, f_a6 = x 16, f_a7 = x 17, f_s0 = x 8, f_s1 = x 9, f_s2 = x 18,
     f_s3 = x 19, f_s4 = x 20, f_s5 = x 21, f_s6 = x 22, f_s7 = x 23, f_s8 = x 24, f_s9 = x 25,
     f_s10 = x 26, f_s11 = x 27, f_sp = x 2\<rparr>"


section \<open>Loads after stores\<close>

lemma bit_ld: "bit (ld m a) n \<longleftrightarrow> n < 64 \<and> bit (m (a + of_nat (n div 8))) (n mod 8)"
proof -
  have step: "bit (fold (\<lambda>i w. w OR push_bit (8 * i) (ucast (m (a + of_nat i)))) [0 ..< k] 0 :: u64) n \<longleftrightarrow>
      n < 8 * k \<and> bit (m (a + of_nat (n div 8))) (n mod 8)" if "k \<le> 8" for k
    using that
  proof (induction k)
    case (Suc k)
    have byte: "\<not> bit (b :: u8) j" if "8 \<le> j" for b j
      using that by (auto dest: bit_imp_le_length)
    consider "n < 8 * k" | "8 * k + 8 \<le> n" | i where "n = 8 * k + i" "i < 8"
      by (metis add_diff_inverse_nat less_diff_conv2 linorder_not_less add.commute)
    then show ?case
    proof cases
      case 1
      with Suc show ?thesis by (simp add: bit_simps)
    next
      case 2
      with Suc show ?thesis by (simp add: bit_simps byte)
    next
      case 3
      with Suc show ?thesis by (simp add: bit_simps)
    qed
  qed simp
  show ?thesis unfolding ld_def using step [of 8] by simp
qed

lemma ld_sd_same: "ld (sd a v m) a = v"
proof (rule bit_word_eqI)
  fix n assume "n < LENGTH(64)"
  then have n: "n < 64" by simp
  then have d: "n div 8 < 8" by (simp add: less_mult_imp_div_less)
  then have u: "unat (of_nat (n div 8) :: u64) = n div 8"
    by (intro of_nat_inverse [OF refl]) simp
  with d have "(of_nat (n div 8) :: u64) < 8" by (simp add: word_less_nat_alt)
  with n u show "bit (ld (sd a v m) a) n \<longleftrightarrow> bit v n"
    by (simp add: bit_ld sd_def bit_simps)
qed

lemma sub_ge_8:
  assumes "k < 8" and "8 \<le> a - b" and "8 \<le> b - (a :: u64)"
  shows "\<not> b + of_nat k - a < 8"
proof -
  let ?x = "unat (a - b)" and ?y = "unat (b - a)"
  have "(a - b) + (b - a) = 0" by simp
  then have "(?x + ?y) mod 2 ^ 64 = 0"
    using unat_word_ariths(1) [of "a - b" "b - a"] by simp
  have bx: "?x < 2 ^ 64" "?y < 2 ^ 64" using unsigned_less [of "a - b"] unsigned_less [of "b - a"] by simp_all
  obtain q where q: "?x + ?y = 2 ^ 64 * q" using \<open>(?x + ?y) mod 2 ^ 64 = 0\<close> by (auto simp: mod_eq_0_iff_dvd elim: dvdE)
  have x: "8 \<le> ?x" "8 \<le> ?y" using assms by (simp_all add: word_le_nat_alt)
  have "2 ^ 64 * q < 2 ^ 64 * 2" "0 < 2 ^ 64 * q"
    using bx x unfolding q [symmetric] by simp_all
  then have "q = 1" by simp
  then have "?x + ?y = 2 ^ 64" using q by simp
  with x assms(1) have "?y + k < 2 ^ 64" by linarith
  moreover have e: "b + of_nat k - a = of_nat (?y + k)" by simp
  ultimately have "unat (b + of_nat k - a) = ?y + k" unfolding e by (intro of_nat_inverse [OF refl]) simp
  then show ?thesis using x by (simp add: word_less_nat_alt)
qed

lemma ld_sd_other: "8 \<le> a - b \<Longrightarrow> 8 \<le> b - a \<Longrightarrow> ld (sd a v m) b = ld m b"
  unfolding ld_def by (rule fold_cong) (auto simp: sd_def sub_ge_8)

text \<open>Stores at distinct multiples of 8 below 256 from one base do not disturb each other.\<close>

lemma slots_apart:
  assumes "8 dvd i" "8 dvd j" "i < 256" "j < 256" "i \<noteq> (j :: nat)"
  shows "(8 :: u64) \<le> (base + of_nat i) - (base + of_nat j)"
proof (cases "j < i")
  case True
  then have "(base + of_nat i) - (base + of_nat j) = (of_nat (i - j) :: u64)" by simp
  moreover have "8 \<le> i - j" using assms True by (simp add: dvd_imp_le)
  moreover have "unat (of_nat (i - j) :: u64) = i - j"
    using assms(3) by (intro of_nat_inverse [OF refl]) simp
  ultimately show ?thesis by (simp only: word_le_nat_alt) simp
next
  case False
  with assms(5) have "i < j" by simp
  then have e: "(base + of_nat i) - (base + of_nat j) = 0 - (of_nat (j - i) :: u64)" by simp
  have "unat (of_nat (j - i) :: u64) = j - i"
    using assms(4) by (intro of_nat_inverse [OF refl]) simp
  then have "unat (0 - (of_nat (j - i) :: u64)) = 2 ^ 64 - (j - i)"
    using \<open>i < j\<close> by (subst unat_sub_if') simp
  then show ?thesis unfolding e using assms(4) by (simp only: word_le_nat_alt) simp
qed

definition stores :: "u64 \<Rightarrow> (u64 \<times> nat) list \<Rightarrow> mem \<Rightarrow> mem" where
  "stores base ps m = fold (\<lambda>(v, off). sd (base + of_nat off) v) ps m"

definition slots :: "(u64 \<times> nat) list \<Rightarrow> bool" where
  "slots ps \<longleftrightarrow> distinct (map snd ps) \<and> (\<forall>(v, off) \<in> set ps. 8 dvd off \<and> off < 256)"

lemma ld_stores_other:
  "slots ps \<Longrightarrow> 8 dvd o' \<Longrightarrow> o' < 256 \<Longrightarrow> o' \<notin> snd ` set ps \<Longrightarrow>
   ld (stores base ps m) (base + of_nat o') = ld m (base + of_nat o')"
proof (induction ps arbitrary: m)
  case (Cons p ps)
  obtain v off where p: "p = (v, off)" by (cases p)
  have "ld (sd (base + of_nat off) v m) (base + of_nat o') = ld m (base + of_nat o')"
    using Cons.prems p by (intro ld_sd_other slots_apart) (auto simp: slots_def)
  then show ?case using Cons.prems Cons.IH [of "sd (base + of_nat off) v m"] p
    by (auto simp: stores_def slots_def)
qed (simp add: stores_def)

lemma ld_stores_same:
  "slots ps \<Longrightarrow> (v, off) \<in> set ps \<Longrightarrow> ld (stores base ps m) (base + of_nat off) = v"
proof (induction ps arbitrary: m)
  case (Cons p ps)
  have tail: "slots ps" using Cons.prems(1) by (auto simp: slots_def)
  have step: "stores base (p # ps) m = stores base ps (sd (base + of_nat (snd p)) (fst p) m)"
    by (simp add: stores_def case_prod_beta)
  show ?case
  proof (cases "(v, off) = p")
    case True
    then have "off \<notin> snd ` set ps" "8 dvd off" "off < 256" using Cons.prems(1) True [symmetric] by (simp_all add: slots_def)
    with True show ?thesis unfolding step by (auto simp: ld_stores_other [OF tail] ld_sd_same)
  next
    case False
    with Cons.prems have "(v, off) \<in> set ps" by auto
    then show ?thesis unfolding step by (rule Cons.IH [OF tail])
  qed
qed simp

text \<open>The stub's stores and the writes through the frame pointer, as store lists.\<close>

definition saved_words :: "regs \<Rightarrow> (u64 \<times> nat) list" where
  "saved_words x = map (\<lambda>(r, off). (x r, off)) saved @ [(x 2, 240)]"

lemma trap_save_stores: "trap_save x m = (stores (x 2 - 256) (saved_words x) m, x 2 - 256)"
  by (simp add: trap_save_def stores_def saved_words_def saved_def Let_def)

lemma slots_saved: "slots (saved_words x)"
  by (simp add: slots_def saved_words_def saved_def)

text \<open>The struct's members are exactly where the stub put the registers.\<close>

lemma frame_at_save: "frame_at (fst (trap_save x m)) (snd (trap_save x m)) = frame_of x"
proof -
  have "ld (stores (x 2 - 256) (saved_words x) m) (x 2 - 256 + of_nat off) = v"
    if "(v, off) \<in> set (saved_words x)" for v off
    using ld_stores_same [OF slots_saved that] .
  then have l: "\<forall>(v, off) \<in> set (saved_words x).
      ld (stores (x 2 - 256) (saved_words x) m) (x 2 - 256 + of_nat off) = v" by blast
  show ?thesis
    using l unfolding trap_save_stores frame_at_def frame_of_def
    by (simp add: saved_words_def saved_def)
qed

text \<open>
  A handler that changes the frame only through its members: the stub's exit loads what the
  frame then holds.
\<close>

definition regs_of :: "trap_frame \<Rightarrow> regs" where
  "regs_of f r = (if r = 0 then 0 else if r = 2 then f_sp f
                  else case map_of saved r of Some off \<Rightarrow> frame_words f ! (off div 8) | None \<Rightarrow> 0)"

lemma frame_words_simps:
  "put_frame p f m = stores p (zip (frame_words f) (map (\<lambda>i. 8 * i) [0 ..< 31])) m"
  by (simp add: put_frame_def stores_def frame_words_def upt_rec)

lemma slots_frame: "slots (zip (frame_words f) (map (\<lambda>i. 8 * i) [0 ..< 31]))"
  by (simp add: slots_def frame_words_def upt_rec)

lemma length_frame_words [simp]: "length (frame_words f) = 31"
  by (simp add: frame_words_def)

lemma ld_put_frame: "i < 31 \<Longrightarrow> ld (put_frame p f m) (p + of_nat (8 * i)) = frame_words f ! i"
  unfolding frame_words_simps
  by (rule ld_stores_same [OF slots_frame]) (auto simp: in_set_zip intro!: exI [of _ i])

lemma saved_slot: "map_of saved r = Some off \<Longrightarrow> off div 8 < 31 \<and> 8 * (off div 8) = off"
  by (drule map_of_SomeD) (auto simp: saved_def)

lemma trap_restore_put: "trap_restore p (put_frame p f m) = regs_of f"
proof
  fix r
  have "ld (put_frame p f m) (p + of_nat (8 * 30)) = f_sp f"
    by (subst ld_put_frame) (simp_all add: frame_words_def)
  moreover have "ld (put_frame p f m) (p + of_nat off) = frame_words f ! (off div 8)"
    if "map_of saved r = Some off" for off
    using saved_slot [OF that] ld_put_frame [of "off div 8" p f m] by simp
  moreover have "map_of saved 0 = None" by (simp add: saved_def)
  ultimately show "trap_restore p (put_frame p f m) r = regs_of f r"
    by (auto simp: trap_restore_def regs_of_def split: option.splits)
qed

lemma regs_of_frame_of: "r < 32 \<Longrightarrow> regs_of (frame_of x) r = (if r = 0 then 0 else x r)"
proof -
  assume "r < 32"
  then have "r \<in> set [0 ..< 32]" by simp
  moreover have "\<forall>r \<in> set [0 ..< 32]. regs_of (frame_of x) r = (if r = 0 then 0 else x r)"
    by (simp add: upt_rec regs_of_def frame_of_def frame_words_def saved_def) (simp add: eval_nat_numeral)
  ultimately show ?thesis by blast
qed


section \<open>Properties\<close>

text \<open>
  C37. The handler receives exactly the interrupted registers: each member of the packed
  \<open>struct trap_frame\<close> lies where the stub stored the register it is named after, the saved \<open>sp\<close>
  included. On return every register is what the handler left in its member, so a handler that
  changes nothing resumes with all of \<open>x1\<close> .. \<open>x31\<close> unchanged, and one that sets \<open>a0\<close> and \<open>a1\<close>
  changes only those two.
\<close>
theorem trap_stub_roundtrip:
  "frame_at (fst (trap_save x m)) (snd (trap_save x m)) = frame_of x \<and>
   (\<forall>r \<in> {1 ..< 32}. trap_restore p (put_frame p (frame_of x \<lparr>f_a0 := u, f_a1 := v\<rparr>) m') r =
      (if r = 10 then u else if r = 11 then v else x r))"
proof -
  let ?f = "frame_of x \<lparr>f_a0 := u, f_a1 := v\<rparr>"
  have "?f = frame_of (x(10 := u, 11 := v))" by (simp add: frame_of_def)
  then show ?thesis
    by (auto simp: frame_at_save trap_restore_put regs_of_frame_of)
qed

theorem trap_stub_roundtrip_witness:
  "trap_restore 0x80001000 (put_frame 0x80001000 (frame_of (\<lambda>r. of_nat r) \<lparr>f_a0 := 7, f_a1 := 8\<rparr>) (\<lambda>_. 0)) 31 = 31"
  using bspec [OF conjunct2 [OF trap_stub_roundtrip [where x = "\<lambda>r. of_nat r" and p = "0x80001000"
      and u = 7 and v = 8 and m' = "\<lambda>_. 0"]], of 31]
  by simp

end
