(* ===== verification/Platform.thy ===== *)
theory Platform
  imports CLib Csr "HOL-Library.Monad_Syntax"
begin

text \<open>
  The part of the SoC the test kernel drives and the C code on top of it: the address decode of
  \<open>src/mmio_controller.sv\<close>, the debug device of \<open>src/top.sv\<close>, the timer of
  \<open>src/aclint_memory.sv\<close>, \<open>core/test/os2_min/platform.c\<close> and the macros and globals of
  \<open>kernel.h\<close>. A C function is a function on the record \<open>soc\<close>; the \<open>option\<close> monad carries calls
  that C leaves undefined and CSR instructions that would trap, and \<open>outcome\<close> tells a function
  that returns from one that ends in an endless loop.
\<close>


section \<open>Address decode (mmio_controller.sv)\<close>

datatype device = UNKNOWN | RAM | ROM | DEBUG | ACLINT | PLIC | DMA | UART

definition DBG_ADDR :: u64 where "DBG_ADDR = 0x40000000"
definition MMAP_ROM_BEGIN :: u64 where "MMAP_ROM_BEGIN = 0x1000"
definition MMAP_ACLINT_BEGIN :: u64 where "MMAP_ACLINT_BEGIN = 0x2000000"
definition MMAP_PLIC_BEGIN :: u64 where "MMAP_PLIC_BEGIN = 0x0c000000"
definition MMAP_DMA_BEGIN :: u64 where "MMAP_DMA_BEGIN = 0x30000000"
definition MMAP_UART_BEGIN :: u64 where "MMAP_UART_BEGIN = 0x10000000"
definition MMAP_RAM_BEGIN :: u64 where "MMAP_RAM_BEGIN = 0x80000000"

definition get_device :: "u64 \<Rightarrow> device" where
  "get_device addr =
     (if DBG_ADDR \<le> addr \<and> addr \<le> DBG_ADDR + 7 then DEBUG
      else if MMAP_ROM_BEGIN \<le> addr \<and> addr \<le> MMAP_ROM_BEGIN + 0x3ff then ROM
      else if MMAP_ACLINT_BEGIN \<le> addr \<and> addr \<le> MMAP_ACLINT_BEGIN + 0xbfff then ACLINT
      else if MMAP_PLIC_BEGIN \<le> addr \<and> addr \<le> MMAP_PLIC_BEGIN + 0x03ffffff then PLIC
      else if MMAP_DMA_BEGIN \<le> addr \<and> addr \<le> MMAP_DMA_BEGIN + 0xfff then DMA
      else if MMAP_UART_BEGIN \<le> addr \<and> addr \<le> MMAP_UART_BEGIN + 0xff then UART
      else if addr \<ge> MMAP_RAM_BEGIN then RAM
      else UNKNOWN)"

text \<open>The address a device sees.\<close>

definition device_offset :: "u64 \<Rightarrow> u64" where
  "device_offset addr =
     (case get_device addr of
        RAM \<Rightarrow> addr - MMAP_RAM_BEGIN | ROM \<Rightarrow> addr - MMAP_ROM_BEGIN | DEBUG \<Rightarrow> addr - DBG_ADDR
      | ACLINT \<Rightarrow> addr - MMAP_ACLINT_BEGIN | PLIC \<Rightarrow> addr - MMAP_PLIC_BEGIN
      | DMA \<Rightarrow> addr - MMAP_DMA_BEGIN | UART \<Rightarrow> addr - MMAP_UART_BEGIN | UNKNOWN \<Rightarrow> addr)"


section \<open>State\<close>

text \<open>The kernel's global variables (\<open>tests.c\<close>), and its \<open>-D\<close> variants with the linked addresses.\<close>

record kglobals =
  pmp_protected_word :: u64
  pmp_load_fault_seen :: u32
  pmp_store_fault_seen :: u32
  pmp_exec_fault_seen :: u32
  pmp_cross_exec_fault_seen :: u32
  umode_step :: u32
  umode_ecall_seen :: u32
  sv39_load_fault_seen :: u32
  sv39_sum_fault_seen :: u32
  sv39_mxr_fault_seen :: u32
  sv39_accessed_fault_seen :: u32
  sv39_dirty_fault_seen :: u32
  sv39_store_perm_fault_seen :: u32
  sv39_fetch_fault_seen :: u32

definition initial_globals :: kglobals where
  "initial_globals = \<lparr>pmp_protected_word = 0x1122334455667788, pmp_load_fault_seen = -1,
     pmp_store_fault_seen = -1, pmp_exec_fault_seen = -1, pmp_cross_exec_fault_seen = -1,
     umode_step = -1, umode_ecall_seen = -1, sv39_load_fault_seen = -1, sv39_sum_fault_seen = -1,
     sv39_mxr_fault_seen = -1, sv39_accessed_fault_seen = -1, sv39_dirty_fault_seen = -1,
     sv39_store_perm_fault_seen = -1, sv39_fetch_fault_seen = -1\<rparr>"

text \<open>
  The SoC as the kernel sees it. \<open>console\<close> is what the debug device has written, \<open>finished\<close> the
  word that ended the simulation, \<open>dbg_input\<close> the words its reads will return (the DPI function
  \<open>get_input_dpic\<close>), \<open>ext_meip\<close>/\<open>ext_seip\<close> the lines from the PLIC.
\<close>

record soc =
  csrs :: csr_file
  mtime :: u64
  mtimecmp :: u64
  msip :: bool
  ext_meip :: bool
  ext_seip :: bool
  console :: string
  finished :: "u64 option"
  dbg_input :: "u64 list"
  globals :: kglobals

definition soc_reset :: "u64 list \<Rightarrow> soc" where
  "soc_reset inp = \<lparr>csrs = csr_reset, mtime = 0, mtimecmp = -1, msip = False, ext_meip = False,
     ext_seip = False, console = [], finished = None, dbg_input = inp, globals = initial_globals\<rparr>"

definition wires :: "soc \<Rightarrow> irq_wires" where
  "wires s = \<lparr>w_meip = ext_meip s, w_seip = ext_seip s, w_mtip = mtime s \<ge> mtimecmp s,
              w_msip = msip s, w_mtime = mtime s\<rparr>"


section \<open>Devices\<close>

text \<open>The debug device: a write with the marker prints, another odd write ends the simulation.\<close>

definition dbg_write :: "u64 \<Rightarrow> soc \<Rightarrow> soc" where
  "dbg_write wdata s =
     (if drop_bit 44 wdata = 0x01010 then s\<lparr>console := console s @ [char_of (unat (bits 7 0 wdata))]\<rparr>
      else if bit wdata 0 then s\<lparr>finished := Some wdata\<rparr>
      else s)"

text \<open>A read returns the next input word; with no input left \<open>get_input_dpic\<close> returns 0.\<close>

definition dbg_read :: "soc \<Rightarrow> u64 \<times> soc" where
  "dbg_read s = (case dbg_input s of [] \<Rightarrow> (0, s) | w # ws \<Rightarrow> (w, s\<lparr>dbg_input := ws\<rparr>))"

definition get_input_dpic :: "u8 option \<Rightarrow> u64" where
  "get_input_dpic c = (case c of Some b \<Rightarrow> ucast b OR push_bit 44 0x01010 | None \<Rightarrow> 0)"

text \<open>The ACLINT: a write of \<open>wdata\<close> under the expanded byte mask \<open>m\<close> at offset \<open>a\<close>, and the clock.\<close>

definition MMAP_ACLINT_MSIP :: u64 where "MMAP_ACLINT_MSIP = 0"
definition MMAP_ACLINT_MTIMECMP :: u64 where "MMAP_ACLINT_MTIMECMP = 0x4000"
definition MMAP_ACLINT_MTIME :: u64 where "MMAP_ACLINT_MTIME = 0x7ff8"
definition MMAP_CLINT_MTIME :: u64 where "MMAP_CLINT_MTIME = 0xbff8"
definition MMAP_ACLINT_SETSSIP :: u64 where "MMAP_ACLINT_SETSSIP = 0x8000"
definition MMAP_ACLINT_SETSTIP :: u64 where "MMAP_ACLINT_SETSTIP = 0x8008"

definition aclint_write :: "u64 \<Rightarrow> u64 \<Rightarrow> u64 \<Rightarrow> soc \<Rightarrow> soc" where
  "aclint_write a wdata m s =
     (let pulsed = s\<lparr>csrs := set_pending (a = MMAP_ACLINT_SETSSIP \<and> bit wdata 0)
                               (a = MMAP_ACLINT_SETSTIP \<and> bit wdata 0) (csrs s)\<rparr>;
          addr = a AND NOT 7
      in if addr = MMAP_ACLINT_MSIP then pulsed\<lparr>msip := bit (wdata AND m) 0 \<or> (msip s \<and> \<not> bit m 0)\<rparr>
         else if addr = MMAP_ACLINT_MTIME \<or> addr = MMAP_CLINT_MTIME then pulsed\<lparr>mtime := masked m wdata (mtime s)\<rparr>
         else if addr = MMAP_ACLINT_MTIMECMP then pulsed\<lparr>mtimecmp := masked m wdata (mtimecmp s)\<rparr>
         else pulsed)"

definition aclint_read :: "u64 \<Rightarrow> soc \<Rightarrow> u64" where
  "aclint_read a s =
     (let addr = a AND NOT 7
      in if addr = MMAP_ACLINT_MSIP then of_bool (msip s)
         else if addr = MMAP_ACLINT_MTIME \<or> addr = MMAP_CLINT_MTIME then mtime s
         else if addr = MMAP_ACLINT_MTIMECMP then mtimecmp s
         else 0)"

definition aclint_tick :: "soc \<Rightarrow> soc" where
  "aclint_tick s = s\<lparr>mtime := mtime s + 1\<rparr>"

text \<open>A 64-bit store to a device register; the other devices keep their state elsewhere.\<close>

definition mmio_store :: "u64 \<Rightarrow> u64 \<Rightarrow> soc \<Rightarrow> soc" where
  "mmio_store addr wdata s =
     (case get_device addr of
        DEBUG \<Rightarrow> dbg_write wdata s
      | ACLINT \<Rightarrow> aclint_write (device_offset addr) wdata (-1) s
      | _ \<Rightarrow> s)"


section \<open>platform.c\<close>

definition DEBUG_REG :: u64 where "DEBUG_REG = 0x40000000"
definition ACLINT_MTIMECMP :: u64 where "ACLINT_MTIMECMP = 0x02004000"
definition ACLINT_SETSTIP :: u64 where "ACLINT_SETSTIP = 0x02008008"

definition platform_putchar :: "char \<Rightarrow> soc \<Rightarrow> soc" where
  "platform_putchar ch s = mmio_store DEBUG_REG (of_nat (of_char ch) OR push_bit 44 0x01010) s"

definition platform_getchar :: "soc \<Rightarrow> u64 \<times> soc" where
  "platform_getchar s =
     (let (value, s') = dbg_read s
      in if value AND push_bit 44 0x01010 = 0 then (-1, s') else (value AND 0xff, s'))"

definition platform_test_success :: "soc \<Rightarrow> soc" where
  "platform_test_success s = mmio_store DEBUG_REG 1 s"

definition platform_set_timer :: "u64 \<Rightarrow> soc \<Rightarrow> soc" where
  "platform_set_timer stime_value s = mmio_store ACLINT_MTIMECMP stime_value s"

definition platform_stop_timer :: "soc \<Rightarrow> soc" where
  "platform_stop_timer s = mmio_store ACLINT_MTIMECMP (NOT 0) s"

definition platform_set_stip :: "soc \<Rightarrow> soc" where
  "platform_set_stip s = mmio_store ACLINT_SETSTIP 1 s"

text \<open>The C library's \<open>putchar\<close>, and \<open>printf\<close> over it.\<close>

definition c_putchar :: "char \<Rightarrow> soc \<Rightarrow> soc" where
  "c_putchar ch s = platform_putchar ch s"

definition kprintf :: "string \<Rightarrow> varg list \<Rightarrow> soc \<Rightarrow> soc option" where
  "kprintf fmt va s = map_option (\<lambda>str. fold c_putchar str s) (c_printf fmt va)"

text \<open>CSR macros of \<open>kernel.h\<close>: \<open>None\<close> is an access the unit refuses as illegal.\<close>

definition READ_CSR :: "csr_addr \<Rightarrow> soc \<Rightarrow> u64 option" where
  "READ_CSR c s = (if csr_illegal (csrs s) CSRRS True c then None else Some (csr_rdata (wires s) (csrs s) c))"

definition WRITE_CSR :: "csr_addr \<Rightarrow> u64 \<Rightarrow> soc \<Rightarrow> soc option" where
  "WRITE_CSR c v s =
     (if csr_illegal (csrs s) CSRRW False c then None
      else Some (s\<lparr>csrs := csr_write (wires s) c v (csrs s)\<rparr>))"

text \<open>How a function ends: it returns a value, or it stays in a \<open>for (;;)\<close> or \<open>while (1)\<close> loop.\<close>

datatype 'a outcome = Returns 'a soc | Hangs soc

text \<open>The source files are compiled by their path from the repository (\<open>Makefile\<close>), so \<open>__FILE__\<close> is that path.\<close>

abbreviation NL :: string where "NL \<equiv> [CHR 0x0A]"

text \<open>A string literal that ends in a newline.\<close>

definition line :: "string \<Rightarrow> string" where
  "line t = t @ NL"

definition OS2_MIN_DIR :: string where "OS2_MIN_DIR = ''core/test/os2_min/''"

definition PANIC :: "string \<Rightarrow> u32 \<Rightarrow> string \<Rightarrow> varg list \<Rightarrow> soc \<Rightarrow> 'a outcome option" where
  "PANIC file lno fmt va s =
     map_option Hangs (kprintf (line (''PANIC: %s:%d:'' @ fmt)) (VStr (OS2_MIN_DIR @ file) # VInt lno # va) s)"


section \<open>The register writes, worked out\<close>

lemma of_char_less_256: "of_char ch < (256 :: nat)"
  using nat_of_char_less_256 [of ch] by simp

lemma of_char_take: "(of_nat (of_char ch) :: u64) = take_bit 8 (of_nat (of_char ch))"
  using of_char_less_256 [of ch] take_bit_of_nat [of 8 "of_char ch", where 'a = u64]
    take_bit_nat_eq_self [of "of_char ch" 8] by simp

lemma low_or_high:
  "n \<le> m \<Longrightarrow> drop_bit m (take_bit n w OR push_bit m k) = take_bit (64 - m) (k :: u64)"
  "n \<le> m \<Longrightarrow> m \<le> 64 \<Longrightarrow> take_bit n (take_bit n w OR push_bit m k) = take_bit n (w :: u64)"
  by (rule bit_word_eqI, auto simp: bit_simps)+

lemma byte_or_marker:
  "drop_bit 44 (of_nat (of_char ch) OR push_bit 44 0x01010 :: u64) = 0x01010"
  "bits 7 0 (of_nat (of_char ch) OR push_bit 44 0x01010 :: u64) = of_nat (of_char ch)"
proof -
  note b = of_char_take [of ch]
  show "drop_bit 44 (of_nat (of_char ch) OR push_bit 44 0x01010 :: u64) = 0x01010"
    by (subst b, subst low_or_high(1)) simp_all
  show "bits 7 0 (of_nat (of_char ch) OR push_bit 44 0x01010 :: u64) = of_nat (of_char ch)"
    unfolding bits_def by (subst b, subst b) (simp add: low_or_high(2) del: push_bit_of_nat)
qed

lemma unat_of_char [simp]: "unat (of_nat (of_char ch) :: u64) = of_char ch"
  by (rule of_nat_inverse [OF refl]) (rule order.strict_trans [OF of_char_less_256], simp)

lemma devices [simp]:
  "get_device DEBUG_REG = DEBUG" "get_device ACLINT_MTIMECMP = ACLINT" "get_device ACLINT_SETSTIP = ACLINT"
  "device_offset ACLINT_MTIMECMP = MMAP_ACLINT_MTIMECMP" "device_offset ACLINT_SETSTIP = MMAP_ACLINT_SETSTIP"
  by (simp_all add: get_device_def device_offset_def DEBUG_REG_def ACLINT_MTIMECMP_def ACLINT_SETSTIP_def
      DBG_ADDR_def MMAP_ROM_BEGIN_def MMAP_ACLINT_BEGIN_def MMAP_ACLINT_MTIMECMP_def MMAP_ACLINT_SETSTIP_def)

lemma set_pending_none [simp]: "set_pending False False c = c"
  by (simp add: set_pending_def)

lemma platform_putchar_eq: "platform_putchar ch s = s\<lparr>console := console s @ [ch]\<rparr>"
  unfolding platform_putchar_def mmio_store_def dbg_write_def byte_or_marker
  by simp

lemma platform_test_success_eq: "platform_test_success s = s\<lparr>finished := Some 1\<rparr>"
  by (simp add: platform_test_success_def mmio_store_def dbg_write_def)

lemma platform_set_timer_eq: "platform_set_timer t s = s\<lparr>mtimecmp := t\<rparr>"
  by (simp add: platform_set_timer_def mmio_store_def aclint_write_def MMAP_ACLINT_MTIMECMP_def
      MMAP_ACLINT_MSIP_def MMAP_ACLINT_MTIME_def MMAP_CLINT_MTIME_def MMAP_ACLINT_SETSSIP_def MMAP_ACLINT_SETSTIP_def)

lemma platform_stop_timer_eq: "platform_stop_timer s = s\<lparr>mtimecmp := -1\<rparr>"
  using platform_set_timer_eq [of "NOT 0" s] by (simp add: platform_stop_timer_def platform_set_timer_def)

lemma platform_set_stip_eq: "platform_set_stip s = s\<lparr>csrs := set_pending False True (csrs s)\<rparr>"
  by (simp add: platform_set_stip_def mmio_store_def aclint_write_def MMAP_ACLINT_MTIMECMP_def
      MMAP_ACLINT_MSIP_def MMAP_ACLINT_MTIME_def MMAP_CLINT_MTIME_def MMAP_ACLINT_SETSSIP_def MMAP_ACLINT_SETSTIP_def)

lemmas platform_eqs = platform_putchar_eq platform_test_success_eq platform_set_timer_eq
  platform_stop_timer_eq platform_set_stip_eq


section \<open>Character sinks\<close>

text \<open>
  What a printing routine relies on: putting a character appends it to the output and changes
  nothing else (\<open>rest\<close> is whatever the client observes beside the output).
\<close>

locale char_sink =
  fixes put :: "char \<Rightarrow> 's \<Rightarrow> 's"
    and out :: "'s \<Rightarrow> string"
    and set_out :: "string \<Rightarrow> 's \<Rightarrow> 's"
  assumes put_out: "put c s = set_out (out s @ [c]) s"
    and out_set: "out (set_out t s) = t"
    and set_set: "set_out t (set_out u s) = set_out t s"
    and set_same: "set_out (out s) s = s"
begin

lemma fold_put: "fold put str s = set_out (out s @ str) s"
proof (induction str arbitrary: s)
  case (Cons c str)
  then show ?case by (simp add: put_out out_set set_set)
qed (simp add: set_same)

lemma out_fold_put: "out (fold put str s) = out s @ str"
  by (simp add: fold_put out_set)

end

interpretation dbg_console: char_sink c_putchar console "\<lambda>t s. s\<lparr>console := t\<rparr>"
  by unfold_locales (simp_all add: c_putchar_def platform_putchar_eq)

lemma kprintf_eq: "kprintf fmt va s = map_option (\<lambda>str. s\<lparr>console := console s @ str\<rparr>) (c_printf fmt va)"
  by (simp add: kprintf_def dbg_console.fold_put)

lemma kprintf_defined:
  assumes "prefix (fmt_kinds fmt) (map kind_of va)"
  obtains str where "c_printf fmt va = Some str" and "\<And>s. kprintf fmt va s = Some (s\<lparr>console := console s @ str\<rparr>)"
  using assms printf_defined_iff [of fmt va] by (auto simp: kprintf_eq)

lemma printf_line [simp]: "CHR ''%'' \<notin> set t \<Longrightarrow> c_printf (line t) va = Some (line t)"
  by (simp add: line_def printf_literal)

lemma kprintf_line [simp]:
  "CHR ''%'' \<notin> set t \<Longrightarrow> kprintf (line t) va s = Some (s\<lparr>console := console s @ line t\<rparr>)"
  by (simp add: kprintf_eq)

end
