(* ===== verification/Firmware.thy ===== *)
theory Firmware
  imports Platform TrapFrame
begin

text \<open>
  \<open>core/test/os2_min/firmware.c\<close>, \<open>trap.c\<close> and \<open>sbi.c\<close>: the M-mode firmware behind the SBI calls,
  the two trap handlers, and the S-mode call stubs. A handler works on the \<open>trap_frame\<close> and the
  \<open>soc\<close>; its text output is the real \<open>printf\<close> of \<open>CLib\<close>.
\<close>


section \<open>Build variants and linked addresses\<close>

text \<open>The \<open>Makefile\<close> builds the kernel with one \<open>-DOS2_MIN_...\<close> macro, or with none.\<close>

datatype variant = OS2_MIN_PLAIN | OS2_MIN_NO_INPUT | OS2_MIN_INPUT | OS2_MIN_STRAP | OS2_MIN_PMP | OS2_MIN_USER | OS2_MIN_SV39

text \<open>
  The addresses the linker gives to the symbols the C code takes the address of, and that of the
  one \<open>ecall\<close> instruction in \<open>sbi_call\<close>; \<open>str_test2_at\<close>, \<open>str_test_at\<close> are two string literals.
\<close>

record image =
  kernel_trap_entry :: u64
  supervisor_trap_entry :: u64
  supervisor_main_at :: u64
  user_entry_at :: u64
  sbi_ecall_at :: u64
  bss_at :: u64
  bss_end_at :: u64
  str_test2_at :: u64
  str_test_at :: u64
  pmp_protected_word_at :: u64
  pmp_protected_exec_target_at :: u64
  pmp_cross_exec_target_at :: u64
  sv39_noexec_target_at :: u64
  sv39_user_page_at :: u64
  sv39_exec_page_at :: u64
  sv39_accessed_page_at :: u64
  sv39_dirty_page_at :: u64
  sv39_readonly_page_at :: u64


section \<open>Constants of kernel.h\<close>

definition SBI_SUCCESS :: u64 where "SBI_SUCCESS = 0"
definition SBI_ERR_NOT_SUPPORTED :: u64 where "SBI_ERR_NOT_SUPPORTED = -2"
definition SBI_EXT_TIME :: u64 where "SBI_EXT_TIME = 0x54494d45"
definition SBI_FUNC_TIME_SET_TIMER :: u64 where "SBI_FUNC_TIME_SET_TIMER = 0"
definition SBI_EXT_DEBUG_CONSOLE :: u64 where "SBI_EXT_DEBUG_CONSOLE = 0x4442434e"
definition SBI_FUNC_DEBUG_CONSOLE_PUTCHAR :: u64 where "SBI_FUNC_DEBUG_CONSOLE_PUTCHAR = 0"
definition SBI_FUNC_DEBUG_CONSOLE_GETCHAR :: u64 where "SBI_FUNC_DEBUG_CONSOLE_GETCHAR = 1"
definition SBI_EXT_TEST :: u64 where "SBI_EXT_TEST = 0x54534554"
definition SBI_FUNC_TEST_READ_PMP_WORD :: u64 where "SBI_FUNC_TEST_READ_PMP_WORD = 0"
definition SBI_FUNC_TEST_ALLOW_EXEC_ONLY_TARGET :: u64 where "SBI_FUNC_TEST_ALLOW_EXEC_ONLY_TARGET = 1"
definition SBI_FUNC_TEST_PROTECT_EXEC_TARGET :: u64 where "SBI_FUNC_TEST_PROTECT_EXEC_TARGET = 2"
definition SBI_FUNC_TEST_PROTECT_CROSS_EXEC_TARGET :: u64 where "SBI_FUNC_TEST_PROTECT_CROSS_EXEC_TARGET = 3"

lemmas sbi_consts = SBI_SUCCESS_def SBI_ERR_NOT_SUPPORTED_def SBI_EXT_TIME_def SBI_FUNC_TIME_SET_TIMER_def
  SBI_EXT_DEBUG_CONSOLE_def SBI_FUNC_DEBUG_CONSOLE_PUTCHAR_def SBI_FUNC_DEBUG_CONSOLE_GETCHAR_def
  SBI_EXT_TEST_def SBI_FUNC_TEST_READ_PMP_WORD_def SBI_FUNC_TEST_ALLOW_EXEC_ONLY_TARGET_def
  SBI_FUNC_TEST_PROTECT_EXEC_TARGET_def SBI_FUNC_TEST_PROTECT_CROSS_EXEC_TARGET_def

definition PMP_R :: u64 where "PMP_R = 1"
definition PMP_W :: u64 where "PMP_W = 2"
definition PMP_X :: u64 where "PMP_X = 4"
definition PMP_A_TOR :: u64 where "PMP_A_TOR = 8"
definition PMP_A_NAPOT :: u64 where "PMP_A_NAPOT = 0x18"

lemmas pmp_consts = PMP_R_def PMP_W_def PMP_X_def PMP_A_TOR_def PMP_A_NAPOT_def

definition MCAUSE_MACHINE_TIMER_INTERRUPT :: u64 where "MCAUSE_MACHINE_TIMER_INTERRUPT = push_bit 63 1 OR 7"
definition SCAUSE_SUPERVISOR_TIMER_INTERRUPT :: u64 where "SCAUSE_SUPERVISOR_TIMER_INTERRUPT = push_bit 63 1 OR 5"
definition MCAUSE_ECALL_FROM_U :: u64 where "MCAUSE_ECALL_FROM_U = 8"
definition MCAUSE_ECALL_FROM_S :: u64 where "MCAUSE_ECALL_FROM_S = 9"
definition INSTRUCTION_ACCESS_FAULT :: u64 where "INSTRUCTION_ACCESS_FAULT = 1"
definition LOAD_ACCESS_FAULT :: u64 where "LOAD_ACCESS_FAULT = 5"
definition STORE_AMO_ACCESS_FAULT :: u64 where "STORE_AMO_ACCESS_FAULT = 7"
definition INSTRUCTION_PAGE_FAULT :: u64 where "INSTRUCTION_PAGE_FAULT = 12"
definition LOAD_PAGE_FAULT :: u64 where "LOAD_PAGE_FAULT = 13"
definition STORE_AMO_PAGE_FAULT :: u64 where "STORE_AMO_PAGE_FAULT = 15"
definition SIP_STIP :: u64 where "SIP_STIP = push_bit 5 1"

lemmas cause_consts = MCAUSE_MACHINE_TIMER_INTERRUPT_def SCAUSE_SUPERVISOR_TIMER_INTERRUPT_def
  MCAUSE_ECALL_FROM_U_def MCAUSE_ECALL_FROM_S_def INSTRUCTION_ACCESS_FAULT_def LOAD_ACCESS_FAULT_def
  STORE_AMO_ACCESS_FAULT_def INSTRUCTION_PAGE_FAULT_def LOAD_PAGE_FAULT_def STORE_AMO_PAGE_FAULT_def


section \<open>firmware.c\<close>

text \<open>The five register writes that reprogram the PMP around \<open>[start, stop)\<close>.\<close>

definition pmp_program :: "u64 \<Rightarrow> u64 \<Rightarrow> u64 \<Rightarrow> soc \<Rightarrow> soc option" where
  "pmp_program start stop cfg s = do {
     s \<leftarrow> WRITE_CSR PMPCFG0 0 s;
     s \<leftarrow> WRITE_CSR (PMPADDR 0) (drop_bit 2 start) s;
     s \<leftarrow> WRITE_CSR (PMPADDR 1) (drop_bit 2 stop) s;
     s \<leftarrow> WRITE_CSR (PMPADDR 2) (NOT 0) s;
     WRITE_CSR PMPCFG0 cfg s
   }"

definition pmp_everything :: u64 where
  "pmp_everything = push_bit 16 (PMP_R OR PMP_W OR PMP_X OR PMP_A_NAPOT)"

definition sbi_test_call :: "image \<Rightarrow> trap_frame \<Rightarrow> soc \<Rightarrow> (trap_frame \<times> soc) option" where
  "sbi_test_call img f s =
     (if f_a6 f = SBI_FUNC_TEST_READ_PMP_WORD then
        Some (f\<lparr>f_a0 := SBI_SUCCESS, f_a1 := pmp_protected_word (globals s)\<rparr>, s)
      else if f_a6 f = SBI_FUNC_TEST_ALLOW_EXEC_ONLY_TARGET then do {
        let protected_start = pmp_protected_exec_target_at img;
        let protected_end = protected_start + 8;
        s \<leftarrow> pmp_program protected_start protected_end
               (push_bit 8 (PMP_X OR PMP_A_TOR) OR pmp_everything) s;
        Some (f\<lparr>f_a0 := SBI_SUCCESS, f_a1 := 0\<rparr>, s)
      }
      else if f_a6 f = SBI_FUNC_TEST_PROTECT_EXEC_TARGET then do {
        let protected_start = pmp_protected_exec_target_at img;
        let protected_end = protected_start + 8;
        s \<leftarrow> pmp_program protected_start protected_end
               (push_bit 8 (PMP_R OR PMP_W OR PMP_A_TOR) OR pmp_everything) s;
        Some (f\<lparr>f_a0 := SBI_SUCCESS, f_a1 := 0\<rparr>, s)
      }
      else if f_a6 f = SBI_FUNC_TEST_PROTECT_CROSS_EXEC_TARGET then do {
        let protected_start = pmp_cross_exec_target_at img + 2;
        let protected_end = protected_start + 4;
        s \<leftarrow> pmp_program protected_start protected_end
               (push_bit 8 (PMP_R OR PMP_W OR PMP_A_TOR) OR pmp_everything) s;
        Some (f\<lparr>f_a0 := SBI_SUCCESS, f_a1 := 0\<rparr>, s)
      }
      else Some (f\<lparr>f_a0 := SBI_ERR_NOT_SUPPORTED, f_a1 := 0\<rparr>, s))"

definition firmware_handle_sbi :: "variant \<Rightarrow> image \<Rightarrow> trap_frame \<Rightarrow> soc \<Rightarrow> (trap_frame \<times> soc) option" where
  "firmware_handle_sbi cfg img f s =
     (if f_a7 f = SBI_EXT_DEBUG_CONSOLE \<and> f_a6 f = SBI_FUNC_DEBUG_CONSOLE_PUTCHAR then
        Some (f\<lparr>f_a0 := SBI_SUCCESS, f_a1 := 0\<rparr>, platform_putchar (char_of (unat (f_a0 f))) s)
      else if f_a7 f = SBI_EXT_DEBUG_CONSOLE \<and> f_a6 f = SBI_FUNC_DEBUG_CONSOLE_GETCHAR then
        (case platform_getchar s of
           (c, s') \<Rightarrow> Some (f\<lparr>f_a0 := SBI_SUCCESS, f_a1 := c\<rparr>, s'))
      else if f_a7 f = SBI_EXT_TIME \<and> f_a6 f = SBI_FUNC_TIME_SET_TIMER then
        Some (f\<lparr>f_a0 := SBI_SUCCESS, f_a1 := 0\<rparr>, platform_set_timer (f_a0 f) s)
      else if cfg = OS2_MIN_PMP \<and> f_a7 f = SBI_EXT_TEST then sbi_test_call img f s
      else Some (f\<lparr>f_a0 := SBI_ERR_NOT_SUPPORTED, f_a1 := 0\<rparr>, s))"


section \<open>trap.c: the M-mode handler\<close>

definition kernel_trap_handler :: "variant \<Rightarrow> image \<Rightarrow> trap_frame \<Rightarrow> soc \<Rightarrow> trap_frame outcome option" where
  "kernel_trap_handler cfg img f s = do {
     mcause \<leftarrow> READ_CSR MCAUSE s;
     mepc \<leftarrow> READ_CSR MEPC s;
     if mcause = MCAUSE_MACHINE_TIMER_INTERRUPT then do {
       let s = platform_stop_timer s;
       s \<leftarrow> kprintf (line ''M timer interrupt'') [] s;
       let s = platform_set_stip s;
       Some (Returns f s)
     }
     else if mcause = MCAUSE_ECALL_FROM_S then do {
       s \<leftarrow> (if \<not> (f_a7 f = SBI_EXT_DEBUG_CONSOLE \<and> f_a6 f = SBI_FUNC_DEBUG_CONSOLE_PUTCHAR \<and> f_a0 f = 10)
            then do {
              s \<leftarrow> kprintf (line ''M trap from S ecall'') [] s;
              kprintf (line ''saved a7=%lx a6=%lx a0=%lx'') [VLong (f_a7 f), VLong (f_a6 f), VLong (f_a0 f)] s
            }
            else Some s);
       (f, s) \<leftarrow> firmware_handle_sbi cfg img f s;
       s \<leftarrow> WRITE_CSR MEPC (mepc + 4) s;
       Some (Returns f s)
     }
     else PANIC ''trap.c'' 26 ''unexpected machine trap mcause=%lx'' [VLong mcause] s
   }"

end
