(* ===== verification/Trap.thy ===== *)
theory Trap
  imports Firmware
begin

text \<open>
  The S-mode handler of \<open>trap.c\<close>, how a trap runs a handler and returns (\<open>trap_entry.S\<close> over the
  CSR unit), and the SBI call stubs of \<open>sbi.c\<close> on top of that.
\<close>


section \<open>trap.c: the S-mode handler\<close>

text \<open>The shape all expected faults share: print, set a flag, choose where to resume.\<close>

definition fault_return ::
  "string \<Rightarrow> u64 \<Rightarrow> (kglobals \<Rightarrow> kglobals) \<Rightarrow> u64 \<Rightarrow> trap_frame \<Rightarrow> soc \<Rightarrow> trap_frame outcome option" where
  "fault_return msg tval mark resume f s = do {
     s \<leftarrow> kprintf (line (msg @ '' stval=%lx'')) [VLong tval] s;
     let s = s\<lparr>globals := mark (globals s)\<rparr>;
     s \<leftarrow> WRITE_CSR SEPC resume s;
     Some (Returns f s)
   }"

text \<open>The last branch: the timer interrupt, and the panic.\<close>

definition s_timer_case :: "trap_frame \<Rightarrow> u64 \<Rightarrow> soc \<Rightarrow> trap_frame outcome option" where
  "s_timer_case f cause s =
     (if cause = SCAUSE_SUPERVISOR_TIMER_INTERRUPT then do {
        s \<leftarrow> kprintf (line ''S timer interrupt'') [] s;
        sip \<leftarrow> READ_CSR SIP s;
        s \<leftarrow> WRITE_CSR SIP (sip AND NOT SIP_STIP) s;
        Some (Returns f s)
      }
      else PANIC ''trap.c'' 159 ''unexpected supervisor trap scause=%lx'' [VLong cause] s)"

definition in_block :: "u64 \<Rightarrow> u64 \<Rightarrow> u64 \<Rightarrow> bool" where
  "in_block start len a \<longleftrightarrow> a \<ge> start \<and> a < start + len"

definition s_pmp_cases :: "image \<Rightarrow> trap_frame \<Rightarrow> u64 \<Rightarrow> u64 \<Rightarrow> u64 \<Rightarrow> soc \<Rightarrow> trap_frame outcome option" where
  "s_pmp_cases img f cause epc tval s =
     (let cross_fetch_block = pmp_cross_exec_target_at img AND NOT 7 in
      if cause = LOAD_ACCESS_FAULT \<and> tval = pmp_protected_word_at img then
        fault_return ''PMP load access fault'' tval (\<lambda>g. g\<lparr>pmp_load_fault_seen := 1\<rparr>) (epc + 4) f s
      else if cause = STORE_AMO_ACCESS_FAULT \<and> tval = pmp_protected_word_at img then
        fault_return ''PMP store access fault'' tval (\<lambda>g. g\<lparr>pmp_store_fault_seen := 1\<rparr>) (epc + 4) f s
      else if cause = INSTRUCTION_ACCESS_FAULT \<and> in_block (pmp_protected_exec_target_at img) 8 tval then
        fault_return ''PMP instruction access fault'' tval (\<lambda>g. g\<lparr>pmp_exec_fault_seen := 1\<rparr>) (f_ra f) f s
      else if cause = INSTRUCTION_ACCESS_FAULT \<and>
              (in_block cross_fetch_block 8 tval \<or> in_block cross_fetch_block 8 epc) then
        fault_return ''PMP cross instruction access fault'' tval (\<lambda>g. g\<lparr>pmp_cross_exec_fault_seen := 1\<rparr>) (f_ra f) f s
      else s_timer_case f cause s)"

definition s_sv39_cases :: "image \<Rightarrow> trap_frame \<Rightarrow> u64 \<Rightarrow> u64 \<Rightarrow> u64 \<Rightarrow> soc \<Rightarrow> trap_frame outcome option" where
  "s_sv39_cases img f cause epc tval s =
     (if cause = LOAD_PAGE_FAULT \<and> tval = 0x60000000 then
        fault_return ''Sv39 load page fault'' tval (\<lambda>g. g\<lparr>sv39_load_fault_seen := 1\<rparr>) (epc + 4) f s
      else if cause = LOAD_PAGE_FAULT \<and> tval = sv39_user_page_at img then
        fault_return ''Sv39 SUM load page fault'' tval (\<lambda>g. g\<lparr>sv39_sum_fault_seen := 1\<rparr>) (epc + 4) f s
      else if cause = LOAD_PAGE_FAULT \<and> tval = sv39_exec_page_at img then
        fault_return ''Sv39 MXR load page fault'' tval (\<lambda>g. g\<lparr>sv39_mxr_fault_seen := 1\<rparr>) (epc + 4) f s
      else if cause = LOAD_PAGE_FAULT \<and> tval = sv39_accessed_page_at img then
        fault_return ''Sv39 A bit load page fault'' tval (\<lambda>g. g\<lparr>sv39_accessed_fault_seen := 1\<rparr>) (epc + 4) f s
      else if cause = STORE_AMO_PAGE_FAULT \<and> tval = sv39_dirty_page_at img then
        fault_return ''Sv39 D bit store page fault'' tval (\<lambda>g. g\<lparr>sv39_dirty_fault_seen := 1\<rparr>) (epc + 4) f s
      else if cause = STORE_AMO_PAGE_FAULT \<and> tval = sv39_readonly_page_at img then
        fault_return ''Sv39 W permission store page fault'' tval (\<lambda>g. g\<lparr>sv39_store_perm_fault_seen := 1\<rparr>) (epc + 4) f s
      else s_timer_case f cause s)"

text \<open>The branches after the U-mode one, as the \<open>#ifdef\<close>s select them.\<close>

definition s_other_cases ::
  "variant \<Rightarrow> image \<Rightarrow> trap_frame \<Rightarrow> u64 \<Rightarrow> u64 \<Rightarrow> u64 \<Rightarrow> soc \<Rightarrow> trap_frame outcome option" where
  "s_other_cases cfg img f cause epc tval s =
     (if cfg = OS2_MIN_PMP then s_pmp_cases img f cause epc tval s
      else if cfg = OS2_MIN_SV39 then s_sv39_cases img f cause epc tval s
      else s_timer_case f cause s)"

text \<open>
  \<open>umode_ecall_seen++\<close> is an increment of a C \<open>int\<close>: at \<open>INT_MAX\<close> it overflows, which is undefined.
\<close>

definition s_user_ecall ::
  "variant \<Rightarrow> image \<Rightarrow> trap_frame \<Rightarrow> u64 \<Rightarrow> u64 \<Rightarrow> u64 \<Rightarrow> soc \<Rightarrow> trap_frame outcome option" where
  "s_user_ecall cfg img f cause epc tval s =
     (if umode_ecall_seen (globals s) = 0x7fffffff then None else
      let s = s\<lparr>globals := (globals s)\<lparr>umode_ecall_seen := umode_ecall_seen (globals s) + 1\<rparr>\<rparr> in
      if umode_ecall_seen (globals s) = 1 then do {
        s \<leftarrow> WRITE_CSR SEPC (epc + 4) s;
        Some (Returns (f\<lparr>f_a0 := 0x5678\<rparr>) s)
      }
      else if umode_ecall_seen (globals s) = 2 \<and> umode_step (globals s) = 2 then do {
        s \<leftarrow> kprintf (line ''U-mode ecall OK'') [] s;
        Some (Hangs (platform_test_success s))
      }
      else s_other_cases cfg img f cause epc tval s)"

definition supervisor_trap_handler :: "variant \<Rightarrow> image \<Rightarrow> trap_frame \<Rightarrow> soc \<Rightarrow> trap_frame outcome option" where
  "supervisor_trap_handler cfg img f s = do {
     cause \<leftarrow> READ_CSR SCAUSE s;
     epc \<leftarrow> READ_CSR SEPC s;
     tval \<leftarrow> READ_CSR STVAL s;
     let noexec_page = sv39_noexec_target_at img AND NOT (PAGE_SIZE - 1);
     if cfg = OS2_MIN_SV39 \<and> cause = INSTRUCTION_PAGE_FAULT \<and>
        (in_block noexec_page PAGE_SIZE tval \<or> in_block noexec_page PAGE_SIZE epc) then do {
       let s = s\<lparr>globals := (globals s)\<lparr>sv39_fetch_fault_seen := 1\<rparr>\<rparr>;
       s \<leftarrow> WRITE_CSR SEPC (f_ra f) s;
       Some (Returns f s)
     }
     else do {
       s \<leftarrow> kprintf (line ''S trap scause=%lx sepc=%lx'') [VLong cause, VLong epc] s;
       s \<leftarrow> kprintf (line ''saved a0=%lx sp=%lx'') [VLong (f_a0 f), VLong (f_sp f)] s;
       if cause = MCAUSE_ECALL_FROM_S then do {
         t0 \<leftarrow> READ_CSR SEPC s;
         s \<leftarrow> WRITE_CSR SEPC (t0 + 4) s;
         Some (Returns f s)
       }
       else if cause = MCAUSE_ECALL_FROM_U then s_user_ecall cfg img f cause epc tval s
       else s_other_cases cfg img f cause epc tval s
     }
   }"


section \<open>Taking a trap\<close>

text \<open>
  After a trap the hart is at the vector with the new registers. When that is one of the two
  stubs, the stub runs its handler and ends in \<open>mret\<close> or \<open>sret\<close>; any other vector is code this
  development does not model (\<open>None\<close>). A trap that returns yields the interrupted code's
  registers and the address it resumes at.
\<close>

definition trap_return_to :: "(csr_file \<Rightarrow> csr_file \<times> u64) \<Rightarrow> trap_frame outcome \<Rightarrow> (trap_frame \<times> u64) outcome" where
  "trap_return_to ret r =
     (case r of
        Returns f s \<Rightarrow> (case ret (csrs s) of (c, pc) \<Rightarrow> Returns (f, pc) (s\<lparr>csrs := c\<rparr>))
      | Hangs s \<Rightarrow> Hangs s)"

definition run_trap ::
  "variant \<Rightarrow> image \<Rightarrow> trap_frame \<Rightarrow> csr_file \<times> u64 \<Rightarrow> soc \<Rightarrow> (trap_frame \<times> u64) outcome option" where
  "run_trap cfg img f cv s =
     (case cv of (c, vec) \<Rightarrow>
        if mode c = PRIV_M \<and> vec = kernel_trap_entry img then
          map_option (trap_return_to do_mret) (kernel_trap_handler cfg img f (s\<lparr>csrs := c\<rparr>))
        else if mode c = PRIV_S \<and> vec = supervisor_trap_entry img then
          map_option (trap_return_to do_sret) (supervisor_trap_handler cfg img f (s\<lparr>csrs := c\<rparr>))
        else None)"

definition exception_at ::
  "variant \<Rightarrow> image \<Rightarrow> u64 \<Rightarrow> u64 \<Rightarrow> u64 \<Rightarrow> trap_frame \<Rightarrow> soc \<Rightarrow> (trap_frame \<times> u64) outcome option" where
  "exception_at cfg img pc cause value f s = run_trap cfg img f (take_exception pc cause value (csrs s)) s"

definition ecall_at :: "variant \<Rightarrow> image \<Rightarrow> u64 \<Rightarrow> trap_frame \<Rightarrow> soc \<Rightarrow> (trap_frame \<times> u64) outcome option" where
  "ecall_at cfg img pc f s = exception_at cfg img pc (ecall_cause (csrs s)) 0 f s"

definition interrupt_at ::
  "variant \<Rightarrow> image \<Rightarrow> u64 \<Rightarrow> bool \<Rightarrow> trap_frame \<Rightarrow> soc \<Rightarrow> (trap_frame \<times> u64) outcome option" where
  "interrupt_at cfg img pc is_wfi f s =
     (case take_interrupt (wires s) pc is_wfi (csrs s) of
        None \<Rightarrow> Some (Returns (f, pc) s)
      | Some cv \<Rightarrow> run_trap cfg img f cv s)"


section \<open>sbi.c\<close>

record sbiret =
  sbi_error :: u64
  sbi_value :: u64

text \<open>
  \<open>sbi_call\<close>: the arguments go into \<open>a0\<close>, \<open>a1\<close>, \<open>a6\<close>, \<open>a7\<close>, the other registers \<open>f\<close> are the
  caller's; after the \<open>ecall\<close> execution must go on at the next instruction.
\<close>

definition call_frame :: "trap_frame \<Rightarrow> u64 \<Rightarrow> u64 \<Rightarrow> u64 \<Rightarrow> trap_frame" where
  "call_frame f eid fid arg0 = f\<lparr>f_a0 := arg0, f_a1 := 0, f_a6 := fid, f_a7 := eid\<rparr>"

definition sbi_call ::
  "variant \<Rightarrow> image \<Rightarrow> trap_frame \<Rightarrow> u64 \<Rightarrow> u64 \<Rightarrow> u64 \<Rightarrow> soc \<Rightarrow> sbiret outcome option" where
  "sbi_call cfg img f eid fid arg0 s = do {
     r \<leftarrow> ecall_at cfg img (sbi_ecall_at img) (call_frame f eid fid arg0) s;
     (case r of
        Hangs s \<Rightarrow> Some (Hangs s)
      | Returns (f', pc) s \<Rightarrow>
          if pc = sbi_ecall_at img + 4
          then Some (Returns \<lparr>sbi_error = f_a0 f', sbi_value = f_a1 f'\<rparr> s) else None)
   }"

text \<open>The wrappers, over the \<open>sbi_call\<close> they are linked with.\<close>

type_synonym sbi = "u64 \<Rightarrow> u64 \<Rightarrow> u64 \<Rightarrow> soc \<Rightarrow> sbiret outcome option"

definition sbi_putchar :: "sbi \<Rightarrow> char \<Rightarrow> soc \<Rightarrow> unit outcome option" where
  "sbi_putchar call ch s = do {
     r \<leftarrow> call SBI_EXT_DEBUG_CONSOLE SBI_FUNC_DEBUG_CONSOLE_PUTCHAR (of_nat (of_char ch)) s;
     (case r of
        Hangs s \<Rightarrow> Some (Hangs s)
      | Returns ret s \<Rightarrow>
          if sbi_error ret \<noteq> SBI_SUCCESS
          then PANIC ''sbi.c'' 26 ''sbi_putchar failed error=%ld'' [VLong (sbi_error ret)] s
          else Some (Returns () s))
   }"

definition sbi_getchar :: "sbi \<Rightarrow> soc \<Rightarrow> u64 outcome option" where
  "sbi_getchar call s = do {
     r \<leftarrow> call SBI_EXT_DEBUG_CONSOLE SBI_FUNC_DEBUG_CONSOLE_GETCHAR 0 s;
     (case r of
        Hangs s \<Rightarrow> Some (Hangs s)
      | Returns ret s \<Rightarrow>
          if sbi_error ret \<noteq> SBI_SUCCESS
          then PANIC ''sbi.c'' 36 ''sbi_getchar failed error=%ld'' [VLong (sbi_error ret)] s
          else Some (Returns (sbi_value ret) s))
   }"

definition sbi_set_timer :: "sbi \<Rightarrow> u64 \<Rightarrow> soc \<Rightarrow> sbiret outcome option" where
  "sbi_set_timer call stime_value s = call SBI_EXT_TIME SBI_FUNC_TIME_SET_TIMER stime_value s"

definition sbi_test_read_pmp_word :: "sbi \<Rightarrow> soc \<Rightarrow> sbiret outcome option" where
  "sbi_test_read_pmp_word call s = call SBI_EXT_TEST SBI_FUNC_TEST_READ_PMP_WORD 0 s"

definition sbi_test_allow_exec_only_target :: "sbi \<Rightarrow> soc \<Rightarrow> sbiret outcome option" where
  "sbi_test_allow_exec_only_target call s = call SBI_EXT_TEST SBI_FUNC_TEST_ALLOW_EXEC_ONLY_TARGET 0 s"

definition sbi_test_protect_exec_target :: "sbi \<Rightarrow> soc \<Rightarrow> sbiret outcome option" where
  "sbi_test_protect_exec_target call s = call SBI_EXT_TEST SBI_FUNC_TEST_PROTECT_EXEC_TARGET 0 s"

definition sbi_test_protect_cross_exec_target :: "sbi \<Rightarrow> soc \<Rightarrow> sbiret outcome option" where
  "sbi_test_protect_cross_exec_target call s = call SBI_EXT_TEST SBI_FUNC_TEST_PROTECT_CROSS_EXEC_TARGET 0 s"


section \<open>Which CSR accesses are legal\<close>

lemma priv_le_M [simp]: "\<not> PRIV_M < (w :: priv)"
  using priv_exhaust [of w] by auto

lemma legal_in_M:
  "mode s = PRIV_M \<Longrightarrow> csr_is_implemented c \<Longrightarrow> bits 11 10 (csr_num c) \<noteq> 3 \<or> will_not_write op x0 \<Longrightarrow>
   \<not> csr_illegal s op x0 c"
  by (auto simp: csr_illegal_def)

lemma M_csrs_legal [simp]:
  "mode s = PRIV_M \<Longrightarrow> c \<in> {MSTATUS, MEPC, MCAUSE, MTVEC, MEDELEG, MIDELEG, MIE, MCOUNTEREN, PMPCFG0} \<Longrightarrow> \<not> csr_illegal s op x0 c"
  by (rule legal_in_M) (auto simp: csr_is_implemented_def bits_def)

lemma pmpaddr_legal [simp]:
  "mode s = PRIV_M \<Longrightarrow> i \<in> {0, 1, 2} \<Longrightarrow> \<not> csr_illegal s op x0 (PMPADDR i)"
  by (rule legal_in_M) (auto simp: csr_is_implemented_def bits_def)

lemma S_csrs_legal [simp]:
  "mode s = PRIV_S \<Longrightarrow> c \<in> {SSTATUS, SIE, STVEC, SEPC, SCAUSE, STVAL, SIP} \<Longrightarrow> \<not> csr_illegal s op x0 c"
  by (auto simp: csr_illegal_def csr_is_implemented_def bits_def zicntr_denied_def)


section \<open>What the M-mode handler does\<close>

lemma masked_eq: "(\<And>k. \<not> bit m k \<Longrightarrow> bit v k = bit old k) \<Longrightarrow> masked m v old = v"
  by (rule bit_word_eqI) (simp add: bit_masked_iff)

lemma bit_not_1: "bit (0xfffffffffffffffe :: u64) k \<longleftrightarrow> k < 64 \<and> k \<noteq> 0"
proof -
  have "(0xfffffffffffffffe :: u64) = NOT 1" by simp
  then show ?thesis by (simp only: bit_not_iff bit_1_iff) auto
qed

lemma masked_even: "\<not> bit v 0 \<Longrightarrow> \<not> bit old 0 \<Longrightarrow> masked 0xfffffffffffffffe v old = (v :: u64)"
  by (rule masked_eq, unfold bit_not_1) (auto dest: bit_imp_le_length)

lemma even_add_4: "\<not> bit (pc :: u64) 0 \<Longrightarrow> \<not> bit (pc + 4) 0"
  by (simp add: bit_0)

text \<open>What the handler prints before it passes an \<open>ecall\<close> on.\<close>

definition ecall_log :: "trap_frame \<Rightarrow> string" where
  "ecall_log f =
     (if f_a7 f = SBI_EXT_DEBUG_CONSOLE \<and> f_a6 f = SBI_FUNC_DEBUG_CONSOLE_PUTCHAR \<and> f_a0 f = 10 then []
      else line ''M trap from S ecall'' @ ''saved a7='' @ print_hex True (f_a7 f) @
           '' a6='' @ print_hex True (f_a6 f) @ '' a0='' @ print_hex True (f_a0 f) @ NL)"

lemma kprintf_log:
  "kprintf (line ''M trap from S ecall'') [] s = Some (s\<lparr>console := console s @ line ''M trap from S ecall''\<rparr>)"
  "kprintf (line ''saved a7=%lx a6=%lx a0=%lx'') [VLong a, VLong b, VLong c] s =
     Some (s\<lparr>console := console s @ ''saved a7='' @ print_hex True a @ '' a6='' @ print_hex True b @
             '' a0='' @ print_hex True c @ NL\<rparr>)"
  by (simp_all add: kprintf_eq line_def long_flag_def convert_def arg_ulong_def)

lemma handler_on_ecall:
  assumes "mode (csrs s) = PRIV_M" and "mcause (csrs s) = 9"
  shows "kernel_trap_handler cfg img f s =
    (case firmware_handle_sbi cfg img f (s\<lparr>console := console s @ ecall_log f\<rparr>) of
       None \<Rightarrow> None
     | Some (f', s') \<Rightarrow> map_option (Returns f') (WRITE_CSR MEPC (mepc (csrs s) + 4) s'))"
proof -
  have r: "READ_CSR MCAUSE s = Some 9" "READ_CSR MEPC s = Some (mepc (csrs s))"
    using assms by (simp_all add: READ_CSR_def)
  have "(9 :: u64) \<noteq> MCAUSE_MACHINE_TIMER_INTERRUPT" by (simp add: cause_consts)
  then show ?thesis
    unfolding kernel_trap_handler_def r kprintf_log
    by (simp add: MCAUSE_ECALL_FROM_S_def ecall_log_def map_option_case del: append.simps append_assoc
        flip: append_assoc split: option.splits prod.splits)
qed

text \<open>
  An S-mode \<open>ecall\<close> that M-mode keeps (not delegated, \<open>mtvec\<close> at the stub) runs the firmware and
  resumes after the instruction in S-mode. The gate of the CSR unit does the rest.
\<close>

definition ecalls_go_to_M :: "image \<Rightarrow> csr_file \<Rightarrow> bool" where
  "ecalls_go_to_M img c \<longleftrightarrow>
     mode c = PRIV_S \<and> \<not> bit (medeleg c) 9 \<and> mtvec c = kernel_trap_entry img \<and>
     kernel_trap_entry img AND NOT 3 = kernel_trap_entry img"

lemma ecall_cause_S: "mode c = PRIV_S \<Longrightarrow> ecall_cause c = 9"
  by (simp add: ecall_cause_def put_field_def mask_eq_exp_minus_1)

lemma ecall_at_M:
  assumes "ecalls_go_to_M img (csrs s)"
  shows "ecall_at cfg img pc f s =
    map_option (trap_return_to do_mret)
      (kernel_trap_handler cfg img f (s\<lparr>csrs := enter_trap PRIV_M pc 9 0 (csrs s)\<rparr>))"
  using assms
  by (simp add: ecall_at_def exception_at_def take_exception_def ecall_cause_S ecalls_go_to_M_def
      expt_mode_def bits_def run_trap_def m_gate.mode_enter)

lemma ecall_resumes:
  assumes "ecalls_go_to_M img (csrs s)" and "\<not> bit pc 0"
    and "firmware_handle_sbi cfg img f
           (s\<lparr>csrs := enter_trap PRIV_M pc 9 0 (csrs s), console := console s @ ecall_log f\<rparr>) = Some (f', s')"
    and "mode (csrs s') = PRIV_M" and "mepc (csrs s') = pc"
  shows "ecall_at cfg img pc f s =
    Some (Returns (f', pc + 4) (s'\<lparr>csrs := fst (do_mret ((csrs s')\<lparr>mepc := pc + 4\<rparr>))\<rparr>))"
proof -
  define c1 where "c1 = enter_trap PRIV_M pc 9 0 (csrs s)"
  have c1: "mode c1 = PRIV_M" "mcause c1 = 9" "mepc c1 = pc"
    by (simp_all add: c1_def m_gate.mode_enter m_gate.cause_enter m_gate.epc_enter)
  have "WRITE_CSR MEPC (pc + 4) s' = Some (s'\<lparr>csrs := (csrs s')\<lparr>mepc := pc + 4\<rparr>\<rparr>)"
    using assms(2,4,5) by (simp add: WRITE_CSR_def csr_write_def masked_even even_add_4)
  then show ?thesis
    using assms(3) c1
    by (simp add: ecall_at_M [OF assms(1)] handler_on_ecall trap_return_to_def m_gate.leave_pc
        case_prod_beta flip: c1_def)
qed

text \<open>The registers after a call whose handling leaves them alone.\<close>

definition ecall_done :: "u64 \<Rightarrow> csr_file \<Rightarrow> csr_file" where
  "ecall_done pc c = c\<lparr>mepc := pc + 4, mcause := 9, mtval := 0,
     mstatus := put_field 11 2 0 (put_bit 7 True (mstatus c))\<rparr>"

lemma mret_enter:
  "mode c = PRIV_S \<Longrightarrow> fst (do_mret ((enter_trap PRIV_M pc 9 0 c)\<lparr>mepc := pc + 4\<rparr>)) = ecall_done pc c"
proof -
  assume "mode c = PRIV_S"
  moreover have "put_field 11 2 0 (put_bit 7 True (put_bit 3 (bit m 3)
       (put_field 11 2 1 (put_bit 3 False (put_bit 7 (bit m 3) m))))) =
     put_field 11 2 0 (put_bit 7 True m)" for m :: u64
    by (rule bit_word_eqI) (auto simp: word_slices)
  ultimately show ?thesis
    by (simp add: do_mret_def enter_trap_def ecall_done_def mpp_put_field word_slices)
qed


section \<open>The SBI contract\<close>

text \<open>
  What \<open>sbi.c\<close> relies on. \<open>ok\<close> is the caller's situation; the firmware keeps it, reports success,
  and for \<open>putchar\<close> ends its output with the character.
\<close>

locale sbi_firmware =
  fixes call :: sbi
    and ok :: "soc \<Rightarrow> bool"
    and log :: "u64 \<Rightarrow> u64 \<Rightarrow> u64 \<Rightarrow> string"
  assumes putchar_law: "ok s \<Longrightarrow>
      \<exists>t. call SBI_EXT_DEBUG_CONSOLE SBI_FUNC_DEBUG_CONSOLE_PUTCHAR (of_nat (of_char ch)) s =
            Some (Returns \<lparr>sbi_error = 0, sbi_value = 0\<rparr> t) \<and> ok t \<and>
          console t = console s @ log SBI_EXT_DEBUG_CONSOLE SBI_FUNC_DEBUG_CONSOLE_PUTCHAR (of_nat (of_char ch)) @ [ch]"
    and getchar_law: "ok s \<Longrightarrow>
      \<exists>t. call SBI_EXT_DEBUG_CONSOLE SBI_FUNC_DEBUG_CONSOLE_GETCHAR 0 s =
            Some (Returns \<lparr>sbi_error = 0, sbi_value = fst (platform_getchar s)\<rparr> t) \<and> ok t \<and>
          dbg_input t = tl (dbg_input s)"
    and set_timer_law: "ok s \<Longrightarrow>
      \<exists>t. call SBI_EXT_TIME SBI_FUNC_TIME_SET_TIMER tm s =
            Some (Returns \<lparr>sbi_error = 0, sbi_value = 0\<rparr> t) \<and> ok t \<and> mtimecmp t = tm"
begin

lemma sbi_putchar_returns:
  "ok s \<Longrightarrow> \<exists>t. sbi_putchar call ch s = Some (Returns () t) \<and> ok t \<and>
     console t = console s @ log SBI_EXT_DEBUG_CONSOLE SBI_FUNC_DEBUG_CONSOLE_PUTCHAR (of_nat (of_char ch)) @ [ch]"
  using putchar_law [of s ch] by (auto simp: sbi_putchar_def SBI_SUCCESS_def)

lemma sbi_getchar_returns:
  "ok s \<Longrightarrow> \<exists>t. sbi_getchar call s = Some (Returns (fst (platform_getchar s)) t) \<and> ok t \<and>
     dbg_input t = tl (dbg_input s)"
  using getchar_law [of s] by (auto simp: sbi_getchar_def SBI_SUCCESS_def)

lemma sbi_set_timer_returns:
  "ok s \<Longrightarrow> \<exists>t. sbi_set_timer call tm s = Some (Returns \<lparr>sbi_error = 0, sbi_value = 0\<rparr> t) \<and> ok t \<and>
     mtimecmp t = tm"
  using set_timer_law [of s tm] by (auto simp: sbi_set_timer_def)

end


section \<open>The firmware keeps the contract\<close>

lemma enter_csrs:
  "mode (enter_trap PRIV_M pc c v s) = PRIV_M" "mepc (enter_trap PRIV_M pc c v s) = pc"
  by (simp_all add: m_gate.mode_enter m_gate.epc_enter)

lemma ecalls_go_to_M_done [simp]: "ecalls_go_to_M img (ecall_done pc c) = ecalls_go_to_M img c"
  by (simp add: ecalls_go_to_M_def ecall_done_def)

lemma sbi_call_simple:
  assumes "ecalls_go_to_M img (csrs s)" and "\<not> bit (sbi_ecall_at img) 0"
    and "firmware_handle_sbi cfg img (call_frame f eid fid arg0)
             (s\<lparr>csrs := enter_trap PRIV_M (sbi_ecall_at img) 9 0 (csrs s),
                console := console s @ ecall_log (call_frame f eid fid arg0)\<rparr>) =
           Some (f', s')"
    and "csrs s' = enter_trap PRIV_M (sbi_ecall_at img) 9 0 (csrs s)"
  shows "sbi_call cfg img f eid fid arg0 s =
           Some (Returns \<lparr>sbi_error = f_a0 f', sbi_value = f_a1 f'\<rparr>
                  (s'\<lparr>csrs := ecall_done (sbi_ecall_at img) (csrs s)\<rparr>))"
proof -
  have "mode (csrs s) = PRIV_S" using assms(1) by (simp add: ecalls_go_to_M_def)
  then show ?thesis
    using ecall_resumes [OF assms(1,2,3)] assms(4)
    by (simp add: sbi_call_def enter_csrs mret_enter)
qed

lemma fw_putchar:
  "firmware_handle_sbi cfg img (call_frame f SBI_EXT_DEBUG_CONSOLE SBI_FUNC_DEBUG_CONSOLE_PUTCHAR (of_nat (of_char ch))) s =
   Some (call_frame f SBI_EXT_DEBUG_CONSOLE SBI_FUNC_DEBUG_CONSOLE_PUTCHAR 0, s\<lparr>console := console s @ [ch]\<rparr>)"
  by (simp add: firmware_handle_sbi_def call_frame_def platform_putchar_eq SBI_SUCCESS_def)

lemma fw_getchar:
  "firmware_handle_sbi cfg img (call_frame f SBI_EXT_DEBUG_CONSOLE SBI_FUNC_DEBUG_CONSOLE_GETCHAR 0) s =
   Some ((call_frame f SBI_EXT_DEBUG_CONSOLE SBI_FUNC_DEBUG_CONSOLE_GETCHAR 0)\<lparr>f_a1 := fst (platform_getchar s)\<rparr>,
         snd (platform_getchar s))"
  by (simp add: firmware_handle_sbi_def call_frame_def sbi_consts case_prod_beta)

lemma fw_set_timer:
  "firmware_handle_sbi cfg img (call_frame f SBI_EXT_TIME SBI_FUNC_TIME_SET_TIMER tm) s =
   Some (call_frame f SBI_EXT_TIME SBI_FUNC_TIME_SET_TIMER 0, s\<lparr>mtimecmp := tm\<rparr>)"
  by (simp add: firmware_handle_sbi_def call_frame_def platform_set_timer_eq sbi_consts)

lemma platform_getchar_state: "snd (platform_getchar s) = s\<lparr>dbg_input := tl (dbg_input s)\<rparr>"
  by (simp add: platform_getchar_def dbg_read_def split: list.splits)

lemma platform_getchar_cong: "dbg_input s = dbg_input t \<Longrightarrow> fst (platform_getchar s) = fst (platform_getchar t)"
  by (simp add: platform_getchar_def dbg_read_def split: list.splits)

text \<open>The three console and timer calls, exactly.\<close>

lemma sbi_calls_eq:
  assumes "ecalls_go_to_M img (csrs s)" and "\<not> bit (sbi_ecall_at img) 0"
  shows "sbi_call cfg img f SBI_EXT_DEBUG_CONSOLE SBI_FUNC_DEBUG_CONSOLE_PUTCHAR (of_nat (of_char ch)) s =
      Some (Returns \<lparr>sbi_error = 0, sbi_value = 0\<rparr> (s\<lparr>csrs := ecall_done (sbi_ecall_at img) (csrs s),
        console := console s @ ecall_log (call_frame f SBI_EXT_DEBUG_CONSOLE SBI_FUNC_DEBUG_CONSOLE_PUTCHAR
          (of_nat (of_char ch))) @ [ch]\<rparr>))" (is ?putchar)
    and "sbi_call cfg img f SBI_EXT_DEBUG_CONSOLE SBI_FUNC_DEBUG_CONSOLE_GETCHAR 0 s =
      Some (Returns \<lparr>sbi_error = 0, sbi_value = fst (platform_getchar s)\<rparr>
        (s\<lparr>csrs := ecall_done (sbi_ecall_at img) (csrs s), dbg_input := tl (dbg_input s),
           console := console s @ ecall_log (call_frame f SBI_EXT_DEBUG_CONSOLE SBI_FUNC_DEBUG_CONSOLE_GETCHAR 0)\<rparr>))"
      (is ?getchar)
    and "sbi_call cfg img f SBI_EXT_TIME SBI_FUNC_TIME_SET_TIMER tm s =
      Some (Returns \<lparr>sbi_error = 0, sbi_value = 0\<rparr>
        (s\<lparr>csrs := ecall_done (sbi_ecall_at img) (csrs s), mtimecmp := tm,
           console := console s @ ecall_log (call_frame f SBI_EXT_TIME SBI_FUNC_TIME_SET_TIMER tm)\<rparr>))" (is ?timer)
proof -
  note call = sbi_call_simple [OF assms]
  show ?putchar using call [OF fw_putchar] by (simp add: call_frame_def)
  show ?timer using call [OF fw_set_timer] by (simp add: call_frame_def)
  have "fst (platform_getchar (s\<lparr>csrs := c, console := t\<rparr>)) = fst (platform_getchar s)" for c t
    by (rule platform_getchar_cong) simp
  then show ?getchar using call [OF fw_getchar] by (simp add: call_frame_def platform_getchar_state)
qed

interpretation os2_sbi: sbi_firmware "sbi_call cfg img f"
  "\<lambda>s. ecalls_go_to_M img (csrs s) \<and> \<not> bit (sbi_ecall_at img) 0"
  "\<lambda>eid fid arg. ecall_log (call_frame f eid fid arg)"
  by unfold_locales (auto simp: sbi_calls_eq)

end
