(* ===== verification/Boot.thy ===== *)
theory Boot
  imports Trap Pmp
begin

text \<open>
  \<open>core/test/os2_min/kernel.c\<close>: the M-mode boot code, one branch per build variant, and its drop to
  S-mode. The properties say what each variant leaves in the CSRs, and what the PMP it programs
  lets S- and U-mode do.
\<close>


section \<open>kernel.c\<close>

text \<open>\<open>enter_supervisor\<close>: the result is the hart's next pc and the state after \<open>mret\<close>.\<close>

definition enter_supervisor :: "u64 \<Rightarrow> soc \<Rightarrow> u64 outcome option" where
  "enter_supervisor entry s = do {
     mstatus \<leftarrow> READ_CSR MSTATUS s;
     let mstatus = mstatus AND NOT (push_bit 11 3);
     let mstatus = mstatus OR push_bit 11 1;
     s \<leftarrow> WRITE_CSR MSTATUS mstatus s;
     s \<leftarrow> WRITE_CSR MEPC entry s;
     (case do_mret (csrs s) of (c, pc) \<Rightarrow> Some (Returns pc (s\<lparr>csrs := c\<rparr>)))
   }"

text \<open>\<open>WRITE_CSR(c, READ_CSR(c) | bits)\<close>\<close>

definition set_csr_bits :: "csr_addr \<Rightarrow> u64 \<Rightarrow> soc \<Rightarrow> soc option" where
  "set_csr_bits c b s = do { v \<leftarrow> READ_CSR c s; WRITE_CSR c (v OR b) s }"

definition MIDELEG_STI :: u64 where "MIDELEG_STI = push_bit 5 1"
definition MCOUNTEREN_TIME :: u64 where "MCOUNTEREN_TIME = push_bit 1 1"
definition MIE_MTIE :: u64 where "MIE_MTIE = push_bit 7 1"

definition boot_pmp :: "variant \<Rightarrow> image \<Rightarrow> soc \<Rightarrow> soc option" where
  "boot_pmp cfg img s =
     (if cfg = OS2_MIN_PMP then do {
        let protected_start = pmp_protected_word_at img;
        let protected_end = protected_start + 8;
        s \<leftarrow> pmp_program protected_start protected_end (push_bit 8 PMP_A_TOR OR pmp_everything) s;
        set_csr_bits MEDELEG (push_bit (unat INSTRUCTION_ACCESS_FAULT) 1 OR
          push_bit (unat LOAD_ACCESS_FAULT) 1 OR push_bit (unat STORE_AMO_ACCESS_FAULT) 1) s
      }
      else do {
        s \<leftarrow> WRITE_CSR (PMPADDR 0) (NOT 0) s;
        WRITE_CSR PMPCFG0 (PMP_R OR PMP_W OR PMP_X OR PMP_A_NAPOT) s
      })"

definition boot_delegate :: "variant \<Rightarrow> soc \<Rightarrow> soc option" where
  "boot_delegate cfg s =
     (case cfg of
        OS2_MIN_STRAP \<Rightarrow> WRITE_CSR MEDELEG (push_bit (unat MCAUSE_ECALL_FROM_S) 1) s
      | OS2_MIN_USER \<Rightarrow> set_csr_bits MEDELEG (push_bit (unat MCAUSE_ECALL_FROM_U) 1) s
      | OS2_MIN_SV39 \<Rightarrow> set_csr_bits MEDELEG (push_bit (unat INSTRUCTION_PAGE_FAULT) 1 OR
          push_bit (unat LOAD_PAGE_FAULT) 1 OR push_bit (unat STORE_AMO_PAGE_FAULT) 1) s
      | OS2_MIN_NO_INPUT \<Rightarrow> do {
          s \<leftarrow> set_csr_bits MIDELEG MIDELEG_STI s;
          let s = platform_stop_timer s;
          s \<leftarrow> set_csr_bits MCOUNTEREN MCOUNTEREN_TIME s;
          set_csr_bits MIE MIE_MTIE s
        }
      | _ \<Rightarrow> Some s)"

text \<open>The variant without a macro prints, compares two literals and ends.\<close>

definition plain_main :: "image \<Rightarrow> mem \<Rightarrow> soc \<Rightarrow> 'a outcome option" where
  "plain_main img m s = do {
     s \<leftarrow> kprintf (line ''Hello from MiNTsOS min on my CPU'') [] s;
     s \<leftarrow> kprintf (line ''0x%x'') [VInt 0x1234abcd] s;
     s \<leftarrow> kprintf (line ''kernel base=%lx'') [VLong 0x80000000] s;
     s \<leftarrow> kprintf (line ''%s is coming'') [VStr ''Toma''] s;
     s \<leftarrow> kprintf (line ''%d'') [VInt (- 11111111)] s;
     d \<leftarrow> c_strcmp m (str_test2_at img) (str_test_at img);
     s \<leftarrow> (if d = 0 then kprintf (line ''s1 == s2'') [] s else kprintf (line ''s1 != s2'') [] s);
     Some (Hangs (platform_test_success s))
   }"

text \<open>The result of a boot that drops to S-mode: the hart's pc, and memory with \<open>.bss\<close> cleared.\<close>

definition kernel_main :: "variant \<Rightarrow> image \<Rightarrow> mem \<Rightarrow> soc \<Rightarrow> (u64 \<times> mem) outcome option" where
  "kernel_main cfg img m s =
     (let m = fst (c_memset m (bss_at img) 0 (bss_end_at img - bss_at img)) in
      if cfg = OS2_MIN_PLAIN then plain_main img m s
      else do {
        s \<leftarrow> kprintf (line ''OS2 min S-mode test'') [] s;
        s \<leftarrow> boot_pmp cfg img s;
        s \<leftarrow> boot_delegate cfg s;
        s \<leftarrow> WRITE_CSR MTVEC (kernel_trap_entry img) s;
        r \<leftarrow> enter_supervisor (supervisor_main_at img) s;
        (case r of Returns pc s \<Rightarrow> Some (Returns (pc, m) s) | Hangs s \<Rightarrow> Some (Hangs s))
      })"


section \<open>CSR writes in M-mode\<close>

lemma masked_in: "v AND NOT m = 0 \<Longrightarrow> old AND NOT m = 0 \<Longrightarrow> masked m v old = v"
proof (rule masked_eq)
  fix k assume "v AND NOT m = 0" "old AND NOT m = 0" and k: "\<not> bit m k"
  then have "\<not> bit (v AND NOT m) k" "\<not> bit (old AND NOT m) k" by simp_all
  with k show "bit v k = bit old k" by (auto simp: bit_simps dest: bit_imp_le_length)
qed

text \<open>A register whose reserved bits are zero takes the masked value.\<close>

lemma masked_zero: "old AND NOT m = 0 \<Longrightarrow> masked m v old = v AND m"
  by (simp add: masked_def)

lemma masked_and: "masked m v old AND m = v AND m"
  by (rule bit_word_eqI) (auto simp: bit_masked_iff bit_and_iff)

lemma write_M:
  assumes "mode (csrs s) = PRIV_M"
  shows "WRITE_CSR PMPCFG0 v s = Some (s\<lparr>csrs := (csrs s)\<lparr>pmpcfg0 := v AND PMPCFG0_WMASK\<rparr>\<rparr>)"
    and "i \<in> {0, 1, 2} \<Longrightarrow> WRITE_CSR (PMPADDR i) v s =
           Some (s\<lparr>csrs := (csrs s)\<lparr>pmpaddr := (pmpaddr (csrs s))(i := v AND PMPADDR_WMASK)\<rparr>\<rparr>)"
    and "WRITE_CSR MEDELEG v s = Some (s\<lparr>csrs := (csrs s)\<lparr>medeleg := masked 0xfffffffffffff7ff v (medeleg (csrs s))\<rparr>\<rparr>)"
    and "WRITE_CSR MIDELEG v s = Some (s\<lparr>csrs := (csrs s)\<lparr>mideleg := masked MIDELEG_WMASK v (mideleg (csrs s))\<rparr>\<rparr>)"
    and "WRITE_CSR MIE v s = Some (s\<lparr>csrs := (csrs s)\<lparr>mie := v AND MIE_WMASK\<rparr>\<rparr>)"
    and "WRITE_CSR MTVEC v s = Some (s\<lparr>csrs := (csrs s)\<lparr>mtvec := masked 0xfffffffffffffffd v (mtvec (csrs s))\<rparr>\<rparr>)"
    and "WRITE_CSR MCOUNTEREN v s = Some (s\<lparr>csrs := (csrs s)\<lparr>mcounteren := ucast (masked 7 v (ucast (mcounteren (csrs s))))\<rparr>\<rparr>)"
    and "WRITE_CSR MSTATUS v s = Some (s\<lparr>csrs := (csrs s)\<lparr>mstatus :=
           validate_mstatus (mstatus (csrs s)) (masked 0x7e19aa v (mstatus (csrs s)))\<rparr>\<rparr>)"
    and "WRITE_CSR MEPC v s = Some (s\<lparr>csrs := (csrs s)\<lparr>mepc := masked 0xfffffffffffffffe v (mepc (csrs s))\<rparr>\<rparr>)"
  using assms by (auto simp: WRITE_CSR_def csr_write_def masked_and)

lemma read_M:
  assumes "mode (csrs s) = PRIV_M"
  shows "READ_CSR MSTATUS s = Some (mstatus (csrs s))" "READ_CSR MEDELEG s = Some (medeleg (csrs s))"
    and "READ_CSR MIDELEG s = Some (mideleg (csrs s))" "READ_CSR MIE s = Some (mie (csrs s))"
    and "READ_CSR MCOUNTEREN s = Some (ucast (mcounteren (csrs s)))"
  using assms by (simp_all add: READ_CSR_def)


section \<open>The state each variant boots into\<close>

definition boot_pmpcfg0 :: "variant \<Rightarrow> u64" where
  "boot_pmpcfg0 cfg = (if cfg = OS2_MIN_PMP then 0x1f0800 else 0x1f)"

definition boot_pmpaddr :: "variant \<Rightarrow> image \<Rightarrow> nat \<Rightarrow> u64" where
  "boot_pmpaddr cfg img =
     (if cfg = OS2_MIN_PMP then
        (\<lambda>_. 0)(0 := drop_bit 2 (pmp_protected_word_at img) AND PMPADDR_WMASK,
                1 := drop_bit 2 (pmp_protected_word_at img + 8) AND PMPADDR_WMASK,
                2 := PMPADDR_WMASK)
      else (\<lambda>_. 0)(0 := PMPADDR_WMASK))"

definition boot_medeleg :: "variant \<Rightarrow> u64" where
  "boot_medeleg cfg =
     (case cfg of OS2_MIN_PMP \<Rightarrow> 0xa2 | OS2_MIN_STRAP \<Rightarrow> 0x200 | OS2_MIN_USER \<Rightarrow> 0x100
      | OS2_MIN_SV39 \<Rightarrow> 0xb000 | _ \<Rightarrow> 0)"

text \<open>
  The registers \<open>kernel_main\<close> has to leave in every variant but \<open>OS2_MIN_PLAIN\<close>, which never leaves
  M-mode: the specification that \<open>kernel_main_eq\<close> below checks the code against.
\<close>

definition boot_csrs :: "variant \<Rightarrow> image \<Rightarrow> csr_file" where
  "boot_csrs cfg img = csr_reset\<lparr>mode := PRIV_S, mstatus := MSTATUS_RESET OR 0x80,
     mtvec := kernel_trap_entry img, mepc := supervisor_main_at img,
     pmpcfg0 := boot_pmpcfg0 cfg, pmpaddr := boot_pmpaddr cfg img, medeleg := boot_medeleg cfg,
     mideleg := (if cfg = OS2_MIN_NO_INPUT then 0x20 else 0),
     mcounteren := (if cfg = OS2_MIN_NO_INPUT then 2 else 0),
     mie := (if cfg = OS2_MIN_NO_INPUT then 0x80 else 0)\<rparr>"

text \<open>What the linker guarantees: the stub is 4-byte aligned, code addresses are even.\<close>

definition image_ok :: "image \<Rightarrow> bool" where
  "image_ok img \<longleftrightarrow> kernel_trap_entry img AND NOT 3 = kernel_trap_entry img \<and>
     supervisor_trap_entry img AND NOT 3 = supervisor_trap_entry img \<and>
     \<not> bit (supervisor_main_at img) 0 \<and> \<not> bit (sbi_ecall_at img) 0 \<and> \<not> bit (user_entry_at img) 0"

lemma aligned_tvec: "v AND NOT 3 = v \<Longrightarrow> masked 0xfffffffffffffffd v 0 = (v :: u64)"
proof (rule masked_in)
  have e: "NOT (0xfffffffffffffffd :: u64) = 2" by simp
  assume a: "v AND NOT 3 = v"
  have "v AND 2 = (v AND NOT 3) AND 2" by (simp only: a)
  also have "\<dots> = v AND (NOT 3 AND 2)" by (simp only: and.assoc)
  also have "NOT 3 AND 2 = (0 :: u64)" by simp
  finally show "v AND NOT 0xfffffffffffffffd = 0" unfolding e by simp
qed simp

lemma aligned_bit0: "v AND NOT 3 = v \<Longrightarrow> \<not> bit (v :: u64) 0"
proof -
  assume "v AND NOT 3 = v"
  then have "bit v 0 = bit (v AND NOT 3) 0" by simp
  also have "\<dots> = False" by (simp add: bit_and_iff bit_not_iff)
  finally show ?thesis by simp
qed

lemma pmp_program_eq:
  assumes "mode (csrs s) = PRIV_M"
  shows "pmp_program start stop cfg s = Some (s\<lparr>csrs := (csrs s)\<lparr>pmpcfg0 := cfg AND PMPCFG0_WMASK,
    pmpaddr := (pmpaddr (csrs s))(0 := drop_bit 2 start AND PMPADDR_WMASK,
      1 := drop_bit 2 stop AND PMPADDR_WMASK, 2 := PMPADDR_WMASK)\<rparr>\<rparr>)"
  using assms by (simp add: pmp_program_def write_M fun_upd_twist)

lemma enter_supervisor_eq:
  assumes "mode (csrs s) = PRIV_M" and "mstatus (csrs s) = MSTATUS_RESET" and "mepc (csrs s) = 0"
    and "\<not> bit entry 0"
  shows "enter_supervisor entry s = Some (Returns entry
    (s\<lparr>csrs := (csrs s)\<lparr>mode := PRIV_S, mstatus := MSTATUS_RESET OR 0x80, mepc := entry\<rparr>\<rparr>))"
  using assms
  by (simp add: enter_supervisor_def read_M write_M masked_even do_mret_def MSTATUS_RESET_def)
    (simp add: masked_def validate_mstatus_def bits_def put_field_def put_bit_def mask_eq_exp_minus_1)

lemma kernel_main_eq:
  assumes "cfg \<noteq> OS2_MIN_PLAIN" and "image_ok img"
  shows "kernel_main cfg img m (soc_reset inp) =
    Some (Returns (supervisor_main_at img, fst (c_memset m (bss_at img) 0 (bss_end_at img - bss_at img)))
      ((soc_reset inp)\<lparr>csrs := boot_csrs cfg img, console := line ''OS2 min S-mode test''\<rparr>))"
proof -
  let ?s = "(soc_reset inp)\<lparr>console := line ''OS2 min S-mode test''\<rparr>"
  have p: "kprintf (line ''OS2 min S-mode test'') [] (soc_reset inp) = Some ?s"
    by (simp add: soc_reset_def)
  have d: "do { s \<leftarrow> boot_pmp cfg img ?s; boot_delegate cfg s } =
    Some (?s\<lparr>csrs := (boot_csrs cfg img)\<lparr>mode := PRIV_M, mstatus := MSTATUS_RESET, mtvec := 0, mepc := 0\<rparr>\<rparr>)"
    using assms(1)
    by (cases cfg) (simp_all add: boot_pmp_def boot_delegate_def pmp_program_eq write_M read_M set_csr_bits_def
        soc_reset_def csr_reset_def boot_csrs_def boot_pmpcfg0_def boot_pmpaddr_def boot_medeleg_def
        masked_def cause_consts pmp_consts pmp_everything_def PMPCFG0_WMASK_def MIDELEG_STI_def MIDELEG_WMASK_def
        MCOUNTEREN_TIME_def MIE_MTIE_def MIE_WMASK_def platform_stop_timer_eq fun_eq_iff Let_def)
  let ?u = "?s\<lparr>csrs := (boot_csrs cfg img)\<lparr>mode := PRIV_M, mstatus := MSTATUS_RESET, mtvec := 0, mepc := 0\<rparr>\<rparr>"
  have t: "WRITE_CSR MTVEC (kernel_trap_entry img) ?u =
    Some (?u\<lparr>csrs := (csrs ?u)\<lparr>mtvec := kernel_trap_entry img\<rparr>\<rparr>)"
    using assms(2) by (simp add: write_M aligned_tvec image_ok_def)
  from d obtain s1 where s1: "boot_pmp cfg img ?s = Some s1" "boot_delegate cfg s1 = Some ?u"
    by (auto simp: Option.bind_eq_Some_conv)
  have e: "enter_supervisor (supervisor_main_at img) (?u\<lparr>csrs := (csrs ?u)\<lparr>mtvec := kernel_trap_entry img\<rparr>\<rparr>) =
    Some (Returns (supervisor_main_at img) (?s\<lparr>csrs := boot_csrs cfg img\<rparr>))"
    using assms(2) by (subst enter_supervisor_eq) (auto simp: image_ok_def boot_csrs_def csr_reset_def)
  show ?thesis
    unfolding kernel_main_def p Let_def using assms(1)
    by (simp only: if_False Option.bind.bind_lunit s1 t e outcome.case) simp
qed


section \<open>What the programmed PMP lets S- and U-mode do\<close>

lemma wf_boot:
  assumes "image_ok img"
  shows "csr_wf (boot_csrs cfg img)"
proof -
  have al: "kernel_trap_entry img AND NOT 3 = kernel_trap_entry img" using assms by (simp add: image_ok_def)
  have "bit (kernel_trap_entry img) 1 = bit (kernel_trap_entry img AND NOT 3) 1" by (simp only: al)
  then have v: "\<not> bit (kernel_trap_entry img) (Suc 0)" by (simp add: bit_and_iff bit_not_iff)
  have m: "(x AND k) AND NOT k = 0" for x k :: u64
    by (rule bit_word_eqI) (auto simp: bit_simps)
  have a: "pmpaddr (boot_csrs cfg img) i AND NOT PMPADDR_WMASK = 0" for i
    by (auto simp: boot_csrs_def boot_pmpaddr_def m)
  show ?thesis
    using a v unfolding csr_wf_def
    by (auto simp: boot_csrs_def boot_pmpcfg0_def boot_medeleg_def csr_reset_def MSTATUS_RESET_def bits_def
        MIDELEG_WMASK_def MIE_WMASK_def PMPCFG0_WMASK_def split: variant.splits)
qed

text \<open>
  The layout all the PMP programs of this kernel share: entry 0 off, entry 1 a TOR region, entry 2
  everything with all permissions. An access outside entry 1's region is allowed, one inside it
  needs entry 1's permission, and one across its border is refused.
\<close>

lemma pmp_carve_out:
  assumes "csr_wf c" and "pmp_cfg c 0 = 0" and "bits 4 3 (pmp_cfg c 1) = 1" and "pmp_cfg c 2 = 0x1f"
    and "pmpaddr c 2 = PMPADDR_WMASK" and "n \<noteq> 0" and "m \<noteq> PRIV_M"
  defines "R \<equiv> region_bytes c 1"
  shows "pmp_allow m c a n t \<longleftrightarrow>
    R \<inter> access_bytes a n = {} \<or> (access_bytes a n \<subseteq> R \<and> permission_ok (pmp_cfg c 1) t)"
proof -
  have r0: "region_bytes c 0 = {}"
    using assms(2) by (simp add: region_bytes_def bits_def)
  have r2: "region_bytes c 2 = UNIV"
    using assms(4,5) by (simp add: region_bytes_def bits_def napot_bytes_def)
  have p2: "permission_ok (pmp_cfg c 2) t"
    using assms(4) by (simp add: permission_ok_def split: access_type.splits)
  have ne: "access_bytes a n \<noteq> {}"
    using assms(6) by (simp add: access_bytes_def unat_gt_0)
  let ?hit = "\<lambda>i. region_bytes c i \<inter> access_bytes a n \<noteq> {}"
  let ?first = "\<lambda>i. ?hit i \<and> (\<forall>j < i. \<not> ?hit j)"
  have first: "?first i \<longleftrightarrow> (if ?hit 1 then i = 1 else i = 2)" for i
  proof
    assume f: "?first i"
    have h2: "?hit 2" using r2 ne by simp
    then have "\<not> 2 < i" using f by blast
    then consider "i = 0" | "i = 1" | "i = 2" by linarith
    then show "if ?hit 1 then i = 1 else i = 2"
    proof cases
      case 3
      then have "\<not> ?hit 1" using f one_less_numeral_iff semiring_norm(76) by blast
      with 3 show ?thesis by simp
    qed (use f r0 in auto)
  next
    assume i: "if ?hit 1 then i = 1 else i = 2"
    show "?first i"
    proof (intro conjI allI impI)
      show "?hit i" using i r2 ne by (cases "?hit 1") simp_all
      fix j assume "j < i"
      then consider "j = 0" | "j = 1" "i = 2" using i by (cases "?hit 1") (simp_all, linarith)
      then show "\<not> ?hit j"
      proof cases
        case 2
        with i show ?thesis by (cases "?hit 1") simp_all
      qed (simp add: r0)
    qed
  qed
  have "pmp_allow m c a n t \<longleftrightarrow> pmp_spec m c a n t" using assms(1) by (rule pmp_allow_iff)
  also have "\<dots> \<longleftrightarrow> (\<exists>i < 8. ?first i \<and> access_bytes a n \<subseteq> region_bytes c i \<and> permission_ok (pmp_cfg c i) t)"
    using assms(7) by (simp add: pmp_spec_def)
  also have "\<dots> \<longleftrightarrow> R \<inter> access_bytes a n = {} \<or> (access_bytes a n \<subseteq> R \<and> permission_ok (pmp_cfg c 1) t)"
    unfolding first using r2 p2 ne by (cases "?hit 1") (auto simp: R_def)
  finally show ?thesis .
qed

text \<open>The TOR region between two word addresses, as bytes.\<close>

lemma word_aligned: "(w :: u64) AND 3 = 0 \<longleftrightarrow> unat w mod 4 = 0"
proof -
  have "w AND 3 = take_bit 2 w" by (simp add: take_bit_eq_mask mask_eq_exp_minus_1)
  moreover have "unat (take_bit 2 w) = unat w mod 4" unfolding unsigned_take_bit_eq by (simp add: take_bit_eq_mod)
  ultimately show ?thesis by (metis unsigned_0 unsigned_eq_0_iff)
qed

lemma unat_word_addr:
  assumes "w AND 3 = 0" and "unat w < 2 ^ 56"
  shows "4 * unat (drop_bit 2 w AND PMPADDR_WMASK) = unat (w :: u64)"
proof -
  have low: "unat w mod 4 = 0" using assms(1) by (simp only: word_aligned)
  have "drop_bit 2 w AND PMPADDR_WMASK = take_bit 54 (drop_bit 2 w)"
    by (simp add: PMPADDR_WMASK_def take_bit_eq_mask mask_eq_exp_minus_1)
  moreover have "unat (drop_bit 2 w) = unat w div 4"
    by (simp only: unat_drop_bit_eq) (simp add: drop_bit_eq_div)
  ultimately have "unat (drop_bit 2 w AND PMPADDR_WMASK) = unat w div 4"
    using assms(2) by (simp add: unsigned_take_bit_eq take_bit_nat_eq_self)
  with low show ?thesis using mult_div_mod_eq [of 4 "unat w"] by simp
qed

text \<open>The bytes of the region that \<open>pmp_program start stop\<close> puts into entry 1.\<close>

lemma carved_bytes:
  assumes "pmpaddr c 0 = drop_bit 2 start AND PMPADDR_WMASK" and "pmpaddr c 1 = drop_bit 2 stop AND PMPADDR_WMASK"
    and "bits 4 3 (pmp_cfg c 1) = 1" and "start AND 3 = 0" and "stop AND 3 = 0"
    and "unat start < 2 ^ 56" and "unat stop < 2 ^ 56"
  shows "region_bytes c 1 = {unat start ..< unat stop}"
  using assms unat_word_addr [of start] unat_word_addr [of stop]
  by (simp add: region_bytes_def tor_bytes_def)

lemma boot_pmp_protects:
  assumes "image_ok img" and "pmp_protected_word_at img AND 7 = 0" and "unat (pmp_protected_word_at img) + 8 < 2 ^ 56"
    and "n \<noteq> 0" and "m \<noteq> PRIV_M"
  shows "pmp_allow m (boot_csrs OS2_MIN_PMP img) a n t \<longleftrightarrow>
    {unat (pmp_protected_word_at img) ..< unat (pmp_protected_word_at img) + 8} \<inter> access_bytes a n = {}"
proof -
  let ?w = "pmp_protected_word_at img" and ?c = "boot_csrs OS2_MIN_PMP img"
  have "?w AND 3 = (?w AND 7) AND 3" by (simp add: and.assoc)
  then have al: "?w AND 3 = 0" using assms(2) by simp
  have up: "unat (?w + 8) = unat ?w + 8"
    using assms(3) by (subst unat_word_ariths) simp
  have al8: "(?w + 8) AND 3 = 0" using al unfolding word_aligned up by presburger
  have cfg: "pmp_cfg ?c 0 = 0" "pmp_cfg ?c 1 = 8" "pmp_cfg ?c 2 = 0x1f"
    by (simp_all add: pmp_cfg_def boot_csrs_def boot_pmpcfg0_def bits_def)
  then have tor: "bits 4 3 (pmp_cfg ?c 1) = 1" by (simp add: bits_def)
  have R: "region_bytes ?c 1 = {unat ?w ..< unat ?w + 8}"
    using carved_bytes [of ?c ?w "?w + 8"] tor al al8 assms(3) up
    by (simp add: boot_csrs_def boot_pmpaddr_def)
  have "\<not> permission_ok (pmp_cfg ?c 1) t"
    unfolding cfg by (simp add: permission_ok_def split: access_type.splits)
  moreover have "pmpaddr ?c 2 = PMPADDR_WMASK" by (simp add: boot_csrs_def boot_pmpaddr_def)
  ultimately show ?thesis
    using pmp_carve_out [OF wf_boot [OF assms(1)] cfg(1) tor cfg(3) _ assms(4,5), of a t] by (simp only: R) simp
qed

lemma boot_pmp_open:
  assumes "image_ok img" and "cfg \<noteq> OS2_MIN_PMP" and "n \<noteq> 0"
  shows "pmp_allow m (boot_csrs cfg img) a n t"
proof -
  let ?c = "boot_csrs cfg img"
  have "pmp_cfg ?c 0 = 0x1f" "pmpaddr ?c 0 = PMPADDR_WMASK"
    using assms(2) by (simp_all add: pmp_cfg_def boot_csrs_def boot_pmpcfg0_def boot_pmpaddr_def bits_def)
  then have "region_bytes ?c 0 = UNIV" "permission_ok (pmp_cfg ?c 0) t"
    by (simp_all add: region_bytes_def bits_def napot_bytes_def permission_ok_def split: access_type.splits)
  moreover have "access_bytes a n \<noteq> {}" using assms(3) by (simp add: access_bytes_def unat_gt_0)
  ultimately have "pmp_spec m ?c a n t"
    unfolding pmp_spec_def by (intro disjI2 exI [of _ 0]) simp
  then show ?thesis using pmp_allow_iff [OF wf_boot [OF assms(1)]] by simp
qed

text \<open>The three permission sets this kernel gives to a carved-out block.\<close>

lemma pmp_program_carves:
  assumes "csr_wf (csrs s)" and "mode (csrs s) = PRIV_M"
    and "perm \<in> {0, PMP_X, PMP_R OR PMP_W}"
    and "start AND 3 = 0" and "stop AND 3 = 0" and "unat start < 2 ^ 56" and "unat stop < 2 ^ 56"
  obtains c where "pmp_program start stop (push_bit 8 (perm OR PMP_A_TOR) OR pmp_everything) s = Some (s\<lparr>csrs := c\<rparr>)"
    and "\<And>m a n t. m \<noteq> PRIV_M \<Longrightarrow> n \<noteq> 0 \<Longrightarrow> pmp_allow m c a n t \<longleftrightarrow>
           {unat start ..< unat stop} \<inter> access_bytes a n = {} \<or>
           (access_bytes a n \<subseteq> {unat start ..< unat stop} \<and> permission_ok perm t)"
proof
  define c where "c = (csrs s)\<lparr>pmpcfg0 := (push_bit 8 (perm OR PMP_A_TOR) OR pmp_everything) AND PMPCFG0_WMASK,
    pmpaddr := (pmpaddr (csrs s))(0 := drop_bit 2 start AND PMPADDR_WMASK,
      1 := drop_bit 2 stop AND PMPADDR_WMASK, 2 := PMPADDR_WMASK)\<rparr>"
  show "pmp_program start stop (push_bit 8 (perm OR PMP_A_TOR) OR pmp_everything) s = Some (s\<lparr>csrs := c\<rparr>)"
    by (simp add: pmp_program_eq [OF assms(2)] c_def)
  have z: "(x AND k) AND NOT k = 0" for x k :: u64
    by (rule bit_word_eqI) (auto simp: bit_simps)
  have wf: "csr_wf c"
    using assms(1) z by (auto simp: csr_wf_def c_def)
  have cfg: "pmp_cfg c 0 = 0" "pmp_cfg c 1 = perm OR PMP_A_TOR" "pmp_cfg c 2 = 0x1f"
    and tor: "bits 4 3 (pmp_cfg c 1) = 1" and perm: "permission_ok (perm OR PMP_A_TOR) t = permission_ok perm t" for t
    using assms(3) by (auto simp: pmp_cfg_def c_def bits_def pmp_consts pmp_everything_def PMPCFG0_WMASK_def
        permission_ok_def split: access_type.splits)
  have R: "region_bytes c 1 = {unat start ..< unat stop}"
    by (rule carved_bytes [OF _ _ tor assms(4,5,6,7)]) (simp_all add: c_def)
  fix m :: priv and a n :: u64 and t assume "m \<noteq> PRIV_M" "n \<noteq> 0"
  moreover have "pmpaddr c 2 = PMPADDR_WMASK" by (simp add: c_def)
  ultimately show "pmp_allow m c a n t \<longleftrightarrow>
           {unat start ..< unat stop} \<inter> access_bytes a n = {} \<or>
           (access_bytes a n \<subseteq> {unat start ..< unat stop} \<and> permission_ok perm t)"
    using pmp_carve_out [OF wf cfg(1) tor cfg(3), of n m a t] by (simp only: R cfg(2) perm) simp
qed


section \<open>Properties\<close>

text \<open>
  C6. From reset, every variant that boots to S-mode does so: no CSR access traps and no print is
  undefined, the hart ends in S-mode at \<open>supervisor_main\<close> with interrupts of M-mode off, \<open>.bss\<close>
  zeroed, and exactly the delegation, timer and PMP registers of its variant set.
\<close>
theorem kernel_main_boots:
  "cfg \<noteq> OS2_MIN_PLAIN \<Longrightarrow> image_ok img \<Longrightarrow>
   kernel_main cfg img m (soc_reset inp) =
     Some (Returns (supervisor_main_at img,
                    \<lambda>a. if a - bss_at img < bss_end_at img - bss_at img then 0 else m a)
       ((soc_reset inp)\<lparr>csrs := boot_csrs cfg img, console := line ''OS2 min S-mode test''\<rparr>))"
  by (simp add: kernel_main_eq c_memset_def memset_loop_eq)

definition demo_image :: image where
  "demo_image = \<lparr>kernel_trap_entry = 0x80000100, supervisor_trap_entry = 0x80000200,
     supervisor_main_at = 0x80000300, user_entry_at = 0x80000400, sbi_ecall_at = 0x80000500,
     bss_at = 0x80008000, bss_end_at = 0x80008100, str_test2_at = 0x80007000, str_test_at = 0x80007008,
     pmp_protected_word_at = 0x80009000, pmp_protected_exec_target_at = 0x80000600,
     pmp_cross_exec_target_at = 0x80000702, sv39_noexec_target_at = 0x80005000, sv39_user_page_at = 0x8000a000,
     sv39_exec_page_at = 0x8000b000, sv39_accessed_page_at = 0x8000c000, sv39_dirty_page_at = 0x8000d000,
     sv39_readonly_page_at = 0x8000e000\<rparr>"

lemma demo_image_ok: "image_ok demo_image"
  by (simp add: image_ok_def demo_image_def bit_0)

theorem kernel_main_boots_witness:
  "kernel_main OS2_MIN_NO_INPUT demo_image (\<lambda>_. 0xff) (soc_reset []) =
     Some (Returns (0x80000300, \<lambda>a. if a - 0x80008000 < 0x100 then 0 else 0xff)
       ((soc_reset [])\<lparr>csrs := boot_csrs OS2_MIN_NO_INPUT demo_image, console := line ''OS2 min S-mode test''\<rparr>))"
  using kernel_main_boots [of OS2_MIN_NO_INPUT demo_image "\<lambda>_. 0xff" "[]"] demo_image_ok
  by (simp add: demo_image_def)

text \<open>
  C7. The PMP of the booted kernel. Whatever variant of the kernel boots to S-mode (all but
  \<open>OS2_MIN_PLAIN\<close>, which stays in M-mode and programs no PMP), \<open>kernel_main\<close> run from reset leaves PMP
  registers with which S- and U-mode may access, in the PMP variant, exactly the accesses that miss
  the eight bytes of \<open>pmp_protected_word\<close> (an overlap of one byte is refused, for every kind of
  access), and in the other variants everything. The word is aligned to its size and lies in the
  56-bit physical address space, as the linker places it.
\<close>
theorem boot_pmp_policy:
  assumes "cfg \<noteq> OS2_MIN_PLAIN" and "image_ok img"
    and "pmp_protected_word_at img AND 7 = 0" and "unat (pmp_protected_word_at img) + 8 < 2 ^ 56"
  shows "\<exists>r s. kernel_main cfg img mem (soc_reset inp) = Some (Returns r s) \<and> mode (csrs s) = PRIV_S \<and>
    (\<forall>m a n t. m \<noteq> PRIV_M \<longrightarrow> n \<noteq> 0 \<longrightarrow>
      (pmp_allow m (csrs s) a n t \<longleftrightarrow>
        cfg \<noteq> OS2_MIN_PMP \<or>
        {unat (pmp_protected_word_at img) ..< unat (pmp_protected_word_at img) + 8} \<inter> access_bytes a n = {}))"
proof -
  have "pmp_allow m (boot_csrs cfg img) a n t \<longleftrightarrow> cfg \<noteq> OS2_MIN_PMP \<or>
      {unat (pmp_protected_word_at img) ..< unat (pmp_protected_word_at img) + 8} \<inter> access_bytes a n = {}"
    if "m \<noteq> PRIV_M" "n \<noteq> 0" for m a n t
    using boot_pmp_open [OF assms(2) _ that(2), of cfg m a t] boot_pmp_protects [OF assms(2,3,4) that(2,1), of a t]
    by (cases "cfg = OS2_MIN_PMP") simp_all
  moreover have "mode (boot_csrs cfg img) = PRIV_S" by (simp add: boot_csrs_def)
  ultimately show ?thesis using kernel_main_eq [OF assms(1,2), of mem inp] by auto
qed

theorem boot_pmp_policy_witness:
  "\<exists>r s. kernel_main OS2_MIN_PMP demo_image (\<lambda>_. 0) (soc_reset []) = Some (Returns r s) \<and>
     \<not> pmp_allow PRIV_S (csrs s) 0x80008ffc 8 PMP_ACCESS_READ \<and>
     pmp_allow PRIV_U (csrs s) 0x80008ff8 8 PMP_ACCESS_WRITE"
proof -
  have w: "pmp_protected_word_at demo_image = 0x80009000" by (simp add: demo_image_def)
  have "\<exists>r s. kernel_main OS2_MIN_PMP demo_image (\<lambda>_. 0) (soc_reset []) = Some (Returns r s) \<and>
    mode (csrs s) = PRIV_S \<and> (\<forall>m a n t. m \<noteq> PRIV_M \<longrightarrow> n \<noteq> 0 \<longrightarrow>
      (pmp_allow m (csrs s) a n t \<longleftrightarrow> OS2_MIN_PMP \<noteq> OS2_MIN_PMP \<or>
        {unat (pmp_protected_word_at demo_image) ..< unat (pmp_protected_word_at demo_image) + 8}
          \<inter> access_bytes a n = {}))"
    by (rule boot_pmp_policy [OF _ demo_image_ok]) (simp_all add: w)
  then show ?thesis unfolding w by (force simp: access_bytes_def)
qed

text \<open>
  The firmware's PMP test calls. Reprogramming in M-mode always succeeds and replaces the
  policy at once: outside \<open>[start, stop)\<close> S- and U-mode may do everything, inside it exactly what
  \<open>perm\<close> grants (nothing, execute only, or read and write only), and an access that crosses the
  border of the block is refused whatever \<open>perm\<close> is.
\<close>
theorem pmp_program_policy:
  assumes "csr_wf (csrs s)" and "mode (csrs s) = PRIV_M"
    and "perm \<in> {0, PMP_X, PMP_R OR PMP_W}"
    and "start AND 3 = 0" and "stop AND 3 = 0" and "unat start < 2 ^ 56" and "unat stop < 2 ^ 56"
    and "m \<noteq> PRIV_M" and "n \<noteq> 0"
  shows "\<exists>c. pmp_program start stop (push_bit 8 (perm OR PMP_A_TOR) OR pmp_everything) s = Some (s\<lparr>csrs := c\<rparr>) \<and>
    (pmp_allow m c a n t \<longleftrightarrow>
       {unat start ..< unat stop} \<inter> access_bytes a n = {} \<or>
       (access_bytes a n \<subseteq> {unat start ..< unat stop} \<and> permission_ok perm t))"
  using pmp_program_carves [OF assms(1-7)] assms(8,9) by metis

theorem pmp_program_policy_witness:
  "\<exists>c. pmp_program 0x80000600 0x80000608 (push_bit 8 (PMP_X OR PMP_A_TOR) OR pmp_everything) (soc_reset []) =
         Some ((soc_reset [])\<lparr>csrs := c\<rparr>) \<and>
       pmp_allow PRIV_S c 0x80000604 2 PMP_ACCESS_EXEC"
proof -
  have "access_bytes 0x80000604 2 \<subseteq> {unat (0x80000600 :: u64) ..< unat (0x80000608 :: u64)}"
    by (auto simp: access_bytes_def)
  moreover have "permission_ok PMP_X PMP_ACCESS_EXEC" by (simp add: permission_ok_def PMP_X_def)
  moreover have "\<exists>c. pmp_program 0x80000600 0x80000608 (push_bit 8 (PMP_X OR PMP_A_TOR) OR pmp_everything) (soc_reset []) =
         Some ((soc_reset [])\<lparr>csrs := c\<rparr>) \<and>
       (pmp_allow PRIV_S c 0x80000604 2 PMP_ACCESS_EXEC \<longleftrightarrow>
       {unat (0x80000600 :: u64) ..< unat (0x80000608 :: u64)} \<inter> access_bytes 0x80000604 2 = {} \<or>
       (access_bytes 0x80000604 2 \<subseteq> {unat (0x80000600 :: u64) ..< unat (0x80000608 :: u64)} \<and>
        permission_ok PMP_X PMP_ACCESS_EXEC))"
    by (rule pmp_program_policy) (simp_all add: soc_reset_def wf_reset, simp_all add: csr_reset_def)
  ultimately show ?thesis by blast
qed

end
