(* ===== verification/Timer.thy ===== *)
theory Timer
  imports Boot
begin

text \<open>
  The timer path of the kernel from end to end: \<open>sbi_set_timer\<close> arms the ACLINT, the M-mode timer
  interrupt hands the event to S-mode as STIP, the S-mode handler clears it. Both interrupts run
  through the CSR unit, the stubs and the handlers of \<open>trap.c\<close>.
\<close>

text \<open>
  The state of the timer test between two events: booted with the timer variant's registers,
  S-mode with its interrupts enabled, nothing pending but what the comparator says.
\<close>

definition timer_ready :: "image \<Rightarrow> soc \<Rightarrow> bool" where
  "timer_ready img s \<longleftrightarrow>
     image_ok img \<and> ecalls_go_to_M img (csrs s) \<and>
     mie (csrs s) = 0x80 \<and> mideleg (csrs s) = 0x20 \<and> mip_reg (csrs s) = 0 \<and> sie (csrs s) = 0x20 \<and>
     bit (mstatus (csrs s)) 1 \<and> stvec (csrs s) = supervisor_trap_entry img \<and>
     \<not> ext_meip s \<and> \<not> ext_seip s \<and> \<not> msip s"

text \<open>What the two handlers print.\<close>

definition s_trap_log :: "trap_frame \<Rightarrow> u64 \<Rightarrow> u64 \<Rightarrow> string" where
  "s_trap_log f cause epc =
     ''S trap scause='' @ print_hex True cause @ '' sepc='' @ print_hex True epc @ NL @
     ''saved a0='' @ print_hex True (f_a0 f) @ '' sp='' @ print_hex True (f_sp f) @ NL"

lemma kprintf_s_trap:
  "kprintf (line ''S trap scause=%lx sepc=%lx'') [VLong a, VLong b] s =
     Some (s\<lparr>console := console s @ ''S trap scause='' @ print_hex True a @ '' sepc='' @ print_hex True b @ NL\<rparr>)"
  "kprintf (line ''saved a0=%lx sp=%lx'') [VLong a, VLong b] s =
     Some (s\<lparr>console := console s @ ''saved a0='' @ print_hex True a @ '' sp='' @ print_hex True b @ NL\<rparr>)"
  by (simp_all add: kprintf_eq line_def long_flag_def convert_def arg_ulong_def)


section \<open>The M-mode half\<close>

lemma M_timer_handler:
  assumes "mode (csrs s) = PRIV_M" and "mcause (csrs s) = MACHINE_TIMER_INTERRUPT"
  shows "kernel_trap_handler cfg img f s = Some (Returns f
    (s\<lparr>mtimecmp := -1, console := console s @ line ''M timer interrupt'',
       csrs := set_pending False True (csrs s)\<rparr>))"
proof -
  have r: "READ_CSR MCAUSE s = Some MACHINE_TIMER_INTERRUPT" "READ_CSR MEPC s = Some (mepc (csrs s))"
    using assms by (simp_all add: READ_CSR_def)
  have "MACHINE_TIMER_INTERRUPT = MCAUSE_MACHINE_TIMER_INTERRUPT"
    by (simp add: MACHINE_TIMER_INTERRUPT_def MCAUSE_MACHINE_TIMER_INTERRUPT_def)
  then show ?thesis
    unfolding kernel_trap_handler_def r by (simp add: platform_eqs)
qed

text \<open>The registers after the M-mode half.\<close>

definition timer_forwarded :: "u64 \<Rightarrow> csr_file \<Rightarrow> csr_file" where
  "timer_forwarded pc c = c\<lparr>mepc := pc, mcause := MACHINE_TIMER_INTERRUPT, mtval := 0,
     mip_reg := mip_reg c OR 0x20, mstatus := put_field 11 2 0 (put_bit 7 True (mstatus c))\<rparr>"

lemma mret_timer:
  "mode c = PRIV_S \<Longrightarrow>
   do_mret (set_pending False True (enter_trap PRIV_M pc MACHINE_TIMER_INTERRUPT 0 c)) = (timer_forwarded pc c, pc)"
proof -
  assume "mode c = PRIV_S"
  moreover have "put_field 11 2 0 (put_bit 7 True (put_bit 3 (bit m 3)
       (put_field 11 2 1 (put_bit 3 False (put_bit 7 (bit m 3) m))))) =
     put_field 11 2 0 (put_bit 7 True m)" for m :: u64
    by (rule bit_word_eqI) (auto simp: word_slices)
  ultimately show ?thesis
    by (simp add: do_mret_def enter_trap_def timer_forwarded_def set_pending_def mpp_put_field word_slices)
qed

text \<open>Where an interrupt at \<open>pc\<close> resumes: after a \<open>wfi\<close>, otherwise at \<open>pc\<close>.\<close>

definition intr_pc :: "bool \<Rightarrow> u64 \<Rightarrow> u64" where
  "intr_pc w pc = (if w then pc + 4 else pc)"

lemma M_timer_interrupt:
  assumes "timer_ready img s" and "mtimecmp s \<le> mtime s"
  shows "interrupt_at cfg img pc w f s = Some (Returns (f, intr_pc w pc)
    (s\<lparr>mtimecmp := -1, console := console s @ line ''M timer interrupt'', csrs := timer_forwarded (intr_pc w pc) (csrs s)\<rparr>))"
proof -
  let ?c = "csrs s"
  have c: "mode ?c = PRIV_S" "mie ?c = 0x80" "mideleg ?c = 0x20" "mip_reg ?c = 0" "mtvec ?c = kernel_trap_entry img"
    and al: "kernel_trap_entry img AND NOT 3 = kernel_trap_entry img"
    using assms(1) by (auto simp: timer_ready_def ecalls_go_to_M_def)
  have "mip (wires s) ?c = 0x80"
    using assms(1,2) by (simp add: mip_def wires_def timer_ready_def)
  then have p: "pending_m (wires s) ?c = 0x80" using c by (simp add: pending_m_def)
  then have r: "raise_m (wires s) ?c" using c by (simp add: raise_m_def)
  have "take_interrupt (wires s) pc w ?c =
      Some (enter_trap PRIV_M (intr_pc w pc) MACHINE_TIMER_INTERRUPT 0 ?c, kernel_trap_entry img)"
    using r p c al aligned_bit0 [OF al] by (simp add: take_interrupt_def cause_m_def intr_pc_def)
  then show ?thesis
    by (simp add: interrupt_at_def run_trap_def m_gate.mode_enter m_gate.cause_enter M_timer_handler
        trap_return_to_def mret_timer c)
qed


section \<open>The S-mode half\<close>

lemma S_timer_handler:
  assumes "mode (csrs s) = PRIV_S" and "scause (csrs s) = SUPERVISOR_TIMER_INTERRUPT"
    and "mideleg (csrs s) = 0x20" and "mip_reg (csrs s) = 0x20" and "mtime s < mtimecmp s"
    and "\<not> ext_meip s" and "\<not> ext_seip s" and "\<not> msip s"
  shows "supervisor_trap_handler cfg img f s = Some (Returns f
    (s\<lparr>console := console s @ s_trap_log f SUPERVISOR_TIMER_INTERRUPT (sepc (csrs s)) @ line ''S timer interrupt'',
       csrs := (csrs s)\<lparr>mip_reg := 0\<rparr>\<rparr>))"
proof -
  have r: "READ_CSR SCAUSE s = Some SUPERVISOR_TIMER_INTERRUPT" "READ_CSR SEPC s = Some (sepc (csrs s))"
    "READ_CSR STVAL s = Some (stval (csrs s))"
    using assms by (simp_all add: READ_CSR_def)
  have c: "SUPERVISOR_TIMER_INTERRUPT \<notin> {INSTRUCTION_PAGE_FAULT, MCAUSE_ECALL_FROM_S, MCAUSE_ECALL_FROM_U,
      LOAD_ACCESS_FAULT, STORE_AMO_ACCESS_FAULT, INSTRUCTION_ACCESS_FAULT, LOAD_PAGE_FAULT, STORE_AMO_PAGE_FAULT}"
    "SUPERVISOR_TIMER_INTERRUPT = SCAUSE_SUPERVISOR_TIMER_INTERRUPT"
    by (simp_all add: SUPERVISOR_TIMER_INTERRUPT_def cause_consts)
  have t: "s_timer_case f SUPERVISOR_TIMER_INTERRUPT (s\<lparr>console := t\<rparr>) =
    Some (Returns f (s\<lparr>console := t @ line ''S timer interrupt'', csrs := (csrs s)\<lparr>mip_reg := 0\<rparr>\<rparr>))" for t
    using assms c(2)
    by (simp add: s_timer_case_def READ_CSR_def WRITE_CSR_def csr_write_def sip_def mip_def wires_def SIP_STIP_def
        SIP_WMASK_def masked_def not_le)
  have o: "s_other_cases cfg img f SUPERVISOR_TIMER_INTERRUPT e v (s\<lparr>console := t\<rparr>) =
    s_timer_case f SUPERVISOR_TIMER_INTERRUPT (s\<lparr>console := t\<rparr>)" for e v t
    using c(1) by (simp add: s_other_cases_def s_pmp_cases_def s_sv39_cases_def Let_def)
  show ?thesis
    using c(1) unfolding supervisor_trap_handler_def r kprintf_s_trap Let_def
    by (simp add: o t s_trap_log_def)
qed

definition timer_served :: "u64 \<Rightarrow> csr_file \<Rightarrow> csr_file" where
  "timer_served pc c = c\<lparr>sepc := pc, scause := SUPERVISOR_TIMER_INTERRUPT, stval := 0, mip_reg := 0,
     mstatus := put_bit 8 False (put_bit 5 True (mstatus c))\<rparr>"

lemma sret_timer:
  "mode c = PRIV_S \<Longrightarrow> bit (mstatus c) 1 \<Longrightarrow>
   do_sret ((enter_trap PRIV_S pc SUPERVISOR_TIMER_INTERRUPT 0 c)\<lparr>mip_reg := 0\<rparr>) = (timer_served pc c, pc)"
proof -
  assume "mode c = PRIV_S" "bit (mstatus c) 1"
  moreover have "put_bit 8 False (put_bit 5 True (put_bit 1 True
       (put_bit 8 True (put_bit 1 False (put_bit 5 True m))))) = put_bit 8 False (put_bit 5 True m)"
    if "bit m 1" for m :: u64
    using that by (intro bit_word_eqI) (auto simp: word_slices)
  ultimately show ?thesis
    by (simp add: do_sret_def enter_trap_def timer_served_def word_slices)
qed

lemma S_timer_interrupt:
  assumes "image_ok img" and "mode (csrs s) = PRIV_S" and "bit (mstatus (csrs s)) 1"
    and "mie (csrs s) = 0x80" and "mideleg (csrs s) = 0x20" and "mip_reg (csrs s) = 0x20" and "sie (csrs s) = 0x20"
    and "stvec (csrs s) = supervisor_trap_entry img" and "mtime s < mtimecmp s"
    and "\<not> ext_meip s" and "\<not> ext_seip s" and "\<not> msip s"
  shows "interrupt_at cfg img pc False f s = Some (Returns (f, pc)
    (s\<lparr>console := console s @ s_trap_log f SUPERVISOR_TIMER_INTERRUPT pc @ line ''S timer interrupt'',
       csrs := timer_served pc (csrs s)\<rparr>))"
proof -
  let ?c = "csrs s"
  have al: "supervisor_trap_entry img AND NOT 3 = supervisor_trap_entry img"
    using assms(1) by (simp add: image_ok_def)
  have m: "mip (wires s) ?c = 0x20" using assms by (simp add: mip_def wires_def not_le)
  have r: "\<not> raise_m (wires s) ?c" "raise_s (wires s) ?c" and p: "pending_s (wires s) ?c = 0x20"
    using m assms by (simp_all add: raise_m_def pending_m_def raise_s_def pending_s_def sip_def)
  have "take_interrupt (wires s) pc False ?c =
      Some (enter_trap PRIV_S pc SUPERVISOR_TIMER_INTERRUPT 0 ?c, supervisor_trap_entry img)"
    using r p assms(8) al aligned_bit0 [OF al] by (simp add: take_interrupt_def cause_s_def)
  moreover have "supervisor_trap_handler cfg img f (s\<lparr>csrs := enter_trap PRIV_S pc SUPERVISOR_TIMER_INTERRUPT 0 ?c\<rparr>) =
    Some (Returns f (s\<lparr>console := console s @ s_trap_log f SUPERVISOR_TIMER_INTERRUPT pc @ line ''S timer interrupt'',
      csrs := (enter_trap PRIV_S pc SUPERVISOR_TIMER_INTERRUPT 0 ?c)\<lparr>mip_reg := 0\<rparr>\<rparr>))"
    using assms by (subst S_timer_handler) (auto simp: enter_trap_def)
  ultimately show ?thesis
    by (simp add: interrupt_at_def run_trap_def s_gate.mode_enter trap_return_to_def
        sret_timer [OF assms(2,3)])
qed


section \<open>Both halves\<close>

lemma timer_ready_after:
  "timer_ready img s \<Longrightarrow> timer_ready img (s\<lparr>mtimecmp := t, console := w, csrs := timer_served pc (timer_forwarded pc' (csrs s))\<rparr>)"
  by (auto simp: timer_ready_def ecalls_go_to_M_def timer_served_def timer_forwarded_def word_slices)

lemma timer_ready_pending:
  assumes "timer_ready img s"
  shows "take_interrupt (wires s) pc w (csrs s) = None \<longleftrightarrow> mtime s < mtimecmp s"
proof -
  have "raise_m (wires s) (csrs s) \<longleftrightarrow> mtimecmp s \<le> mtime s" "\<not> raise_s (wires s) (csrs s)"
    using assms by (auto simp: raise_m_def raise_s_def pending_m_def pending_s_def sip_def mip_def wires_def
        timer_ready_def ecalls_go_to_M_def)
  then show ?thesis by (auto simp: take_interrupt_def Let_def)
qed

lemma timer_ready_idle:
  "timer_ready img s \<Longrightarrow> mtime s < mtimecmp s \<Longrightarrow> interrupt_at cfg img pc w f s = Some (Returns (f, pc) s)"
  using timer_ready_pending [of img s pc w] by (simp add: interrupt_at_def)

text \<open>The SoC after the M-mode half, and after both.\<close>

definition after_M_timer :: "u64 \<Rightarrow> soc \<Rightarrow> soc" where
  "after_M_timer pc s = s\<lparr>mtimecmp := -1, console := console s @ line ''M timer interrupt'',
     csrs := timer_forwarded pc (csrs s)\<rparr>"

definition after_timer :: "trap_frame \<Rightarrow> u64 \<Rightarrow> soc \<Rightarrow> soc" where
  "after_timer f pc s = s\<lparr>mtimecmp := -1,
     console := console s @ line ''M timer interrupt'' @ s_trap_log f SUPERVISOR_TIMER_INTERRUPT pc @
                line ''S timer interrupt'',
     csrs := timer_served pc (timer_forwarded pc (csrs s))\<rparr>"

lemma timer_event:
  assumes "timer_ready img s" and "mtimecmp s \<le> mtime s" and "mtime s \<noteq> -1"
  shows "interrupt_at cfg img pc w f s = Some (Returns (f, intr_pc w pc) (after_M_timer (intr_pc w pc) s))"
    and "interrupt_at cfg img (intr_pc w pc) False f (after_M_timer (intr_pc w pc) s) =
           Some (Returns (f, intr_pc w pc) (after_timer f (intr_pc w pc) s))"
proof -
  show "interrupt_at cfg img pc w f s = Some (Returns (f, intr_pc w pc) (after_M_timer (intr_pc w pc) s))"
    unfolding after_M_timer_def by (rule M_timer_interrupt [OF assms(1,2)])
  have "mtime s < -1" using assms(3) by (simp add: order_less_le)
  then show "interrupt_at cfg img (intr_pc w pc) False f (after_M_timer (intr_pc w pc) s) =
           Some (Returns (f, intr_pc w pc) (after_timer f (intr_pc w pc) s))"
    using assms(1) unfolding after_M_timer_def after_timer_def
    by (subst S_timer_interrupt) (auto simp: timer_ready_def ecalls_go_to_M_def timer_forwarded_def word_slices)
qed

lemma timer_ready_tick: "timer_ready img (aclint_tick s) = timer_ready img s"
  by (simp add: timer_ready_def aclint_tick_def)

lemma ticks: "(aclint_tick ^^ n) s = s\<lparr>mtime := mtime s + of_nat n\<rparr>"
  by (induction n) (simp_all add: aclint_tick_def add.assoc add.commute)

lemma set_timer_ready:
  assumes "timer_ready img s"
  shows "sbi_set_timer (sbi_call cfg img f) t s =
    Some (Returns \<lparr>sbi_error = 0, sbi_value = 0\<rparr>
      (s\<lparr>csrs := ecall_done (sbi_ecall_at img) (csrs s), mtimecmp := t,
         console := console s @ ecall_log (call_frame f SBI_EXT_TIME SBI_FUNC_TIME_SET_TIMER t)\<rparr>))"
    and "timer_ready img (s\<lparr>csrs := ecall_done (sbi_ecall_at img) (csrs s), mtimecmp := t, console := w, mtime := x\<rparr>)"
  using assms
  by (auto simp: sbi_set_timer_def sbi_calls_eq timer_ready_def image_ok_def ecalls_go_to_M_def ecall_done_def
      word_slices)


section \<open>Properties\<close>

text \<open>
  \<open>sbi_set_timer\<close> succeeds from S-mode, arms the comparator with the requested time and leaves
  the hart ready; after any number of clock ticks an interrupt is taken exactly when the (wrapping)
  time has reached the request, never before.
\<close>
theorem set_timer_arms:
  "timer_ready img s \<Longrightarrow>
   \<exists>s'. sbi_set_timer (sbi_call cfg img f) t s = Some (Returns \<lparr>sbi_error = 0, sbi_value = 0\<rparr> s') \<and>
        (let u = (aclint_tick ^^ n) s'
         in timer_ready img u \<and>
            (take_interrupt (wires u) pc w (csrs u) \<noteq> None \<longleftrightarrow> t \<le> mtime s + of_nat n))"
proof -
  assume r: "timer_ready img s"
  let ?s' = "s\<lparr>csrs := ecall_done (sbi_ecall_at img) (csrs s), mtimecmp := t,
         console := console s @ ecall_log (call_frame f SBI_EXT_TIME SBI_FUNC_TIME_SET_TIMER t)\<rparr>"
  have "timer_ready img ((aclint_tick ^^ n) ?s')"
    unfolding ticks by (rule set_timer_ready(2) [OF r])
  moreover from timer_ready_pending [OF this, of pc w]
  have "take_interrupt (wires ((aclint_tick ^^ n) ?s')) pc w (csrs ((aclint_tick ^^ n) ?s')) \<noteq> None \<longleftrightarrow>
      t \<le> mtime s + of_nat n"
    by (simp add: ticks not_less)
  ultimately show ?thesis using set_timer_ready(1) [OF r, of cfg f t] by (auto simp: Let_def)
qed

text \<open>The booted timer variant once \<open>test_sbi_timer\<close> has set \<open>stvec\<close>, \<open>sie\<close> and \<open>sstatus\<close>.\<close>

definition demo_timer_soc :: soc where
  "demo_timer_soc = (soc_reset [])\<lparr>csrs := (boot_csrs OS2_MIN_NO_INPUT demo_image)\<lparr>stvec := 0x80000200,
     sie := 0x20, mstatus := MSTATUS_RESET OR 0x82\<rparr>, mtime := 1000, mtimecmp := 900\<rparr>"

lemma demo_timer_ready: "timer_ready demo_image demo_timer_soc"
  using demo_image_ok
  by (simp add: timer_ready_def ecalls_go_to_M_def demo_timer_soc_def boot_csrs_def soc_reset_def
      csr_reset_def boot_medeleg_def demo_image_def MSTATUS_RESET_def bit_numeral_rec)

theorem set_timer_arms_witness:
  "\<exists>s'. sbi_set_timer (sbi_call OS2_MIN_NO_INPUT demo_image (frame_of (\<lambda>_. 0))) 11000 demo_timer_soc =
          Some (Returns \<lparr>sbi_error = 0, sbi_value = 0\<rparr> s') \<and>
        take_interrupt (wires s') 0x80000310 True (csrs s') = None"
  using set_timer_arms [OF demo_timer_ready, of OS2_MIN_NO_INPUT "frame_of (\<lambda>_. 0)" 11000 0 "0x80000310" True]
  by (auto simp: Let_def demo_timer_soc_def simp del: not_None_eq)

text \<open>
  C35. A timer event runs to completion. When the comparator has fired, the M-mode handler stops the
  timer and forwards the event, the S-mode handler follows at once and clears it, the interrupted
  code resumes (after the \<open>wfi\<close>, if it was one) with all its registers, no further interrupt is
  pending, and the hart is ready for the next \<open>sbi_set_timer\<close>.
\<close>
theorem timer_event_served:
  assumes "timer_ready img s" and "mtimecmp s \<le> mtime s" and "mtime s \<noteq> -1"
  shows "\<exists>s1 s2.
    interrupt_at cfg img pc w f s = Some (Returns (f, intr_pc w pc) s1) \<and>
    interrupt_at cfg img (intr_pc w pc) False f s1 = Some (Returns (f, intr_pc w pc) s2) \<and>
    take_interrupt (wires s2) (intr_pc w pc) w (csrs s2) = None \<and> timer_ready img s2 \<and>
    console s2 = console s @ line ''M timer interrupt'' @
      s_trap_log f SUPERVISOR_TIMER_INTERRUPT (intr_pc w pc) @ line ''S timer interrupt''"
proof (intro exI conjI)
  have "timer_ready img (after_timer f (intr_pc w pc) s)"
    unfolding after_timer_def by (rule timer_ready_after [OF assms(1)])
  then show "timer_ready img (after_timer f (intr_pc w pc) s)" .
  have "mtime (after_timer f (intr_pc w pc) s) < mtimecmp (after_timer f (intr_pc w pc) s)"
    using assms(3) by (simp add: after_timer_def order_less_le)
  with \<open>timer_ready img (after_timer f (intr_pc w pc) s)\<close>
  show "take_interrupt (wires (after_timer f (intr_pc w pc) s)) (intr_pc w pc) w
          (csrs (after_timer f (intr_pc w pc) s)) = None"
    by (simp add: timer_ready_pending)
  show "console (after_timer f (intr_pc w pc) s) = console s @ line ''M timer interrupt'' @
      s_trap_log f SUPERVISOR_TIMER_INTERRUPT (intr_pc w pc) @ line ''S timer interrupt''"
    by (simp add: after_timer_def)
qed (rule timer_event [OF assms])+

theorem timer_event_served_witness:
  "\<exists>s1. interrupt_at OS2_MIN_NO_INPUT demo_image 0x80000310 True (frame_of (\<lambda>_. 0)) demo_timer_soc =
          Some (Returns (frame_of (\<lambda>_. 0), 0x80000314) s1)"
proof -
  have "mtimecmp demo_timer_soc \<le> mtime demo_timer_soc" "mtime demo_timer_soc \<noteq> -1"
    by (simp_all add: demo_timer_soc_def)
  from timer_event_served [OF demo_timer_ready this, of OS2_MIN_NO_INPUT "0x80000310" True "frame_of (\<lambda>_. 0)"]
  show ?thesis by (auto simp: intr_pc_def)
qed

end
