(* ===== verification/Handlers.thy ===== *)
theory Handlers
  imports Timer
begin

text \<open>
  What the trap handlers and the SBI guarantee their callers: the one case in which they leave
  defined behaviour, that an undelegated \<open>ecall\<close> from S-mode comes back, that unsupported calls are
  reported, that unexpected traps in M-mode stop the machine with a message, and that console input
  and output go through unchanged.
\<close>


section \<open>Prints and panics\<close>

lemma kprintf_total:
  assumes "prefix (fmt_kinds fmt) (map kind_of va)"
  shows "\<exists>str. \<forall>s. kprintf fmt va s = Some (s\<lparr>console := console s @ str\<rparr>)"
  using kprintf_defined [OF assms] by metis

text \<open>A panic whose arguments fit its format prints a line that starts with \<open>PANIC: \<close> and hangs.\<close>

lemma PANIC_total:
  assumes "prefix (fmt_kinds (line fmt)) (map kind_of va)"
  shows "\<exists>str. prefix ''PANIC: '' str \<and>
    (\<forall>s. PANIC file lno fmt va s = Some (Hangs (s\<lparr>console := console s @ str\<rparr>)))"
proof -
  let ?rest = "''%s:%d:'' @ fmt @ NL" and ?va = "VStr (OS2_MIN_DIR @ file) # VInt lno # va"
  have f: "line (''PANIC: %s:%d:'' @ fmt) = ''PANIC: '' @ ?rest" by (simp add: line_def)
  have "prefix (fmt_kinds ?rest) (map kind_of ?va)"
    using assms by (simp add: line_def long_flag_def)
  then obtain r where "c_printf ?rest ?va = Some r" using printf_defined_iff by blast
  then have "c_printf (line (''PANIC: %s:%d:'' @ fmt)) ?va = Some (''PANIC: '' @ r)"
    unfolding f by (subst printf_prefix) simp_all
  then show ?thesis
    unfolding PANIC_def kprintf_eq by (intro exI [of _ "''PANIC: '' @ r"]) simp
qed

lemma panic_traps:
  "\<exists>str. prefix ''PANIC: '' str \<and> (\<forall>s. PANIC file lno ''unexpected machine trap mcause=%lx'' [VLong v] s =
     Some (Hangs (s\<lparr>console := console s @ str\<rparr>)))"
  "\<exists>str. prefix ''PANIC: '' str \<and> (\<forall>s. PANIC file lno ''unexpected supervisor trap scause=%lx'' [VLong v] s =
     Some (Hangs (s\<lparr>console := console s @ str\<rparr>)))"
  by (rule PANIC_total, simp add: line_def long_flag_def)+

text \<open>Which registers a call may change.\<close>

definition only_a0_a1 :: "trap_frame \<Rightarrow> trap_frame \<Rightarrow> bool" where
  "only_a0_a1 f f' \<longleftrightarrow> f' = f\<lparr>f_a0 := f_a0 f', f_a1 := f_a1 f'\<rparr>"

definition only_pmp :: "csr_file \<Rightarrow> csr_file \<Rightarrow> bool" where
  "only_pmp c c' \<longleftrightarrow> c' = c\<lparr>pmpcfg0 := pmpcfg0 c', pmpaddr := pmpaddr c'\<rparr>"

lemma only_pmp_frame:
  assumes "only_pmp c c'"
  shows "mode c' = mode c" and "mepc c' = mepc c"
  using arg_cong [where f = mode, OF assms [unfolded only_pmp_def]]
    arg_cong [where f = mepc, OF assms [unfolded only_pmp_def]] by simp_all

text \<open>The calls the firmware knows.\<close>

definition sbi_supported :: "variant \<Rightarrow> u64 \<Rightarrow> u64 \<Rightarrow> bool" where
  "sbi_supported cfg eid fid \<longleftrightarrow>
     (eid = SBI_EXT_DEBUG_CONSOLE \<and> fid < 2) \<or> (eid = SBI_EXT_TIME \<and> fid = 0) \<or>
     (cfg = OS2_MIN_PMP \<and> eid = SBI_EXT_TEST \<and> fid < 4)"

lemma u64_less_4: "(x :: u64) < 4 \<longleftrightarrow> x = 0 \<or> x = 1 \<or> x = 2 \<or> x = 3"
  and u64_less_2: "(x :: u64) < 2 \<longleftrightarrow> x = 0 \<or> x = 1"
proof -
  have "x < 4 \<Longrightarrow> unat x = 0 \<or> unat x = 1 \<or> unat x = 2 \<or> unat x = 3"
    unfolding word_less_nat_alt by simp linarith
  then have "x < 4 \<Longrightarrow> x = 0 \<or> x = 1 \<or> x = 2 \<or> x = 3" by (simp add: word_unat_eq_iff)
  then show "x < 4 \<longleftrightarrow> x = 0 \<or> x = 1 \<or> x = 2 \<or> x = 3" by (intro iffI) (blast, elim disjE, simp_all)
  have "x < 2 \<Longrightarrow> unat x = 0 \<or> unat x = 1"
    unfolding word_less_nat_alt by simp linarith
  then have "x < 2 \<Longrightarrow> x = 0 \<or> x = 1" by (simp add: word_unat_eq_iff)
  then show "x < 2 \<longleftrightarrow> x = 0 \<or> x = 1" by (intro iffI) (blast, elim disjE, simp_all)
qed

lemma sbi_supported_iff:
  "sbi_supported cfg eid fid \<longleftrightarrow>
     (eid = SBI_EXT_DEBUG_CONSOLE \<and> fid = SBI_FUNC_DEBUG_CONSOLE_PUTCHAR) \<or>
     (eid = SBI_EXT_DEBUG_CONSOLE \<and> fid = SBI_FUNC_DEBUG_CONSOLE_GETCHAR) \<or>
     (eid = SBI_EXT_TIME \<and> fid = SBI_FUNC_TIME_SET_TIMER) \<or>
     (cfg = OS2_MIN_PMP \<and> eid = SBI_EXT_TEST \<and>
      (fid = SBI_FUNC_TEST_READ_PMP_WORD \<or> fid = SBI_FUNC_TEST_ALLOW_EXEC_ONLY_TARGET \<or>
       fid = SBI_FUNC_TEST_PROTECT_EXEC_TARGET \<or> fid = SBI_FUNC_TEST_PROTECT_CROSS_EXEC_TARGET))"
  unfolding sbi_supported_def u64_less_4 u64_less_2 by (simp only: sbi_consts) blast

lemma sbi_test_total:
  assumes "mode (csrs s) = PRIV_M"
  shows "\<exists>f' s'. sbi_test_call img f s = Some (f', s') \<and> only_a0_a1 f f' \<and>
    f_a0 f' = (if f_a6 f = SBI_FUNC_TEST_READ_PMP_WORD \<or> f_a6 f = SBI_FUNC_TEST_ALLOW_EXEC_ONLY_TARGET \<or>
            f_a6 f = SBI_FUNC_TEST_PROTECT_EXEC_TARGET \<or> f_a6 f = SBI_FUNC_TEST_PROTECT_CROSS_EXEC_TARGET
         then SBI_SUCCESS else SBI_ERR_NOT_SUPPORTED) \<and>
    console s' = console s \<and> only_pmp (csrs s) (csrs s')"
  unfolding sbi_test_call_def pmp_program_eq [OF assms] Let_def
  by (simp add: only_a0_a1_def only_pmp_def)

text \<open>
  The firmware in M-mode: it always answers, in \<open>a0\<close> and \<open>a1\<close> only; of the registers it may change
  the PMP ones, and its text output only grows.
\<close>

lemma firmware_total:
  assumes "mode (csrs s) = PRIV_M"
  shows "\<exists>f' s'. firmware_handle_sbi cfg img f s = Some (f', s') \<and> only_a0_a1 f f' \<and>
    f_a0 f' = (if sbi_supported cfg (f_a7 f) (f_a6 f) then SBI_SUCCESS else SBI_ERR_NOT_SUPPORTED) \<and>
    prefix (console s) (console s') \<and> only_pmp (csrs s) (csrs s')"
proof -
  have ne: "SBI_EXT_DEBUG_CONSOLE \<noteq> SBI_EXT_TIME" "SBI_EXT_DEBUG_CONSOLE \<noteq> SBI_EXT_TEST" "SBI_EXT_TIME \<noteq> SBI_EXT_TEST"
    by (simp_all add: sbi_consts)
  consider (put) "f_a7 f = SBI_EXT_DEBUG_CONSOLE" "f_a6 f = SBI_FUNC_DEBUG_CONSOLE_PUTCHAR"
    | (get) "f_a7 f = SBI_EXT_DEBUG_CONSOLE" "f_a6 f = SBI_FUNC_DEBUG_CONSOLE_GETCHAR" "f_a6 f \<noteq> SBI_FUNC_DEBUG_CONSOLE_PUTCHAR"
    | (time) "f_a7 f = SBI_EXT_TIME" "f_a6 f = SBI_FUNC_TIME_SET_TIMER"
    | (test) "cfg = OS2_MIN_PMP" "f_a7 f = SBI_EXT_TEST"
    | (none) "\<not> (f_a7 f = SBI_EXT_DEBUG_CONSOLE \<and> f_a6 f = SBI_FUNC_DEBUG_CONSOLE_PUTCHAR)"
        "\<not> (f_a7 f = SBI_EXT_DEBUG_CONSOLE \<and> f_a6 f = SBI_FUNC_DEBUG_CONSOLE_GETCHAR)"
        "\<not> (f_a7 f = SBI_EXT_TIME \<and> f_a6 f = SBI_FUNC_TIME_SET_TIMER)" "\<not> (cfg = OS2_MIN_PMP \<and> f_a7 f = SBI_EXT_TEST)"
    by (auto simp: sbi_consts)
  then show ?thesis
  proof cases
    case test
    with sbi_test_total [OF assms, of img f] ne [symmetric] show ?thesis
      unfolding firmware_handle_sbi_def sbi_supported_iff by auto
  next
    case none
    then show ?thesis
      unfolding firmware_handle_sbi_def sbi_supported_iff
      by (simp only: if_False) (auto simp: only_a0_a1_def only_pmp_def)
  qed (use ne in \<open>simp_all add: firmware_handle_sbi_def sbi_supported_iff platform_eqs platform_getchar_state
    case_prod_beta only_a0_a1_def only_pmp_def\<close>)
qed


section \<open>Every S-mode ecall comes back\<close>

lemma mret_back:
  "mode c = PRIV_S \<Longrightarrow> only_pmp (enter_trap PRIV_M pc 9 0 c) c' \<Longrightarrow>
   only_pmp (ecall_done pc c) (fst (do_mret (c'\<lparr>mepc := pc + 4\<rparr>)))"
proof -
  assume m: "mode c = PRIV_S" and o: "only_pmp (enter_trap PRIV_M pc 9 0 c) c'"
  define x y where "x = pmpcfg0 c'" and "y = pmpaddr c'"
  have c': "c' = (enter_trap PRIV_M pc 9 0 c)\<lparr>pmpcfg0 := x, pmpaddr := y\<rparr>"
    using o by (simp add: only_pmp_def x_def y_def)
  have "fst (do_mret (c'\<lparr>mepc := pc + 4\<rparr>)) =
      (fst (do_mret ((enter_trap PRIV_M pc 9 0 c)\<lparr>mepc := pc + 4\<rparr>)))\<lparr>pmpcfg0 := x, pmpaddr := y\<rparr>"
    unfolding c' by (simp add: do_mret_def)
  then show ?thesis by (simp add: mret_enter [OF m] only_pmp_def)
qed

lemma ecall_total:
  assumes "ecalls_go_to_M img (csrs s)" and "\<not> bit pc 0"
  shows "\<exists>f' s'. ecall_at cfg img pc f s = Some (Returns (f', pc + 4) s') \<and> only_a0_a1 f f' \<and>
    f_a0 f' = (if sbi_supported cfg (f_a7 f) (f_a6 f) then SBI_SUCCESS else SBI_ERR_NOT_SUPPORTED) \<and>
    only_pmp (ecall_done pc (csrs s)) (csrs s') \<and> prefix (console s @ ecall_log f) (console s')"
proof -
  let ?s = "s\<lparr>csrs := enter_trap PRIV_M pc 9 0 (csrs s), console := console s @ ecall_log f\<rparr>"
  have mode: "mode (csrs s) = PRIV_S" using assms(1) by (simp add: ecalls_go_to_M_def)
  have "mode (csrs ?s) = PRIV_M" by (simp add: enter_csrs)
  from firmware_total [OF this, of cfg img f] obtain f' s' where
    fw: "firmware_handle_sbi cfg img f ?s = Some (f', s')" "only_a0_a1 f f'"
      "f_a0 f' = (if sbi_supported cfg (f_a7 f) (f_a6 f) then SBI_SUCCESS else SBI_ERR_NOT_SUPPORTED)"
      "prefix (console s @ ecall_log f) (console s')" "only_pmp (enter_trap PRIV_M pc 9 0 (csrs s)) (csrs s')"
    by auto
  have "mode (csrs s') = PRIV_M" "mepc (csrs s') = pc"
    using only_pmp_frame [OF fw(5)] by (simp_all add: enter_csrs)
  from ecall_resumes [OF assms fw(1) this] fw mret_back [OF mode fw(5)] show ?thesis by auto
qed


section \<open>Total handlers\<close>

lemma kernel_handler_total:
  assumes "mode (csrs s) = PRIV_M"
  shows "\<exists>r. kernel_trap_handler cfg img f s = Some r \<and>
    ((\<exists>f' s'. r = Returns f' s') \<longleftrightarrow> mcause (csrs s) = MACHINE_TIMER_INTERRUPT \<or> mcause (csrs s) = 9) \<and>
    (\<forall>s'. r = Hangs s' \<longrightarrow> (\<exists>str. prefix ''PANIC: '' str \<and> s' = s\<lparr>console := console s @ str\<rparr>))"
proof -
  consider "mcause (csrs s) = MACHINE_TIMER_INTERRUPT" | "mcause (csrs s) = 9"
    | "mcause (csrs s) \<noteq> MACHINE_TIMER_INTERRUPT" "mcause (csrs s) \<noteq> 9" by blast
  then show ?thesis
  proof cases
    case 1
    then show ?thesis using assms by (simp add: M_timer_handler)
  next
    case 2
    have m: "mode (csrs (s\<lparr>console := t\<rparr>)) = PRIV_M" for t using assms by simp
    obtain f' s' where fw: "firmware_handle_sbi cfg img f (s\<lparr>console := console s @ ecall_log f\<rparr>) = Some (f', s')"
      "only_pmp (csrs s) (csrs s')"
      using firmware_total [OF m, of cfg img f "console s @ ecall_log f"] by auto
    have "mode (csrs s') = PRIV_M" using assms only_pmp_frame(1) [OF fw(2)] by simp
    then show ?thesis using 2 fw by (simp add: handler_on_ecall [OF assms 2] write_M)
  next
    case 3
    have r: "READ_CSR MCAUSE s = Some (mcause (csrs s))" "READ_CSR MEPC s = Some (mepc (csrs s))"
      using assms by (simp_all add: READ_CSR_def)
    have "MCAUSE_MACHINE_TIMER_INTERRUPT = MACHINE_TIMER_INTERRUPT"
      by (simp add: MACHINE_TIMER_INTERRUPT_def MCAUSE_MACHINE_TIMER_INTERRUPT_def)
    then show ?thesis
      using 3 panic_traps(1) [of "''trap.c''" 26 "mcause (csrs s)"]
      unfolding kernel_trap_handler_def r by (auto simp: MCAUSE_ECALL_FROM_S_def)
  qed
qed


text \<open>
  The S-mode handler. Its fault branches all go through \<open>fault_return\<close>; \<open>sepc\<close> is written in S-mode,
  where it is legal, so every branch ends.
\<close>

lemma fault_return_total:
  assumes "mode (csrs s) = PRIV_S" and "CHR ''%'' \<notin> set msg"
  shows "\<exists>r. fault_return msg v mark npc f s = Some r"
proof -
  have "prefix (fmt_kinds (line (msg @ '' stval=%lx''))) (map kind_of [VLong v])"
  proof -
    have "fmt_kinds (m @ t) = fmt_kinds t" if "CHR ''%'' \<notin> set m" for m t
      using that by (induction m) auto
    then have "fmt_kinds (msg @ '' stval=%lx'' @ NL) = fmt_kinds ('' stval=%lx'' @ NL)" using assms(2) by blast
    then show ?thesis by (simp add: line_def long_flag_def)
  qed
  then obtain str where "\<And>s. kprintf (line (msg @ '' stval=%lx'')) [VLong v] s = Some (s\<lparr>console := console s @ str\<rparr>)"
    using kprintf_total by blast
  then show ?thesis using assms(1) by (simp add: fault_return_def WRITE_CSR_def Let_def)
qed

lemma s_timer_total: "mode (csrs s) = PRIV_S \<Longrightarrow> \<exists>r. s_timer_case f cause s = Some r"
  using panic_traps(2) [of "''trap.c''" 159 cause]
  by (auto simp: s_timer_case_def READ_CSR_def WRITE_CSR_def)

lemma some_if: "(\<exists>r. (if P then a else b) = Some r) \<longleftrightarrow> (if P then \<exists>r. a = Some r else \<exists>r. b = Some r)"
  by simp

lemma s_other_total:
  assumes "mode (csrs s) = PRIV_S"
  shows "\<exists>r. s_other_cases cfg img f cause epc tval s = Some r"
proof -
  note fr = fault_return_total [OF assms] and tm = s_timer_total [OF assms]
  have "\<exists>r. s_pmp_cases img f cause epc tval s = Some r"
    unfolding s_pmp_cases_def Let_def some_if using tm by (simp add: fr)
  moreover have "\<exists>r. s_sv39_cases img f cause epc tval s = Some r"
    unfolding s_sv39_cases_def some_if using tm by (simp add: fr)
  ultimately show ?thesis unfolding s_other_cases_def some_if using tm by simp
qed

lemma s_user_total:
  assumes "mode (csrs s) = PRIV_S"
  shows "(\<exists>r. s_user_ecall cfg img f cause epc tval s = Some r) \<longleftrightarrow> umode_ecall_seen (globals s) \<noteq> 0x7fffffff"
proof -
  have "mode (csrs (s\<lparr>globals := g\<rparr>)) = PRIV_S" for g using assms by simp
  note o = s_other_total [OF this]
  show ?thesis
    unfolding s_user_ecall_def Let_def some_if using o assms by (simp add: WRITE_CSR_def)
qed

lemma supervisor_handler_total:
  assumes "mode (csrs s) = PRIV_S"
  shows "(\<exists>r. supervisor_trap_handler cfg img f s = Some r) \<longleftrightarrow>
    \<not> (scause (csrs s) = 8 \<and> umode_ecall_seen (globals s) = 0x7fffffff)"
proof -
  have r: "READ_CSR SCAUSE s = Some (scause (csrs s))" "READ_CSR SEPC s = Some (sepc (csrs s))"
    "READ_CSR STVAL s = Some (stval (csrs s))"
    using assms by (simp_all add: READ_CSR_def)
  show ?thesis
    unfolding supervisor_trap_handler_def r kprintf_s_trap Let_def Option.bind.bind_lunit some_if
    using assms by (simp add: s_other_total s_user_total READ_CSR_def WRITE_CSR_def
        MCAUSE_ECALL_FROM_S_def MCAUSE_ECALL_FROM_U_def cause_consts)
qed


section \<open>Console input\<close>

text \<open>The marker \<open>0x01010 << 44\<close> separates a character, NUL included, from no input.\<close>

lemma getchar_decodes:
  assumes "dbg_input s = get_input_dpic c # ws"
  shows "fst (platform_getchar s) = (case c of Some b \<Rightarrow> ucast b | None \<Rightarrow> -1)"
proof (cases c)
  case None
  with assms show ?thesis by (simp add: platform_getchar_def dbg_read_def get_input_dpic_def)
next
  case (Some b)
  let ?w = "ucast b OR push_bit 44 0x01010 :: u64"
  have "bit (?w AND push_bit 44 0x01010) 48" by (simp add: bit_simps bit_numeral_rec)
  then have "?w AND push_bit 44 0x01010 \<noteq> 0" by (metis bit_0_eq bot_apply bot_bool_def)
  moreover have "?w AND 0xff = ucast b"
  proof -
    have "(0xff :: u64) = mask 8" by (simp add: mask_eq_exp_minus_1)
    moreover have "(ucast b OR push_bit 44 k) AND mask 8 = ucast b" for k :: u64
      by (rule bit_word_eqI) (auto simp: bit_simps dest: bit_imp_le_length)
    ultimately show ?thesis by (simp only:)
  qed
  ultimately show ?thesis
    using Some assms unfolding platform_getchar_def dbg_read_def get_input_dpic_def by simp
qed


section \<open>Properties\<close>

lemma booted_ecalls_go_to_M:
  "cfg \<noteq> OS2_MIN_STRAP \<Longrightarrow> image_ok img \<Longrightarrow> ecalls_go_to_M img (boot_csrs cfg img)"
  by (cases cfg) (simp_all add: ecalls_go_to_M_def boot_csrs_def boot_medeleg_def image_ok_def bit_numeral_rec)

text \<open>
  C5. An \<open>ecall\<close> from S-mode that \<open>medeleg\<close> does not delegate, with \<open>mtvec\<close> at the M-mode stub, comes
  back: at the next instruction, in S-mode, still not delegated and with the stub still installed,
  all registers but \<open>a0\<close> and \<open>a1\<close> unchanged, the output only extended, no CSR changed but the trap
  bookkeeping and the PMP registers; \<open>a0\<close> is \<open>SBI_ERR_NOT_SUPPORTED\<close> exactly for the calls the
  firmware does not know, and \<open>SBI_SUCCESS\<close> for the others. The condition holds in every variant
  booted to S-mode but \<open>OS2_MIN_STRAP\<close> (\<open>booted_ecalls_go_to_M\<close>), which delegates the \<open>ecall\<close> to its own
  handler.
\<close>
theorem ecall_returns:
  assumes "ecalls_go_to_M img (csrs s)" and "\<not> bit pc 0"
  shows "\<exists>f' s'. ecall_at cfg img pc f s = Some (Returns (f', pc + 4) s') \<and>
    only_a0_a1 f f' \<and> only_pmp (ecall_done pc (csrs s)) (csrs s') \<and> ecalls_go_to_M img (csrs s') \<and>
    prefix (console s @ ecall_log f) (console s') \<and>
    f_a0 f' = (if sbi_supported cfg (f_a7 f) (f_a6 f) then SBI_SUCCESS else SBI_ERR_NOT_SUPPORTED)"
proof -
  from ecall_total [OF assms, of cfg f] obtain f' s' where r:
    "ecall_at cfg img pc f s = Some (Returns (f', pc + 4) s')" "only_a0_a1 f f'"
    "f_a0 f' = (if sbi_supported cfg (f_a7 f) (f_a6 f) then SBI_SUCCESS else SBI_ERR_NOT_SUPPORTED)"
    "only_pmp (ecall_done pc (csrs s)) (csrs s')" "prefix (console s @ ecall_log f) (console s')" by blast
  have "csrs s' = (ecall_done pc (csrs s))\<lparr>pmpcfg0 := pmpcfg0 (csrs s'), pmpaddr := pmpaddr (csrs s')\<rparr>"
    using r(4) by (simp only: only_pmp_def)
  moreover have "ecalls_go_to_M img (c\<lparr>pmpcfg0 := x, pmpaddr := y\<rparr>) = ecalls_go_to_M img c" for c x y
    by (simp add: ecalls_go_to_M_def)
  ultimately have "ecalls_go_to_M img (csrs s')" using assms(1) by (metis ecalls_go_to_M_done)
  with r show ?thesis by blast
qed

theorem ecall_returns_witness:
  "\<exists>f' s'. ecall_at OS2_MIN_NO_INPUT demo_image 0x80000500
     ((frame_of (\<lambda>_. 0))\<lparr>f_a7 := 0x99\<rparr>) demo_timer_soc = Some (Returns (f', 0x80000504) s') \<and> f_a0 f' = -2"
proof -
  have "ecalls_go_to_M demo_image (csrs demo_timer_soc)"
    using demo_timer_ready by (simp add: timer_ready_def)
  moreover have "\<not> bit (0x80000500 :: u64) 0" by (simp add: bit_0)
  moreover have "\<not> sbi_supported OS2_MIN_NO_INPUT 0x99 0"
    by (simp add: sbi_supported_def sbi_consts)
  ultimately show ?thesis
    using ecall_returns [of demo_image demo_timer_soc "0x80000500" OS2_MIN_NO_INPUT "(frame_of (\<lambda>_. 0))\<lparr>f_a7 := 0x99\<rparr>"]
    by (auto simp: SBI_ERR_NOT_SUPPORTED_def frame_of_def)
qed

text \<open>
  C36. The trap handlers and undefined behaviour. In M-mode \<open>kernel_trap_handler\<close> never leaves
  defined behaviour, whatever the cause, the frame and the state: every print matches its arguments
  and every CSR access is legal. It returns exactly for the timer interrupt and for an S-mode \<open>ecall\<close>;
  for any other cause it prints a \<open>PANIC:\<close> line, changes nothing else and stays in its loop. In S-mode
  \<open>supervisor_trap_handler\<close> leaves defined behaviour in one case and no other: a U-mode \<open>ecall\<close> when
  the counter \<open>umode_ecall_seen\<close> is \<open>INT_MAX\<close>, whose increment overflows.
\<close>
theorem handlers_total:
  "(mode (csrs s) = PRIV_M \<longrightarrow>
      (\<exists>r. kernel_trap_handler cfg img f s = Some r \<and>
        ((\<exists>f' s'. r = Returns f' s') \<longleftrightarrow> mcause (csrs s) = MACHINE_TIMER_INTERRUPT \<or> mcause (csrs s) = 9) \<and>
        (\<forall>s'. r = Hangs s' \<longrightarrow> (\<exists>str. prefix ''PANIC: '' str \<and> s' = s\<lparr>console := console s @ str\<rparr>)))) \<and>
   (mode (csrs s) = PRIV_S \<longrightarrow>
      ((\<exists>r. supervisor_trap_handler cfg img f s = Some r) \<longleftrightarrow>
        \<not> (scause (csrs s) = 8 \<and> umode_ecall_seen (globals s) = 0x7fffffff)))"
  using kernel_handler_total supervisor_handler_total by blast

theorem handlers_total_witness:
  "(\<exists>r. kernel_trap_handler OS2_MIN_PMP demo_image (frame_of (\<lambda>_. 0)) (soc_reset []) = Some r \<and>
       \<not> (\<exists>f' s'. r = Returns f' s')) \<and>
   supervisor_trap_handler OS2_MIN_USER demo_image (frame_of (\<lambda>_. 0)) (demo_timer_soc
     \<lparr>csrs := (csrs demo_timer_soc)\<lparr>scause := 8\<rparr>,
      globals := (globals demo_timer_soc)\<lparr>umode_ecall_seen := 0x7fffffff\<rparr>\<rparr>) = None"
proof -
  have "mode (csrs (soc_reset [])) = PRIV_M" "mcause (csrs (soc_reset [])) = 0"
    by (simp_all add: soc_reset_def csr_reset_def)
  moreover have "MACHINE_TIMER_INTERRUPT \<noteq> 0" by (simp add: MACHINE_TIMER_INTERRUPT_def)
  moreover have "mode (csrs demo_timer_soc) = PRIV_S" by (simp add: demo_timer_soc_def boot_csrs_def)
  ultimately show ?thesis
    using conjunct1 [OF handlers_total [of "soc_reset []" OS2_MIN_PMP demo_image "frame_of (\<lambda>_. 0)"]]
      conjunct2 [OF handlers_total [of "demo_timer_soc\<lparr>csrs := (csrs demo_timer_soc)\<lparr>scause := 8\<rparr>,
      globals := (globals demo_timer_soc)\<lparr>umode_ecall_seen := 0x7fffffff\<rparr>\<rparr>" OS2_MIN_USER demo_image "frame_of (\<lambda>_. 0)"]]
    by force
qed

text \<open>
  The S-mode console calls. \<open>sbi_putchar\<close> never panics and its output, after the firmware's
  own log line, is the character; \<open>sbi_getchar\<close> never panics and returns the next input byte
  unchanged (NUL included), or -1 exactly when the simulator had none.
\<close>
theorem sbi_console_calls:
  assumes "ecalls_go_to_M img (csrs s)" and "\<not> bit (sbi_ecall_at img) 0" and "dbg_input s = get_input_dpic c # ws"
  shows "\<exists>t u.
    sbi_putchar (sbi_call cfg img f) ch s = Some (Returns () t) \<and>
    console t = console s @ ecall_log (call_frame f SBI_EXT_DEBUG_CONSOLE SBI_FUNC_DEBUG_CONSOLE_PUTCHAR
                  (of_nat (of_char ch))) @ [ch] \<and>
    sbi_getchar (sbi_call cfg img f) s = Some (Returns (case c of Some b \<Rightarrow> ucast b | None \<Rightarrow> -1) u) \<and>
    dbg_input u = ws"
  using os2_sbi.sbi_putchar_returns [of img s cfg f ch] os2_sbi.sbi_getchar_returns [of img s cfg f] assms
  by (auto simp: getchar_decodes [OF assms(3)])

theorem sbi_console_calls_witness:
  "\<exists>u. sbi_getchar (sbi_call OS2_MIN_NO_INPUT demo_image (frame_of (\<lambda>_. 0)))
          (demo_timer_soc\<lparr>dbg_input := [get_input_dpic (Some 0x41)]\<rparr>) = Some (Returns 0x41 u)"
proof -
  have "ecalls_go_to_M demo_image (csrs (demo_timer_soc\<lparr>dbg_input := [get_input_dpic (Some 0x41)]\<rparr>))"
    using demo_timer_ready by (simp add: timer_ready_def)
  from sbi_console_calls [OF this] show ?thesis
    using demo_image_ok by (force simp: image_ok_def)
qed

end
