(* ===== verification/Lockstep.thy ===== *)
theory Lockstep
  imports Platform
begin

text \<open>
  The reference side of the lockstep checker, \<open>tools/whisper_lockstep/WhisperRef.cpp\<close>. The Whisper
  simulator (\<open>WdRiscv::System\<close>, \<open>WdRiscv::Hart\<close>) is not part of the repository: it is the parameter
  \<open>W\<close>, a record of the functions \<open>WhisperRef\<close> calls, over an abstract state \<open>'h\<close> of hart and memory.
  A method that returns \<open>bool\<close> gives \<open>None\<close> for \<open>false\<close>, one that fills a reference argument gives
  its value. A thrown \<open>runtime_error\<close> is the left value of the result, \<open>fault\<close>. The two diagnostic
  lines of the constructor carry no state and are left out.
\<close>

unbundle bit_operations_syntax

section \<open>Interface types\<close>

record 'h whisper =
  ithHart0 :: "u64 \<Rightarrow> u64 \<Rightarrow> 'h option"
  configIsa :: "string \<Rightarrow> bool \<Rightarrow> 'h \<Rightarrow> 'h option"
  configCsr :: "string \<Rightarrow> bool \<Rightarrow> u64 \<Rightarrow> u64 \<Rightarrow> u64 \<Rightarrow> bool \<Rightarrow> 'h \<Rightarrow> 'h option"
  configMachineModePerfCounters :: "u32 \<Rightarrow> bool \<Rightarrow> 'h \<Rightarrow> 'h option"
  configUserModePerfCounters :: "u32 \<Rightarrow> 'h \<Rightarrow> 'h option"
  reset_hart :: "'h \<Rightarrow> 'h"
  loadElfFiles :: "string list \<Rightarrow> 'h \<Rightarrow> 'h option"
  loadBinaryFiles :: "string list \<Rightarrow> 'h \<Rightarrow> 'h option"
  peekPc :: "'h \<Rightarrow> u64"
  pokePc :: "u64 \<Rightarrow> 'h \<Rightarrow> 'h"
  peekIntReg :: "u32 \<Rightarrow> 'h \<Rightarrow> u64"
  pokeIntReg :: "u32 \<Rightarrow> u64 \<Rightarrow> 'h \<Rightarrow> 'h option"
  peekCsr :: "csr_addr \<Rightarrow> 'h \<Rightarrow> u64 option"
  externalPokeCsr :: "csr_addr \<Rightarrow> u64 \<Rightarrow> 'h \<Rightarrow> 'h option"
  pokeMemory :: "u64 \<Rightarrow> u32 \<Rightarrow> u64 \<Rightarrow> 'h \<Rightarrow> 'h option"
  privilegeMode :: "'h \<Rightarrow> u32"
  singleStep :: "'h \<Rightarrow> 'h"
  lastInstructionTrapped :: "'h \<Rightarrow> bool"
  lastInstructionInterrupted :: "'h \<Rightarrow> bool"
  lastTrapCause :: "'h \<Rightarrow> u64"
  lastIntReg :: "'h \<Rightarrow> u32"
  lastLdStAddress :: "'h \<Rightarrow> u32 \<times> u64 \<times> u64 \<times> u64"
  lastStore :: "'h \<Rightarrow> u32 \<times> u64 \<times> u64 \<times> u64 \<times> u64"
  lastCsr :: "'h \<Rightarrow> u32 list"
  lastCsrValue :: "u32 \<Rightarrow> 'h \<Rightarrow> u64"

record ref_commit =
  rc_pc :: u64
  rc_next_pc :: u64
  rc_privilege :: u32
  rc_rd_we :: bool
  rc_rd :: u32
  rc_rd_data :: u64
  rc_mem_valid :: bool
  rc_mem_write :: bool
  rc_mem_va :: u64
  rc_mem_pa1 :: u64
  rc_mem_pa2 :: u64
  rc_mem_size :: u32
  rc_mem_data :: u64
  rc_trapped :: bool
  rc_interrupted :: bool
  rc_trap_cause :: u64
  rc_csr_writes :: "(u32 \<times> u64) list"

definition RefCommit :: ref_commit where
  "RefCommit = \<lparr>rc_pc = 0, rc_next_pc = 0, rc_privilege = 0, rc_rd_we = False, rc_rd = 0, rc_rd_data = 0,
     rc_mem_valid = False, rc_mem_write = False, rc_mem_va = 0, rc_mem_pa1 = 0, rc_mem_pa2 = 0,
     rc_mem_size = 0, rc_mem_data = 0, rc_trapped = False, rc_interrupted = False, rc_trap_cause = 0,
     rc_csr_writes = []\<rparr>"

record whisper_config =
  opensbi_elf :: string
  dtb_binary :: string
  linux_binary :: string
  start_pc :: u64
  hart_id :: u64
  dtb_address :: u64
  linux_address :: u64
  memory_size :: u64
  page_size :: u64

definition WhisperConfig :: whisper_config where
  "WhisperConfig = \<lparr>opensbi_elf = [], dtb_binary = [], linux_binary = [], start_pc = 0x80000000,
     hart_id = 0, dtb_address = 0x87f00000, linux_address = 0x80200000, memory_size = 0x88000000,
     page_size = 4096\<rparr>"

text \<open>The arguments of \<open>WhisperRef::step\<close>: the retired RTL instruction and the injected interrupts.\<close>

record rtl_retire =
  rtl_inst :: u32
  rtl_rd_we :: bool
  rtl_rd :: u32
  rtl_rd_data :: u64
  rtl_mem_valid :: bool
  rtl_mem_write :: bool
  rtl_mem_addr :: u64
  rtl_mem_pa :: u64
  rtl_mtip :: bool
  rtl_seip :: bool
  rtl_interrupt_from_wfi :: bool
  rtl_interrupt_epc :: u64

datatype fault =
    Message string
  | Misa_mismatch u64
  | Read_back_mismatch string u64 u64
  | Not_taken u64 u64 bool bool u64
  | Seed_failed u64 u64 u32 u64

definition try_ref :: "fault + 'a \<Rightarrow> ('a \<Rightarrow> fault + 'b) \<Rightarrow> fault + 'b" where
  "try_ref r k = (case r of Inl e \<Rightarrow> Inl e | Inr x \<Rightarrow> k x)"

definition or_fail :: "'a option \<Rightarrow> string \<Rightarrow> fault + 'a" where
  "or_fail x msg = (case x of None \<Rightarrow> Inl (Message msg) | Some y \<Rightarrow> Inr y)"

definition guard :: "bool \<Rightarrow> fault \<Rightarrow> fault + unit" where
  "guard ok e = (if ok then Inr () else Inl e)"


section \<open>Decoding helpers\<close>

definition kRtlMisa :: u64 where "kRtlMisa = 0x8000000000141105"

definition is_csr_instruction_for :: "u32 \<Rightarrow> u32 \<Rightarrow> bool" where
  "is_csr_instruction_for inst expected_csr =
     (inst AND 0x7f = 0x73 \<and> drop_bit 12 inst AND 0x7 \<noteq> 0 \<and> drop_bit 20 inst AND 0xfff = expected_csr)"

definition is_time_csr_instruction :: "u32 \<Rightarrow> bool" where
  "is_time_csr_instruction inst = is_csr_instruction_for inst 0xc01"

definition address_in_range :: "u64 \<Rightarrow> u64 \<Rightarrow> u64 \<Rightarrow> bool" where
  "address_in_range address base sz = (address \<ge> base \<and> address - base < sz)"

definition is_rtl_mmio_address :: "u64 \<Rightarrow> bool" where
  "is_rtl_mmio_address address =
     (address_in_range address 0x02000000 0x00010000 \<or>
      address_in_range address 0x0c000000 0x04000000 \<or>
      address_in_range address 0x10000000 0x00000100)"

definition scalar_load_size :: "u32 \<Rightarrow> u32" where
  "scalar_load_size inst =
     (if inst AND 0x7f = 0x03
      then (let f = drop_bit 12 inst AND 0x7
            in if f = 0 \<or> f = 4 then 1 else if f = 1 \<or> f = 5 then 2
               else if f = 2 \<or> f = 6 then 4 else if f = 3 then 8 else 0)
      else if inst AND 0x3 \<noteq> 0x3
      then (let quadrant = inst AND 0x3; funct3 = drop_bit 13 inst AND 0x7
            in if (quadrant = 0 \<or> quadrant = 2) \<and> funct3 = 2 then 4
               else if (quadrant = 0 \<or> quadrant = 2) \<and> funct3 = 3 then 8
               else 0)
      else 0)"

text \<open>\<open>std::hex\<close> without padding, and \<open>std::to_string\<close>.\<close>

fun show_hex :: "nat \<Rightarrow> string" where
  "show_hex n = (if n < 16 then [hex_digit n] else show_hex (n div 16) @ [hex_digit (n mod 16)])"

declare show_hex.simps [simp del]

definition binary_spec :: "string \<Rightarrow> u64 \<Rightarrow> string" where
  "binary_spec path address = path @ '':0x'' @ show_hex (unat address)"


section \<open>The constructor\<close>

fun disable_csrs :: "'h whisper \<Rightarrow> string \<Rightarrow> nat list \<Rightarrow> 'h \<Rightarrow> fault + 'h" where
  "disable_csrs W pre [] h = Inr h"
| "disable_csrs W pre (index # rest) h =
     (let name = pre @ show_nat index
      in try_ref (or_fail (configCsr W name False 0 0 0 False h) (''failed to disable CSR: '' @ name))
           (disable_csrs W pre rest))"

text \<open>The first loop counts 8 .. 63, the second 2, 4 .. 14.\<close>

definition configure_rtl_pmp_csrs :: "'h whisper \<Rightarrow> 'h \<Rightarrow> fault + 'h" where
  "configure_rtl_pmp_csrs W h =
     try_ref (disable_csrs W ''pmpaddr'' [8 ..< 64] h)
       (disable_csrs W ''pmpcfg'' (map (\<lambda>k. 2 * k) [1 ..< 8]))"

definition configure_rtl_misa :: "'h whisper \<Rightarrow> 'h \<Rightarrow> fault + 'h" where
  "configure_rtl_misa W h =
     or_fail (configCsr W ''misa'' True kRtlMisa 0 0 True h) ''failed to configure RTL MISA value''"

definition configure_rtl_mimpid :: "'h whisper \<Rightarrow> 'h \<Rightarrow> fault + 'h" where
  "configure_rtl_mimpid W h =
     or_fail (configCsr W ''mimpid'' True 1 0 0 True h) ''failed to configure RTL MIMPID value''"

definition whisper_configure :: "'h whisper \<Rightarrow> whisper_config \<Rightarrow> fault + 'h" where
  "whisper_configure W config =
     try_ref (or_fail (ithHart0 W (memory_size config) (page_size config)) ''system has no hart 0'') (\<lambda>h.
     try_ref (or_fail (configIsa W ''imacsu_zicsr_zifencei_zicntr'' True h)
                ''failed to configure ISA: imacsu_zicsr_zifencei_zicntr'') (\<lambda>h.
     try_ref (configure_rtl_misa W h) (\<lambda>h.
     try_ref (configure_rtl_mimpid W h) (\<lambda>h.
     try_ref (configure_rtl_pmp_csrs W h) (\<lambda>h.
     try_ref (or_fail (configMachineModePerfCounters W 0 False h)
                ''failed to disable machine performance counters'') (\<lambda>h.
     or_fail (configUserModePerfCounters W 0 h) ''failed to disable user performance counters''))))))"

definition whisper_reset :: "'h whisper \<Rightarrow> 'h \<Rightarrow> fault + 'h" where
  "whisper_reset W h =
     (let h = reset_hart W h
      in try_ref (or_fail (peekCsr W MISA h) ''failed to read MISA after reset'') (\<lambda>misa.
         try_ref (guard (misa = kRtlMisa) (Misa_mismatch misa)) (\<lambda>_. Inr h)))"

definition binaries :: "whisper_config \<Rightarrow> string list" where
  "binaries config =
     (if dtb_binary config \<noteq> [] then [binary_spec (dtb_binary config) (dtb_address config)] else []) @
     (if linux_binary config \<noteq> [] then [binary_spec (linux_binary config) (linux_address config)] else [])"

definition whisper_load :: "'h whisper \<Rightarrow> whisper_config \<Rightarrow> 'h \<Rightarrow> fault + 'h" where
  "whisper_load W config h =
     try_ref (or_fail (loadElfFiles W [opensbi_elf config] h) ''failed to load OpenSBI ELF'') (\<lambda>h.
     if binaries config \<noteq> []
     then or_fail (loadBinaryFiles W (binaries config) h) ''failed to load binary image''
     else Inr h)"

definition whisper_entry :: "'h whisper \<Rightarrow> whisper_config \<Rightarrow> 'h \<Rightarrow> fault + 'h" where
  "whisper_entry W config h =
     (let h = pokePc W (start_pc config) h
      in try_ref (or_fail (pokeIntReg W 10 (hart_id config) h) ''failed to initialize x10/a0'') (\<lambda>h.
         try_ref (or_fail (pokeIntReg W 11 (dtb_address config) h) ''failed to initialize x11/a1'') (\<lambda>h.
         let actual_pc = peekPc W h; actual_a0 = peekIntReg W 10 h; actual_a1 = peekIntReg W 11 h
         in try_ref (guard (actual_pc = start_pc config)
                       (Read_back_mismatch ''PC'' (start_pc config) actual_pc)) (\<lambda>_.
            try_ref (guard (actual_a0 = hart_id config)
                       (Read_back_mismatch ''x10/a0'' (hart_id config) actual_a0)) (\<lambda>_.
            try_ref (guard (actual_a1 = dtb_address config)
                       (Read_back_mismatch ''x11/a1'' (dtb_address config) actual_a1)) (\<lambda>_.
            Inr h))))))"

definition WhisperRef :: "'h whisper \<Rightarrow> whisper_config \<Rightarrow> fault + 'h" where
  "WhisperRef W config =
     try_ref (whisper_configure W config) (\<lambda>h.
     try_ref (whisper_reset W h) (\<lambda>h.
     try_ref (whisper_load W config h) (whisper_entry W config)))"

definition whisper_int_reg :: "'h whisper \<Rightarrow> u32 \<Rightarrow> 'h \<Rightarrow> fault + u64" where
  "whisper_int_reg W reg h =
     try_ref (guard (reg < 32) (Message ''integer register index is out of range''))
       (\<lambda>_. Inr (peekIntReg W reg h))"


section \<open>One reference step\<close>

definition synchronize_interrupts :: "'h whisper \<Rightarrow> bool \<Rightarrow> bool \<Rightarrow> 'h \<Rightarrow> fault + 'h" where
  "synchronize_interrupts W mtip seip h =
     try_ref (or_fail (peekCsr W MIP h) ''failed to read MIP while synchronizing RTL interrupts'') (\<lambda>m.
     let m = put_bit 7 mtip m;
         m = put_bit 9 seip m
     in or_fail (externalPokeCsr W MIP m h) ''failed to synchronize RTL interrupts into Whisper MIP'')"

definition begin_commit :: "'h whisper \<Rightarrow> 'h \<Rightarrow> ref_commit" where
  "begin_commit W h = RefCommit\<lparr>rc_pc := peekPc W h, rc_privilege := privilegeMode W h\<rparr>"

definition trap_target :: "ref_commit \<Rightarrow> u64 \<Rightarrow> u64" where
  "trap_target result tvec =
     (let base = tvec AND NOT 3; vmode = tvec AND 3
      in if rc_interrupted result \<and> vmode = 1 then base + 4 * rc_trap_cause result else base)"

text \<open>What is read back after \<open>singleStep\<close>: the commit so far, and whether the step only entered a trap
  through \<open>mtvec\<close> or \<open>stvec\<close> (their values before the step, if they could be read).\<close>

definition observe_step :: "'h whisper \<Rightarrow> ref_commit \<Rightarrow> 'h \<Rightarrow> ref_commit" where
  "observe_step W result h =
     (let trapped = lastInstructionTrapped W h; interrupted = lastInstructionInterrupted W h
      in result\<lparr>rc_next_pc := peekPc W h, rc_trapped := trapped, rc_interrupted := interrupted,
           rc_trap_cause := if trapped \<or> interrupted then lastTrapCause W h else rc_trap_cause result\<rparr>)"

definition entered :: "u64 option \<Rightarrow> ref_commit \<Rightarrow> bool" where
  "entered tvec result =
     (case tvec of None \<Rightarrow> False | Some v \<Rightarrow> rc_next_pc result = trap_target result v)"

definition non_retiring_event :: "u64 option \<Rightarrow> u64 option \<Rightarrow> ref_commit \<Rightarrow> bool" where
  "non_retiring_event mtv stv result =
     ((rc_trapped result \<or> rc_interrupted result) \<and> (entered mtv result \<or> entered stv result))"

definition step_non_retiring_trap :: "'h whisper \<Rightarrow> bool \<Rightarrow> bool \<Rightarrow> 'h \<Rightarrow> fault + ref_commit \<times> 'h" where
  "step_non_retiring_trap W mtip seip h0 =
     (let mtv = peekCsr W MTVEC h0; stv = peekCsr W STVEC h0
      in try_ref (synchronize_interrupts W mtip seip h0) (\<lambda>h1.
         let h = singleStep W h1;
             result = observe_step W (begin_commit W h0) h
         in try_ref (guard (non_retiring_event mtv stv result)
                       (Not_taken (rc_pc result) (rc_next_pc result) (rc_trapped result)
                          (rc_interrupted result) (rc_trap_cause result))) (\<lambda>_.
            Inr (result, h))))"

text \<open>The result of an MMIO load is placed in Whisper's memory before it executes the load.\<close>

definition load_mask :: "u32 \<Rightarrow> u64" where
  "load_mask sz = (if sz \<ge> 8 then NOT 0 else push_bit (unat (sz * 8)) 1 - 1)"

definition seed_mmio_read :: "'h whisper \<Rightarrow> rtl_retire \<Rightarrow> 'h \<Rightarrow> fault + 'h" where
  "seed_mmio_read W r h =
     (if rtl_mem_valid r \<and> \<not> rtl_mem_write r \<and> is_rtl_mmio_address (rtl_mem_pa r)
      then (let load_size = scalar_load_size (rtl_inst r);
                raw_value = rtl_rd_data r AND load_mask load_size
            in try_ref (guard (load_size \<noteq> 0) (Message ''unable to decode RTL MMIO load size'')) (\<lambda>_.
               case pokeMemory W (rtl_mem_pa r) load_size raw_value h of
                 None \<Rightarrow> Inl (Seed_failed (rtl_mem_addr r) (rtl_mem_pa r) load_size raw_value)
               | Some h' \<Rightarrow> Inr h'))
      else Inr h)"

definition sync_wfi_epc :: "'h whisper \<Rightarrow> rtl_retire \<Rightarrow> u64 option \<Rightarrow> u64 option \<Rightarrow> ref_commit \<Rightarrow> 'h \<Rightarrow> fault + 'h" where
  "sync_wfi_epc W r mtv stv result h =
     (if non_retiring_event mtv stv result \<and> rc_interrupted result \<and> rtl_interrupt_from_wfi r
      then or_fail (externalPokeCsr W (if entered mtv result then MEPC else SEPC) (rtl_interrupt_epc r) h)
             ''failed to synchronize WFI interrupt EPC''
      else Inr h)"

text \<open>One round of the loop: the commit, whether it was only a trap entry, and the hart.\<close>

definition step_attempt :: "'h whisper \<Rightarrow> rtl_retire \<Rightarrow> 'h \<Rightarrow> fault + ref_commit \<times> bool \<times> 'h" where
  "step_attempt W r h0 =
     (let mtv = peekCsr W MTVEC h0; stv = peekCsr W STVEC h0
      in try_ref (synchronize_interrupts W (rtl_mtip r) (rtl_seip r) h0) (\<lambda>h1.
         try_ref (seed_mmio_read W r h1) (\<lambda>h2.
         let h3 = singleStep W h2;
             result = observe_step W (begin_commit W h0) h3
         in try_ref (sync_wfi_epc W r mtv stv result h3) (\<lambda>h4.
            Inr (result, non_retiring_event mtv stv result, h4)))))"

definition kMaxNonRetiringSteps :: nat where "kMaxNonRetiringSteps = 16"

fun step_loop :: "nat \<Rightarrow> 'h whisper \<Rightarrow> rtl_retire \<Rightarrow> 'h \<Rightarrow> fault + ref_commit \<times> 'h" where
  "step_loop 0 W r h = Inl (Message ''too many consecutive non-retiring trap/interrupt steps'')"
| "step_loop (Suc n) W r h =
     try_ref (step_attempt W r h) (\<lambda>(result, nonretiring, h').
       if nonretiring then step_loop n W r h' else Inr (result, h'))"

definition capture_rd :: "'h whisper \<Rightarrow> ref_commit \<Rightarrow> 'h \<Rightarrow> fault + ref_commit" where
  "capture_rd W result h =
     (let rd = lastIntReg W h
      in if sint rd > 0
         then try_ref (guard (sint rd < 32) (Message ''Whisper returned invalid integer destination register''))
                (\<lambda>_. Inr (result\<lparr>rc_rd_we := True, rc_rd := rd, rc_rd_data := peekIntReg W rd h\<rparr>))
         else Inr result)"

definition sync_time :: "'h whisper \<Rightarrow> rtl_retire \<Rightarrow> ref_commit \<Rightarrow> 'h \<Rightarrow> fault + ref_commit \<times> 'h" where
  "sync_time W r result h =
     (if is_time_csr_instruction (rtl_inst r)
      then try_ref (guard (rtl_rd_we r \<and> rtl_rd r \<noteq> 0 \<and> rtl_rd r < 32)
                      (Message ''invalid RTL destination for TIME CSR synchronization'')) (\<lambda>_.
           try_ref (guard (rc_rd_we result \<and> rc_rd result = rtl_rd r)
                      (Message ''RTL/Whisper destination mismatch during TIME synchronization'')) (\<lambda>_.
           try_ref (or_fail (pokeIntReg W (rtl_rd r) (rtl_rd_data r) h)
                      ''failed to synchronize TIME result into Whisper integer register'') (\<lambda>h.
           Inr (result\<lparr>rc_rd_data := rtl_rd_data r\<rparr>, h))))
      else Inr (result, h))"

definition capture_ldst :: "'h whisper \<Rightarrow> ref_commit \<Rightarrow> 'h \<Rightarrow> ref_commit" where
  "capture_ldst W result h =
     (let (ldst_size, va, pa1, pa2) = lastLdStAddress W h;
          result = (if ldst_size \<noteq> 0
            then result\<lparr>rc_mem_valid := True, rc_mem_va := va, rc_mem_pa1 := pa1, rc_mem_pa2 := pa2,
                   rc_mem_size := ldst_size\<rparr>
            else result);
          (store_size, sva, spa1, spa2, store_value) = lastStore W h
      in if store_size \<noteq> 0
         then result\<lparr>rc_mem_valid := True, rc_mem_write := True, rc_mem_va := sva, rc_mem_pa1 := spa1,
                rc_mem_pa2 := spa2, rc_mem_size := store_size, rc_mem_data := store_value\<rparr>
         else if rc_mem_valid result \<and> rc_rd_we result
         then result\<lparr>rc_mem_data := rc_rd_data result\<rparr>
         else result)"

definition capture_csrs :: "'h whisper \<Rightarrow> ref_commit \<Rightarrow> 'h \<Rightarrow> ref_commit" where
  "capture_csrs W result h =
     result\<lparr>rc_csr_writes := rc_csr_writes result @ map (\<lambda>csr. (csr, lastCsrValue W csr h)) (lastCsr W h)\<rparr>"

definition whisper_step :: "'h whisper \<Rightarrow> rtl_retire \<Rightarrow> 'h \<Rightarrow> fault + ref_commit \<times> 'h" where
  "whisper_step W r h =
     try_ref (step_loop kMaxNonRetiringSteps W r h) (\<lambda>(result, h).
     try_ref (capture_rd W result h) (\<lambda>result.
     try_ref (sync_time W r result h) (\<lambda>(result, h).
     Inr (capture_csrs W (capture_ldst W result h) h, h))))"


section \<open>Lemmas\<close>

lemma try_ref_simps [simp]:
  "try_ref (Inl e) k = Inl e" "try_ref (Inr x) k = k x"
  by (simp_all add: try_ref_def)

lemma try_ref_Inr_iff: "try_ref r k = Inr y \<longleftrightarrow> (\<exists>x. r = Inr x \<and> k x = Inr y)"
  by (cases r) auto

lemma or_fail_Inr_iff [simp]: "or_fail x m = Inr y \<longleftrightarrow> x = Some y"
  by (cases x) (auto simp: or_fail_def)

lemma guard_Inr_iff [simp]: "guard b e = Inr u \<longleftrightarrow> b"
  by (simp add: guard_def)

lemmas ref_iffs = try_ref_Inr_iff split_paired_Ex prod.case

text \<open>The reference steps that only enter a trap handler, \<open>k\<close> in a row.\<close>

inductive trap_entries :: "'h whisper \<Rightarrow> rtl_retire \<Rightarrow> nat \<Rightarrow> 'h \<Rightarrow> 'h \<Rightarrow> bool"
  for W r where
  none: "trap_entries W r 0 h h"
| more: "step_attempt W r h = Inr (c, True, h1) \<Longrightarrow> trap_entries W r k h1 h2 \<Longrightarrow> trap_entries W r (Suc k) h h2"

inductive_cases trap_entries_0E: "trap_entries W r 0 h h'"
inductive_cases trap_entries_SucE: "trap_entries W r (Suc k) h h'"

lemma trap_entries_0 [simp]: "trap_entries W r 0 h h' \<longleftrightarrow> h' = h"
  by (auto elim: trap_entries_0E intro: trap_entries.none)

lemma trap_entries_Suc:
  "trap_entries W r (Suc k) h h' \<longleftrightarrow> (\<exists>c h1. step_attempt W r h = Inr (c, True, h1) \<and> trap_entries W r k h1 h')"
  by (blast elim: trap_entries_SucE intro: trap_entries.more)

lemma step_loop_iff:
  "step_loop n W r h = Inr (c, h') \<longleftrightarrow>
   (\<exists>k<n. \<exists>h1. trap_entries W r k h h1 \<and> step_attempt W r h1 = Inr (c, False, h'))"
proof (induction n arbitrary: h)
  case (Suc n)
  have "step_loop (Suc n) W r h = Inr (c, h') \<longleftrightarrow>
      step_attempt W r h = Inr (c, False, h') \<or>
      (\<exists>c1 h1. step_attempt W r h = Inr (c1, True, h1) \<and> step_loop n W r h1 = Inr (c, h'))"
    by (cases "step_attempt W r h") (auto split: if_splits)
  also have "\<dots> \<longleftrightarrow> (\<exists>k<Suc n. \<exists>h1. trap_entries W r k h h1 \<and> step_attempt W r h1 = Inr (c, False, h'))"
    unfolding Suc.IH Ex_less_Suc2 by (auto simp: trap_entries_Suc)
  finally show ?case .
qed simp

lemma step_loop_too_many:
  "trap_entries W r n h h1 \<Longrightarrow>
   step_loop n W r h = Inl (Message ''too many consecutive non-retiring trap/interrupt steps'')"
  by (induction rule: trap_entries.induct) simp_all


lemma in_range_iff:
  "s \<noteq> 0 \<Longrightarrow> b \<le> b + (s - 1) \<Longrightarrow> address_in_range a b s \<longleftrightarrow> b \<le> a \<and> a \<le> b + (s - 1)"
  unfolding address_in_range_def by unat_arith

lemma mmio_ranges:
  "is_rtl_mmio_address a \<longleftrightarrow>
     (0x02000000 \<le> a \<and> a \<le> 0x0200ffff) \<or> (0x0c000000 \<le> a \<and> a \<le> 0x0fffffff) \<or>
     (0x10000000 \<le> a \<and> a \<le> 0x100000ff)"
  by (simp add: is_rtl_mmio_address_def in_range_iff)

lemma devices_synchronised:
  "get_device a \<in> {ACLINT, PLIC, UART} \<longleftrightarrow>
     (0x02000000 \<le> a \<and> a \<le> 0x0200bfff) \<or> (0x0c000000 \<le> a \<and> a \<le> 0x0fffffff) \<or>
     (0x10000000 \<le> a \<and> a \<le> 0x100000ff)"
  unfolding get_device_def DBG_ADDR_def MMAP_ROM_BEGIN_def MMAP_ACLINT_BEGIN_def MMAP_PLIC_BEGIN_def
    MMAP_DMA_BEGIN_def MMAP_UART_BEGIN_def MMAP_RAM_BEGIN_def
  by (simp split: if_split) unat_arith

lemma device_behind_aclint: "0x0200c000 \<le> a \<Longrightarrow> a \<le> 0x0200ffff \<Longrightarrow> get_device a = UNKNOWN"
  unfolding get_device_def DBG_ADDR_def MMAP_ROM_BEGIN_def MMAP_ACLINT_BEGIN_def MMAP_PLIC_BEGIN_def
    MMAP_DMA_BEGIN_def MMAP_UART_BEGIN_def MMAP_RAM_BEGIN_def
  by (simp split: if_split) unat_arith

lemma mmio_devices:
  "is_rtl_mmio_address a \<longleftrightarrow>
     get_device a \<in> {ACLINT, PLIC, UART} \<or> (0x0200c000 \<le> a \<and> a \<le> 0x0200ffff \<and> get_device a = UNKNOWN)"
proof -
  have "0x02000000 \<le> a \<and> a \<le> 0x0200ffff \<longleftrightarrow>
      (0x02000000 \<le> a \<and> a \<le> 0x0200bfff) \<or> (0x0200c000 \<le> a \<and> a \<le> 0x0200ffff)" by unat_arith
  then show ?thesis using device_behind_aclint unfolding mmio_ranges devices_synchronised by blast
qed

lemma less_8_cases: "k < 8 \<Longrightarrow> k \<in> {0, 1, 2, 3, 4, 5, 6, 7 :: nat}"
  by auto

lemma show_nat_inj: "show_nat m = show_nat n \<longleftrightarrow> m = n"
  by (metis read_show_nat)

lemma same_name: "pre @ show_nat i \<in> (\<lambda>j. pre @ show_nat j) ` S \<longleftrightarrow> i \<in> S"
  by (auto simp: show_nat_inj)

lemma disable_csrs_effect:
  assumes "\<forall>n h h'. configCsr W n False 0 0 0 False h = Some h' \<longrightarrow> (\<forall>m. impl m h' \<longleftrightarrow> m \<noteq> n \<and> impl m h)"
  shows "disable_csrs W pre is h = Inr h' \<Longrightarrow> impl m h' \<longleftrightarrow> m \<notin> (\<lambda>i. pre @ show_nat i) ` set is \<and> impl m h"
  by (induction "is" arbitrary: h) (use assms in \<open>fastforce simp: Let_def try_ref_Inr_iff\<close>)+

text \<open>The part of the commit a retiring attempt fixes.\<close>

lemma attempt_commit:
  "step_attempt W r h0 = Inr (c, False, h) \<Longrightarrow>
   rc_pc c = peekPc W h0 \<and> rc_privilege c = privilegeMode W h0 \<and> rc_next_pc c = peekPc W h \<and>
   rc_rd_we c = False \<and> rc_mem_valid c = False \<and> rc_mem_write c = False \<and> rc_csr_writes c = []"
  by (auto simp: step_attempt_def Let_def ref_iffs sync_wfi_epc_def observe_step_def begin_commit_def RefCommit_def
      split: if_splits)

lemma sync_iff:
  "synchronize_interrupts W mt se h = Inr h' \<longleftrightarrow>
   (\<exists>m m'. peekCsr W MIP h = Some m \<and> externalPokeCsr W MIP m' h = Some h' \<and>
      (\<forall>i. bit m' i = (if i = 7 then mt else if i = 9 then se else bit m i)))" (is "?L = ?R")
proof -
  define upd where "upd m = put_bit 9 se (put_bit 7 mt m)" for m :: u64
  have b: "bit (upd m) i = (if i = 7 then mt else if i = 9 then se else bit m i)" for m i
    by (simp add: upd_def bit_put_bit_iff)
  have u: "m' = upd m" if "\<forall>i. bit m' i = (if i = 7 then mt else if i = 9 then se else bit m i)" for m m'
    by (rule bit_word_eqI) (simp only: that b)
  have "?L \<longleftrightarrow> (\<exists>m. peekCsr W MIP h = Some m \<and> externalPokeCsr W MIP (upd m) h = Some h')"
    by (simp add: synchronize_interrupts_def upd_def Let_def try_ref_Inr_iff)
  also have "\<dots> \<longleftrightarrow> ?R" using b u by blast
  finally show ?thesis .
qed


lemma capture_rd_frame:
  "capture_rd W c h = Inr c' \<Longrightarrow>
   \<exists>we rd v. c' = c\<lparr>rc_rd_we := we, rc_rd := rd, rc_rd_data := v\<rparr>"
  by (cases c) (auto simp: capture_rd_def Let_def ref_iffs split: if_splits)

lemma sync_time_frame:
  "sync_time W r c h = Inr (c', h') \<Longrightarrow> \<exists>v. c' = c\<lparr>rc_rd_data := v\<rparr>"
  by (cases c) (auto simp: sync_time_def ref_iffs split: if_splits)

lemma capture_ldst_frame [simp]:
  "rc_pc (capture_ldst W c h) = rc_pc c" "rc_privilege (capture_ldst W c h) = rc_privilege c"
  "rc_next_pc (capture_ldst W c h) = rc_next_pc c" "rc_csr_writes (capture_ldst W c h) = rc_csr_writes c"
  "rc_rd_we (capture_ldst W c h) = rc_rd_we c" "rc_rd (capture_ldst W c h) = rc_rd c"
  "rc_rd_data (capture_ldst W c h) = rc_rd_data c"
  by (simp_all add: capture_ldst_def Let_def split: prod.splits)

lemma commit_frame:
  assumes "capture_rd W c0 h2 = Inr c1" "sync_time W r c1 h2 = Inr (c2, h')"
    and "c = capture_csrs W (capture_ldst W c2 h') h'"
  shows "rc_pc c = rc_pc c0 \<and> rc_privilege c = rc_privilege c0 \<and> rc_next_pc c = rc_next_pc c0 \<and>
      rc_csr_writes c = rc_csr_writes c0 @ map (\<lambda>n. (n, lastCsrValue W n h')) (lastCsr W h')"
  using capture_rd_frame [OF assms(1)] sync_time_frame [OF assms(2)] assms(3)
  by (auto simp: capture_csrs_def)

text \<open>A small hart for the examples: it enters \<open>mtvec\<close> for \<open>d_traps\<close> steps, then every step writes \<open>x5\<close>.\<close>

record demo_hart =
  d_pc :: u64
  d_regs :: "u32 \<Rightarrow> u64"
  d_csrs :: "csr_addr \<Rightarrow> u64"
  d_traps :: nat
  d_trapped :: bool
  d_off :: "string list"

definition demo_step :: "demo_hart \<Rightarrow> demo_hart" where
  "demo_step h =
     (if d_traps h > 0
      then h\<lparr>d_traps := d_traps h - 1, d_trapped := True, d_pc := d_csrs h MTVEC\<rparr>
      else h\<lparr>d_trapped := False, d_pc := d_pc h + 4, d_regs := (d_regs h)(5 := 1)\<rparr>)"

definition demo_whisper :: "demo_hart whisper" where
  "demo_whisper = \<lparr>ithHart0 = \<lambda>_ _. None, configIsa = \<lambda>_ _ h. Some h,
     configCsr = \<lambda>n _ _ _ _ _ h. Some (h\<lparr>d_off := n # d_off h\<rparr>),
     configMachineModePerfCounters = \<lambda>_ _ h. Some h, configUserModePerfCounters = \<lambda>_ h. Some h,
     reset_hart = \<lambda>h. h, loadElfFiles = \<lambda>_ h. Some h, loadBinaryFiles = \<lambda>_ h. Some h,
     peekPc = d_pc, pokePc = \<lambda>a h. h\<lparr>d_pc := a\<rparr>, peekIntReg = \<lambda>i h. d_regs h i,
     pokeIntReg = \<lambda>i v h. Some (h\<lparr>d_regs := (d_regs h)(i := v)\<rparr>), peekCsr = \<lambda>c h. Some (d_csrs h c),
     externalPokeCsr = \<lambda>c v h. Some (h\<lparr>d_csrs := (d_csrs h)(c := v)\<rparr>), pokeMemory = \<lambda>_ _ _ h. Some h,
     privilegeMode = \<lambda>_. 3, singleStep = demo_step, lastInstructionTrapped = d_trapped,
     lastInstructionInterrupted = \<lambda>_. False, lastTrapCause = \<lambda>_. 2, lastIntReg = \<lambda>_. 5,
     lastLdStAddress = \<lambda>_. (0, 0, 0, 0), lastStore = \<lambda>_. (0, 0, 0, 0, 0), lastCsr = \<lambda>_. [],
     lastCsrValue = \<lambda>_ _. 0\<rparr>"

definition demo_hart0 :: demo_hart where
  "demo_hart0 = \<lparr>d_pc = 0x80000000, d_regs = \<lambda>_. 0, d_csrs = (\<lambda>_. 0)(MTVEC := 0x80000100), d_traps = 1,
     d_trapped = False, d_off = []\<rparr>"

text \<open>\<open>rdtime x5\<close>, retired by the RTL with the value 1234.\<close>

definition demo_rdtime :: rtl_retire where
  "demo_rdtime = \<lparr>rtl_inst = 0xc01022f3, rtl_rd_we = True, rtl_rd = 5, rtl_rd_data = 1234,
     rtl_mem_valid = False, rtl_mem_write = False, rtl_mem_addr = 0, rtl_mem_pa = 0,
     rtl_mtip = False, rtl_seip = False, rtl_interrupt_from_wfi = False, rtl_interrupt_epc = 0\<rparr>"

lemma demo_is_time: "is_time_csr_instruction (rtl_inst demo_rdtime)"
  by (simp add: demo_rdtime_def is_time_csr_instruction_def is_csr_instruction_for_def)

definition demo_hart1 :: demo_hart where
  "demo_hart1 = demo_hart0\<lparr>d_traps := 0, d_trapped := True, d_pc := 0x80000100\<rparr>"

definition demo_hart2 :: demo_hart where
  "demo_hart2 = demo_hart1\<lparr>d_trapped := False, d_pc := 0x80000104, d_regs := (\<lambda>_. 0)(5 := 1)\<rparr>"

lemma demo_mip [simp]: "(d_csrs demo_hart0)(MIP := 0) = d_csrs demo_hart0"
  by (auto simp: demo_hart0_def)

lemmas step_defs = step_attempt_def synchronize_interrupts_def seed_mmio_read_def or_fail_def observe_step_def
  begin_commit_def sync_wfi_epc_def non_retiring_event_def entered_def trap_target_def RefCommit_def Let_def

lemma demo_entry: "trap_entries demo_whisper demo_rdtime 1 demo_hart0 demo_hart1"
  by (auto simp: trap_entries_Suc step_defs demo_whisper_def demo_rdtime_def demo_hart0_def demo_hart1_def
      demo_step_def put_bit_def)

lemma demo_attempt:
  "step_attempt demo_whisper demo_rdtime demo_hart1 =
     Inr (RefCommit\<lparr>rc_pc := 0x80000100, rc_privilege := 3, rc_next_pc := 0x80000104\<rparr>, False, demo_hart2)"
  by (auto simp: step_defs demo_whisper_def demo_rdtime_def demo_hart0_def demo_hart1_def demo_hart2_def
      demo_step_def put_bit_def)

lemma demo_loop:
  "step_loop kMaxNonRetiringSteps demo_whisper demo_rdtime demo_hart0 =
     Inr (RefCommit\<lparr>rc_pc := 0x80000100, rc_privilege := 3, rc_next_pc := 0x80000104\<rparr>, demo_hart2)"
  using demo_entry demo_attempt unfolding step_loop_iff kMaxNonRetiringSteps_def
  by (intro exI [of _ 1]) auto

lemma demo_step_result:
  "\<exists>c h. whisper_step demo_whisper demo_rdtime demo_hart0 = Inr (c, h)"
  by (simp add: whisper_step_def demo_loop sync_time_def demo_is_time)
    (simp add: demo_rdtime_def demo_whisper_def capture_rd_def guard_def or_fail_def)


section \<open>Properties\<close>

text \<open>
  C3. A step of the reference either fails or returns the first instruction that really retires.
  It succeeds exactly by skipping fewer than sixteen trap entries and then executing one retiring
  step, whose pc, privilege and next pc the commit reports; sixteen trap entries in a row are the
  error, so the loop never runs on.
\<close>
theorem step_returns_a_retirement:
  "(whisper_step W r h = Inr (c, h') \<longrightarrow>
     (\<exists>k<16. \<exists>h1 h2 c0. trap_entries W r k h h1 \<and> step_attempt W r h1 = Inr (c0, False, h2) \<and>
        rc_pc c = peekPc W h1 \<and> rc_privilege c = privilegeMode W h1 \<and> rc_next_pc c = peekPc W h2 \<and>
        rc_csr_writes c = map (\<lambda>n. (n, lastCsrValue W n h')) (lastCsr W h'))) \<and>
   (trap_entries W r 16 h h' \<longrightarrow>
     whisper_step W r h = Inl (Message ''too many consecutive non-retiring trap/interrupt steps''))"
proof (intro conjI impI)
  assume "whisper_step W r h = Inr (c, h')"
  then obtain c0 h2 c1 c2 where s: "step_loop kMaxNonRetiringSteps W r h = Inr (c0, h2)" "capture_rd W c0 h2 = Inr c1"
    "sync_time W r c1 h2 = Inr (c2, h')" "c = capture_csrs W (capture_ldst W c2 h') h'"
    by (auto simp: whisper_step_def ref_iffs)
  obtain k h1 where k: "k < 16" "trap_entries W r k h h1" "step_attempt W r h1 = Inr (c0, False, h2)"
    using s(1) by (auto simp: step_loop_iff kMaxNonRetiringSteps_def)
  have "rc_pc c = rc_pc c0 \<and> rc_privilege c = rc_privilege c0 \<and> rc_next_pc c = rc_next_pc c0 \<and>
      rc_csr_writes c = rc_csr_writes c0 @ map (\<lambda>n. (n, lastCsrValue W n h')) (lastCsr W h')"
    using s(2-4) by (rule commit_frame)
  with k attempt_commit [OF k(3)] show "\<exists>k<16. \<exists>h1 h2 c0. trap_entries W r k h h1 \<and>
      step_attempt W r h1 = Inr (c0, False, h2) \<and> rc_pc c = peekPc W h1 \<and> rc_privilege c = privilegeMode W h1 \<and>
      rc_next_pc c = peekPc W h2 \<and> rc_csr_writes c = map (\<lambda>n. (n, lastCsrValue W n h')) (lastCsr W h')"
    by auto
next
  assume "trap_entries W r 16 h h'"
  then show "whisper_step W r h = Inl (Message ''too many consecutive non-retiring trap/interrupt steps'')"
    by (simp add: whisper_step_def kMaxNonRetiringSteps_def step_loop_too_many)
qed


theorem step_returns_a_retirement_witness:
  "\<exists>c h. whisper_step demo_whisper demo_rdtime demo_hart0 = Inr (c, h) \<and>
         (\<exists>k<16. \<exists>h1. trap_entries demo_whisper demo_rdtime k demo_hart0 h1 \<and> rc_pc c = d_pc h1)"
proof -
  obtain c h where "whisper_step demo_whisper demo_rdtime demo_hart0 = Inr (c, h)"
    using demo_step_result by blast
  moreover have "peekPc demo_whisper = d_pc" by (simp add: demo_whisper_def)
  ultimately show ?thesis using conjunct1 [OF step_returns_a_retirement [where W = demo_whisper and r = demo_rdtime and h = demo_hart0
        and c = c and h' = h]]
    by fastforce
qed

text \<open>
  The interrupt injection touches nothing but the two injected lines: it succeeds exactly when
  MIP can be read and poked, and the value poked has MTIP and SEIP as given and every other bit as
  Whisper had it.
\<close>
theorem interrupt_injection_is_local:
  "synchronize_interrupts W mt se h = Inr h' \<longleftrightarrow>
   (\<exists>m m'. peekCsr W MIP h = Some m \<and> externalPokeCsr W MIP m' h = Some h' \<and>
      (\<forall>i. bit m' i = (if i = 7 then mt else if i = 9 then se else bit m i)))"
  by (rule sync_iff)

text \<open>
  C27. A retired read of the \<open>time\<close> CSR hands the RTL's value to the reference: when the step
  succeeds, commit and RTL name the same nonzero register, the commit's data is the RTL's, and
  Whisper's register holds it afterwards, given that \<open>pokeIntReg\<close> sets the register it names. A read
  into \<open>x0\<close>, which the instruction set allows, is always refused.
\<close>
theorem time_read_synchronised:
  assumes "is_time_csr_instruction (rtl_inst r)"
    and "\<And>i v h h'. pokeIntReg W i v h = Some h' \<Longrightarrow> i \<noteq> 0 \<Longrightarrow> peekIntReg W i h' = v"
  shows "(whisper_step W r h = Inr (c, h') \<longrightarrow>
      rtl_rd_we r \<and> rtl_rd r \<noteq> 0 \<and> rtl_rd r < 32 \<and> rc_rd_we c \<and> rc_rd c = rtl_rd r \<and>
      rc_rd_data c = rtl_rd_data r \<and> peekIntReg W (rtl_rd r) h' = rtl_rd_data r) \<and>
    (\<not> rtl_rd_we r \<or> rtl_rd r = 0 \<longrightarrow> (\<exists>e. whisper_step W r h = Inl e))"
proof -
  have *: "rtl_rd_we r \<and> rtl_rd r \<noteq> 0 \<and> rtl_rd r < 32 \<and> rc_rd_we c \<and> rc_rd c = rtl_rd r \<and>
      rc_rd_data c = rtl_rd_data r \<and> peekIntReg W (rtl_rd r) h' = rtl_rd_data r"
    if step: "whisper_step W r h = Inr (c, h')" for c h'
  proof -
    obtain h1 c1 c2 where "sync_time W r c1 h1 = Inr (c2, h')" "c = capture_csrs W (capture_ldst W c2 h') h'"
      using step by (auto simp: whisper_step_def ref_iffs)
    then show ?thesis using assms
      by (auto simp: sync_time_def ref_iffs capture_csrs_def)
  qed
  moreover have "(\<exists>e. whisper_step W r h = Inl e) \<longleftrightarrow> \<not> (\<exists>p. whisper_step W r h = Inr p)"
    by (cases "whisper_step W r h") auto
  ultimately show ?thesis by fastforce
qed

theorem time_read_synchronised_witness:
  "\<exists>c h. whisper_step demo_whisper demo_rdtime demo_hart0 = Inr (c, h) \<and> rc_rd_data c = 1234 \<and> d_regs h 5 = 1234"
proof -
  obtain c h where "whisper_step demo_whisper demo_rdtime demo_hart0 = Inr (c, h)"
    using demo_step_result by blast
  moreover have "peekIntReg demo_whisper i h' = v" if "pokeIntReg demo_whisper i v h = Some h'" for i v h h'
    using that by (auto simp: demo_whisper_def)
  moreover have "rtl_rd demo_rdtime = 5" "rtl_rd_data demo_rdtime = 1234" "peekIntReg demo_whisper i h = d_regs h i" for i h
    by (simp_all add: demo_rdtime_def demo_whisper_def)
  ultimately show ?thesis
    using conjunct1 [OF time_read_synchronised [OF demo_is_time, of demo_whisper demo_hart0 c h]] by fastforce
qed

text \<open>
  Which loads take their value from the RTL: those the SoC's address decoder sends to ACLINT,
  PLIC or UART, and besides them only the 16 KiB behind the decoder's ACLINT window. RAM, ROM, the
  DMA engine and the debug port are never synchronised.
\<close>
theorem mmio_window_matches_decoder:
  "is_rtl_mmio_address a \<longleftrightarrow>
     get_device a \<in> {ACLINT, PLIC, UART} \<or> (0x0200c000 \<le> a \<and> a \<le> 0x0200ffff \<and> get_device a = UNKNOWN)"
  by (rule mmio_devices)

text \<open>
  Whisper's PMP registers are those of the RTL. Suppose \<open>configCsr\<close> with \<open>implemented = false\<close>
  removes the named CSR and no other, and Whisper starts with all 64 address and all 8 (even)
  configuration registers. Then after \<open>configure_rtl_pmp_csrs\<close> a PMP register is there exactly when
  \<open>csr_is_implemented\<close> of the RTL accepts it.
\<close>
theorem pmp_csrs_match_rtl:
  assumes "\<forall>n h h'. configCsr W n False 0 0 0 False h = Some h' \<longrightarrow> (\<forall>m. impl m h' \<longleftrightarrow> m \<noteq> n \<and> impl m h)"
    and "\<forall>i<64. impl (''pmpaddr'' @ show_nat i) h" and "\<forall>k<8. impl (''pmpcfg'' @ show_nat (2 * k)) h"
    and "configure_rtl_pmp_csrs W h = Inr h'"
  shows "(\<forall>i<64. impl (''pmpaddr'' @ show_nat i) h' = csr_is_implemented (PMPADDR i)) \<and>
         (\<forall>k<8. impl (''pmpcfg'' @ show_nat (2 * k)) h' =
                csr_is_implemented (if k = 0 then PMPCFG0 else OTHER (0x3a0 + of_nat (2 * k))))"
proof -
  obtain h1 where h1: "disable_csrs W ''pmpaddr'' [8 ..< 64] h = Inr h1"
      "disable_csrs W ''pmpcfg'' (map (\<lambda>k. 2 * k) [1 ..< 8]) h1 = Inr h'"
    using assms(4) by (auto simp: configure_rtl_pmp_csrs_def try_ref_Inr_iff)
  have e: "impl m h1 \<longleftrightarrow> m \<notin> (\<lambda>i. ''pmpaddr'' @ show_nat i) ` {8 ..< 64} \<and> impl m h"
    "impl m h' \<longleftrightarrow> m \<notin> (\<lambda>i. ''pmpcfg'' @ show_nat i) ` (\<lambda>k. 2 * k) ` {1 ..< 8} \<and> impl m h1" for m
    using disable_csrs_effect [OF assms(1) h1(1), of m] disable_csrs_effect [OF assms(1) h1(2), of m]
    by (simp_all only: set_upt set_map)
  have n: "''pmpcfg'' @ x \<notin> (\<lambda>i. ''pmpaddr'' @ show_nat i) ` S"
    "''pmpaddr'' @ x \<notin> (\<lambda>i. ''pmpcfg'' @ show_nat i) ` S" for x S by auto
  have even: "2 * k \<in> (\<lambda>k. 2 * k) ` {1 ..< 8} \<longleftrightarrow> k \<in> {1 ..< 8}" for k :: nat by auto
  have "csr_is_implemented (OTHER (0x3a0 + of_nat (2 * k))) = False" if "k < 8" for k
    using that less_8_cases [of k] by (auto simp: csr_is_implemented_def)
  moreover have "impl (''pmpaddr'' @ show_nat i) h' \<longleftrightarrow> i < 8" if "i < 64" for i
    unfolding e same_name using that assms(2) n by (simp add: not_le del: append.simps append_Cons)
  moreover have "impl (''pmpcfg'' @ show_nat (2 * k)) h' \<longleftrightarrow> k = 0" if "k < 8" for k
    unfolding e same_name even using that assms(3) n by (simp add: not_le del: append.simps append_Cons)
  ultimately show ?thesis by (simp add: csr_is_implemented_def)
qed


text \<open>On the demonstration hart, a CSR is there until it is configured away.\<close>

lemma demo_configure:
  "\<exists>off. configure_rtl_pmp_csrs demo_whisper demo_hart0 = Inr (demo_hart0\<lparr>d_off := off\<rparr>)"
proof -
  have "\<exists>off. disable_csrs demo_whisper pre is (demo_hart0\<lparr>d_off := off0\<rparr>) = Inr (demo_hart0\<lparr>d_off := off\<rparr>)" for pre "is" off0
    by (induction "is" arbitrary: off0) (auto simp: Let_def demo_whisper_def or_fail_def)
  from this [of "''pmpaddr''" "[8 ..< 64]" "[]"] this [of "''pmpcfg''" "map (\<lambda>k. 2 * k) [1 ..< 8]"] show ?thesis
    by (fastforce simp: configure_rtl_pmp_csrs_def demo_hart0_def simp del: upt_rec_numeral)
qed

theorem pmp_csrs_match_rtl_witness:
  "\<exists>h. configure_rtl_pmp_csrs demo_whisper demo_hart0 = Inr h \<and>
       ''pmpaddr8'' \<in> set (d_off h) \<and> ''pmpaddr7'' \<notin> set (d_off h)"
proof -
  obtain h where h: "configure_rtl_pmp_csrs demo_whisper demo_hart0 = Inr h" using demo_configure by blast
  let ?impl = "\<lambda>m h. m \<notin> set (d_off h)"
  have "\<forall>n h h'. configCsr demo_whisper n False 0 0 0 False h = Some h' \<longrightarrow>
      (\<forall>m. ?impl m h' \<longleftrightarrow> m \<noteq> n \<and> ?impl m h)"
    by (auto simp: demo_whisper_def)
  from pmp_csrs_match_rtl [where impl = ?impl, OF this _ _ h]
  have "\<forall>i<64. ?impl (''pmpaddr'' @ show_nat i) h = csr_is_implemented (PMPADDR i)"
    by (simp add: demo_hart0_def)
  from spec [OF this, of 7] spec [OF this, of 8] have
    "?impl (''pmpaddr'' @ show_nat 7) h" "\<not> ?impl (''pmpaddr'' @ show_nat 8) h"
    by (simp_all add: csr_is_implemented_def)
  moreover have "show_nat 7 = ''7''" "show_nat 8 = ''8''" by (simp_all add: show_nat.simps digit_def char_of_def bit_0)
  ultimately show ?thesis using h by auto
qed

end
