(* ===== verification/Harness.thy ===== *)
theory Harness
  imports Lockstep
begin

text \<open>
  The lockstep harness, \<open>tb/tb_verilator.cpp\<close>: it clocks the Verilated SoC, runs the reference beside
  it and compares every retired instruction. The Verilated model is not modelled here: the harness
  is a function of the outputs it samples after each \<open>eval\<close> (\<open>dut\<close>, one record per half cycle), of
  the command line, the environment and the reference \<open>W\<close>. Diagnostic lines are values of \<open>log\<close>, one
  constructor per line of the source with the values it prints; the text around them is left out.
  The terminal set-up and the VCD trace (\<open>TRACE\<close>) are not modelled.
\<close>

unbundle bit_operations_syntax

section \<open>Byte lanes\<close>

definition value_mask_for_size :: "u32 \<Rightarrow> u64" where
  "value_mask_for_size sz =
     (if sz = 0 then 0 else if sz \<ge> 8 then NOT 0 else push_bit (unat (sz * 8)) 1 - 1)"

fun first_set_from :: "nat list \<Rightarrow> u8 \<Rightarrow> nat" where
  "first_set_from [] m = 0"
| "first_set_from (lane # lanes) m =
     (if m AND push_bit lane 1 \<noteq> 0 then lane else first_set_from lanes m)"

definition first_set_lane :: "u8 \<Rightarrow> nat" where
  "first_set_lane m = first_set_from [0 ..< 8] m"

definition size_from_byte_mask :: "u8 \<Rightarrow> u32" where
  "size_from_byte_mask m =
     (let count = fold (\<lambda>lane c. c + ucast (drop_bit lane m AND 1)) [0 ..< 8] 0 :: u32
      in if count \<in> {1, 2, 4, 8} then count else 0)"

definition normalize_rtl_store_data :: "u64 \<Rightarrow> u8 \<Rightarrow> u64" where
  "normalize_rtl_store_data lane_aligned_data byte_mask =
     (let sz = size_from_byte_mask byte_mask; lane = first_set_lane byte_mask
      in if sz = 0 then lane_aligned_data
         else drop_bit (lane * 8) lane_aligned_data AND value_mask_for_size sz)"


section \<open>Comparing a retired instruction\<close>

text \<open>The outputs of \<open>Vcore_top\<close> the harness reads; \<open>o_finish\<close> is \<open>$finish\<close> called in this \<open>eval\<close>.\<close>

record dut =
  o_retire_valid :: bool
  o_retire_pc :: u64
  o_retire_inst :: u32
  o_retire_priv :: u32
  o_retire_rd_we :: bool
  o_retire_rd_addr :: u32
  o_retire_rd_data :: u64
  o_retire_mem_valid :: bool
  o_retire_mem_write :: bool
  o_retire_mem_addr :: u64
  o_retire_mem_pa :: u64
  o_retire_mem_mask :: u8
  o_retire_mem_data :: u64
  o_lockstep_mtip :: bool
  o_interrupt_trap_taken :: bool
  o_interrupt_cause :: u32
  o_interrupt_pc :: u64
  o_interrupt_inst :: u32
  o_exception_trap_taken :: bool
  o_exception_cause :: u32
  o_exception_value :: u64
  o_exception_pc :: u64
  o_exception_inst :: u32
  o_mtip_trap_taken :: bool
  o_uart_tx_valid :: bool
  o_uart_tx_char :: char
  o_test_success :: bool
  o_finish :: bool

datatype difference =
    Diff_pc u64 u64
  | Diff_privilege u32 u32
  | Diff_rd_we bool bool
  | Diff_rd u32 u32
  | Diff_rd_data u64 u64
  | Diff_mem_valid bool bool
  | Diff_mem_write bool bool
  | Diff_mem_addr u64 u64 u64
  | Diff_mem_pa u64 u64 u64 u64
  | Diff_mem_size u32 u32 u8
  | Diff_mem_data u64 u64 u64 u8
  | Mem_context u64 u64 u64 u64 u32 bool

definition when_differs :: "bool \<Rightarrow> difference \<Rightarrow> difference list" where
  "when_differs b d = (if b then [d] else [])"

definition rd_differences :: "dut \<Rightarrow> ref_commit \<Rightarrow> difference list" where
  "rd_differences d ref =
     (if o_retire_rd_we d \<noteq> rc_rd_we ref then [Diff_rd_we (o_retire_rd_we d) (rc_rd_we ref)]
      else if o_retire_rd_we d
      then when_differs (o_retire_rd_addr d \<noteq> rc_rd ref) (Diff_rd (o_retire_rd_addr d) (rc_rd ref)) @
           when_differs (o_retire_rd_data d \<noteq> rc_rd_data ref) (Diff_rd_data (o_retire_rd_data d) (rc_rd_data ref))
      else [])"

definition mem_data_differences :: "dut \<Rightarrow> ref_commit \<Rightarrow> difference list" where
  "mem_data_differences d ref =
     (if o_retire_mem_write d \<and> rc_mem_write ref
      then (let rtl_store_data = normalize_rtl_store_data (o_retire_mem_data d) (o_retire_mem_mask d);
                m = value_mask_for_size (rc_mem_size ref)
            in when_differs (rtl_store_data AND m \<noteq> rc_mem_data ref AND m)
                 (Diff_mem_data (rtl_store_data AND m) (rc_mem_data ref AND m) (o_retire_mem_data d)
                    (o_retire_mem_mask d)))
      else [])"

definition mem_differences :: "dut \<Rightarrow> ref_commit \<Rightarrow> difference list" where
  "mem_differences d ref =
     (if o_retire_mem_valid d \<noteq> rc_mem_valid ref then [Diff_mem_valid (o_retire_mem_valid d) (rc_mem_valid ref)]
      else if o_retire_mem_valid d
      then (let sz = size_from_byte_mask (o_retire_mem_mask d)
            in when_differs (o_retire_mem_write d \<noteq> rc_mem_write ref)
                 (Diff_mem_write (o_retire_mem_write d) (rc_mem_write ref)) @
               when_differs (o_retire_mem_addr d \<noteq> rc_mem_va ref)
                 (Diff_mem_addr (o_retire_mem_addr d) (rc_mem_va ref) (rc_mem_pa1 ref)) @
               when_differs (o_retire_mem_pa d \<noteq> rc_mem_pa1 ref)
                 (Diff_mem_pa (o_retire_mem_pa d) (rc_mem_pa1 ref) (o_retire_mem_addr d) (rc_mem_va ref)) @
               when_differs (o_retire_mem_write d \<and> sz \<noteq> rc_mem_size ref)
                 (Diff_mem_size sz (rc_mem_size ref) (o_retire_mem_mask d)) @
               mem_data_differences d ref)
      else [])"

text \<open>The boolean result and the lines of the mismatch report (none when the commits agree).\<close>

definition compare_commit :: "dut \<Rightarrow> ref_commit \<Rightarrow> bool \<times> difference list" where
  "compare_commit d ref =
     (let differences =
        when_differs (o_retire_pc d \<noteq> rc_pc ref) (Diff_pc (o_retire_pc d) (rc_pc ref)) @
        when_differs (o_retire_priv d \<noteq> rc_privilege ref) (Diff_privilege (o_retire_priv d) (rc_privilege ref)) @
        rd_differences d ref @ mem_differences d ref;
        ok = (differences = [])
      in (ok, if \<not> ok \<and> o_retire_mem_valid d
              then differences @ [Mem_context (o_retire_mem_addr d) (o_retire_mem_pa d) (rc_mem_pa1 ref)
                                    (rc_mem_va ref) (rc_mem_size ref) (o_retire_mem_write d)]
              else differences))"


section \<open>Command line and environment\<close>

text \<open>\<open>strtoull\<close> of the C library: skips white space, takes a sign, and with base 0 lets the prefix choose
  the base. The result is the value and the rest of the text, \<open>None\<close> if no digit was read.\<close>

definition digit_value :: "char \<Rightarrow> nat" where
  "digit_value c =
     (let n = of_char c :: nat
      in if 48 \<le> n \<and> n \<le> 57 then n - 48 else if 97 \<le> n \<and> n \<le> 122 then n - 87
         else if 65 \<le> n \<and> n \<le> 90 then n - 55 else 99)"

definition is_space :: "char \<Rightarrow> bool" where
  "is_space c = (let n = of_char c :: nat in n = 32 \<or> (9 \<le> n \<and> n \<le> 13))"

definition take_number :: "nat \<Rightarrow> string \<Rightarrow> (nat \<times> string) option" where
  "take_number b t =
     (let ds = takeWhile (\<lambda>c. digit_value c < b) t
      in if ds = [] then None
         else Some (foldl (\<lambda>n c. b * n + digit_value c) 0 ds, drop (length ds) t))"

definition take_prefixed :: "nat \<Rightarrow> string \<Rightarrow> (nat \<times> string) option" where
  "take_prefixed b t =
     (if b \<noteq> 0 then take_number b t
      else if t \<noteq> [] \<and> hd t = CHR ''0''
      then (if length t \<ge> 3 \<and> t ! 1 \<in> {CHR ''x'', CHR ''X''} \<and> digit_value (t ! 2) < 16
            then take_number 16 (drop 2 t) else take_number 8 t)
      else take_number 10 t)"

definition strtoull :: "nat \<Rightarrow> string \<Rightarrow> (bool \<times> u64 \<times> string) option" where
  "strtoull b text0 =
     (let t = dropWhile is_space text0;
          neg = (t \<noteq> [] \<and> hd t = CHR ''-'');
          t = (if t \<noteq> [] \<and> hd t \<in> {CHR ''-'', CHR ''+''} then tl t else t)
      in case take_prefixed b t of
           None \<Rightarrow> None
         | Some (n, rest) \<Rightarrow>
             Some (n < 2 ^ 64, if n < 2 ^ 64 then (if neg then - of_nat n else of_nat n) else -1, rest))"

text \<open>The value argument is changed only where the source assigns it: the result pairs it with success.\<close>

fun plusarg_u64 :: "string list \<Rightarrow> string \<Rightarrow> u64 \<Rightarrow> bool \<times> u64" where
  "plusarg_u64 [] key v = (False, v)"
| "plusarg_u64 (arg # args) key v =
     (let pre = ''+'' @ key @ ''=''
      in if \<not> prefix pre arg then plusarg_u64 args key v
         else case strtoull 0 (drop (length pre) arg) of
                None \<Rightarrow> (False, 0)
              | Some (_, n, rest) \<Rightarrow> (rest = [], n))"

definition required_environment :: "(string \<Rightarrow> string option) \<Rightarrow> string \<Rightarrow> fault + string" where
  "required_environment getenv name =
     (case getenv name of
        None \<Rightarrow> Inl (Message (''missing required environment variable: '' @ name))
      | Some v \<Rightarrow> if v = [] then Inl (Message (''missing required environment variable: '' @ name)) else Inr v)"

definition reference_config :: "(string \<Rightarrow> string option) \<Rightarrow> fault + whisper_config" where
  "reference_config getenv =
     try_ref (required_environment getenv ''WHISPER_OPENSBI_ELF'') (\<lambda>elf.
     let config = WhisperConfig\<lparr>opensbi_elf := elf\<rparr>;
         config = (case getenv ''WHISPER_DTB'' of None \<Rightarrow> config | Some dtb \<Rightarrow> config\<lparr>dtb_binary := dtb\<rparr>);
         config = (case getenv ''WHISPER_LINUX'' of None \<Rightarrow> config | Some img \<Rightarrow> config\<lparr>linux_binary := img\<rparr>)
     in Inr (config\<lparr>start_pc := 0x80000000, hart_id := 0, dtb_address := 0x87f00000,
                    linux_address := 0x80200000\<rparr>))"

definition create_whisper_reference :: "'h whisper \<Rightarrow> (string \<Rightarrow> string option) \<Rightarrow> fault + 'h" where
  "create_whisper_reference W getenv = try_ref (reference_config getenv) (WhisperRef W)"



section \<open>The lockstep loop\<close>

text \<open>The diagnostic lines, with the values they print in the order of the source.\<close>

datatype log =
    Comparison_started u64 u64
  | Busybox_pass u64
  | Expt_event u64 u64 bool u64 u64 u32 u32 u64
  | Expt_sync u64 u64 u32 u64 u64 u64 bool bool u64
  | Expt_skip u64 u64 u64 bool bool
  | Intr_event u64 u64 bool u64 u64 u32 u32
  | Mtimer_event u64 u64 bool u64 u64 u32 bool
  | Mtimer_inject u64 u64 u64 u32 u64 u32 bool
  | Seip_inject u64 u64 u64 u32 u64 u32
  | Trace u64 dut u64 ref_commit
  | Mismatch u64 u64 u32 ref_commit "difference list"
  | Passed u64 u64
  | Stop_order_reached u64 u64
  | Never_started
  | Pass u64 bool bool

record 'h lockstep =
  ls_hart :: 'h
  ls_rtl_retire_order :: u64
  ls_compared_order :: u64
  ls_started :: bool
  ls_failed :: bool
  ls_stop_reached :: bool
  ls_busybox_pass_reached :: bool
  ls_uart_window :: string
  ls_mtimer_pending :: bool
  ls_mtimer_pending_pc :: u64
  ls_mtimer_pending_inst :: u32
  ls_seip_pending :: bool
  ls_seip_pending_pc :: u64
  ls_seip_pending_inst :: u32
  ls_got_finish :: bool
  ls_log :: "log list"

record lockstep_options =
  op_trace_enabled :: bool
  op_trace_start :: u64
  op_trace_end :: u64
  op_stop_enabled :: bool
  op_stop_order :: u64

definition lockstep_start_pc :: u64 where "lockstep_start_pc = 0x80000000"
definition kBusyboxPassToken :: string where "kBusyboxPassToken = ''BUSYBOX-TEST-PASS''"
definition kWfiInstruction :: u32 where "kWfiInstruction = 0x10500073"

definition lockstep_options_of :: "string list \<Rightarrow> lockstep_options" where
  "lockstep_options_of args =
     (let (start_given, trace_start) = plusarg_u64 args ''LOCKSTEP_TRACE_START'' 0;
          (end_given, trace_end) = (if start_given then plusarg_u64 args ''LOCKSTEP_TRACE_END'' 0 else (False, 0));
          (stop_given, stop_order) = plusarg_u64 args ''LOCKSTEP_STOP_ORDER'' 0
      in \<lparr>op_trace_enabled = (start_given \<and> end_given \<and> trace_start \<le> trace_end), op_trace_start = trace_start,
          op_trace_end = trace_end, op_stop_enabled = stop_given, op_stop_order = stop_order\<rparr>)"

definition lockstep_init :: "'h \<Rightarrow> 'h lockstep" where
  "lockstep_init h = \<lparr>ls_hart = h, ls_rtl_retire_order = 0, ls_compared_order = 0, ls_started = False,
     ls_failed = False, ls_stop_reached = False, ls_busybox_pass_reached = False, ls_uart_window = [],
     ls_mtimer_pending = False, ls_mtimer_pending_pc = 0, ls_mtimer_pending_inst = 0,
     ls_seip_pending = False, ls_seip_pending_pc = 0, ls_seip_pending_inst = 0,
     ls_got_finish = False, ls_log = []\<rparr>"

definition emit :: "log \<Rightarrow> 'h lockstep \<Rightarrow> 'h lockstep" where
  "emit l s = s\<lparr>ls_log := ls_log s @ [l]\<rparr>"

definition uart_window :: "bool \<Rightarrow> dut \<Rightarrow> 'h lockstep \<Rightarrow> 'h lockstep" where
  "uart_window clk d s =
     (if clk \<and> o_uart_tx_valid d
      then (let w = ls_uart_window s @ [o_uart_tx_char d];
                n = length kBusyboxPassToken;
                w = (if length w > n then drop (length w - n) w else w);
                s = s\<lparr>ls_uart_window := w\<rparr>
            in if w = kBusyboxPassToken
               then emit (Busybox_pass (ls_compared_order s))
                      (s\<lparr>ls_busybox_pass_reached := True, ls_got_finish := True\<rparr>)
               else s)
      else s)"

definition exception_event :: "'h whisper \<Rightarrow> bool \<Rightarrow> dut \<Rightarrow> 'h lockstep \<Rightarrow> fault + 'h lockstep" where
  "exception_event W clk d s =
     (if clk \<and> o_exception_trap_taken d
      then (let s = emit (Expt_event (ls_compared_order s) (ls_rtl_retire_order s) (o_retire_valid d) (o_retire_pc d)
                      (o_exception_pc d) (o_exception_inst d) (o_exception_cause d) (o_exception_value d)) s;
                trap_pc = o_exception_pc d;
                ref_pc = (if ls_started s then peekPc W (ls_hart s) else 0);
                can_sync = (ls_started s \<and> \<not> o_retire_valid d \<and> \<not> ls_mtimer_pending s \<and>
                            \<not> ls_seip_pending s \<and> ref_pc = trap_pc)
            in if can_sync
               then try_ref (step_non_retiring_trap W False False (ls_hart s)) (\<lambda>(ref, h).
                    Inr (emit (Expt_sync (ls_compared_order s) (o_exception_pc d) (o_exception_inst d) ref_pc (rc_pc ref)
                                 (rc_next_pc ref) (rc_trapped ref) (rc_interrupted ref) (rc_trap_cause ref))
                           (s\<lparr>ls_hart := h\<rparr>)))
               else if ls_started s \<and> \<not> o_retire_valid d
               then Inr (emit (Expt_skip (ls_compared_order s) trap_pc ref_pc (ls_mtimer_pending s) (ls_seip_pending s)) s)
               else Inr s)
      else Inr s)"

definition arm_seip :: "dut \<Rightarrow> 'h lockstep \<Rightarrow> 'h lockstep" where
  "arm_seip d s = s\<lparr>ls_seip_pending := True, ls_seip_pending_pc := o_interrupt_pc d,
     ls_seip_pending_inst := o_interrupt_inst d\<rparr>"

definition arm_mtimer :: "dut \<Rightarrow> 'h lockstep \<Rightarrow> 'h lockstep" where
  "arm_mtimer d s = s\<lparr>ls_mtimer_pending := True, ls_mtimer_pending_pc := o_interrupt_pc d,
     ls_mtimer_pending_inst := o_interrupt_inst d\<rparr>"

definition interrupt_event :: "bool \<Rightarrow> dut \<Rightarrow> 'h lockstep \<Rightarrow> 'h lockstep" where
  "interrupt_event clk d s =
     (if clk \<and> o_interrupt_trap_taken d
      then (let s = emit (Intr_event (ls_compared_order s) (ls_rtl_retire_order s) (o_retire_valid d) (o_retire_pc d)
                      (o_interrupt_pc d) (o_interrupt_inst d) (o_interrupt_cause d)) s
            in if o_interrupt_cause d = 9 \<and> \<not> o_retire_valid d then arm_seip d s else s)
      else s)"

definition mtimer_event :: "bool \<Rightarrow> dut \<Rightarrow> 'h lockstep \<Rightarrow> 'h lockstep" where
  "mtimer_event clk d s =
     (if clk \<and> o_mtip_trap_taken d
      then (let s = emit (Mtimer_event (ls_compared_order s) (ls_rtl_retire_order s) (o_retire_valid d) (o_retire_pc d)
                      (o_interrupt_pc d) (o_interrupt_inst d) (o_lockstep_mtip d)) s
            in if \<not> o_retire_valid d then arm_mtimer d s else s)
      else s)"

text \<open>The retirement of an instruction: start of the comparison, the reference step with the pending
  one-shot events, their reset, the re-arming for events of the same edge, and the comparison.\<close>

definition start_comparison :: "dut \<Rightarrow> 'h lockstep \<Rightarrow> 'h lockstep" where
  "start_comparison d s =
     (let s = s\<lparr>ls_rtl_retire_order := ls_rtl_retire_order s + 1\<rparr>
      in if \<not> ls_started s \<and> o_retire_pc d = lockstep_start_pc
         then emit (Comparison_started (ls_rtl_retire_order s) (o_retire_pc d)) (s\<lparr>ls_started := True\<rparr>)
         else s)"

definition retire_of :: "dut \<Rightarrow> 'h lockstep \<Rightarrow> rtl_retire" where
  "retire_of d s = \<lparr>rtl_inst = o_retire_inst d, rtl_rd_we = o_retire_rd_we d, rtl_rd = o_retire_rd_addr d,
     rtl_rd_data = o_retire_rd_data d, rtl_mem_valid = o_retire_mem_valid d, rtl_mem_write = o_retire_mem_write d,
     rtl_mem_addr = o_retire_mem_addr d, rtl_mem_pa = o_retire_mem_pa d,
     rtl_mtip = ls_mtimer_pending s, rtl_seip = ls_seip_pending s,
     rtl_interrupt_from_wfi = (ls_mtimer_pending s \<and> ls_mtimer_pending_inst s = kWfiInstruction \<or>
        ls_seip_pending s \<and> ls_seip_pending_inst s = kWfiInstruction),
     rtl_interrupt_epc = (if ls_mtimer_pending s then ls_mtimer_pending_pc s + 4 else ls_seip_pending_pc s + 4)\<rparr>"

definition log_injection :: "'h whisper \<Rightarrow> dut \<Rightarrow> 'h lockstep \<Rightarrow> 'h lockstep" where
  "log_injection W d s =
     (let s = (if ls_mtimer_pending s
            then emit (Mtimer_inject (ls_compared_order s) (o_retire_pc d) (ls_mtimer_pending_pc s)
                   (ls_mtimer_pending_inst s) (peekPc W (ls_hart s)) (o_retire_inst d) (o_lockstep_mtip d)) s
            else s)
      in if ls_seip_pending s
         then emit (Seip_inject (ls_compared_order s) (o_retire_pc d) (ls_seip_pending_pc s)
                (ls_seip_pending_inst s) (peekPc W (ls_hart s)) (o_retire_inst d)) s
         else s)"

definition consume_events :: "'h lockstep \<Rightarrow> 'h lockstep" where
  "consume_events s = s\<lparr>ls_mtimer_pending := False, ls_mtimer_pending_pc := 0, ls_mtimer_pending_inst := 0,
     ls_seip_pending := False, ls_seip_pending_pc := 0, ls_seip_pending_inst := 0\<rparr>"

definition trace_commit :: "lockstep_options \<Rightarrow> dut \<Rightarrow> u64 \<Rightarrow> ref_commit \<Rightarrow> 'h lockstep \<Rightarrow> 'h lockstep" where
  "trace_commit opts d ref_pc ref s =
     (if op_trace_enabled opts \<and> op_trace_start opts \<le> ls_compared_order s \<and>
         ls_compared_order s \<le> op_trace_end opts
      then emit (Trace (ls_compared_order s) d ref_pc ref) s else s)"

definition rearm_events :: "dut \<Rightarrow> 'h lockstep \<Rightarrow> 'h lockstep" where
  "rearm_events d s =
     (let s = (if o_mtip_trap_taken d then arm_mtimer d s else s)
      in if o_interrupt_trap_taken d \<and> o_interrupt_cause d = 9 then arm_seip d s else s)"

definition check_commit :: "lockstep_options \<Rightarrow> dut \<Rightarrow> ref_commit \<Rightarrow> 'h lockstep \<Rightarrow> 'h lockstep" where
  "check_commit opts d ref s =
     (let (ok, differences) = compare_commit d ref;
          s = (if \<not> ok
            then emit (Mismatch (ls_compared_order s) (o_retire_pc d) (o_retire_inst d) ref differences)
                   (s\<lparr>ls_failed := True\<rparr>)
            else if ls_compared_order s mod 10000 = 0 then emit (Passed (ls_compared_order s) (o_retire_pc d)) s
            else s)
      in if \<not> ls_failed s \<and> op_stop_enabled opts \<and> op_stop_order opts \<le> ls_compared_order s
         then emit (Stop_order_reached (ls_compared_order s) (o_retire_pc d))
                (s\<lparr>ls_stop_reached := True, ls_got_finish := True\<rparr>)
         else s)"

definition compare_retirement :: "'h whisper \<Rightarrow> lockstep_options \<Rightarrow> dut \<Rightarrow> 'h lockstep \<Rightarrow> fault + 'h lockstep" where
  "compare_retirement W opts d s =
     (let s = s\<lparr>ls_compared_order := ls_compared_order s + 1\<rparr>;
          ref_pc = peekPc W (ls_hart s);
          s = log_injection W d s
      in try_ref (whisper_step W (retire_of d s) (ls_hart s)) (\<lambda>(ref, h).
         Inr (check_commit opts d ref (rearm_events d (trace_commit opts d ref_pc ref
                (consume_events (s\<lparr>ls_hart := h\<rparr>)))))))"

definition retire_event :: "'h whisper \<Rightarrow> lockstep_options \<Rightarrow> bool \<Rightarrow> dut \<Rightarrow> 'h lockstep \<Rightarrow> fault + 'h lockstep" where
  "retire_event W opts clk d s =
     (if clk \<and> o_retire_valid d
      then (let s = start_comparison d s
            in if ls_started s then compare_retirement W opts d s else Inr s)
      else Inr s)"

definition half_cycle :: "'h whisper \<Rightarrow> lockstep_options \<Rightarrow> bool \<Rightarrow> dut \<Rightarrow> 'h lockstep \<Rightarrow> fault + 'h lockstep" where
  "half_cycle W opts clk d s =
     (let s = uart_window clk d (s\<lparr>ls_got_finish := ls_got_finish s \<or> o_finish d\<rparr>)
      in try_ref (exception_event W clk d s) (\<lambda>s.
         retire_event W opts clk d (mtimer_event clk d (interrupt_event clk d s))))"

text \<open>The loop over the outputs of the DUT, one per \<open>eval\<close>; the clock rises on even half cycles. It ends
  when the harness leaves the loop; \<open>False\<close> says that the given outputs were used up before that.\<close>

fun lockstep_loop ::
  "'h whisper \<Rightarrow> lockstep_options \<Rightarrow> u64 \<Rightarrow> nat \<Rightarrow> dut list \<Rightarrow> 'h lockstep \<Rightarrow> fault + bool \<times> 'h lockstep" where
  "lockstep_loop W opts cycles n ds s =
     (if ls_got_finish s \<or> ls_failed s \<or> (cycles \<noteq> 0 \<and> \<not> int (n div 2) < sint cycles) then Inr (True, s)
      else case ds of
        [] \<Rightarrow> Inr (False, s)
      | d # rest \<Rightarrow> try_ref (half_cycle W opts (even n) d s) (lockstep_loop W opts cycles (Suc n) rest))"

declare lockstep_loop.simps [simp del]

text \<open>The end of \<open>main\<close>: its exit status and last line. \<open>TEST_MODE\<close> and the final outputs are given.\<close>

definition exit_status :: "bool \<Rightarrow> dut \<Rightarrow> 'h lockstep \<Rightarrow> int \<times> 'h lockstep" where
  "exit_status test_mode d s =
     (if ls_failed s then (2, s)
      else if \<not> ls_started s then (3, emit Never_started s)
      else (if test_mode then (if o_test_success d then 0 else 1) else 0,
            emit (Pass (ls_compared_order s) (ls_stop_reached s) (ls_busybox_pass_reached s)) s))"



section \<open>main\<close>

type_synonym env = "string \<Rightarrow> string option"

definition positional_args :: "string list \<Rightarrow> string list" where
  "positional_args args = filter (\<lambda>a. a = [] \<or> hd a \<noteq> CHR ''+'') args"

text \<open>\<open>std::stoull\<close>: base 10, trailing text ignored, \<open>None\<close> where it throws.\<close>

definition stoull :: "string \<Rightarrow> u64 option" where
  "stoull t = (case strtoull 10 t of Some (True, n, _) \<Rightarrow> Some n | _ \<Rightarrow> None)"

text \<open>\<open>argv[1..]\<close> to ROM path, RAM path and cycle count; \<open>None\<close> is the exit with status 1.
  \<open>absolute\<close> is \<open>fs::absolute\<close>, \<open>None\<close> where it throws.\<close>

definition main_args :: "(string \<Rightarrow> string option) \<Rightarrow> string list \<Rightarrow> (string \<times> string \<times> u64) option" where
  "main_args absolute args =
     (let pos = positional_args args
      in if length pos < 2 then None
         else case (absolute (pos ! 0), absolute (pos ! 1)) of
           (Some rom, Some ram) \<Rightarrow>
             if length pos \<ge> 3
             then (case stoull (pos ! 2) of None \<Rightarrow> None | Some cycles \<Rightarrow> Some (rom, ram, cycles))
             else Some (rom, ram, 0)
         | _ \<Rightarrow> None)"

text \<open>The environment the DUT sees while it is built and reset, and the one restored afterwards.\<close>

definition memory_env :: "string \<Rightarrow> string \<Rightarrow> env \<Rightarrow> env" where
  "memory_env rom ram env = env(''ROM_FILE_PATH'' \<mapsto> rom, ''RAM_FILE_PATH'' \<mapsto> ram)"

definition restore_env :: "env \<Rightarrow> env \<Rightarrow> env" where
  "restore_env old env =
     (let env = (case old ''ROM_FILE_PATH'' of Some v \<Rightarrow> env(''ROM_FILE_PATH'' \<mapsto> v)
                 | None \<Rightarrow> env(''ROM_FILE_PATH'' := None))
      in case old ''RAM_FILE_PATH'' of Some v \<Rightarrow> env(''RAM_FILE_PATH'' \<mapsto> v)
         | None \<Rightarrow> env(''RAM_FILE_PATH'' := None))"

definition dbg_address :: "env \<Rightarrow> u64" where
  "dbg_address env =
     (case env ''DBG_ADDR'' of None \<Rightarrow> 0
      | Some t \<Rightarrow> (case strtoull 0 t of None \<Rightarrow> 0 | Some (_, n, _) \<Rightarrow> n))"

text \<open>The values of \<open>clk\<close> and \<open>rst\<close> at each \<open>eval\<close> of the reset sequence.\<close>

fun reset_edges :: "nat \<Rightarrow> bool \<Rightarrow> (bool \<times> bool) list" where
  "reset_edges 0 clk = []"
| "reset_edges (Suc n) clk = (\<not> clk, False) # reset_edges n (\<not> clk)"

definition reset_drive :: "(bool \<times> bool) list" where
  "reset_drive = [(False, True)] @ reset_edges 4 False @ [(False, True)]"

text \<open>How the run ends: an exit status, an exception nobody catches, or outputs that ran out.\<close>

datatype 'h main_result =
    Exited int "'h lockstep option"
  | Terminated fault
  | Unfinished "'h lockstep"

definition harness_main ::
  "'h whisper \<Rightarrow> (string \<Rightarrow> string option) \<Rightarrow> bool \<Rightarrow> env \<Rightarrow> string list \<Rightarrow> bool \<Rightarrow> dut list \<Rightarrow> dut \<Rightarrow> 'h main_result" where
  "harness_main W absolute test_mode env args reset_finish outs final =
     (case main_args absolute args of
        None \<Rightarrow> Exited 1 None
      | Some (rom, ram, cycles) \<Rightarrow>
          (case create_whisper_reference W (restore_env env (memory_env rom ram env)) of
             Inl e \<Rightarrow> Exited 1 None
           | Inr h \<Rightarrow>
               (case lockstep_loop W (lockstep_options_of args) cycles 0 outs
                       ((lockstep_init h)\<lparr>ls_got_finish := reset_finish\<rparr>) of
                  Inl e \<Rightarrow> Terminated e
                | Inr (False, s) \<Rightarrow> Unfinished s
                | Inr (True, s) \<Rightarrow> (let (status, s) = exit_status test_mode final s in Exited status (Some s)))))"


section \<open>Lemmas\<close>

lemma env_restored: "restore_env env (memory_env rom ram env) = env"
  by (rule ext) (simp add: restore_env_def memory_env_def Let_def split: option.split)

lemma when_differs_Nil [simp]: "when_differs b d = [] \<longleftrightarrow> \<not> b"
  by (simp add: when_differs_def)

text \<open>What an instruction does, as the RTL and as the reference report it.\<close>

definition rtl_rd_effect :: "dut \<Rightarrow> (u32 \<times> u64) option" where
  "rtl_rd_effect d = (if o_retire_rd_we d then Some (o_retire_rd_addr d, o_retire_rd_data d) else None)"

definition ref_rd_effect :: "ref_commit \<Rightarrow> (u32 \<times> u64) option" where
  "ref_rd_effect ref = (if rc_rd_we ref then Some (rc_rd ref, rc_rd_data ref) else None)"

definition rtl_mem_effect :: "dut \<Rightarrow> (u64 \<times> u64 \<times> (u32 \<times> u64) option) option" where
  "rtl_mem_effect d =
     (if o_retire_mem_valid d
      then Some (o_retire_mem_addr d, o_retire_mem_pa d,
             if o_retire_mem_write d
             then (let n = size_from_byte_mask (o_retire_mem_mask d)
                   in Some (n, normalize_rtl_store_data (o_retire_mem_data d) (o_retire_mem_mask d) AND value_mask_for_size n))
             else None)
      else None)"

definition ref_mem_effect :: "ref_commit \<Rightarrow> (u64 \<times> u64 \<times> (u32 \<times> u64) option) option" where
  "ref_mem_effect ref =
     (if rc_mem_valid ref
      then Some (rc_mem_va ref, rc_mem_pa1 ref,
             if rc_mem_write ref
             then Some (rc_mem_size ref, rc_mem_data ref AND value_mask_for_size (rc_mem_size ref)) else None)
      else None)"

lemma rd_differences_iff: "rd_differences d ref = [] \<longleftrightarrow> rtl_rd_effect d = ref_rd_effect ref"
  by (auto simp: rd_differences_def rtl_rd_effect_def ref_rd_effect_def)

lemma mem_differences_iff: "mem_differences d ref = [] \<longleftrightarrow> rtl_mem_effect d = ref_mem_effect ref"
  by (cases "o_retire_mem_valid d"; cases "rc_mem_valid ref"; cases "o_retire_mem_write d"; cases "rc_mem_write ref")
    (auto simp: mem_differences_def mem_data_differences_def rtl_mem_effect_def ref_mem_effect_def Let_def)

lemma compare_commit_iff:
  "fst (compare_commit d ref) \<longleftrightarrow>
     o_retire_pc d = rc_pc ref \<and> o_retire_priv d = rc_privilege ref \<and>
     rtl_rd_effect d = ref_rd_effect ref \<and> rtl_mem_effect d = ref_mem_effect ref"
  "snd (compare_commit d ref) = [] \<longleftrightarrow> fst (compare_commit d ref)"
  by (auto simp: compare_commit_def Let_def rd_differences_iff mem_differences_iff)


subsection \<open>Byte lanes\<close>

text \<open>The byte mask of an access of \<open>sz\<close> bytes at lane \<open>lane\<close>.\<close>

definition byte_lanes :: "nat \<Rightarrow> nat \<Rightarrow> u8" where
  "byte_lanes lane sz = push_bit lane (mask sz)"

lemma upt_8: "[0 ..< 8] = [0, 1, 2, 3, 4, 5, 6, 7 :: nat]"
  by (simp add: upt_rec)

lemma lanes_cases:
  assumes "sz \<in> {1, 2, 4, 8 :: nat}" and "lane + sz \<le> 8"
  shows "(sz = 1 \<and> lane \<in> {0, 1, 2, 3, 4, 5, 6, 7}) \<or> (sz = 2 \<and> lane \<in> {0, 1, 2, 3, 4, 5, 6}) \<or>
         (sz = 4 \<and> lane \<in> {0, 1, 2, 3, 4}) \<or> (sz = 8 \<and> lane = 0)"
  using assms by auto

lemma lane_mask:
  assumes "sz \<in> {1, 2, 4, 8 :: nat}" and "lane + sz \<le> 8"
  shows "size_from_byte_mask (byte_lanes lane sz) = of_nat sz \<and> first_set_lane (byte_lanes lane sz) = lane"
  using lanes_cases [OF assms]
  by (elim disjE conjE insertE emptyE)
    (simp_all add: size_from_byte_mask_def first_set_lane_def byte_lanes_def upt_8 mask_numeral)

lemma value_mask: "sz \<in> {1, 2, 4, 8 :: nat} \<Longrightarrow> value_mask_for_size (of_nat sz) = mask (8 * sz)"
  by (elim insertE emptyE) (simp_all add: value_mask_for_size_def mask_numeral word_le_nat_alt)

lemma normalize_lanes:
  assumes "sz \<in> {1, 2, 4, 8 :: nat}" and "lane + sz \<le> 8"
  shows "normalize_rtl_store_data d (byte_lanes lane sz) = take_bit (8 * sz) (drop_bit (8 * lane) d)"
proof -
  have "of_nat sz \<noteq> (0 :: u32)" using assms(1) by auto
  then show ?thesis using lane_mask [OF assms] value_mask [OF assms(1)]
    by (simp add: normalize_rtl_store_data_def take_bit_eq_mask mult.commute)
qed



subsection \<open>Numbers on the command line\<close>

lemma digit_value_digit: "d < 10 \<Longrightarrow> digit_value (digit d) = d"
  by (simp add: digit_value_def of_char_digit)

lemma set_show_nat: "c \<in> set (show_nat n) \<Longrightarrow> \<exists>d < 10. c = digit d"
proof (induction n rule: show_nat.induct)
  case (1 n)
  have "n mod 10 < 10" by simp
  have "c = digit (n mod 10) \<or> (\<not> n < 10 \<and> c \<in> set (show_nat (n div 10))) \<or> (n < 10 \<and> c = digit n)"
    using 1(2) by (subst (asm) show_nat.simps) (auto split: if_splits)
  with 1(1) \<open>n mod 10 < 10\<close> show ?case by blast
qed

lemma hd_show_nat_pos: "0 < n \<Longrightarrow> \<exists>d t. 0 < d \<and> d < 10 \<and> show_nat n = digit d # t"
proof (induction n rule: show_nat.induct)
  case (1 n)
  then show ?case by (subst show_nat.simps) (cases "n < 10"; fastforce)
qed

lemma take_number_show_nat: "take_number 10 (show_nat n) = Some (n, [])"
proof -
  have "takeWhile (\<lambda>c. digit_value c < 10) (show_nat n) = show_nat n"
    by (auto simp: takeWhile_eq_all_conv digit_value_digit dest: set_show_nat)
  moreover have "show_nat n \<noteq> []" using hd_show_nat [of n] by auto
  moreover have "foldl (\<lambda>m c. 10 * m + digit_value c) 0 (show_nat n) = read_nat (show_nat n)"
    unfolding read_nat_def
    by (rule foldl_cong) (auto simp: digit_value_digit of_char_digit dest: set_show_nat)
  ultimately show ?thesis by (simp add: take_number_def read_show_nat Let_def del: takeWhile_eq_all_conv)
qed

lemma take_prefixed_show_nat: "take_prefixed 0 (show_nat n) = Some (n, [])"
proof (cases "n = 0")
  case True
  have "show_nat 0 = ''0''" by (subst show_nat.simps) (simp add: digit_def char_of_def bit_0 bit_Suc)
  with True show ?thesis by (simp add: take_prefixed_def take_number_def digit_value_def)
next
  case False
  then obtain d t where "0 < d" "d < 10" "show_nat n = digit d # t" using hd_show_nat_pos [of n] by auto
  moreover have "digit d \<noteq> CHR ''0''" using of_char_digit [of d] \<open>0 < d\<close> \<open>d < 10\<close> by force
  ultimately show ?thesis using take_number_show_nat [of n] by (simp add: take_prefixed_def)
qed

lemma strtoull_show_nat: "strtoull 0 (show_nat (unat v)) = Some (True, v, [])"
proof -
  obtain d t where d: "d < 10" "show_nat (unat v) = digit d # t" using hd_show_nat [of "unat v"] by auto
  have "\<not> is_space (digit d)" using d(1) by (simp add: is_space_def of_char_digit)
  moreover have "digit d \<noteq> CHR ''-''" "digit d \<noteq> CHR ''+''" using of_char_digit [of d] d(1) by force+
  moreover have "unat v < 2 ^ 64" using unsigned_less [of v, where 'a = nat] by simp
  ultimately show ?thesis using take_prefixed_show_nat [of "unat v"] d(2)
    by (simp add: strtoull_def Let_def)
qed

lemma plusarg_skip: "\<forall>a \<in> set before. \<not> prefix (''+'' @ key @ ''='') a \<Longrightarrow>
  plusarg_u64 (before @ args) key v = plusarg_u64 args key v"
  by (induction before) (auto simp: Let_def)


subsection \<open>What a half cycle changes\<close>

lemma emit_frame [frame]:
  "ls_hart (emit l s) = ls_hart s" "ls_started (emit l s) = ls_started s" "ls_failed (emit l s) = ls_failed s"
  "ls_mtimer_pending (emit l s) = ls_mtimer_pending s" "ls_seip_pending (emit l s) = ls_seip_pending s"
  "ls_compared_order (emit l s) = ls_compared_order s" "ls_uart_window (emit l s) = ls_uart_window s"
  "ls_busybox_pass_reached (emit l s) = ls_busybox_pass_reached s"
  by (simp_all add: emit_def)

lemma uart_window_frame [frame]:
  "ls_hart (uart_window clk d s) = ls_hart s" "ls_started (uart_window clk d s) = ls_started s"
  "ls_failed (uart_window clk d s) = ls_failed s"
  "ls_mtimer_pending (uart_window clk d s) = ls_mtimer_pending s"
  "ls_seip_pending (uart_window clk d s) = ls_seip_pending s"
  "ls_compared_order (uart_window clk d s) = ls_compared_order s"
  by (simp_all add: uart_window_def Let_def emit_frame)

lemma exception_event_frame:
  "exception_event W clk d s = Inr s' \<Longrightarrow>
   ls_started s' = ls_started s \<and> ls_failed s' = ls_failed s \<and> ls_mtimer_pending s' = ls_mtimer_pending s \<and>
   ls_seip_pending s' = ls_seip_pending s \<and> ls_compared_order s' = ls_compared_order s \<and>
   ls_uart_window s' = ls_uart_window s \<and> ls_busybox_pass_reached s' = ls_busybox_pass_reached s"
  by (auto simp: exception_event_def Let_def ref_iffs frame split: if_splits)

lemma interrupt_event_frame [frame]:
  "ls_hart (interrupt_event clk d s) = ls_hart s" "ls_started (interrupt_event clk d s) = ls_started s"
  "ls_failed (interrupt_event clk d s) = ls_failed s"
  "ls_mtimer_pending (interrupt_event clk d s) = ls_mtimer_pending s"
  "ls_compared_order (interrupt_event clk d s) = ls_compared_order s"
  "ls_uart_window (interrupt_event clk d s) = ls_uart_window s"
  "ls_busybox_pass_reached (interrupt_event clk d s) = ls_busybox_pass_reached s"
  "ls_seip_pending (interrupt_event clk d s) =
     (ls_seip_pending s \<or> clk \<and> o_interrupt_trap_taken d \<and> o_interrupt_cause d = 9 \<and> \<not> o_retire_valid d)"
  by (auto simp: interrupt_event_def arm_seip_def Let_def frame)

lemma mtimer_event_frame [frame]:
  "ls_hart (mtimer_event clk d s) = ls_hart s" "ls_started (mtimer_event clk d s) = ls_started s"
  "ls_failed (mtimer_event clk d s) = ls_failed s"
  "ls_seip_pending (mtimer_event clk d s) = ls_seip_pending s"
  "ls_compared_order (mtimer_event clk d s) = ls_compared_order s"
  "ls_uart_window (mtimer_event clk d s) = ls_uart_window s"
  "ls_busybox_pass_reached (mtimer_event clk d s) = ls_busybox_pass_reached s"
  "ls_mtimer_pending (mtimer_event clk d s) = (ls_mtimer_pending s \<or> clk \<and> o_mtip_trap_taken d \<and> \<not> o_retire_valid d)"
  by (auto simp: mtimer_event_def arm_mtimer_def Let_def frame)

lemma start_comparison_frame [frame]:
  "ls_hart (start_comparison d s) = ls_hart s" "ls_failed (start_comparison d s) = ls_failed s"
  "ls_mtimer_pending (start_comparison d s) = ls_mtimer_pending s"
  "ls_seip_pending (start_comparison d s) = ls_seip_pending s"
  "ls_compared_order (start_comparison d s) = ls_compared_order s"
  "ls_uart_window (start_comparison d s) = ls_uart_window s"
  "ls_busybox_pass_reached (start_comparison d s) = ls_busybox_pass_reached s"
  "ls_started (start_comparison d s) = (ls_started s \<or> o_retire_pc d = lockstep_start_pc)"
  by (simp_all add: start_comparison_def Let_def frame)

lemma log_injection_frame [frame]:
  "ls_hart (log_injection W d s) = ls_hart s" "ls_started (log_injection W d s) = ls_started s"
  "ls_failed (log_injection W d s) = ls_failed s"
  "ls_mtimer_pending (log_injection W d s) = ls_mtimer_pending s"
  "ls_seip_pending (log_injection W d s) = ls_seip_pending s"
  "ls_compared_order (log_injection W d s) = ls_compared_order s"
  "ls_uart_window (log_injection W d s) = ls_uart_window s"
  "ls_busybox_pass_reached (log_injection W d s) = ls_busybox_pass_reached s"
  by (simp_all add: log_injection_def Let_def frame)

lemma trace_commit_frame [frame]:
  "ls_started (trace_commit opts d p ref s) = ls_started s" "ls_failed (trace_commit opts d p ref s) = ls_failed s"
  "ls_mtimer_pending (trace_commit opts d p ref s) = ls_mtimer_pending s"
  "ls_seip_pending (trace_commit opts d p ref s) = ls_seip_pending s"
  "ls_compared_order (trace_commit opts d p ref s) = ls_compared_order s"
  "ls_uart_window (trace_commit opts d p ref s) = ls_uart_window s"
  "ls_busybox_pass_reached (trace_commit opts d p ref s) = ls_busybox_pass_reached s"
  by (simp_all add: trace_commit_def frame)

lemma rearm_events_frame [frame]:
  "ls_started (rearm_events d s) = ls_started s" "ls_failed (rearm_events d s) = ls_failed s"
  "ls_compared_order (rearm_events d s) = ls_compared_order s"
  "ls_uart_window (rearm_events d s) = ls_uart_window s"
  "ls_busybox_pass_reached (rearm_events d s) = ls_busybox_pass_reached s"
  "ls_mtimer_pending (rearm_events d s) = (ls_mtimer_pending s \<or> o_mtip_trap_taken d)"
  "ls_seip_pending (rearm_events d s) =
     (ls_seip_pending s \<or> o_interrupt_trap_taken d \<and> o_interrupt_cause d = 9)"
  by (auto simp: rearm_events_def arm_mtimer_def arm_seip_def Let_def)

lemma check_commit_frame [frame]:
  "ls_started (check_commit opts d ref s) = ls_started s"
  "ls_mtimer_pending (check_commit opts d ref s) = ls_mtimer_pending s"
  "ls_seip_pending (check_commit opts d ref s) = ls_seip_pending s"
  "ls_compared_order (check_commit opts d ref s) = ls_compared_order s"
  "ls_uart_window (check_commit opts d ref s) = ls_uart_window s"
  "ls_busybox_pass_reached (check_commit opts d ref s) = ls_busybox_pass_reached s"
  "ls_failed (check_commit opts d ref s) = (ls_failed s \<or> \<not> fst (compare_commit d ref))"
  by (simp_all add: check_commit_def Let_def frame split: prod.splits)

lemma compare_retirement_frame:
  "compare_retirement W opts d s = Inr s' \<Longrightarrow>
   (\<exists>ref h. whisper_step W (retire_of d s) (ls_hart s) = Inr (ref, h) \<and>
            ls_failed s' = (ls_failed s \<or> \<not> fst (compare_commit d ref))) \<and>
   ls_started s' = ls_started s \<and> ls_compared_order s' = ls_compared_order s + 1 \<and>
   ls_mtimer_pending s' = o_mtip_trap_taken d \<and>
   ls_seip_pending s' = (o_interrupt_trap_taken d \<and> o_interrupt_cause d = 9) \<and>
   ls_uart_window s' = ls_uart_window s \<and> ls_busybox_pass_reached s' = ls_busybox_pass_reached s"
proof -
  have r: "retire_of d (log_injection W d s1) = retire_of d s1" for s1 :: "'a lockstep"
    by (simp add: retire_of_def log_injection_def emit_def Let_def)
  have r': "retire_of d (s\<lparr>ls_compared_order := n\<rparr>) = retire_of d s" for n
    by (simp add: retire_of_def)
  assume "compare_retirement W opts d s = Inr s'"
  then show ?thesis
    by (auto simp: compare_retirement_def Let_def ref_iffs frame consume_events_def r r')
qed



subsection \<open>Runs\<close>

text \<open>The half cycles so far, newest first: the clock level and the sampled outputs.\<close>

type_synonym history = "(bool \<times> dut) list"

fun retires :: "bool \<times> dut \<Rightarrow> bool" where
  "retires (clk, d) \<longleftrightarrow> clk \<and> o_retire_valid d"

text \<open>The comparison has started once an instruction at 0x80000000 has retired.\<close>

definition starts :: "bool \<times> dut \<Rightarrow> bool" where
  "starts e \<longleftrightarrow> retires e \<and> o_retire_pc (snd e) = 0x80000000"

definition started_by :: "history \<Rightarrow> bool" where
  "started_by hist \<longleftrightarrow> (\<exists>e \<in> set hist. starts e)"

definition compared_at :: "bool \<times> dut \<Rightarrow> history \<Rightarrow> bool" where
  "compared_at e older \<longleftrightarrow> retires e \<and> started_by (e # older)"

fun compared :: "history \<Rightarrow> nat" where
  "compared [] = 0"
| "compared (e # older) = (if compared_at e older then 1 else 0) + compared older"

inductive runs :: "'h whisper \<Rightarrow> lockstep_options \<Rightarrow> 'h \<Rightarrow> history \<Rightarrow> 'h lockstep \<Rightarrow> bool"
  for W opts h0 where
  init: "runs W opts h0 [] (lockstep_init h0)"
| step: "runs W opts h0 older s \<Longrightarrow> \<not> ls_failed s \<Longrightarrow> half_cycle W opts clk d s = Inr s' \<Longrightarrow>
         runs W opts h0 ((clk, d) # older) s'"

inductive_cases runs_ConsE: "runs W opts h0 (e # older) s"

text \<open>The main loop only makes such runs.\<close>

lemma lockstep_loop_runs:
  "runs W opts h0 hist s \<Longrightarrow> lockstep_loop W opts cycles n ds s = Inr (b, s') \<Longrightarrow>
   \<exists>m \<le> length ds. runs W opts h0 (rev (zip (map (\<lambda>i. even (n + i)) [0 ..< m]) (take m ds)) @ hist) s'"
proof (induction ds arbitrary: n s hist)
  case Nil
  then show ?case by (subst (asm) lockstep_loop.simps) (auto split: if_splits)
next
  case (Cons d ds)
  note l = Cons.prems(2) [unfolded lockstep_loop.simps [of W opts cycles n "d # ds" s] list.case]
  show ?case
  proof (cases "ls_got_finish s \<or> ls_failed s \<or> (cycles \<noteq> 0 \<and> \<not> int (n div 2) < sint cycles)")
    case True
    with l Cons.prems(1) show ?thesis by (intro exI [of _ 0]) simp
  next
    case False
    with l obtain s1 where s1: "half_cycle W opts (even n) d s = Inr s1"
        "lockstep_loop W opts cycles (Suc n) ds s1 = Inr (b, s')"
      by (auto simp: try_ref_Inr_iff simp del: even_Suc)
    have "runs W opts h0 ((even n, d) # hist) s1" using Cons.prems(1) False s1(1) by (auto intro: runs.step)
    from Cons.IH [OF this s1(2)] obtain m where "m \<le> length ds"
      "runs W opts h0 (rev (zip (map (\<lambda>i. even (Suc n + i)) [0 ..< m]) (take m ds)) @ (even n, d) # hist) s'" by blast
    moreover have "map (\<lambda>i. even (n + i)) [0 ..< Suc m] = even n # map (\<lambda>i. even (Suc n + i)) [0 ..< m]"
      by (simp add: upt_conv_Cons map_Suc_upt [symmetric] del: upt_Suc)
    ultimately show ?thesis by (intro exI [of _ "Suc m"]) simp
  qed
qed

lemma half_cycle_effect:
  assumes "half_cycle W opts clk d s = Inr s'"
  shows "ls_started s' = (ls_started s \<or> starts (clk, d)) \<and>
    ls_mtimer_pending s' = (if retires (clk, d) \<and> ls_started s' then o_mtip_trap_taken d
           else ls_mtimer_pending s \<or> (\<not> retires (clk, d) \<and> clk \<and> o_mtip_trap_taken d)) \<and>
    ls_seip_pending s' = (if retires (clk, d) \<and> ls_started s' then o_interrupt_trap_taken d \<and> o_interrupt_cause d = 9
           else ls_seip_pending s \<or> (\<not> retires (clk, d) \<and> clk \<and> o_interrupt_trap_taken d \<and> o_interrupt_cause d = 9)) \<and>
    ls_compared_order s' = (if retires (clk, d) \<and> ls_started s' then ls_compared_order s + 1 else ls_compared_order s) \<and>
    ls_uart_window s' = ls_uart_window (uart_window clk d s) \<and>
    ls_busybox_pass_reached s' = ls_busybox_pass_reached (uart_window clk d s)"
proof -
  obtain s1 where s1: "exception_event W clk d (uart_window clk d (s\<lparr>ls_got_finish := ls_got_finish s \<or> o_finish d\<rparr>)) = Inr s1"
      "retire_event W opts clk d (mtimer_event clk d (interrupt_event clk d s1)) = Inr s'"
    using assms by (auto simp: half_cycle_def Let_def try_ref_Inr_iff)
  have w: "ls_uart_window (uart_window c d (s\<lparr>ls_got_finish := g\<rparr>)) = ls_uart_window (uart_window c d s)"
    "ls_busybox_pass_reached (uart_window c d (s\<lparr>ls_got_finish := g\<rparr>)) = ls_busybox_pass_reached (uart_window c d s)"
    for c g by (simp_all add: uart_window_def Let_def emit_def)
  note f = exception_event_frame [OF s1(1)]
  let ?s2 = "mtimer_event clk d (interrupt_event clk d s1)"
  consider (idle) "\<not> retires (clk, d)" "s' = ?s2"
    | (boot) "retires (clk, d)" "\<not> ls_started (start_comparison d ?s2)" "s' = start_comparison d ?s2"
    | (compare) "retires (clk, d)" "ls_started (start_comparison d ?s2)"
        "compare_retirement W opts d (start_comparison d ?s2) = Inr s'"
    using s1(2) by (auto simp: retire_event_def Let_def split: if_splits)
  then show ?thesis
  proof cases
    case idle
    then show ?thesis by (simp add: frame f w starts_def) blast
  next
    case boot
    then show ?thesis by (simp add: frame f w starts_def lockstep_start_pc_def)
  next
    case compare
    then show ?thesis
      by (simp add: frame f w starts_def lockstep_start_pc_def compare_retirement_frame [OF compare(3)])
  qed
qed

text \<open>On a retirement edge the reference steps from the state before the edge.\<close>

lemma half_cycle_compares:
  assumes "half_cycle W opts clk d s = Inr s'" and "retires (clk, d)" and "ls_started s'"
  shows "\<exists>ref h. whisper_step W (retire_of d s) (ls_hart s) = Inr (ref, h) \<and>
                 ls_failed s' = (ls_failed s \<or> \<not> fst (compare_commit d ref))"
proof -
  have v: "clk" "o_retire_valid d" using assms(2) by simp_all
  let ?s0 = "uart_window clk d (s\<lparr>ls_got_finish := ls_got_finish s \<or> o_finish d\<rparr>)"
  obtain s1 where s1: "exception_event W clk d ?s0 = Inr s1"
      "retire_event W opts clk d (mtimer_event clk d (interrupt_event clk d s1)) = Inr s'"
    using assms by (auto simp: half_cycle_def Let_def try_ref_Inr_iff)
  let ?s2 = "start_comparison d (mtimer_event clk d (interrupt_event clk d s1))"
  have c: "compare_retirement W opts d ?s2 = Inr s'"
    using s1(2) v assms(3) by (auto simp: retire_event_def Let_def split: if_splits)
  have e: "s1 = (if o_exception_trap_taken d then emit (Expt_event (ls_compared_order ?s0) (ls_rtl_retire_order ?s0)
      (o_retire_valid d) (o_retire_pc d) (o_exception_pc d) (o_exception_inst d) (o_exception_cause d)
      (o_exception_value d)) ?s0 else ?s0)"
    using s1(1) v by (auto simp: exception_event_def Let_def)
  have r: "retire_of d ?s2 = retire_of d s" "ls_hart ?s2 = ls_hart s" "ls_failed ?s2 = ls_failed s"
    using v unfolding e
    by (simp_all add: retire_of_def start_comparison_def mtimer_event_def interrupt_event_def uart_window_def
        emit_def Let_def)
  show ?thesis using compare_retirement_frame [OF c] unfolding r by blast
qed

lemma started_by_Cons: "started_by (e # older) \<longleftrightarrow> starts e \<or> started_by older"
  by (auto simp: started_by_def)

lemma runs_started: "runs W opts h0 hist s \<Longrightarrow> ls_started s \<longleftrightarrow> started_by hist"
proof (induction rule: runs.induct)
  case (step older s clk d s')
  then show ?case using half_cycle_effect [OF step.hyps(3)] by (auto simp: started_by_Cons)
qed (simp add: lockstep_init_def started_by_def)

lemma runs_compared: "runs W opts h0 hist s \<Longrightarrow> ls_compared_order s = of_nat (compared hist)"
proof (induction rule: runs.induct)
  case (step older s clk d s')
  have "ls_started s' \<longleftrightarrow> started_by ((clk, d) # older)"
    using runs_started [OF runs.step [OF step.hyps]] .
  then show ?case using half_cycle_effect [OF step.hyps(3)] step.IH by (simp add: compared_at_def del: retires.simps)
qed (simp add: lockstep_init_def)

text \<open>An event is due when it was accepted after the last compared retirement, or on its very edge.\<close>

definition event_due :: "(dut \<Rightarrow> bool) \<Rightarrow> history \<Rightarrow> bool" where
  "event_due ev hist \<longleftrightarrow>
     (\<exists>newer e older. hist = newer @ e # older \<and> fst e \<and> ev (snd e) \<and> (retires e \<longrightarrow> compared_at e older) \<and>
        (\<forall>n1 x n2. newer = n1 @ x # n2 \<longrightarrow> \<not> compared_at x (n2 @ e # older)))"

lemma event_due_Nil: "\<not> event_due ev []"
  by (simp add: event_due_def)

lemma event_due_Cons:
  "event_due ev (e # older) \<longleftrightarrow>
     (if compared_at e older then fst e \<and> ev (snd e)
      else event_due ev older \<or> (\<not> retires e \<and> fst e \<and> ev (snd e)))" (is "?L \<longleftrightarrow> ?R")
proof
  assume ?L
  then obtain newer x old where s: "e # older = newer @ x # old" "fst x" "ev (snd x)" "retires x \<longrightarrow> compared_at x old"
    "\<And>n1 y n2. newer = n1 @ y # n2 \<Longrightarrow> \<not> compared_at y (n2 @ x # old)" unfolding event_due_def by blast
  show ?R
  proof (cases newer)
    case Nil
    with s show ?thesis by auto
  next
    case (Cons y newer')
    with s(1) have [simp]: "y = e" "older = newer' @ x # old" by simp_all
    have "\<not> compared_at e older" using s(5) [of "[]" e newer'] Cons by simp
    moreover have "event_due ev older"
      unfolding event_due_def using s(2-5) Cons by (intro exI [of _ newer'] exI [of _ x] exI [of _ old]) auto
    ultimately show ?thesis by simp
  qed
next
  assume R: ?R
  show ?L
  proof (cases "fst e \<and> ev (snd e) \<and> (retires e \<longrightarrow> compared_at e older)")
    case True
    then show ?thesis unfolding event_due_def by (intro exI [of _ "[]"] exI [of _ e] exI [of _ older]) simp
  next
    case False
    with R have n: "\<not> compared_at e older" and "event_due ev older" by (auto split: if_splits)
    then obtain newer x old where s: "older = newer @ x # old" "fst x" "ev (snd x)" "retires x \<longrightarrow> compared_at x old"
      "\<And>n1 y n2. newer = n1 @ y # n2 \<Longrightarrow> \<not> compared_at y (n2 @ x # old)" unfolding event_due_def by blast
    have "\<not> compared_at y (n2 @ x # old)" if "e # newer = n1 @ y # n2" for n1 y n2
      using that s(5) n s(1) by (cases n1) auto
    with s show ?thesis unfolding event_due_def by (intro exI [of _ "e # newer"] exI [of _ x] exI [of _ old]) simp
  qed
qed

lemma runs_pending:
  "runs W opts h0 hist s \<Longrightarrow>
   ls_mtimer_pending s = event_due o_mtip_trap_taken hist \<and>
   ls_seip_pending s = event_due (\<lambda>d. o_interrupt_trap_taken d \<and> o_interrupt_cause d = 9) hist"
proof (induction rule: runs.induct)
  case (step older s clk d s')
  have "ls_started s' \<longleftrightarrow> started_by ((clk, d) # older)"
    using runs_started [OF runs.step [OF step.hyps]] .
  then show ?case using half_cycle_effect [OF step.hyps(3)] step.IH
    by (cases clk; cases "o_retire_valid d") (simp_all add: compared_at_def event_due_Cons)
qed (simp add: lockstep_init_def event_due_Nil)


text \<open>The characters the UART has sent, and the window the harness keeps of them.\<close>

fun uart_output :: "history \<Rightarrow> string" where
  "uart_output [] = []"
| "uart_output ((clk, d) # older) =
     uart_output older @ (if clk \<and> o_uart_tx_valid d then [o_uart_tx_char d] else [])"

definition last_n :: "nat \<Rightarrow> 'a list \<Rightarrow> 'a list" where
  "last_n n xs = drop (length xs - n) xs"

lemma last_n_snoc: "last_n n (last_n n xs @ [x]) = last_n n (xs @ [x])"
  by (cases "n \<le> length xs") (auto simp: last_n_def Suc_diff_le)

lemma suffix_iff_last_n: "suffix ys xs \<longleftrightarrow> last_n (length ys) xs = ys"
  unfolding last_n_def suffix_def
  by (metis append_eq_conv_conj append_take_drop_id diff_diff_cancel length_append length_drop le_add2 diff_add_inverse2)

lemma token_found_at_end:
  "token \<noteq> [] \<Longrightarrow> sublist token (xs @ [x]) \<longleftrightarrow> sublist token xs \<or> last_n (length token) (xs @ [x]) = token"
  by (simp add: sublist_snoc suffix_iff_last_n disj_commute)

lemma uart_window_step:
  "ls_uart_window (uart_window clk d s) =
     (if clk \<and> o_uart_tx_valid d then last_n (length kBusyboxPassToken) (ls_uart_window s @ [o_uart_tx_char d])
      else ls_uart_window s)"
  "ls_busybox_pass_reached (uart_window clk d s) =
     (ls_busybox_pass_reached s \<or> clk \<and> o_uart_tx_valid d \<and>
        last_n (length kBusyboxPassToken) (ls_uart_window s @ [o_uart_tx_char d]) = kBusyboxPassToken)"
  by (auto simp: uart_window_def last_n_def Let_def emit_def split: if_splits)

lemma runs_uart:
  "runs W opts h0 hist s \<Longrightarrow>
   ls_uart_window s = last_n (length kBusyboxPassToken) (uart_output hist) \<and>
   ls_busybox_pass_reached s = sublist kBusyboxPassToken (uart_output hist)"
proof (induction rule: runs.induct)
  case (step older s clk d s')
  have "kBusyboxPassToken \<noteq> []" by (simp add: kBusyboxPassToken_def)
  from token_found_at_end [OF this] show ?case
    using half_cycle_effect [OF step.hyps(3)] step.IH
    by (cases clk; cases "o_uart_tx_valid d") (simp_all add: uart_window_step last_n_snoc del: retires.simps)
qed (simp_all add: lockstep_init_def last_n_def kBusyboxPassToken_def)

lemma runs_agree:
  "runs W opts h0 hist s \<Longrightarrow> \<not> ls_failed s \<Longrightarrow> hist = newer @ (clk, d) # older \<Longrightarrow> compared_at (clk, d) older \<Longrightarrow>
   \<exists>s1 ref h. runs W opts h0 older s1 \<and> whisper_step W (retire_of d s1) (ls_hart s1) = Inr (ref, h) \<and>
              fst (compare_commit d ref)"
proof (induction arbitrary: newer rule: runs.induct)
  case (step older1 s c1 d1 s')
  show ?case
  proof (cases newer)
    case Nil
    with step.prems have [simp]: "c1 = clk" "d1 = d" "older1 = older" by simp_all
    have "ls_started s'" using runs_started [OF runs.step [OF step.hyps]] step.prems(3) by (cases clk) (simp_all add: compared_at_def)
    with half_cycle_compares [OF step.hyps(3)] step.prems(1,3) step.hyps(1) show ?thesis
      unfolding compared_at_def by auto
  next
    case (Cons y newer')
    with step.prems step.hyps(2) step.IH [of newer'] show ?thesis by auto
  qed
qed simp



lemma bus_lanes: "8 * lane + n \<le> 64 \<Longrightarrow> \<forall>i < n. bit (push_bit (8 * lane) v :: u64) (8 * lane + i) = bit v i"
  by (simp add: bit_push_bit_iff)


subsection \<open>A small run\<close>

text \<open>\<open>addi x5, x0, 1\<close> retires at the start address, in the RTL and in the demonstration hart.\<close>

definition demo_dut :: dut where
  "demo_dut = \<lparr>o_retire_valid = True, o_retire_pc = 0x80000000, o_retire_inst = 0x00100293, o_retire_priv = 3,
     o_retire_rd_we = True, o_retire_rd_addr = 5, o_retire_rd_data = 1,
     o_retire_mem_valid = False, o_retire_mem_write = False, o_retire_mem_addr = 0, o_retire_mem_pa = 0,
     o_retire_mem_mask = 0, o_retire_mem_data = 0, o_lockstep_mtip = True,
     o_interrupt_trap_taken = True, o_interrupt_cause = 7, o_interrupt_pc = 0x80000004, o_interrupt_inst = 0x13,
     o_exception_trap_taken = False, o_exception_cause = 0, o_exception_value = 0, o_exception_pc = 0,
     o_exception_inst = 0, o_mtip_trap_taken = True, o_uart_tx_valid = True, o_uart_tx_char = CHR ''B'',
     o_test_success = False, o_finish = False\<rparr>"

definition demo_options :: lockstep_options where
  "demo_options = lockstep_options_of []"

definition demo_hart_at :: demo_hart where
  "demo_hart_at = demo_hart0\<lparr>d_traps := 0\<rparr>"

lemma demo_mip_at [simp]: "(d_csrs demo_hart_at)(MIP := 0) = d_csrs demo_hart_at"
  by (auto simp: demo_hart_at_def demo_hart0_def)

lemma demo_addi:
  "whisper_step demo_whisper (retire_of demo_dut s) demo_hart_at =
     Inr (RefCommit\<lparr>rc_pc := 0x80000000, rc_privilege := 3, rc_next_pc := 0x80000004, rc_rd_we := True, rc_rd := 5,
            rc_rd_data := 1\<rparr>, demo_hart_at\<lparr>d_pc := 0x80000004, d_regs := (\<lambda>_. 0)(5 := 1)\<rparr>)"
  if "\<not> ls_mtimer_pending s" "\<not> ls_seip_pending s"
proof -
  let ?r = "retire_of demo_dut s"
  have "step_attempt demo_whisper ?r demo_hart_at =
      Inr (RefCommit\<lparr>rc_pc := 0x80000000, rc_privilege := 3, rc_next_pc := 0x80000004\<rparr>, False,
           demo_hart_at\<lparr>d_pc := 0x80000004, d_regs := (\<lambda>_. 0)(5 := 1)\<rparr>)"
    using that by (auto simp: step_defs demo_whisper_def retire_of_def demo_dut_def demo_hart_at_def demo_hart0_def
        demo_step_def put_bit_def)
  then have "step_loop kMaxNonRetiringSteps demo_whisper ?r demo_hart_at =
      Inr (RefCommit\<lparr>rc_pc := 0x80000000, rc_privilege := 3, rc_next_pc := 0x80000004\<rparr>,
           demo_hart_at\<lparr>d_pc := 0x80000004, d_regs := (\<lambda>_. 0)(5 := 1)\<rparr>)"
    unfolding step_loop_iff kMaxNonRetiringSteps_def by (intro exI [of _ 0]) simp
  moreover have "\<not> is_time_csr_instruction (rtl_inst ?r)"
    by (simp add: retire_of_def demo_dut_def is_time_csr_instruction_def is_csr_instruction_for_def)
  ultimately show ?thesis
    by (simp add: whisper_step_def sync_time_def)
      (simp add: demo_whisper_def capture_rd_def guard_def capture_ldst_def capture_csrs_def RefCommit_def Let_def)
qed

lemma demo_dut_fields:
  "o_retire_valid demo_dut" "o_retire_pc demo_dut = 0x80000000" "\<not> o_exception_trap_taken demo_dut"
  by (simp_all add: demo_dut_def)

lemma lockstep_init_frame:
  "ls_hart (lockstep_init h) = h" "\<not> ls_started (lockstep_init h)" "\<not> ls_failed (lockstep_init h)"
  "\<not> ls_mtimer_pending (lockstep_init h)" "\<not> ls_seip_pending (lockstep_init h)"
  by (simp_all add: lockstep_init_def)

lemma demo_run:
  "\<exists>s. runs demo_whisper demo_options demo_hart_at [(True, demo_dut)] s \<and> \<not> ls_failed s"
proof -
  have "\<exists>s. half_cycle demo_whisper demo_options True demo_dut (lockstep_init demo_hart_at) = Inr s"
    by (simp add: half_cycle_def exception_event_def retire_event_def compare_retirement_def Let_def frame
        demo_dut_fields lockstep_start_pc_def demo_addi lockstep_init_frame)
  then obtain s where s: "half_cycle demo_whisper demo_options True demo_dut (lockstep_init demo_hart_at) = Inr s" ..
  have r: "runs demo_whisper demo_options demo_hart_at [(True, demo_dut)] s"
    by (rule runs.step [OF runs.init _ s]) (simp add: lockstep_init_def)
  have "ls_started s" using runs_started [OF r] by (simp add: started_by_def starts_def demo_dut_def)
  from half_cycle_compares [OF s _ this] have "\<not> ls_failed s"
    by (simp add: demo_addi lockstep_init_def)
      (simp add: compare_commit_iff rtl_rd_effect_def ref_rd_effect_def rtl_mem_effect_def ref_mem_effect_def
        demo_dut_def RefCommit_def)
  with r show ?thesis by blast
qed



section \<open>Properties\<close>

text \<open>
  C1. One-shot injection. At every point of a run, the timer (supervisor external) interrupt that
  the next compared retirement hands to the reference is the one the RTL accepted since the last
  compared retirement, or on its very edge: none is lost, none is injected twice, and none early.
\<close>
theorem interrupts_injected_once:
  assumes "runs W opts h0 hist s"
  shows "rtl_mtip (retire_of d s) = event_due o_mtip_trap_taken hist \<and>
         rtl_seip (retire_of d s) = event_due (\<lambda>d. o_interrupt_trap_taken d \<and> o_interrupt_cause d = 9) hist"
  using runs_pending [OF assms] by (simp add: retire_of_def)

text \<open>An interrupt accepted on the edge of the first compared retirement is due at the next one.\<close>

theorem interrupts_injected_once_witness:
  "\<exists>s. runs demo_whisper demo_options demo_hart_at [(True, demo_dut)] s \<and> rtl_mtip (retire_of demo_dut s)"
proof -
  obtain s where r: "runs demo_whisper demo_options demo_hart_at [(True, demo_dut)] s" using demo_run by blast
  have "event_due o_mtip_trap_taken [(True, demo_dut)]"
    by (simp add: event_due_Cons compared_at_def started_by_def starts_def demo_dut_def)
  with interrupts_injected_once [OF r, of demo_dut] r show ?thesis by auto
qed

text \<open>
  C2. A passing exit status means agreement. When the harness ends with 0 (or with the verdict of
  the test bench), the comparison has started, the reported count is the number of compared
  retirements, and for each of them the reference, stepped from the state before it, returned a
  commit that agrees with the RTL's.
\<close>
theorem pass_means_agreement:
  assumes "runs W opts h0 hist s" and "fst (exit_status test_mode d s) \<notin> {2, 3}"
  shows "started_by hist \<and> ls_compared_order s = of_nat (compared hist) \<and>
    (\<forall>newer clk e older. hist = newer @ (clk, e) # older \<longrightarrow> compared_at (clk, e) older \<longrightarrow>
       (\<exists>s1 ref h. runs W opts h0 older s1 \<and> whisper_step W (retire_of e s1) (ls_hart s1) = Inr (ref, h) \<and>
          o_retire_pc e = rc_pc ref \<and> o_retire_priv e = rc_privilege ref \<and>
          rtl_rd_effect e = ref_rd_effect ref \<and> rtl_mem_effect e = ref_mem_effect ref))"
proof -
  have "\<not> ls_failed s" "ls_started s" using assms(2) by (auto simp: exit_status_def split: if_splits)
  then show ?thesis
    using runs_started [OF assms(1)] runs_compared [OF assms(1)] runs_agree [OF assms(1)]
    by (auto simp: compare_commit_iff)
qed

theorem pass_means_agreement_witness:
  "\<exists>s. runs demo_whisper demo_options demo_hart_at [(True, demo_dut)] s \<and>
       fst (exit_status False demo_dut s) = 0 \<and> ls_compared_order s = 1"
proof -
  obtain s where r: "runs demo_whisper demo_options demo_hart_at [(True, demo_dut)] s" "\<not> ls_failed s"
    using demo_run by blast
  have st: "started_by [(True, demo_dut)]" by (simp add: started_by_def starts_def demo_dut_def)
  have e: "fst (exit_status False demo_dut s) = 0"
    using r(2) runs_started [OF r(1)] st by (simp add: exit_status_def)
  from pass_means_agreement [OF r(1), of False demo_dut] e
  have "ls_compared_order s = of_nat (compared [(True, demo_dut)])" by simp
  then show ?thesis using r(1) e st by (auto simp: compared_at_def demo_dut_def)
qed

text \<open>
  C26. The commit comparison. It succeeds, and reports no difference, exactly when pc and privilege
  agree and both sides have the same effect: the same register write or none, and the same access
  (virtual and physical address, and for a store its size and the bytes of that size) or none.
\<close>
theorem compare_commit_decides:
  "(fst (compare_commit d ref) \<longleftrightarrow>
      o_retire_pc d = rc_pc ref \<and> o_retire_priv d = rc_privilege ref \<and>
      rtl_rd_effect d = ref_rd_effect ref \<and> rtl_mem_effect d = ref_mem_effect ref) \<and>
   (snd (compare_commit d ref) = [] \<longleftrightarrow> fst (compare_commit d ref))"
  using compare_commit_iff by blast

text \<open>
  C28. Store lanes. For an access of 1, 2, 4 or 8 bytes at a byte lane where it fits, size and lane
  are recovered from the byte mask, and the normalised store data is the stored value, whatever the
  other lanes of the bus hold.
\<close>
theorem store_data_recovered:
  assumes "sz \<in> {1, 2, 4, 8 :: nat}" and "lane + sz \<le> 8"
    and "\<forall>i < 8 * sz. bit bus (8 * lane + i) = bit v i"
  shows "size_from_byte_mask (byte_lanes lane sz) = of_nat sz \<and> first_set_lane (byte_lanes lane sz) = lane \<and>
         normalize_rtl_store_data bus (byte_lanes lane sz) = take_bit (8 * sz) v"
proof -
  have "take_bit (8 * sz) (drop_bit (8 * lane) bus) = take_bit (8 * sz) v"
    using assms(3) by (intro bit_word_eqI) (auto simp: bit_simps)
  then show ?thesis using lane_mask [OF assms(1,2)] normalize_lanes [OF assms(1,2)] by simp
qed

theorem store_data_recovered_witness:
  "normalize_rtl_store_data (push_bit (8 * 2) 0x5566) (byte_lanes 2 2) = 0x5566"
  using store_data_recovered [of 2 2 "push_bit (8 * 2) 0x5566" "0x5566", OF _ _ bus_lanes]
  by (simp del: push_bit_numeral)

text \<open>
  The BusyBox verdict. The harness reports the pass token exactly when it occurs anywhere in the
  characters the UART has sent, although it keeps only a window of the last seventeen.
\<close>
theorem busybox_token_found:
  assumes "runs W opts h0 hist s"
  shows "ls_busybox_pass_reached s \<longleftrightarrow> sublist ''BUSYBOX-TEST-PASS'' (uart_output hist)"
  using runs_uart [OF assms] by (simp add: kBusyboxPassToken_def)

theorem busybox_token_found_witness:
  "\<exists>s. runs demo_whisper demo_options demo_hart_at [(True, demo_dut)] s \<and> \<not> ls_busybox_pass_reached s"
proof -
  obtain s where r: "runs demo_whisper demo_options demo_hart_at [(True, demo_dut)] s" using demo_run by blast
  have "\<not> sublist ''BUSYBOX-TEST-PASS'' (uart_output [(True, demo_dut)])"
    by (auto simp: demo_dut_def dest: sublist_length_le)
  with busybox_token_found [OF r] r show ?thesis by blast
qed


text \<open>
  Plus arguments. \<open>+KEY=n\<close> with a decimal \<open>n\<close> gives exactly the 64-bit value \<open>n\<close>, wherever it stands
  after arguments that are not for \<open>KEY\<close>; later ones for \<open>KEY\<close> do not count.
\<close>
theorem plusarg_roundtrip:
  assumes "\<forall>a \<in> set before. \<not> prefix (''+'' @ key @ ''='') a"
  shows "plusarg_u64 (before @ (''+'' @ key @ ''='' @ show_nat (unat v)) # after) key v0 = (True, v)"
  unfolding plusarg_skip [OF assms] by (simp add: Let_def strtoull_show_nat)

theorem plusarg_roundtrip_witness:
  "plusarg_u64 [''rom'', ''+A=7'', ''+B='' @ show_nat 1000] ''B'' 0 = (True, 1000)"
  using plusarg_roundtrip [of "[''rom'', ''+A=7'']" "''B''" 1000 "[]" 0] by simp

end
