(* ===== verification/Payload.thy ===== *)
theory Payload
  imports Trap
begin

text \<open>
  The OpenSBI test payload, \<open>platform/opensbi_payload.c\<close>: an S-mode program that prints what OpenSBI
  passed to it and ends the simulation. OpenSBI is not part of the repository: its \<open>ecall\<close> is the
  parameter \<open>osbi\<close>, from the argument registers \<open>a0\<close> .. \<open>a5\<close>, the function and the extension id to
  \<open>a0\<close>, \<open>a1\<close> and the new state.
\<close>

type_synonym osbi = "u64 list \<Rightarrow> u64 \<Rightarrow> u64 \<Rightarrow> soc \<Rightarrow> sbiret \<times> soc"

definition payload_sbi_call :: "osbi \<Rightarrow> u64 list \<Rightarrow> u64 \<Rightarrow> u64 \<Rightarrow> soc \<Rightarrow> sbiret \<times> soc" where
  "payload_sbi_call osbi args fid eid s = osbi args fid eid s"

definition payload_putchar :: "osbi \<Rightarrow> char \<Rightarrow> soc \<Rightarrow> soc" where
  "payload_putchar osbi ch s = snd (payload_sbi_call osbi [of_nat (of_char ch), 0, 0, 0, 0, 0] 0 0x01 s)"

fun payload_puts :: "osbi \<Rightarrow> string \<Rightarrow> soc \<Rightarrow> soc" where
  "payload_puts osbi [] s = s"
| "payload_puts osbi (c # cs) s =
     (if c = CHR 0x00 then s else payload_puts osbi cs (payload_putchar osbi c s))"

text \<open>The loop \<open>for (shift = 60; shift >= 0; shift -= 4)\<close>.\<close>

function puthex_from :: "osbi \<Rightarrow> u64 \<Rightarrow> int \<Rightarrow> soc \<Rightarrow> soc" where
  "puthex_from osbi v shift s =
     (if shift \<ge> 0
      then puthex_from osbi v (shift - 4)
             (payload_putchar osbi (''0123456789abcdef'' ! unat (drop_bit (nat shift) v AND 0xf)) s)
      else s)"
  by auto
termination by (relation "measure (\<lambda>(_, _, shift, _). nat (shift + 4))") auto

declare puthex_from.simps [simp del]

definition puthex64 :: "osbi \<Rightarrow> u64 \<Rightarrow> soc \<Rightarrow> soc" where
  "puthex64 osbi v s = puthex_from osbi v 60 s"

definition sim_exit_success :: "soc \<Rightarrow> soc" where
  "sim_exit_success s = mmio_store 0x40000000 1 s"

definition payload_main :: "osbi \<Rightarrow> u64 \<Rightarrow> u64 \<Rightarrow> soc \<Rightarrow> unit outcome" where
  "payload_main osbi hartid dtb_addr s =
     (let (spec, s) = payload_sbi_call osbi [0, 0, 0, 0, 0, 0] 0 0x10 s;
          s = payload_puts osbi (NL @ line ''OpenSBI S-mode payload reached'') s;
          s = payload_puts osbi ''hartid=0x'' s;
          s = puthex64 osbi hartid s;
          s = payload_puts osbi '' dtb=0x'' s;
          s = puthex64 osbi dtb_addr s;
          s = payload_puts osbi (NL @ ''SBI base spec=0x'') s;
          s = puthex64 osbi (sbi_value spec) s;
          s = payload_puts osbi '' error=0x'' s;
          s = puthex64 osbi (sbi_error spec) s;
          s = payload_puts osbi NL s;
          s = sim_exit_success s
      in Hangs s)"


section \<open>Lemmas\<close>

text \<open>What the SBI specification says of the legacy console call: it prints the character.\<close>

definition prints_characters :: "osbi \<Rightarrow> bool" where
  "prints_characters osbi \<longleftrightarrow>
     (\<forall>ch s. snd (osbi [of_nat (of_char ch), 0, 0, 0, 0, 0] 0 0x01 s) = s\<lparr>console := console s @ [ch]\<rparr>)"

lemma putchar_eq: "prints_characters osbi \<Longrightarrow> payload_putchar osbi ch s = s\<lparr>console := console s @ [ch]\<rparr>"
  by (simp add: payload_putchar_def payload_sbi_call_def prints_characters_def)

lemma puts_eq:
  "prints_characters osbi \<Longrightarrow> CHR 0x00 \<notin> set t \<Longrightarrow> payload_puts osbi t s = s\<lparr>console := console s @ t\<rparr>"
  by (induction t arbitrary: s) (auto simp: putchar_eq)

lemma hex_fixed_Suc: "hex_fixed (Suc k) n = hex_digit (n div 16 ^ k mod 16) # hex_fixed k n"
  by (simp add: hex_fixed_def)

lemma puthex_from_eq:
  assumes "prints_characters osbi"
  shows "puthex_from osbi v (4 * int k - 4) s = s\<lparr>console := console s @ hex_fixed k (unat v)\<rparr>"
proof (induction k arbitrary: s)
  case 0
  show ?case by (simp add: puthex_from.simps hex_fixed_def)
next
  case (Suc k)
  have "nat (4 * int k) = k * 4" by simp
  then have d: "''0123456789abcdef'' ! unat (drop_bit (nat (4 * int k)) v AND 0xf) = hex_digit (unat v div 16 ^ k mod 16)"
    by (simp only: nibble_unat hex_digit_def)
  have "puthex_from osbi v (4 * int k) s =
      puthex_from osbi v (4 * int k - 4) (s\<lparr>console := console s @ [hex_digit (unat v div 16 ^ k mod 16)]\<rparr>)"
    by (subst puthex_from.simps) (simp add: d putchar_eq [OF assms] del: nat_mult_distrib)
  then show ?case by (simp add: Suc.IH hex_fixed_Suc)
qed

lemma puthex64_eq:
  "prints_characters osbi \<Longrightarrow> puthex64 osbi v s = s\<lparr>console := console s @ hex_fixed 16 (unat v)\<rparr>"
  using puthex_from_eq [of osbi v 16 s] by (simp add: puthex64_def)

lemma sim_exit_success_eq: "sim_exit_success s = s\<lparr>finished := Some 1\<rparr>"
  using platform_test_success_eq [of s] by (simp add: sim_exit_success_def platform_test_success_def DEBUG_REG_def)


section \<open>Properties\<close>

text \<open>
  The payload's report. Over an SBI whose legacy console call prints its character, the payload
  prints exactly the four values, each as sixteen hexadecimal digits that read back to it, then ends
  the simulation with the success word and stays in its loop.
\<close>
theorem payload_reports:
  assumes "prints_characters osbi" and "osbi [0, 0, 0, 0, 0, 0] 0 0x10 s = (r, s')"
  shows "\<exists>h d v e. payload_main osbi hartid dtb_addr s =
      Hangs (s'\<lparr>console := console s' @ NL @ line ''OpenSBI S-mode payload reached'' @
        ''hartid=0x'' @ h @ '' dtb=0x'' @ d @ NL @ ''SBI base spec=0x'' @ v @ '' error=0x'' @ e @ NL,
        finished := Some 1\<rparr>) \<and>
    map read_hex [h, d, v, e] = map unat [hartid, dtb_addr, sbi_value r, sbi_error r] \<and>
    map length [h, d, v, e] = [16, 16, 16, 16]"
proof -
  have t: "CHR 0x00 \<notin> set (NL @ line ''OpenSBI S-mode payload reached'')" "CHR 0x00 \<notin> set ''hartid=0x''"
    "CHR 0x00 \<notin> set '' dtb=0x''" "CHR 0x00 \<notin> set (NL @ ''SBI base spec=0x'')" "CHR 0x00 \<notin> set '' error=0x''"
    "CHR 0x00 \<notin> set NL" by (simp_all add: line_def)
  have h: "read_hex (hex_fixed 16 (unat w)) = unat w" "length (hex_fixed 16 (unat w)) = 16" for w :: u64
    using read_print_hex [of w] length_print_hex [of True w] by (simp_all add: print_hex_eq)
  have "payload_main osbi hartid dtb_addr s =
      Hangs (s'\<lparr>console := console s' @ NL @ line ''OpenSBI S-mode payload reached'' @ ''hartid=0x'' @
        hex_fixed 16 (unat hartid) @ '' dtb=0x'' @ hex_fixed 16 (unat dtb_addr) @ NL @ ''SBI base spec=0x'' @
        hex_fixed 16 (unat (sbi_value r)) @ '' error=0x'' @ hex_fixed 16 (unat (sbi_error r)) @ NL,
        finished := Some 1\<rparr>)"
    unfolding payload_main_def Let_def payload_sbi_call_def assms(2) prod.case
      t [THEN puts_eq [OF assms(1)]] puthex64_eq [OF assms(1)] sim_exit_success_eq
    by simp
  with h show ?thesis
    by (intro exI [of _ "hex_fixed 16 (unat hartid)"] exI [of _ "hex_fixed 16 (unat dtb_addr)"]
        exI [of _ "hex_fixed 16 (unat (sbi_value r))"] exI [of _ "hex_fixed 16 (unat (sbi_error r))"])
      (simp only: list.map append_assoc simp_thms)
qed

text \<open>An SBI that prints and answers everything else with version 2.0.\<close>

definition demo_osbi :: osbi where
  "demo_osbi args fid eid s =
     (\<lparr>sbi_error = 0, sbi_value = 0x02000000\<rparr>,
      if eid = 0x01 then s\<lparr>console := console s @ [char_of (unat (hd args))]\<rparr> else s)"

theorem payload_reports_witness:
  "\<exists>s. payload_main demo_osbi 0 0x87f00000 (soc_reset []) = Hangs s \<and> finished s = Some 1"
proof -
  have "prints_characters demo_osbi"
    by (simp add: prints_characters_def demo_osbi_def)
  moreover have "demo_osbi [0, 0, 0, 0, 0, 0] 0 0x10 (soc_reset []) =
      (\<lparr>sbi_error = 0, sbi_value = 0x02000000\<rparr>, soc_reset [])"
    by (simp add: demo_osbi_def)
  ultimately show ?thesis
    using payload_reports [of demo_osbi "soc_reset []" _ _ 0 "0x87f00000"] by fastforce
qed

end
