(* ===== verification/MulDiv.thy ===== *)
theory MulDiv
  imports Prelude "HOL-Library.Signed_Division"
begin

text \<open>
  The multiplier and divider of the core, \<open>muldivunit.sv\<close>, cycle by cycle: each module is a record of
  its registers and a function for one clock edge, from the inputs and the old registers to the new
  ones. The reference is the text of the RISC-V M extension over integers. Reset is the record
  \<open>muldiv_reset\<close>; the debug prints are left out.
\<close>

unbundle bit_operations_syntax

type_synonym u128 = "128 word"

section \<open>The registers\<close>

datatype mul_state = MulIdle | AddLoop | MulFinish

record mulunit =
  mu_state :: mul_state
  mu_result :: u128
  add_count :: nat
  op1zext :: u128
  op2zext :: u128

datatype div_state = DivIdle | ZeroCheck | SubLoop | DivFinish

record divunit =
  du_state :: div_state
  du_quotient :: u64
  sub_count :: "7 word"
  dividend_saved :: u128
  divisor_saved :: u128

datatype md_state = Idle | WaitValid | Finish

record muldivunit =
  md_state :: md_state
  md_result :: u64
  funct3_saved :: "3 word"
  is_op32_saved :: bool
  op1sign_saved :: bool
  op2sign_saved :: bool
  mu :: mulunit
  du :: divunit

record md_input =
  md_valid :: bool
  md_funct3 :: "3 word"
  md_is_op32 :: bool
  md_op1 :: u64
  md_op2 :: u64

definition muldiv_reset :: muldivunit where
  "muldiv_reset = \<lparr>md_state = Idle, md_result = 0, funct3_saved = 0, is_op32_saved = False,
     op1sign_saved = False, op2sign_saved = False,
     mu = \<lparr>mu_state = MulIdle, mu_result = 0, add_count = 0, op1zext = 0, op2zext = 0\<rparr>,
     du = \<lparr>du_state = DivIdle, du_quotient = 0, sub_count = 0, dividend_saved = 0, divisor_saved = 0\<rparr>\<rparr>"


section \<open>One clock edge of mulunit and divunit\<close>

definition mulunit_step :: "bool \<Rightarrow> u64 \<Rightarrow> u64 \<Rightarrow> mulunit \<Rightarrow> mulunit" where
  "mulunit_step valid op1 op2 m =
     (case mu_state m of
        MulIdle \<Rightarrow>
          if valid
          then m\<lparr>mu_state := AddLoop, mu_result := 0, add_count := 0, op1zext := ucast op1, op2zext := ucast op2\<rparr>
          else m
      | AddLoop \<Rightarrow>
          if add_count m = 64 then m\<lparr>mu_state := MulFinish\<rparr>
          else m\<lparr>mu_result := (if bit (op2zext m) (add_count m) then mu_result m + op1zext m else mu_result m),
                 op1zext := push_bit 1 (op1zext m), add_count := add_count m + 1\<rparr>
      | MulFinish \<Rightarrow> m\<lparr>mu_state := MulIdle\<rparr>)"

definition du_remainder :: "divunit \<Rightarrow> u64" where
  "du_remainder d = ucast (dividend_saved d)"

definition divunit_step :: "bool \<Rightarrow> u64 \<Rightarrow> u64 \<Rightarrow> divunit \<Rightarrow> divunit" where
  "divunit_step valid dividend divisor d =
     (case du_state d of
        DivIdle \<Rightarrow>
          if valid
          then d\<lparr>du_state := ZeroCheck, dividend_saved := ucast dividend, divisor_saved := push_bit 63 (ucast divisor),
                 du_quotient := 0, sub_count := 0\<rparr>
          else d
      | ZeroCheck \<Rightarrow>
          if divisor_saved d = 0 then d\<lparr>du_state := DivFinish, du_quotient := -1\<rparr>
          else d\<lparr>du_state := SubLoop\<rparr>
      | SubLoop \<Rightarrow>
          if sub_count d = 64 then d\<lparr>du_state := DivFinish\<rparr>
          else (if divisor_saved d \<le> dividend_saved d
                then d\<lparr>dividend_saved := dividend_saved d - divisor_saved d,
                       du_quotient := push_bit 1 (du_quotient d) OR 1,
                       divisor_saved := drop_bit 1 (divisor_saved d), sub_count := sub_count d + 1\<rparr>
                else d\<lparr>du_quotient := push_bit 1 (du_quotient d),
                       divisor_saved := drop_bit 1 (divisor_saved d), sub_count := sub_count d + 1\<rparr>)
      | DivFinish \<Rightarrow> d\<lparr>du_state := DivIdle\<rparr>)"


section \<open>Operands\<close>

definition abs_word :: "u64 \<Rightarrow> u64" where
  "abs_word v = (if bit v 63 then NOT v + 1 else v)"

definition sext_xlen :: "u32 \<Rightarrow> u64" where
  "sext_xlen v = scast v"

definition mu_op1 :: "3 word \<Rightarrow> bool \<Rightarrow> u64 \<Rightarrow> u64" where
  "mu_op1 funct3 is_op32 op1 =
     (if funct3 AND 3 \<noteq> 3 then abs_word (if is_op32 then sext_xlen (ucast op1) else op1) else op1)"

definition mu_op2 :: "3 word \<Rightarrow> bool \<Rightarrow> u64 \<Rightarrow> u64" where
  "mu_op2 funct3 is_op32 op2 =
     (if funct3 AND 3 = 0 \<or> funct3 AND 3 = 1 then abs_word (if is_op32 then sext_xlen (ucast op2) else op2) else op2)"

definition generate_div_op1 :: "bool \<Rightarrow> 3 word \<Rightarrow> u64 \<Rightarrow> u64" where
  "generate_div_op1 is_op32 funct3 v =
     (let signed = \<not> bit funct3 0;
          val_ext = (if is_op32 then (if signed then scast (ucast v :: u32) else ucast (ucast v :: u32)) else v)
      in if signed then (if bit val_ext 63 then NOT val_ext + 1 else val_ext) else val_ext)"

definition du_signed_overflow :: "md_input \<Rightarrow> bool" where
  "du_signed_overflow i =
     (if md_is_op32 i
      then \<not> bit (md_funct3 i) 0 \<and> bit (md_op1 i) 31 \<and> (ucast (md_op1 i) :: u32) = 0x80000000 \<and>
           (ucast (md_op2 i) :: u32) = 0xffffffff
      else \<not> bit (md_funct3 i) 0 \<and> bit (md_op1 i) 63 \<and> md_op1 i = 0x8000000000000000 \<and> md_op2 i = -1)"

definition du_signed_divzero :: "md_input \<Rightarrow> bool" where
  "du_signed_divzero i =
     (if md_is_op32 i then \<not> bit (md_funct3 i) 0 \<and> (ucast (md_op2 i) :: u32) = 0
      else \<not> bit (md_funct3 i) 0 \<and> md_op2 i = 0)"


section \<open>One clock edge of muldivunit\<close>

definition md_ready :: "muldivunit \<Rightarrow> bool" where "md_ready s = (md_state s = Idle)"
definition md_rvalid :: "muldivunit \<Rightarrow> bool" where "md_rvalid s = (md_state s = Finish)"

definition is_mul :: "md_input \<Rightarrow> muldivunit \<Rightarrow> bool" where
  "is_mul i s = (if md_state s = Idle then \<not> bit (md_funct3 i) 2 else \<not> bit (funct3_saved s) 2)"

text \<open>A request in \<open>Idle\<close>; \<open>WaitValid\<close> with the product or the quotient and remainder.\<close>

definition md_accept :: "md_input \<Rightarrow> muldivunit \<Rightarrow> muldivunit" where
  "md_accept i s =
     (let s = s\<lparr>funct3_saved := md_funct3 i, is_op32_saved := md_is_op32 i,
                op1sign_saved := bit (md_op1 i) (if md_is_op32 i then 31 else 63),
                op2sign_saved := bit (md_op2 i) (if md_is_op32 i then 31 else 63)\<rparr>
      in if \<not> bit (md_funct3 i) 2 then s\<lparr>md_state := WaitValid\<rparr>
         else if du_signed_overflow i
         then s\<lparr>md_state := Finish,
                md_result := (if bit (md_funct3 i) 1 then 0
                              else if md_is_op32 i then scast (0x80000000 :: u32) else 0x8000000000000000)\<rparr>
         else if du_signed_divzero i
         then s\<lparr>md_state := Finish, md_result := (if bit (md_funct3 i) 1 then md_op1 i else -1)\<rparr>
         else s\<lparr>md_state := WaitValid\<rparr>)"

definition md_mul_result :: "muldivunit \<Rightarrow> u64" where
  "md_mul_result s =
     (let r = mu_result (mu s);
          res_signed = (if op1sign_saved s \<noteq> op2sign_saved s then NOT r + 1 else r);
          res_mulhsu = (if op1sign_saved s then NOT r + 1 else r);
          f = funct3_saved s AND 3
      in if f = 0 then (if is_op32_saved s then scast (ucast res_signed :: u32) else ucast res_signed)
         else if f = 1 then ucast (drop_bit 64 res_signed)
         else if f = 2 then ucast (drop_bit 64 res_mulhsu)
         else ucast (drop_bit 64 r))"

definition md_div_result :: "muldivunit \<Rightarrow> u64" where
  "md_div_result s =
     (let q = du_quotient (du s); r = du_remainder (du s);
          quo_signed = (if op1sign_saved s \<noteq> op2sign_saved s then NOT q + 1 else q);
          rem_signed = (if op1sign_saved s then NOT r + 1 else r);
          f = funct3_saved s AND 3;
          resultX = (if f = 0 then quo_signed else if f = 1 then q else if f = 2 then rem_signed else r)
      in if is_op32_saved s then scast (ucast resultX :: u32) else resultX)"

definition muldiv_step :: "md_input \<Rightarrow> muldivunit \<Rightarrow> muldivunit" where
  "muldiv_step i s =
     (let request = md_ready s \<and> md_valid i;
          s' = s\<lparr>mu := mulunit_step (request \<and> is_mul i s) (mu_op1 (md_funct3 i) (md_is_op32 i) (md_op1 i))
                         (mu_op2 (md_funct3 i) (md_is_op32 i) (md_op2 i)) (mu s),
                 du := divunit_step (request \<and> \<not> is_mul i s \<and> \<not> (du_signed_overflow i \<or> du_signed_divzero i))
                         (generate_div_op1 (md_is_op32 i) (md_funct3 i) (md_op1 i))
                         (generate_div_op1 (md_is_op32 i) (md_funct3 i) (md_op2 i)) (du s)\<rparr>
      in case md_state s of
           Idle \<Rightarrow> if request then md_accept i s' else s'
         | WaitValid \<Rightarrow>
             if is_mul i s \<and> mu_state (mu s) = MulFinish then s'\<lparr>md_state := Finish, md_result := md_mul_result s\<rparr>
             else if \<not> is_mul i s \<and> du_state (du s) = DivFinish
             then s'\<lparr>md_state := Finish, md_result := md_div_result s\<rparr>
             else s'
         | Finish \<Rightarrow> s'\<lparr>md_state := Idle\<rparr>)"

text \<open>Clock edges with the given inputs, one after the other.\<close>

fun muldiv_run :: "md_input list \<Rightarrow> muldivunit \<Rightarrow> muldivunit" where
  "muldiv_run [] s = s"
| "muldiv_run (i # is) s = muldiv_run is (muldiv_step i s)"



section \<open>The reference: the M extension over the integers\<close>

text \<open>\<open>m_op\<close> at width 64 is MUL, MULH, MULHSU, MULHU, DIV, DIVU, REM, REMU; the \<open>W\<close> forms apply it to the
  low 32 bits and sign-extend. Signed division truncates; by zero it gives -1 and the dividend.\<close>

definition m_op :: "3 word \<Rightarrow> 'a::len word \<Rightarrow> 'a word \<Rightarrow> 'a word" where
  "m_op f a b =
     (if f = 0 then word_of_int (sint a * sint b)
      else if f = 1 then word_of_int ((sint a * sint b) div 2 ^ LENGTH('a))
      else if f = 2 then word_of_int ((sint a * uint b) div 2 ^ LENGTH('a))
      else if f = 3 then word_of_int ((uint a * uint b) div 2 ^ LENGTH('a))
      else if f = 4 then (if b = 0 then -1 else word_of_int (sint a sdiv sint b))
      else if f = 5 then (if b = 0 then -1 else word_of_int (uint a div uint b))
      else if f = 6 then (if b = 0 then a else word_of_int (sint a smod sint b))
      else (if b = 0 then a else word_of_int (uint a mod uint b)))"

lemma m_op_simps:
  "m_op 0 a b = word_of_int (sint a * sint b)"
  "m_op 1 a b = word_of_int ((sint a * sint b) div 2 ^ LENGTH('a))"
  "m_op 2 a b = word_of_int ((sint a * uint b) div 2 ^ LENGTH('a))"
  "m_op 3 a b = word_of_int ((uint a * uint b) div 2 ^ LENGTH('a))"
  "m_op 4 a b = (if b = 0 then -1 else word_of_int (sint a sdiv sint b))"
  "m_op 5 a b = (if b = 0 then -1 else word_of_int (uint a div uint b))"
  "m_op 6 a b = (if b = 0 then a else word_of_int (sint a smod sint b))"
  "m_op 7 a b = (if b = 0 then a else word_of_int (uint a mod uint b))"
  for a :: "'a::len word"
  by (simp_all add: m_op_def)

definition m_spec :: "bool \<Rightarrow> 3 word \<Rightarrow> u64 \<Rightarrow> u64 \<Rightarrow> u64" where
  "m_spec is_op32 f a b =
     (if is_op32 then scast (m_op f (ucast a :: u32) (ucast b)) else m_op f a b)"

end
