(* ===== verification/MulDivProof.thy ===== *)
theory MulDivProof
  imports MulDiv
begin

text \<open>
  The correctness of \<open>muldivunit.sv\<close>: the shift-and-add and the restoring-division loop invariants, the
  value of every operation at the end of its loop, and the properties over whole requests.
\<close>

unbundle bit_operations_syntax

section \<open>Integers and words\<close>

lemma sint_msb: "sint (w :: 'a::len word) = uint w - (if bit w (LENGTH('a) - 1) then 2 ^ LENGTH('a) else 0)"
proof -
  obtain n where n: "LENGTH('a) = Suc n" by (cases "LENGTH('a)") auto
  have "bit (uint w) n = bit w n" using n by (simp add: bit_uint_iff)
  moreover have "uint w = take_bit (Suc n) (uint w)"
    using n uint_bounded [of w] by (simp add: take_bit_int_eq_self)
  ultimately show ?thesis
    by (auto simp: sint_uint signed_take_bit_eq_take_bit_minus n)
qed

lemma sign_bit: "bit (w :: 'a::len word) (LENGTH('a) - 1) \<longleftrightarrow> sint w < 0"
  using uint_lt2p [of w] by (auto simp: sint_msb)

lemma sign_bit_64: "bit (w :: u64) 63 \<longleftrightarrow> sint w < 0"
  using sign_bit [of w] by simp

lemma sign_bit_32: "bit (w :: u64) 31 \<longleftrightarrow> sint (ucast w :: u32) < 0"
  using sign_bit [of "ucast w :: u32"] by (simp add: bit_ucast_iff)

lemma sint_scast_up: "sint (scast (w :: u32) :: u64) = sint w"
  by (rule sint_up_scast) (simp add: is_up)

lemma uint_abs_word: "uint (abs_word v) = \<bar>sint v\<bar>"
proof (cases "bit v 63")
  case True
  have "sint v = uint v - 2 ^ 64" using True sint_msb [of v] by simp
  moreover have "sint v < 0" using True unfolding sign_bit_64 .
  moreover have "uint (- v) = 2 ^ 64 - uint v"
  proof -
    have "v \<noteq> 0" using True by auto
    moreover have "uint v mod 18446744073709551616 = uint v"
      using uint_bounded [of v] by (intro mod_pos_pos_trivial) simp_all
    ultimately show ?thesis by (simp add: uint_word_ariths zmod_zminus1_eq_if uint_0_iff)
  qed
  moreover have "abs_word v = - v" using True by (simp add: abs_word_def minus_eq_not_plus_1)
  ultimately show ?thesis by simp
next
  case False
  then have "sint v = uint v" using sint_msb [of v] by simp
  with False show ?thesis by (simp add: abs_word_def)
qed

lemma not_plus_1: "NOT w + 1 = - (w :: 'a::len word)"
  by (simp add: minus_eq_not_plus_1)

lemma low_part: "ucast (word_of_int n :: u128) = (word_of_int n :: u64)"
  by (rule bit_word_eqI) (simp add: bit_ucast_iff bit_word_of_int_iff)

lemma low_part_32: "ucast (word_of_int n :: 'b::len word) = (word_of_int n :: u32)" if "32 \<le> LENGTH('b)"
  using that by (intro bit_word_eqI) (simp add: bit_ucast_iff bit_word_of_int_iff)

lemma high_part: "ucast (drop_bit 64 (word_of_int n :: u128)) = (word_of_int (n div 2 ^ 64) :: u64)"
proof -
  have "n div 2 ^ 64 = drop_bit 64 n" by (simp add: drop_bit_eq_div)
  then show ?thesis
    by (intro bit_word_eqI) (simp add: bit_ucast_iff bit_drop_bit_eq bit_word_of_int_iff)
qed

text \<open>A product of magnitudes with the sign put back.\<close>

lemma signed_product:
  "(if (x < 0) \<noteq> (y < 0) then - word_of_int (\<bar>x\<bar> * \<bar>y\<bar>) else word_of_int (\<bar>x\<bar> * \<bar>y\<bar>)) =
   (word_of_int (x * y) :: 'a::len word)"
  by (auto simp: abs_mult [symmetric] abs_if mult_less_0_iff not_less simp flip: word_of_int_minus)

lemma signed_quotient:
  "y \<noteq> 0 \<Longrightarrow> (if (x < 0) \<noteq> (y < 0) then - word_of_int (\<bar>x\<bar> div \<bar>y\<bar>) else word_of_int (\<bar>x\<bar> div \<bar>y\<bar>)) =
   (word_of_int (x sdiv y) :: 'a::len word)"
  by (auto simp: signed_divide_int_def sgn_if)

lemma signed_remainder:
  "(if x < 0 then - word_of_int (\<bar>x\<bar> mod \<bar>y\<bar>) else word_of_int (\<bar>x\<bar> mod \<bar>y\<bar>)) =
   (word_of_int (x smod y) :: 'a::len word)"
  by (auto simp: signed_modulo_int_def sgn_if)



section \<open>The two loops\<close>

text \<open>\<open>mulunit\<close> after \<open>k\<close> rounds on the operands \<open>a\<close>, \<open>b\<close>: the partial product with the low \<open>k\<close> bits of \<open>b\<close>.\<close>

definition mul_inv :: "nat \<Rightarrow> u64 \<Rightarrow> u64 \<Rightarrow> mulunit \<Rightarrow> bool" where
  "mul_inv k a b m \<longleftrightarrow> k \<le> 64 \<and> mu_state m = AddLoop \<and> add_count m = k \<and> op2zext m = ucast b \<and>
     op1zext m = push_bit k (ucast a) \<and> mu_result m = ucast a * take_bit k (ucast b)"

lemma mul_inv_start: "mu_state m = MulIdle \<Longrightarrow> mul_inv 0 a b (mulunit_step True a b m)"
  by (simp add: mul_inv_def mulunit_step_def)

lemma take_bit_next: "take_bit (Suc n) w = take_bit n w + (if bit w n then 2 ^ n else 0)" for w :: "'a::len word"
proof (cases "bit w n")
  case True
  then have "n < LENGTH('a)" by (rule bit_imp_le_length)
  have "take_bit (Suc n) w = take_bit n w OR push_bit n 1"
    using True by (intro bit_word_eqI) (auto simp: bit_simps less_Suc_eq)
  also have "\<dots> = take_bit n w + push_bit n 1"
    by (rule disjunctive_add [symmetric]) (auto simp: bit_simps)
  finally show ?thesis using True by (simp add: push_bit_eq_mult)
next
  case False
  then show ?thesis by (intro bit_word_eqI) (auto simp: bit_simps less_Suc_eq)
qed

lemma mul_inv_step: "mul_inv k a b m \<Longrightarrow> k < 64 \<Longrightarrow> mul_inv (Suc k) a b (mulunit_step v x y m)"
  by (auto simp: mul_inv_def mulunit_step_def take_bit_next push_bit_eq_mult algebra_simps)

lemma mul_inv_end: "mul_inv 64 a b m \<Longrightarrow>
    mu_state (mulunit_step v x y m) = MulFinish \<and> mu_result (mulunit_step v x y m) = word_of_int (uint a * uint b)"
proof -
  assume m: "mul_inv 64 a b m"
  have "take_bit 64 (ucast b :: u128) = ucast b"
    by (rule bit_word_eqI) (use bit_imp_le_length [of b] in \<open>auto simp: bit_take_bit_iff bit_ucast_iff\<close>)
  moreover have "(ucast a * ucast b :: u128) = word_of_int (uint a * uint b)" by (simp only: ucast_eq wi_hom_mult)
  ultimately have "mu_result m = word_of_int (uint a * uint b)" using m unfolding mul_inv_def by argo
  with m show ?thesis unfolding mul_inv_def mulunit_step_def by simp
qed

text \<open>\<open>divunit\<close> after \<open>k\<close> rounds: quotient digits \<open>q\<close> and remainder \<open>r\<close> so far, and the divisor on its
  way down from \<open>b * 2 ^ 63\<close>.\<close>

definition div_inv :: "nat \<Rightarrow> u64 \<Rightarrow> u64 \<Rightarrow> divunit \<Rightarrow> bool" where
  "div_inv k a b d \<longleftrightarrow> k \<le> 64 \<and> du_state d = SubLoop \<and> sub_count d = of_nat k \<and>
     divisor_saved d = drop_bit k (push_bit 63 (ucast b)) \<and>
     unat a = unat (du_quotient d) * (unat b * 2 ^ (64 - k)) + unat (dividend_saved d) \<and>
     unat (dividend_saved d) < unat b * 2 ^ (64 - k) \<and> unat (du_quotient d) < 2 ^ k"

lemma unat_divisor: "unat (push_bit 63 (ucast b :: u128)) = unat (b :: u64) * 2 ^ 63"
proof -
  have "unat b * 2 ^ 63 < 2 ^ 128" using unsigned_less [of b, where 'a = nat] by simp
  then show ?thesis
    by (simp add: push_bit_eq_mult unat_word_ariths unsigned_ucast_eq take_bit_nat_eq_self mult.commute
        take_bit_eq_mod)
qed

lemma unat_divisor_k: "k < 64 \<Longrightarrow> unat (drop_bit k (push_bit 63 (ucast b :: u128))) = unat (b :: u64) * 2 ^ (63 - k)"
proof -
  assume "k < 64"
  then have "(2 :: nat) ^ 63 = 2 ^ (63 - k) * 2 ^ k" by (simp flip: power_add)
  then have "unat b * 2 ^ 63 = unat b * 2 ^ (63 - k) * 2 ^ k" by simp
  then have "unat b * 2 ^ 63 div 2 ^ k = unat b * 2 ^ (63 - k)"
    by (metis nonzero_mult_div_cancel_right power_not_zero zero_neq_numeral)
  then show ?thesis unfolding unat_drop_bit_eq unat_divisor by (simp only: drop_bit_eq_div)
qed


lemma shift_quotient:
  assumes "unat q < 2 ^ 63"
  shows "unat (q * 2 :: u64) = 2 * unat q" "unat (q * 2 OR 1 :: u64) = 2 * unat q + 1"
proof -
  show s: "unat (q * 2) = 2 * unat q" using assms by (simp add: unat_word_ariths)
  have "push_bit 1 q AND 1 = 0"
    by (rule bit_word_eqI) (simp only: bit_and_iff bit_push_bit_iff bit_1_iff bit_0_eq bot_apply, simp)
  then have "push_bit 1 q OR 1 = push_bit 1 q + 1" by (simp only: disjunctive_add_eq_or)
  then have "q * 2 OR 1 = q * 2 + 1" by (simp add: push_bit_eq_mult)
  also have "unat (q * 2 + 1) = 2 * unat q + 1"
    using assms s by (simp add: unat_word_ariths)
  finally show "unat (q * 2 OR 1) = 2 * unat q + 1" .
qed

lemma ucast_back [simp]: "ucast (ucast (a :: u64) :: u128) = a"
  by (rule bit_word_eqI) (use bit_imp_le_length [of a] in \<open>auto simp: bit_ucast_iff\<close>)

lemma small_count: "k < 64 \<Longrightarrow> (of_nat k :: 7 word) \<noteq> 64"
proof
  assume "k < 64" "(of_nat k :: 7 word) = 64"
  then have "unat (of_nat k :: 7 word) = unat (64 :: 7 word)" by simp
  with \<open>k < 64\<close> show False by (simp add: unat_of_nat)
qed

lemma restore_step:
  fixes A Q B R P :: nat
  assumes "A = Q * (B * (2 * P)) + R" and "R < B * (2 * P)"
  shows "B * P \<le> R \<Longrightarrow> A = (2 * Q + 1) * (B * P) + (R - B * P) \<and> R - B * P < B * P"
    and "\<not> B * P \<le> R \<Longrightarrow> A = (2 * Q) * (B * P) + R \<and> R < B * P"
  using assms by (auto simp: algebra_simps)

lemma div_inv_step: "div_inv k a b d \<Longrightarrow> k < 64 \<Longrightarrow> div_inv (Suc k) a b (divunit_step v x y d)"
proof -
  assume i: "div_inv k a b d" and k: "k < 64"
  define P where "P = (2 :: nat) ^ (63 - k)"
  have P: "(2 :: nat) ^ (64 - k) = 2 * P" "(2 :: nat) ^ (64 - Suc k) = P"
    using k unfolding P_def by (simp_all flip: power_Suc)
  have D: "unat (divisor_saved d) = unat b * P"
    using i unat_divisor_k [OF k, of b] by (simp add: div_inv_def P_def)
  have inv: "unat a = unat (du_quotient d) * (unat b * (2 * P)) + unat (dividend_saved d)"
    "unat (dividend_saved d) < unat b * (2 * P)" "unat (du_quotient d) < 2 ^ k"
    using i unfolding div_inv_def P(1) by simp_all
  have "(2 :: nat) ^ k \<le> 2 ^ 63" using k by (intro power_increasing) simp_all
  then have q: "unat (du_quotient d) < 2 ^ 63" using inv(3) by linarith
  have c: "sub_count d \<noteq> 64" "sub_count d + 1 = of_nat (Suc k)" "du_state d = SubLoop"
    "drop_bit 1 (divisor_saved d) = drop_bit (Suc k) (push_bit 63 (ucast b))"
    using i small_count [OF k] by (simp_all add: div_inv_def)
  show ?thesis
  proof (cases "divisor_saved d \<le> dividend_saved d")
    case True
    then have le: "unat b * P \<le> unat (dividend_saved d)" by (simp add: word_le_nat_alt D)
    have "unat (dividend_saved d - divisor_saved d) = unat (dividend_saved d) - unat b * P"
      using True by (simp add: unat_sub D)
    with True c k q inv(3) restore_step(1) [OF inv(1,2) le] show ?thesis
      unfolding div_inv_def P(2) by (simp add: divunit_step_def shift_quotient [OF q])
  next
    case False
    then have "\<not> unat b * P \<le> unat (dividend_saved d)" by (simp add: word_le_nat_alt D)
    with False c k q inv(3) restore_step(2) [OF inv(1,2) this] show ?thesis
      unfolding div_inv_def P(2) by (simp add: divunit_step_def shift_quotient [OF q])
  qed
qed

lemma div_inv_end:
  assumes "div_inv 64 a b d"
  shows "du_state (divunit_step v x y d) = DivFinish \<and>
    uint (du_quotient (divunit_step v x y d)) = uint a div uint b \<and>
    uint (du_remainder (divunit_step v x y d)) = uint a mod uint b"
proof -
  have e: "unat a = unat (du_quotient d) * unat b + unat (dividend_saved d)" "unat (dividend_saved d) < unat b"
    "sub_count d = 64" "du_state d = SubLoop"
    using assms by (simp_all add: div_inv_def)
  have q: "unat (du_quotient d) = unat a div unat b" and r: "unat (dividend_saved d) = unat a mod unat b"
    using e(2) by (simp_all add: e(1))
  have "unat (dividend_saved d) < 2 ^ 64" using e(2) unsigned_less [of b, where 'a = nat] by simp
  then have "unat (ucast (dividend_saved d) :: u64) = unat a mod unat b"
    by (simp add: unsigned_ucast_eq take_bit_nat_eq_self r [symmetric])
  moreover have "int (unat w) = uint w" for w :: "'z::len word" by simp
  ultimately have "uint (ucast (dividend_saved d) :: u64) = uint a mod uint b"
    "uint (du_quotient d) = uint a div uint b"
    using q by (metis zmod_int, metis zdiv_int)
  then show ?thesis using e(3,4) by (simp add: divunit_step_def du_remainder_def)
qed

lemma div_inv_start:
  assumes "du_state d = DivIdle" and "b \<noteq> 0"
  shows "div_inv 0 a b (divunit_step v2 x2 y2 (divunit_step True a b d))"
proof -
  have "unat (push_bit 63 (ucast b :: u128)) \<noteq> 0" unfolding unat_divisor using assms(2) by (simp add: unat_eq_0)
  then have "push_bit 63 (ucast b :: u128) \<noteq> 0" by (simp add: unat_eq_0)
  moreover have "unat (ucast a :: u128) = unat a"
    using unsigned_less [of a, where 'a = nat] by (simp add: unsigned_ucast_eq take_bit_nat_eq_self)
  moreover have "unat a < unat b * 2 ^ 64"
    using unsigned_less [of a, where 'a = nat] assms(2) by (cases "unat b") (auto simp: unat_eq_0)
  ultimately show ?thesis using assms by (simp add: div_inv_def divunit_step_def)
qed

lemma div_by_zero:
  assumes "du_state d = DivIdle"
  shows "du_state (divunit_step v2 x2 y2 (divunit_step True a 0 d)) = DivFinish \<and>
    du_quotient (divunit_step v2 x2 y2 (divunit_step True a 0 d)) = -1 \<and>
    du_remainder (divunit_step v2 x2 y2 (divunit_step True a 0 d)) = a"
  using assms by (simp add: divunit_step_def du_remainder_def)



section \<open>From request to result\<close>

definition md_idle :: "muldivunit \<Rightarrow> bool" where
  "md_idle s \<longleftrightarrow> md_state s = Idle \<and> mu_state (mu s) = MulIdle \<and> du_state (du s) = DivIdle"

text \<open>\<open>s\<close> is not finished for \<open>n\<close> edges, whatever the inputs, and then shows the result \<open>r\<close>, ready for the
  next request after one more edge.\<close>

fun finishes_in :: "nat \<Rightarrow> u64 \<Rightarrow> muldivunit \<Rightarrow> bool" where
  "finishes_in 0 r s \<longleftrightarrow> md_rvalid s \<and> md_result s = r \<and> (\<forall>j. md_idle (muldiv_step j s))"
| "finishes_in (Suc n) r s \<longleftrightarrow> \<not> md_rvalid s \<and> (\<forall>j. finishes_in n r (muldiv_step j s))"

lemma finishes_in_run:
  "finishes_in n r s \<Longrightarrow> length js = n \<Longrightarrow>
   md_rvalid (muldiv_run js s) \<and> md_result (muldiv_run js s) = r \<and> (\<forall>j. md_idle (muldiv_step j (muldiv_run js s))) \<and>
   (\<forall>m < n. \<not> md_rvalid (muldiv_run (take m js) s))"
proof (induction n arbitrary: s js)
  case (Suc n)
  then obtain j js' where [simp]: "js = j # js'" "length js' = n" by (cases js) auto
  have "finishes_in n r (muldiv_step j s)" "\<not> md_rvalid s" using Suc.prems(1) by simp_all
  with Suc.IH [OF this(1), of js'] show ?case by (auto simp: less_Suc_eq_0_disj)
qed simp

definition waiting :: "md_input \<Rightarrow> muldivunit \<Rightarrow> bool" where
  "waiting i s \<longleftrightarrow> md_state s = WaitValid \<and> funct3_saved s = md_funct3 i \<and> is_op32_saved s = md_is_op32 i \<and>
     op1sign_saved s = bit (md_op1 i) (if md_is_op32 i then 31 else 63) \<and>
     op2sign_saved s = bit (md_op2 i) (if md_is_op32 i then 31 else 63)"

lemma idle_units [simp]:
  "mu_state m = MulIdle \<Longrightarrow> mulunit_step False x y m = m"
  "du_state d = DivIdle \<Longrightarrow> divunit_step False x y d = d"
  by (simp_all add: mulunit_step_def divunit_step_def)

lemma step_finish: "md_state s = Finish \<Longrightarrow> mu_state (mu s) = MulIdle \<Longrightarrow> du_state (du s) = DivIdle \<Longrightarrow>
   md_idle (muldiv_step j s)"
  by (simp add: muldiv_step_def md_ready_def md_idle_def)

subsection \<open>Multiplication\<close>

definition mul_wait :: "nat \<Rightarrow> md_input \<Rightarrow> muldivunit \<Rightarrow> bool" where
  "mul_wait k i s \<longleftrightarrow> waiting i s \<and> \<not> bit (md_funct3 i) 2 \<and> du_state (du s) = DivIdle \<and>
     mul_inv k (mu_op1 (md_funct3 i) (md_is_op32 i) (md_op1 i)) (mu_op2 (md_funct3 i) (md_is_op32 i) (md_op2 i)) (mu s)"

lemma accept_mul:
  "md_idle s \<Longrightarrow> md_valid i \<Longrightarrow> \<not> bit (md_funct3 i) 2 \<Longrightarrow> mul_wait 0 i (muldiv_step i s)"
  by (simp add: mul_wait_def waiting_def muldiv_step_def md_idle_def md_ready_def is_mul_def md_accept_def Let_def
      mul_inv_start)

lemma mul_wait_step: "mul_wait k i s \<Longrightarrow> k < 64 \<Longrightarrow> mul_wait (Suc k) i (muldiv_step j s)"
  using mul_inv_step [of k _ _ "mu s"]
  by (auto simp: mul_wait_def waiting_def muldiv_step_def md_ready_def is_mul_def Let_def mul_inv_def)

definition mul_done :: "md_input \<Rightarrow> muldivunit \<Rightarrow> bool" where
  "mul_done i s \<longleftrightarrow> waiting i s \<and> \<not> bit (md_funct3 i) 2 \<and> du_state (du s) = DivIdle \<and> mu_state (mu s) = MulFinish \<and>
     mu_result (mu s) = word_of_int (uint (mu_op1 (md_funct3 i) (md_is_op32 i) (md_op1 i)) *
                                     uint (mu_op2 (md_funct3 i) (md_is_op32 i) (md_op2 i)))"

lemma mul_wait_end: "mul_wait 64 i s \<Longrightarrow> mul_done i (muldiv_step j s)"
  using mul_inv_end [of _ _ "mu s"]
  by (auto simp: mul_wait_def mul_done_def waiting_def muldiv_step_def md_ready_def is_mul_def Let_def mul_inv_def)

definition legal_op :: "md_input \<Rightarrow> bool" where
  "legal_op i \<longleftrightarrow> md_is_op32 i \<longrightarrow> md_funct3 i \<notin> {1, 2, 3}"

lemma word3_cases: "(f :: 3 word) \<in> {0, 1, 2, 3, 4, 5, 6, 7}"
proof -
  have "unat f < 8" using unsigned_less [of f, where 'a = nat] by simp
  moreover have "f = of_nat (unat f)" by simp
  ultimately obtain n where "f = of_nat n" and "n \<in> {0, 1, 2, 3, 4, 5, 6, 7 :: nat}" by fastforce
  then show ?thesis by (elim insertE) simp_all
qed

lemma md_mul_results:
  "funct3_saved s = 0 \<Longrightarrow>
   (if op1sign_saved s \<noteq> op2sign_saved s then NOT (mu_result (mu s)) + 1 else mu_result (mu s)) = word_of_int n \<Longrightarrow>
   md_mul_result s = (if is_op32_saved s then scast (word_of_int n :: u32) else word_of_int n)"
  "funct3_saved s = 1 \<Longrightarrow>
   (if op1sign_saved s \<noteq> op2sign_saved s then NOT (mu_result (mu s)) + 1 else mu_result (mu s)) = word_of_int n \<Longrightarrow>
   md_mul_result s = word_of_int (n div 2 ^ 64)"
  "funct3_saved s = 2 \<Longrightarrow>
   (if op1sign_saved s then NOT (mu_result (mu s)) + 1 else mu_result (mu s)) = word_of_int n \<Longrightarrow>
   md_mul_result s = word_of_int (n div 2 ^ 64)"
  "funct3_saved s = 3 \<Longrightarrow> mu_result (mu s) = word_of_int n \<Longrightarrow> md_mul_result s = word_of_int (n div 2 ^ 64)"
  using high_part [of n] by (simp_all add: md_mul_result_def low_part low_part_32 Let_def)

lemma mul_value:
  assumes "mul_done i s" and "legal_op i"
  shows "md_mul_result s = m_spec (md_is_op32 i) (md_funct3 i) (md_op1 i) (md_op2 i)"
proof -
  let ?a = "md_op1 i" and ?b = "md_op2 i" and ?f = "md_funct3 i"
  let ?a32 = "ucast ?a :: u32" and ?b32 = "ucast ?b :: u32"
  have w: "funct3_saved s = ?f" "is_op32_saved s = md_is_op32 i"
    "op1sign_saved s = bit ?a (if md_is_op32 i then 31 else 63)" "op2sign_saved s = bit ?b (if md_is_op32 i then 31 else 63)"
    and r: "mu_result (mu s) = word_of_int (uint (mu_op1 ?f (md_is_op32 i) ?a) * uint (mu_op2 ?f (md_is_op32 i) ?b))"
    and f: "\<not> bit ?f 2" using assms(1) by (simp_all add: mul_done_def waiting_def)
  consider "?f = 0" | "?f = 1" | "?f = 2" | "?f = 3" using word3_cases [of ?f] f by auto
  then show ?thesis
  proof cases
    case 1
    show ?thesis
    proof (cases "md_is_op32 i")
      case True
      have o1: "uint (mu_op1 ?f (md_is_op32 i) ?a) = \<bar>sint ?a32\<bar>" and o2: "uint (mu_op2 ?f (md_is_op32 i) ?b) = \<bar>sint ?b32\<bar>"
        using 1 True by (simp_all add: mu_op1_def mu_op2_def uint_abs_word sext_xlen_def sint_scast_up)
      have "(if (sint ?a32 < 0) \<noteq> (sint ?b32 < 0) then NOT (mu_result (mu s)) + 1 else mu_result (mu s)) =
          word_of_int (sint ?a32 * sint ?b32)"
        unfolding not_plus_1 r o1 o2 by (rule signed_product)
      then have "md_mul_result s = scast (word_of_int (sint ?a32 * sint ?b32) :: u32)"
        using 1 True w md_mul_results(1) [of s "sint ?a32 * sint ?b32"] by (simp only: sign_bit_32 if_True)
      then show ?thesis using 1 True by (simp only: m_spec_def m_op_simps if_True)
    next
      case False
      have o1: "uint (mu_op1 ?f (md_is_op32 i) ?a) = \<bar>sint ?a\<bar>" and o2: "uint (mu_op2 ?f (md_is_op32 i) ?b) = \<bar>sint ?b\<bar>"
        using 1 False by (simp_all add: mu_op1_def mu_op2_def uint_abs_word)
      have "(if (sint ?a < 0) \<noteq> (sint ?b < 0) then NOT (mu_result (mu s)) + 1 else mu_result (mu s)) =
          word_of_int (sint ?a * sint ?b)"
        unfolding not_plus_1 r o1 o2 by (rule signed_product)
      then have "md_mul_result s = word_of_int (sint ?a * sint ?b)"
        using 1 False w md_mul_results(1) [of s "sint ?a * sint ?b"] by (simp only: sign_bit_64 if_False)
      then show ?thesis using 1 False by (simp only: m_spec_def m_op_simps if_False)
    qed
  next
    case 2
    then have 32: "\<not> md_is_op32 i" using assms(2) by (simp add: legal_op_def)
    have o1: "uint (mu_op1 ?f (md_is_op32 i) ?a) = \<bar>sint ?a\<bar>" and o2: "uint (mu_op2 ?f (md_is_op32 i) ?b) = \<bar>sint ?b\<bar>"
      using 2 32 by (simp_all add: mu_op1_def mu_op2_def uint_abs_word)
    have "(if (sint ?a < 0) \<noteq> (sint ?b < 0) then NOT (mu_result (mu s)) + 1 else mu_result (mu s)) =
        word_of_int (sint ?a * sint ?b)"
      unfolding not_plus_1 r o1 o2 by (rule signed_product)
    then have "md_mul_result s = word_of_int ((sint ?a * sint ?b) div 2 ^ 64)"
      using 2 32 w md_mul_results(2) [of s "sint ?a * sint ?b"] by (simp only: sign_bit_64 if_False)
    then show ?thesis using 2 32 by (simp add: m_spec_def m_op_simps)
  next
    case 3
    then have 32: "\<not> md_is_op32 i" using assms(2) by (simp add: legal_op_def)
    have o1: "uint (mu_op1 ?f (md_is_op32 i) ?a) = \<bar>sint ?a\<bar>" and o2: "uint (mu_op2 ?f (md_is_op32 i) ?b) = \<bar>uint ?b\<bar>"
      using 3 32 by (simp_all add: mu_op1_def mu_op2_def uint_abs_word)
    have b: "\<not> uint ?b < 0" by (simp add: not_less)
    have "(if sint ?a < 0 then NOT (mu_result (mu s)) + 1 else mu_result (mu s)) = word_of_int (sint ?a * uint ?b)"
      unfolding not_plus_1 r o1 o2 using signed_product [of "sint ?a" "uint ?b", where 'a = 128] b
      by (simp only: simp_thms)
    then have "md_mul_result s = word_of_int ((sint ?a * uint ?b) div 2 ^ 64)"
      using 3 32 w md_mul_results(3) [of s "sint ?a * uint ?b"] by (simp only: sign_bit_64 if_False)
    then show ?thesis using 3 32 by (simp add: m_spec_def m_op_simps)
  next
    case 4
    then have 32: "\<not> md_is_op32 i" using assms(2) by (simp add: legal_op_def)
    have "mu_result (mu s) = word_of_int (uint ?a * uint ?b)"
      unfolding r using 4 by (simp add: mu_op1_def mu_op2_def)
    then have "md_mul_result s = word_of_int ((uint ?a * uint ?b) div 2 ^ 64)"
      using 4 w md_mul_results(4) [of s "uint ?a * uint ?b"] by (simp only:)
    then show ?thesis using 4 32 by (simp add: m_spec_def m_op_simps)
  qed
qed

lemma mul_done_finishes:
  assumes "mul_done i s" and "legal_op i"
  shows "finishes_in 1 (m_spec (md_is_op32 i) (md_funct3 i) (md_op1 i) (md_op2 i)) s"
proof -
  have "md_state (muldiv_step j s) = Finish \<and> md_result (muldiv_step j s) = md_mul_result s \<and>
      mu_state (mu (muldiv_step j s)) = MulIdle \<and> du_state (du (muldiv_step j s)) = DivIdle" for j
    using assms(1)
    by (simp add: mul_done_def waiting_def muldiv_step_def md_ready_def is_mul_def Let_def mulunit_step_def)
  then show ?thesis using assms(1) mul_value [OF assms]
    by (simp add: md_rvalid_def step_finish mul_done_def waiting_def)
qed

lemma mul_wait_finishes:
  "mul_wait (64 - n) i s \<Longrightarrow> n \<le> 64 \<Longrightarrow> legal_op i \<Longrightarrow>
   finishes_in (n + 2) (m_spec (md_is_op32 i) (md_funct3 i) (md_op1 i) (md_op2 i)) s"
proof (induction n arbitrary: s)
  case 0
  then have "finishes_in 1 (m_spec (md_is_op32 i) (md_funct3 i) (md_op1 i) (md_op2 i)) (muldiv_step j s)" for j
    using mul_wait_end [of i s j] mul_done_finishes [of i "muldiv_step j s"] by simp
  moreover have "\<not> md_rvalid s" using 0(1) by (simp add: mul_wait_def waiting_def md_rvalid_def)
  ultimately show ?case by (simp add: numeral_2_eq_2)
next
  case (Suc n)
  have "Suc (64 - Suc n) = 64 - n" using Suc.prems(2) by simp
  then have "mul_wait (64 - n) i (muldiv_step j s)" for j
    using mul_wait_step [OF Suc.prems(1), of j] Suc.prems(2) by simp
  then have "finishes_in (n + 2) (m_spec (md_is_op32 i) (md_funct3 i) (md_op1 i) (md_op2 i)) (muldiv_step j s)" for j
    using Suc.IH Suc.prems(2,3) by simp
  moreover have "\<not> md_rvalid s" using Suc.prems(1) by (simp add: mul_wait_def waiting_def md_rvalid_def)
  ultimately show ?case by simp
qed


subsection \<open>Division\<close>

definition div_a :: "md_input \<Rightarrow> u64" where "div_a i = generate_div_op1 (md_is_op32 i) (md_funct3 i) (md_op1 i)"
definition div_b :: "md_input \<Rightarrow> u64" where "div_b i = generate_div_op1 (md_is_op32 i) (md_funct3 i) (md_op2 i)"

definition div_request :: "md_input \<Rightarrow> muldivunit \<Rightarrow> bool" where
  "div_request i s \<longleftrightarrow> waiting i s \<and> bit (md_funct3 i) 2 \<and> mu_state (mu s) = MulIdle \<and>
     (\<exists>d. du_state d = DivIdle \<and> du s = divunit_step True (div_a i) (div_b i) d)"

definition div_wait :: "nat \<Rightarrow> md_input \<Rightarrow> muldivunit \<Rightarrow> bool" where
  "div_wait k i s \<longleftrightarrow> waiting i s \<and> bit (md_funct3 i) 2 \<and> mu_state (mu s) = MulIdle \<and>
     div_inv k (div_a i) (div_b i) (du s)"

definition div_done :: "md_input \<Rightarrow> u64 \<Rightarrow> u64 \<Rightarrow> muldivunit \<Rightarrow> bool" where
  "div_done i q r s \<longleftrightarrow> waiting i s \<and> bit (md_funct3 i) 2 \<and> mu_state (mu s) = MulIdle \<and>
     du_state (du s) = DivFinish \<and> du_quotient (du s) = q \<and> du_remainder (du s) = r"

lemma accept_div:
  "md_idle s \<Longrightarrow> md_valid i \<Longrightarrow> bit (md_funct3 i) 2 \<Longrightarrow> \<not> du_signed_overflow i \<Longrightarrow> \<not> du_signed_divzero i \<Longrightarrow>
   div_request i (muldiv_step i s)"
  by (auto simp: div_request_def waiting_def muldiv_step_def md_idle_def md_ready_def is_mul_def md_accept_def Let_def
      div_a_def div_b_def)

lemma waiting_step:
  assumes "waiting i s" and "bit (md_funct3 i) 2" and "mu_state (mu s) = MulIdle" and "du_state (du s) \<noteq> DivFinish"
  shows "\<exists>v x y. muldiv_step j s = s\<lparr>du := divunit_step v x y (du s)\<rparr>"
  using assms by (auto simp: waiting_def muldiv_step_def md_ready_def is_mul_def Let_def)

lemma waiting_frame [simp]: "waiting i (s\<lparr>du := d\<rparr>) = waiting i s"
  by (simp add: waiting_def)

lemma du_started: "du_state d = DivIdle \<Longrightarrow> du_state (divunit_step True a b d) \<noteq> DivFinish"
  by (simp add: divunit_step_def)

lemma request_step: "div_request i s \<Longrightarrow> div_b i \<noteq> 0 \<Longrightarrow> div_wait 0 i (muldiv_step j s)"
  using waiting_step [of i s j] div_inv_start [of _ "div_b i" "div_a i"] du_started
  unfolding div_request_def div_wait_def by fastforce

lemma request_by_zero: "div_request i s \<Longrightarrow> div_b i = 0 \<Longrightarrow> div_done i (-1) (div_a i) (muldiv_step j s)"
  using waiting_step [of i s j] div_by_zero [of _ _ _ _ "div_a i"] du_started
  unfolding div_request_def div_done_def by fastforce

lemma div_wait_step: "div_wait k i s \<Longrightarrow> k < 64 \<Longrightarrow> div_wait (Suc k) i (muldiv_step j s)"
  using waiting_step [of i s j] div_inv_step [of k "div_a i" "div_b i" "du s"]
  unfolding div_wait_def by (fastforce simp: div_inv_def)

lemma uint_eq_iff: "(w :: 'a::len word) = word_of_int n" if "uint w = n"
  using that by (simp flip: that)

lemma div_wait_end:
  "div_wait 64 i s \<Longrightarrow>
   div_done i (word_of_int (uint (div_a i) div uint (div_b i))) (word_of_int (uint (div_a i) mod uint (div_b i)))
     (muldiv_step j s)"
  using waiting_step [of i s j] div_inv_end [of "div_a i" "div_b i" "du s"]
  unfolding div_wait_def div_done_def by (fastforce simp: div_inv_def intro!: uint_eq_iff)

lemma uint_div_op:
  "\<not> bit f 0 \<Longrightarrow> uint (generate_div_op1 w f v) = \<bar>if w then sint (ucast v :: u32) else sint v\<bar>"
  "bit f 0 \<Longrightarrow> uint (generate_div_op1 w f v) = (if w then uint (ucast v :: u32) else uint v)"
proof -
  have "generate_div_op1 w f v = abs_word (if w then scast (ucast v :: u32) else v)" if "\<not> bit f 0"
    using that by (simp add: generate_div_op1_def abs_word_def Let_def)
  then show "\<not> bit f 0 \<Longrightarrow> uint (generate_div_op1 w f v) = \<bar>if w then sint (ucast v :: u32) else sint v\<bar>"
    by (simp add: uint_abs_word sint_scast_up)
  have "uint (ucast (x :: u32) :: u64) = uint x" for x
    using uint_bounded [of x] by (simp add: unsigned_ucast_eq take_bit_int_eq_self)
  then show "bit f 0 \<Longrightarrow> uint (generate_div_op1 w f v) = (if w then uint (ucast v :: u32) else uint v)"
    by (simp add: generate_div_op1_def Let_def)
qed

definition to_result :: "bool \<Rightarrow> int \<Rightarrow> u64" where
  "to_result w n = (if w then scast (word_of_int n :: u32) else word_of_int n)"

lemma md_div_results:
  "funct3_saved s = 4 \<Longrightarrow>
   (if op1sign_saved s \<noteq> op2sign_saved s then NOT (du_quotient (du s)) + 1 else du_quotient (du s)) = word_of_int n \<Longrightarrow>
   md_div_result s = to_result (is_op32_saved s) n"
  "funct3_saved s = 5 \<Longrightarrow> du_quotient (du s) = word_of_int n \<Longrightarrow>
   md_div_result s = to_result (is_op32_saved s) n"
  "funct3_saved s = 6 \<Longrightarrow>
   (if op1sign_saved s then NOT (du_remainder (du s)) + 1 else du_remainder (du s)) = word_of_int n \<Longrightarrow>
   md_div_result s = to_result (is_op32_saved s) n"
  "funct3_saved s = 7 \<Longrightarrow> du_remainder (du s) = word_of_int n \<Longrightarrow>
   md_div_result s = to_result (is_op32_saved s) n"
  by (simp_all add: md_div_result_def to_result_def low_part_32 Let_def)


text \<open>The operands as the integers the instruction means.\<close>

definition sop :: "bool \<Rightarrow> u64 \<Rightarrow> int" where "sop w v = (if w then sint (ucast v :: u32) else sint v)"
definition uop :: "bool \<Rightarrow> u64 \<Rightarrow> int" where "uop w v = (if w then uint (ucast v :: u32) else uint v)"
lemma zero_ops: "sop w v = 0 \<longleftrightarrow> (if w then (ucast v :: u32) = 0 else v = 0)"
  "uop w v = 0 \<longleftrightarrow> (if w then (ucast v :: u32) = 0 else v = 0)"
  by (simp_all add: sop_def uop_def uint_0_iff signed_eq_0_iff)

lemma spec_div:
  "sop w b \<noteq> 0 \<Longrightarrow> m_spec w 4 a b = to_result w (sop w a sdiv sop w b)"
  "uop w b \<noteq> 0 \<Longrightarrow> m_spec w 5 a b = to_result w (uop w a div uop w b)"
  "sop w b \<noteq> 0 \<Longrightarrow> m_spec w 6 a b = to_result w (sop w a smod sop w b)"
  "uop w b \<noteq> 0 \<Longrightarrow> m_spec w 7 a b = to_result w (uop w a mod uop w b)"
  unfolding zero_ops unfolding m_spec_def m_op_simps to_result_def sop_def uop_def
  by (cases w, simp_all only: if_True if_False)+

lemma spec_div_zero:
  "uop w b = 0 \<Longrightarrow> m_spec w 5 a b = to_result w (-1)"
  "uop w b = 0 \<Longrightarrow> m_spec w 7 a b = to_result w (uop w a)"
proof -
  have m: "(scast (-1 :: u32) :: u64) = -1" "(word_of_int (-1) :: u32) = -1" "(word_of_int (-1) :: u64) = -1" by simp_all
  show "uop w b = 0 \<Longrightarrow> m_spec w 5 a b = to_result w (-1)"
    "uop w b = 0 \<Longrightarrow> m_spec w 7 a b = to_result w (uop w a)"
    unfolding zero_ops unfolding m_spec_def m_op_simps to_result_def uop_def
    by (cases w, simp_all only: if_True if_False simp_thms m word_of_int_uint)+
qed

lemma div_operands:
  "\<not> bit (md_funct3 i) 0 \<Longrightarrow> uint (div_a i) = \<bar>sop (md_is_op32 i) (md_op1 i)\<bar>"
  "\<not> bit (md_funct3 i) 0 \<Longrightarrow> uint (div_b i) = \<bar>sop (md_is_op32 i) (md_op2 i)\<bar>"
  "bit (md_funct3 i) 0 \<Longrightarrow> uint (div_a i) = uop (md_is_op32 i) (md_op1 i)"
  "bit (md_funct3 i) 0 \<Longrightarrow> uint (div_b i) = uop (md_is_op32 i) (md_op2 i)"
  by (simp_all add: div_a_def div_b_def uint_div_op sop_def uop_def)

lemma saved_signs:
  "waiting i s \<Longrightarrow> op1sign_saved s \<longleftrightarrow> sop (md_is_op32 i) (md_op1 i) < 0"
  "waiting i s \<Longrightarrow> op2sign_saved s \<longleftrightarrow> sop (md_is_op32 i) (md_op2 i) < 0"
  by (simp_all add: waiting_def sop_def sign_bit_32 sign_bit_64)

lemma div_value:
  assumes d: "div_done i (word_of_int (uint (div_a i) div uint (div_b i))) (word_of_int (uint (div_a i) mod uint (div_b i))) s"
    and nz: "div_b i \<noteq> 0"
  shows "md_div_result s = m_spec (md_is_op32 i) (md_funct3 i) (md_op1 i) (md_op2 i)"
proof -
  let ?f = "md_funct3 i" and ?w = "md_is_op32 i" and ?a = "md_op1 i" and ?b = "md_op2 i"
  have w: "waiting i s" "bit ?f 2" "du_quotient (du s) = word_of_int (uint (div_a i) div uint (div_b i))"
    "du_remainder (du s) = word_of_int (uint (div_a i) mod uint (div_b i))" using d by (simp_all add: div_done_def)
  then have sv: "funct3_saved s = ?f" "is_op32_saved s = ?w" by (simp_all add: waiting_def)
  have b: "uint (div_b i) \<noteq> 0" using nz by (simp add: uint_0_iff)
  consider "?f = 4" | "?f = 5" | "?f = 6" | "?f = 7" using word3_cases [of ?f] w(2) by auto
  then show ?thesis
  proof cases
    case 1
    then have s: "\<not> bit ?f 0" by simp
    have y: "sop ?w ?b \<noteq> 0" using b div_operands(2) [OF s] by simp
    have "md_div_result s = to_result (is_op32_saved s) (sop ?w ?a sdiv sop ?w ?b)"
      by (rule md_div_results(1), simp only: sv 1)
        (simp only: w(3) saved_signs [OF w(1)] not_plus_1 div_operands(1,2) [OF s] signed_quotient [OF y])
    then show ?thesis by (simp only: sv(2) 1 spec_div(1) [OF y])
  next
    case 2
    then have s: "bit ?f 0" by simp
    have y: "uop ?w ?b \<noteq> 0" using b div_operands(4) [OF s] by simp
    have "md_div_result s = to_result (is_op32_saved s) (uop ?w ?a div uop ?w ?b)"
      by (rule md_div_results(2), simp only: sv 2) (simp only: w(3) div_operands(3,4) [OF s])
    then show ?thesis by (simp only: sv(2) 2 spec_div(2) [OF y])
  next
    case 3
    then have s: "\<not> bit ?f 0" by simp
    have y: "sop ?w ?b \<noteq> 0" using b div_operands(2) [OF s] by simp
    have "md_div_result s = to_result (is_op32_saved s) (sop ?w ?a smod sop ?w ?b)"
      by (rule md_div_results(3), simp only: sv 3)
        (simp only: w(4) saved_signs [OF w(1)] not_plus_1 div_operands(1,2) [OF s] signed_remainder)
    then show ?thesis by (simp only: sv(2) 3 spec_div(3) [OF y])
  next
    case 4
    then have s: "bit ?f 0" by simp
    have y: "uop ?w ?b \<noteq> 0" using b div_operands(4) [OF s] by simp
    have "md_div_result s = to_result (is_op32_saved s) (uop ?w ?a mod uop ?w ?b)"
      by (rule md_div_results(4), simp only: sv 4) (simp only: w(4) div_operands(3,4) [OF s])
    then show ?thesis by (simp only: sv(2) 4 spec_div(4) [OF y])
  qed
qed

lemma div_value_zero:
  assumes d: "div_done i (-1) (div_a i) s" and z: "div_b i = 0" and nz: "\<not> du_signed_divzero i"
  shows "md_div_result s = m_spec (md_is_op32 i) (md_funct3 i) (md_op1 i) (md_op2 i)"
proof -
  let ?f = "md_funct3 i" and ?w = "md_is_op32 i" and ?a = "md_op1 i" and ?b = "md_op2 i"
  have w: "waiting i s" "bit ?f 2" "du_quotient (du s) = -1" "du_remainder (du s) = div_a i"
    using d by (simp_all add: div_done_def)
  then have sv: "funct3_saved s = ?f" "is_op32_saved s = ?w" by (simp_all add: waiting_def)
  have s: "bit ?f 0"
  proof (rule ccontr)
    assume "\<not> bit ?f 0"
    moreover from this have "sop ?w ?b = 0" using z div_operands(2) by fastforce
    ultimately show False using nz by (simp add: du_signed_divzero_def zero_ops split: if_splits)
  qed
  have y: "uop ?w ?b = 0" using z div_operands(4) [OF s] by simp
  consider "?f = 5" | "?f = 7" using word3_cases [of ?f] w(2) s by auto
  then show ?thesis
  proof cases
    case 1
    have "md_div_result s = to_result (is_op32_saved s) (-1)"
      by (rule md_div_results(2), simp only: sv 1) (simp add: w(3))
    then show ?thesis by (simp only: sv(2) 1 spec_div_zero(1) [OF y])
  next
    case 2
    have "md_div_result s = to_result (is_op32_saved s) (uop ?w ?a)"
      by (rule md_div_results(4), simp only: sv 2) (simp only: w(4) div_operands(3) [OF s, symmetric] word_of_int_uint)
    then show ?thesis by (simp only: sv(2) 2 spec_div_zero(2) [OF y])
  qed
qed

lemma div_done_finishes:
  assumes "div_done i q r s" and "md_div_result s = res"
  shows "finishes_in 1 res s"
proof -
  have "md_state (muldiv_step j s) = Finish \<and> md_result (muldiv_step j s) = md_div_result s \<and>
      mu_state (mu (muldiv_step j s)) = MulIdle \<and> du_state (du (muldiv_step j s)) = DivIdle" for j
    using assms(1)
    by (simp add: div_done_def waiting_def muldiv_step_def md_ready_def is_mul_def Let_def divunit_step_def)
  then show ?thesis using assms by (simp add: md_rvalid_def step_finish div_done_def waiting_def)
qed

lemma div_wait_finishes:
  "div_wait (64 - n) i s \<Longrightarrow> n \<le> 64 \<Longrightarrow> div_b i \<noteq> 0 \<Longrightarrow>
   finishes_in (n + 2) (m_spec (md_is_op32 i) (md_funct3 i) (md_op1 i) (md_op2 i)) s"
proof (induction n arbitrary: s)
  case 0
  then have "finishes_in 1 (m_spec (md_is_op32 i) (md_funct3 i) (md_op1 i) (md_op2 i)) (muldiv_step j s)" for j
    using div_wait_end [of i s j] div_done_finishes div_value by simp
  moreover have "\<not> md_rvalid s" using 0(1) by (simp add: div_wait_def waiting_def md_rvalid_def)
  ultimately show ?case by (simp add: numeral_2_eq_2)
next
  case (Suc n)
  have "Suc (64 - Suc n) = 64 - n" using Suc.prems(2) by simp
  then have "div_wait (64 - n) i (muldiv_step j s)" for j
    using div_wait_step [OF Suc.prems(1), of j] Suc.prems(2) by simp
  then have "finishes_in (n + 2) (m_spec (md_is_op32 i) (md_funct3 i) (md_op1 i) (md_op2 i)) (muldiv_step j s)" for j
    using Suc.IH Suc.prems(2,3) by simp
  moreover have "\<not> md_rvalid s" using Suc.prems(1) by (simp add: div_wait_def waiting_def md_rvalid_def)
  ultimately show ?case by simp
qed


subsection \<open>All requests\<close>

text \<open>The number of edges from the one that accepts the request to the result.\<close>

definition md_latency :: "md_input \<Rightarrow> nat" where
  "md_latency i =
     (if \<not> bit (md_funct3 i) 2 then 67
      else if du_signed_overflow i \<or> du_signed_divzero i then 1
      else if div_b i = 0 then 3 else 68)"

definition remw_by_zero :: "md_input \<Rightarrow> bool" where
  "remw_by_zero i \<longleftrightarrow> md_is_op32 i \<and> md_funct3 i = 6 \<and> (ucast (md_op2 i) :: u32) = 0"

definition md_value :: "md_input \<Rightarrow> u64" where
  "md_value i = (if remw_by_zero i then md_op1 i else m_spec (md_is_op32 i) (md_funct3 i) (md_op1 i) (md_op2 i))"

lemma overflow_value:
  assumes "bit (md_funct3 i) 2" and "du_signed_overflow i"
  shows "md_value i = (if bit (md_funct3 i) 1 then 0
           else if md_is_op32 i then scast (0x80000000 :: u32) else 0x8000000000000000)"
proof -
  have s: "\<not> bit (md_funct3 i) 0" using assms(2) by (simp add: du_signed_overflow_def split: if_splits)
  consider "md_funct3 i = 4" | "md_funct3 i = 6" using word3_cases [of "md_funct3 i"] assms(1) s by auto
  then show ?thesis
    using assms(2)
    by cases (auto simp: md_value_def remw_by_zero_def m_spec_def m_op_simps du_signed_overflow_def
        signed_divide_int_def signed_modulo_int_def split: if_splits)
qed

lemma divzero_value:
  assumes "bit (md_funct3 i) 2" and "du_signed_divzero i"
  shows "md_value i = (if bit (md_funct3 i) 1 then md_op1 i else -1)"
proof -
  have s: "\<not> bit (md_funct3 i) 0" using assms(2) by (simp add: du_signed_divzero_def split: if_splits)
  consider "md_funct3 i = 4" | "md_funct3 i = 6" using word3_cases [of "md_funct3 i"] assms(1) s by auto
  then show ?thesis
    using assms(2)
    by cases (auto simp: md_value_def remw_by_zero_def m_spec_def m_op_simps du_signed_divzero_def split: if_splits)
qed

lemma accept_immediate:
  assumes "md_idle s" and "md_valid i" and "bit (md_funct3 i) 2" and "du_signed_overflow i \<or> du_signed_divzero i"
  shows "finishes_in 0 (md_value i) (muldiv_step i s)"
proof -
  have "md_state (muldiv_step i s) = Finish \<and> md_result (muldiv_step i s) = md_value i \<and>
      mu_state (mu (muldiv_step i s)) = MulIdle \<and> du_state (du (muldiv_step i s)) = DivIdle"
    using assms overflow_value [OF assms(3)] divzero_value [OF assms(3)]
    by (auto simp: muldiv_step_def md_idle_def md_ready_def is_mul_def md_accept_def Let_def)
  then show ?thesis by (simp add: md_rvalid_def step_finish)
qed

lemma not_remw: "\<not> du_signed_divzero i \<Longrightarrow> md_value i = m_spec (md_is_op32 i) (md_funct3 i) (md_op1 i) (md_op2 i)"
  by (auto simp: md_value_def remw_by_zero_def du_signed_divzero_def)

lemma request_finishes:
  assumes "md_idle s" and "md_valid i" and "legal_op i"
  shows "finishes_in (md_latency i - 1) (md_value i) (muldiv_step i s)"
proof (cases "bit (md_funct3 i) 2")
  case False
  then have "mul_wait (64 - 64) i (muldiv_step i s)" using accept_mul assms(1,2) by simp
  from mul_wait_finishes [OF this _ assms(3)] False show ?thesis
    by (auto simp: md_latency_def md_value_def remw_by_zero_def)
next
  case b: True
  show ?thesis
  proof (cases "du_signed_overflow i \<or> du_signed_divzero i")
    case True
    then show ?thesis using accept_immediate [OF assms(1,2) b] b by (simp add: md_latency_def)
  next
    case False
    then have r: "div_request i (muldiv_step i s)" using accept_div assms(1,2) b by simp
    then have n: "\<not> md_rvalid (muldiv_step i s)" by (simp add: div_request_def waiting_def md_rvalid_def)
    have v: "md_value i = m_spec (md_is_op32 i) (md_funct3 i) (md_op1 i) (md_op2 i)" using False by (simp add: not_remw)
    show ?thesis
    proof (cases "div_b i = 0")
      case True
      have "finishes_in 1 (md_value i) (muldiv_step j (muldiv_step i s))" for j
        using request_by_zero [OF r True] div_value_zero [OF _ True] False div_done_finishes unfolding v by blast
      then show ?thesis using n b False True by (simp add: md_latency_def numeral_2_eq_2)
    next
      case nz: False
      have "div_wait (64 - 64) i (muldiv_step j (muldiv_step i s))" for j using request_step [OF r nz] by simp
      from div_wait_finishes [OF this _ nz] have "finishes_in 66 (md_value i) (muldiv_step j (muldiv_step i s))" for j
        unfolding v by simp
      then have "finishes_in (Suc 66) (md_value i) (muldiv_step i s)" using n by (simp only: finishes_in.simps simp_thms)
      moreover have "md_latency i - 1 = Suc 66" using b False nz by (simp add: md_latency_def)
      ultimately show ?thesis by (simp only:)
    qed
  qed
qed

lemma muldiv_reset_idle: "md_idle muldiv_reset"
  by (simp add: md_idle_def muldiv_reset_def)


section \<open>Properties\<close>

text \<open>
  C10. The multiplier and divider compute the M extension. A legal request accepted by the idle unit is
  answered after exactly \<open>md_latency\<close> edges, not before, whatever the inputs meanwhile; one edge later
  the unit is idle again. For every funct3, width and operand, division by zero and signed overflow
  included, the result is the one of the instruction set, with one exception: REMW by zero answers
  with the dividend register as it is, which is the architecture's result only when the register
  holds a sign-extended word (\<open>remw_by_zero_keeps_high_bits\<close>).
\<close>
theorem muldiv_computes:
  assumes "md_idle s" and "md_valid i" and "legal_op i" and "length js = md_latency i - 1"
  shows "md_rvalid (muldiv_run (i # js) s) \<and>
    md_result (muldiv_run (i # js) s) =
      (if remw_by_zero i then md_op1 i else m_spec (md_is_op32 i) (md_funct3 i) (md_op1 i) (md_op2 i)) \<and>
    (\<forall>m < length js. \<not> md_rvalid (muldiv_run (i # take m js) s)) \<and>
    (\<forall>j. md_idle (muldiv_run (i # js @ [j]) s))"
proof -
  have "md_value i = (if remw_by_zero i then md_op1 i else m_spec (md_is_op32 i) (md_funct3 i) (md_op1 i) (md_op2 i))"
    by (simp add: md_value_def)
  moreover have "muldiv_run (xs @ ys) t = muldiv_run ys (muldiv_run xs t)" for xs ys t
    by (induction xs arbitrary: t) auto
  ultimately show ?thesis
    using finishes_in_run [OF request_finishes [OF assms(1-3)] assms(4)] assms(4) by simp
qed

text \<open>-7 / 2 on a unit fresh from reset, while the inputs change to anything (here: another request).\<close>

definition demo_div :: md_input where
  "demo_div = \<lparr>md_valid = True, md_funct3 = 4, md_is_op32 = False, md_op1 = -7, md_op2 = 2\<rparr>"

theorem muldiv_computes_witness:
  "md_result (muldiv_run (demo_div # replicate 67 demo_div) muldiv_reset) = -3"
proof -
  have b: "div_b demo_div = 2" "\<not> du_signed_overflow demo_div" "\<not> du_signed_divzero demo_div" "bit (md_funct3 demo_div) 2"
    by (simp_all add: div_b_def demo_div_def generate_div_op1_def du_signed_overflow_def du_signed_divzero_def)
  then have l: "length (replicate 67 demo_div) = md_latency demo_div - 1"
    by (simp add: md_latency_def)
  have v: "md_valid demo_div" "legal_op demo_div" "\<not> remw_by_zero demo_div"
    by (simp_all add: demo_div_def legal_op_def remw_by_zero_def)
  have "m_spec False 4 (-7) 2 = -3"
    by (simp add: m_spec_def m_op_simps signed_divide_int_def)
  with muldiv_computes [OF muldiv_reset_idle v(1,2) l] v(3) show ?thesis
    by (simp add: demo_div_def del: muldiv_run.simps)
qed

text \<open>
  REMW by zero. The unit answers in one edge with the whole 64-bit dividend register, where the
  instruction set asks for its low word sign-extended: the answer is right exactly for a dividend
  that already is sign-extended.
\<close>
theorem remw_by_zero_keeps_high_bits:
  assumes "md_idle s" and "md_valid i" and "remw_by_zero i"
  shows "md_rvalid (muldiv_step i s) \<and> md_result (muldiv_step i s) = md_op1 i \<and>
    (md_result (muldiv_step i s) = m_spec (md_is_op32 i) (md_funct3 i) (md_op1 i) (md_op2 i) \<longleftrightarrow>
       md_op1 i = scast (ucast (md_op1 i) :: u32))"
proof -
  have z: "bit (md_funct3 i) 2" "du_signed_divzero i" using assms(3) by (simp_all add: remw_by_zero_def du_signed_divzero_def)
  have "finishes_in 0 (md_value i) (muldiv_step i s)"
    using accept_immediate [OF assms(1,2) z(1)] z(2) by simp
  moreover have "m_spec (md_is_op32 i) (md_funct3 i) (md_op1 i) (md_op2 i) = scast (ucast (md_op1 i) :: u32)"
    using assms(3) by (simp add: remw_by_zero_def m_spec_def m_op_simps)
  ultimately show ?thesis using assms(3) by (simp add: md_value_def)
qed

theorem remw_by_zero_keeps_high_bits_witness:
  "md_result (muldiv_step \<lparr>md_valid = True, md_funct3 = 6, md_is_op32 = True, md_op1 = 0x100000005, md_op2 = 0\<rparr>
     muldiv_reset) = 0x100000005 \<and> m_spec True 6 0x100000005 0 = 5"
  using remw_by_zero_keeps_high_bits [OF muldiv_reset_idle, of
    "\<lparr>md_valid = True, md_funct3 = 6, md_is_op32 = True, md_op1 = 0x100000005, md_op2 = 0\<rparr>"]
  by (simp add: remw_by_zero_def m_spec_def m_op_simps)

end
