(* ===== verification/Fifo.thy ===== *)
theory Fifo
  imports Prelude
begin

text \<open>
  The pipeline queues, \<open>fifo.sv\<close>: the one-entry register (\<open>WIDTH == 1\<close>) and the ring buffer. The locale
  \<open>handshake_queue\<close> states what the pipeline stages on either side rely on; both modules are
  interpretations of it, and the ring refines the bounded list queue \<open>queue_step\<close>.
\<close>

section \<open>The modules\<close>

record 'a fifo_in =
  in_flush :: bool
  in_wvalid :: bool
  in_wdata :: 'a
  in_rready :: bool

record 'a fifo_one =
  one_rvalid :: bool
  one_rdata :: 'a

definition one_wready :: "'a fifo_in \<Rightarrow> 'a fifo_one \<Rightarrow> bool" where
  "one_wready i s \<longleftrightarrow> \<not> one_rvalid s \<or> in_rready i"

definition one_reset :: "'a \<Rightarrow> 'a fifo_one" where
  "one_reset zero = \<lparr>one_rvalid = False, one_rdata = zero\<rparr>"

definition one_step :: "'a fifo_in \<Rightarrow> 'a fifo_one \<Rightarrow> 'a fifo_one" where
  "one_step i s =
     (if in_flush i then s\<lparr>one_rvalid := False\<rparr>
      else if one_wready i s \<and> in_wvalid i then s\<lparr>one_rdata := in_wdata i, one_rvalid := True\<rparr>
      else if in_rready i then s\<lparr>one_rvalid := False\<rparr>
      else s)"

text \<open>
  The ring buffer. \<open>w\<close> is the parameter \<open>WIDTH\<close>; the pointers are \<open>WIDTH\<close>-bit registers, so their
  arithmetic is modulo \<open>2 ^ w\<close>. A reset leaves the memory as it is.
\<close>

record 'a fifo_ring =
  ring_head :: nat
  ring_tail :: nat
  ring_mem :: "nat \<Rightarrow> 'a"

definition ring_wready :: "nat \<Rightarrow> 'a fifo_ring \<Rightarrow> bool" where
  "ring_wready w s \<longleftrightarrow> (ring_tail s + 1) mod 2 ^ w \<noteq> ring_head s"

definition ring_wready_two :: "nat \<Rightarrow> 'a fifo_ring \<Rightarrow> bool" where
  "ring_wready_two w s \<longleftrightarrow> ring_wready w s \<and> (ring_tail s + 2) mod 2 ^ w \<noteq> ring_head s"

definition ring_rvalid :: "'a fifo_ring \<Rightarrow> bool" where
  "ring_rvalid s \<longleftrightarrow> ring_head s \<noteq> ring_tail s"

definition ring_rdata :: "'a fifo_ring \<Rightarrow> 'a" where
  "ring_rdata s = ring_mem s (ring_head s)"

definition ring_reset :: "'a fifo_ring \<Rightarrow> 'a fifo_ring" where
  "ring_reset s = s\<lparr>ring_head := 0, ring_tail := 0\<rparr>"

definition ring_step :: "nat \<Rightarrow> 'a fifo_in \<Rightarrow> 'a fifo_ring \<Rightarrow> 'a fifo_ring" where
  "ring_step w i s =
     (if in_flush i then s\<lparr>ring_head := 0, ring_tail := 0\<rparr>
      else (let t = (if ring_wready w s \<and> in_wvalid i
                     then s\<lparr>ring_mem := (ring_mem s)(ring_tail s := in_wdata i),
                            ring_tail := (ring_tail s + 1) mod 2 ^ w\<rparr>
                     else s)
            in if in_rready i \<and> ring_rvalid s then t\<lparr>ring_head := (ring_head s + 1) mod 2 ^ w\<rparr> else t))"

text \<open>A run over the inputs sampled at successive edges, and the words that cross the handshakes.\<close>

fun fifo_run :: "('a fifo_in \<Rightarrow> 's \<Rightarrow> 's) \<Rightarrow> 'a fifo_in list \<Rightarrow> 's \<Rightarrow> 's" where
  "fifo_run step [] s = s"
| "fifo_run step (i # is) s = fifo_run step is (step i s)"

fun accepted :: "('a fifo_in \<Rightarrow> 's \<Rightarrow> bool) \<Rightarrow> ('a fifo_in \<Rightarrow> 's \<Rightarrow> 's) \<Rightarrow> 'a fifo_in list \<Rightarrow> 's \<Rightarrow> 'a list" where
  "accepted wready step [] s = []"
| "accepted wready step (i # is) s =
     (if wready i s \<and> in_wvalid i then [in_wdata i] else []) @ accepted wready step is (step i s)"

fun taken :: "('s \<Rightarrow> bool) \<Rightarrow> ('s \<Rightarrow> 'a) \<Rightarrow> ('a fifo_in \<Rightarrow> 's \<Rightarrow> 's) \<Rightarrow> 'a fifo_in list \<Rightarrow> 's \<Rightarrow> 'a list" where
  "taken rvalid rdata step [] s = []"
| "taken rvalid rdata step (i # is) s =
     (if in_rready i \<and> rvalid s then [rdata s] else []) @ taken rvalid rdata step is (step i s)"


section \<open>The contract\<close>

text \<open>
  \<open>contents\<close> is the abstract queue: an accepted word goes to its end, a taken one is its head, a
  flush empties it, and a word offered below the capacity is accepted.
\<close>

locale handshake_queue =
  fixes ok :: "'s \<Rightarrow> bool"
    and wready :: "'a fifo_in \<Rightarrow> 's \<Rightarrow> bool"
    and rvalid :: "'s \<Rightarrow> bool"
    and rdata :: "'s \<Rightarrow> 'a"
    and step :: "'a fifo_in \<Rightarrow> 's \<Rightarrow> 's"
    and contents :: "'s \<Rightarrow> 'a list"
    and capacity :: nat
  assumes ok_step: "ok s \<Longrightarrow> ok (step i s)"
    and valid_iff: "ok s \<Longrightarrow> rvalid s \<longleftrightarrow> contents s \<noteq> []"
    and data_hd: "ok s \<Longrightarrow> rvalid s \<Longrightarrow> rdata s = hd (contents s)"
    and bounded: "ok s \<Longrightarrow> length (contents s) \<le> capacity"
    and room: "ok s \<Longrightarrow> length (contents s) < capacity \<Longrightarrow> wready i s"
    and flushed: "ok s \<Longrightarrow> in_flush i \<Longrightarrow> contents (step i s) = []"
    and moved: "ok s \<Longrightarrow> \<not> in_flush i \<Longrightarrow> contents (step i s) =
      (if in_rready i \<and> rvalid s then tl (contents s) else contents s) @
      (if wready i s \<and> in_wvalid i then [in_wdata i] else [])"
begin

lemma ok_run: "ok s \<Longrightarrow> ok (fifo_run step is s)"
  by (induction "is" arbitrary: s) (simp_all add: ok_step)

lemma taken_head: "ok s \<Longrightarrow> rvalid s \<Longrightarrow> contents s = rdata s # tl (contents s)"
  using valid_iff data_hd by (metis list.collapse)

lemma fifo_order:
  assumes "ok s" "\<not> (\<exists>i \<in> set is. in_flush i)"
  shows "contents s @ accepted wready step is s = taken rvalid rdata step is s @ contents (fifo_run step is s)"
  using assms
proof (induction "is" arbitrary: s)
  case (Cons i "is")
  have IH: "contents (step i s) @ accepted wready step is (step i s) =
      taken rvalid rdata step is (step i s) @ contents (fifo_run step is (step i s))"
    using Cons by (simp add: ok_step)
  show ?case
  proof (cases "in_rready i \<and> rvalid s")
    case True
    then obtain xs where "contents s = rdata s # xs" using taken_head Cons.prems by blast
    with True IH Cons.prems moved [of s i] show ?thesis by simp
  next
    case False
    with IH Cons.prems moved [of s i] show ?thesis by auto
  qed
qed simp

lemma in_order:
  assumes "ok s" "contents s = []" "\<not> (\<exists>i \<in> set is. in_flush i)"
  shows "\<exists>rest. accepted wready step is s = taken rvalid rdata step is s @ rest \<and> length rest \<le> capacity"
proof -
  have "accepted wready step is s = taken rvalid rdata step is s @ contents (fifo_run step is s)"
    using fifo_order [of s "is"] assms by simp
  then show ?thesis using bounded [OF ok_run [OF assms(1)]] by blast
qed

text \<open>A reader that is always ready drains the queue, one word an edge.\<close>

lemma drains:
  assumes "ok s" "length is = length (contents s)"
    "\<not> (\<exists>i \<in> set is. in_flush i \<or> \<not> in_rready i)"
  shows "taken rvalid rdata step is s = contents s"
proof -
  have len: "ok s \<Longrightarrow> \<not> (\<exists>i \<in> set is. in_flush i \<or> \<not> in_rready i) \<Longrightarrow> length is \<le> length (contents s) \<Longrightarrow>
      length (taken rvalid rdata step is s) = length is" for s :: 's and "is"
  proof (induction "is" arbitrary: s)
    case (Cons i "is")
    then have v: "rvalid s" using valid_iff by force
    then have "length (contents (step i s)) \<ge> length (contents s) - 1"
      using moved [of s i] Cons.prems by simp
    with Cons v show ?case by (simp add: ok_step)
  qed simp
  have "length (taken rvalid rdata step is s) = length (contents s)" using len [of s "is"] assms by simp
  then show ?thesis using fifo_order [of s "is"] assms
    by (metis append_eq_append_conv)
qed

end


section \<open>The one-entry register\<close>

definition one_contents :: "'a fifo_one \<Rightarrow> 'a list" where
  "one_contents s = (if one_rvalid s then [one_rdata s] else [])"

lemmas one_defs = one_contents_def one_step_def one_wready_def

interpretation one: handshake_queue "\<lambda>_. True" one_wready one_rvalid one_rdata one_step one_contents 1
  by unfold_locales (auto simp: one_defs split: if_splits)


section \<open>The ring buffer\<close>

definition ring_ok :: "nat \<Rightarrow> 'a fifo_ring \<Rightarrow> bool" where
  "ring_ok w s \<longleftrightarrow> 0 < w \<and> ring_head s < 2 ^ w \<and> ring_tail s < 2 ^ w"

definition cells :: "nat \<Rightarrow> (nat \<Rightarrow> 'a) \<Rightarrow> nat \<Rightarrow> nat \<Rightarrow> 'a list" where
  "cells n m h c = map (\<lambda>k. m ((h + k) mod n)) [0..<c]"

definition ring_count :: "nat \<Rightarrow> 'a fifo_ring \<Rightarrow> nat" where
  "ring_count w s = (ring_tail s + 2 ^ w - ring_head s) mod 2 ^ w"

definition ring_contents :: "nat \<Rightarrow> 'a fifo_ring \<Rightarrow> 'a list" where
  "ring_contents w s = cells (2 ^ w) (ring_mem s) (ring_head s) (ring_count w s)"

lemma length_cells [simp]: "length (cells n m h c) = c"
  by (simp add: cells_def)

lemma cells_tl: "tl (cells n m h c) = cells n m ((h + 1) mod n) (c - 1)"
  by (rule nth_equalityI) (auto simp: cells_def nth_tl mod_simps less_diff_conv)

lemma same_cell: "(h + a) mod n = (h + b) mod n \<longleftrightarrow> a = b" if "a < n" "b < n" for h a b n :: nat
proof -
  have "a = b" if "(h + a) mod n = (h + b) mod n" "a \<le> b" "b < n" for a b
  proof -
    have "n dvd b - a" using that mod_eq_dvd_iff_nat [of "h + a" "h + b" n] by simp
    then show ?thesis using that by (meson dvd_imp_le le_antisym leD diff_is_0_eq diff_le_self le_less_trans not_gr0)
  qed
  from this [of a b] this [of b a] that show ?thesis by (metis linear)
qed

lemma cells_write: "c < n \<Longrightarrow> cells n (m((h + c) mod n := x)) h (Suc c) = cells n m h c @ [x]"
  by (simp add: cells_def same_cell)

text \<open>The occupancy \<open>c\<close> determines the tail, and every flag of the module is a comparison on it.\<close>

lemma ring_tail_count:
  assumes "ring_ok w s"
  shows "ring_tail s = (ring_head s + ring_count w s) mod 2 ^ w" "ring_count w s < 2 ^ w"
  using assms by (simp_all add: ring_ok_def ring_count_def mod_simps)

lemma ring_count_unique:
  "ring_ok w s \<Longrightarrow> c < 2 ^ w \<Longrightarrow> ring_tail s = (ring_head s + c) mod 2 ^ w \<Longrightarrow> ring_count w s = c"
  using ring_tail_count [of w s] by (simp add: same_cell)

lemma tail_plus:
  assumes "ring_ok w s" "ring_count w s + d \<le> 2 ^ w" "0 < d"
  shows "(ring_tail s + d) mod 2 ^ w = ring_head s \<longleftrightarrow> ring_count w s + d = 2 ^ w"
proof -
  have t: "(ring_tail s + d) mod 2 ^ w = (ring_head s + (ring_count w s + d)) mod 2 ^ w"
    using ring_tail_count [OF assms(1)] by (simp add: mod_simps add.assoc)
  have h: "ring_head s = (ring_head s + 0) mod 2 ^ w" using assms(1) by (simp add: ring_ok_def)
  show ?thesis
  proof (cases "ring_count w s + d = 2 ^ w")
    case True
    then show ?thesis using t h by simp
  next
    case False
    then show ?thesis using t h assms same_cell [of "ring_count w s + d" "2 ^ w" 0 "ring_head s"] by simp
  qed
qed

lemma ring_flags:
  assumes "ring_ok w s"
  shows "ring_rvalid s \<longleftrightarrow> ring_contents w s \<noteq> []"
    and "ring_rvalid s \<Longrightarrow> ring_rdata s = hd (ring_contents w s)"
    and "ring_wready w s \<longleftrightarrow> length (ring_contents w s) < 2 ^ w - 1"
    and "ring_wready_two w s \<longleftrightarrow> length (ring_contents w s) + 2 \<le> 2 ^ w - 1"
proof -
  note c = ring_tail_count [OF assms]
  have h: "ring_head s < 2 ^ w" using assms by (simp add: ring_ok_def)
  have v: "ring_rvalid s \<longleftrightarrow> ring_count w s \<noteq> 0"
    using c h same_cell [of 0 "2 ^ w" "ring_count w s" "ring_head s"] by (simp add: ring_rvalid_def)
  have wr: "ring_wready w s \<longleftrightarrow> ring_count w s + 1 < 2 ^ w"
    using tail_plus [OF assms, of 1] c(2) by (auto simp: ring_wready_def)
  show "ring_rvalid s \<longleftrightarrow> ring_contents w s \<noteq> []"
    using v by (simp add: ring_contents_def cells_def)
  show "ring_rdata s = hd (ring_contents w s)" if "ring_rvalid s"
    using that v h by (simp add: ring_contents_def cells_def ring_rdata_def hd_map)
  show "ring_wready w s \<longleftrightarrow> length (ring_contents w s) < 2 ^ w - 1"
    using wr by (simp add: ring_contents_def less_diff_conv)
  have "ring_wready_two w s \<longleftrightarrow> ring_count w s + 2 < 2 ^ w"
    using wr tail_plus [OF assms, of 2] by (auto simp: ring_wready_two_def)
  then show "ring_wready_two w s \<longleftrightarrow> length (ring_contents w s) + 2 \<le> 2 ^ w - 1"
    by (auto simp: ring_contents_def)
qed

lemma ring_ok_step: "ring_ok w s \<Longrightarrow> ring_ok w (ring_step w i s)"
  by (simp add: ring_ok_def ring_step_def Let_def)

lemma ring_put:
  fixes s :: "'a fifo_ring" and x :: 'a
  assumes "ring_ok w s" "ring_wready w s"
  defines "t \<equiv> s\<lparr>ring_mem := (ring_mem s)(ring_tail s := x), ring_tail := (ring_tail s + 1) mod 2 ^ w\<rparr>"
  shows "ring_ok w t" "ring_contents w t = ring_contents w s @ [x]"
proof -
  note c = ring_tail_count [OF assms(1)]
  have room: "Suc (ring_count w s) < 2 ^ w"
    using assms(1,2) ring_flags(3) by (force simp: ring_contents_def)
  show ok: "ring_ok w t" using assms(1) by (simp add: t_def ring_ok_def)
  have "ring_count w t = Suc (ring_count w s)"
    by (rule ring_count_unique [OF ok room]) (use c in \<open>simp add: t_def mod_simps\<close>)
  then show "ring_contents w t = ring_contents w s @ [x]"
    using cells_write [of "ring_count w s" "2 ^ w" "ring_mem s" "ring_head s" x] c
    by (simp add: ring_contents_def t_def)
qed

lemma ring_pop:
  assumes "ring_ok w s" "ring_contents w s \<noteq> []"
  shows "ring_contents w (s\<lparr>ring_head := (ring_head s + 1) mod 2 ^ w\<rparr>) = tl (ring_contents w s)"
proof -
  let ?t = "s\<lparr>ring_head := (ring_head s + 1) mod 2 ^ w\<rparr>"
  note c = ring_tail_count [OF assms(1)]
  obtain k where k: "ring_count w s = Suc k"
    using assms(2) by (cases "ring_count w s") (auto simp: ring_contents_def cells_def)
  have "ring_count w ?t = ring_count w s - 1"
    by (rule ring_count_unique) (use c k assms(1) in \<open>auto simp: ring_ok_def mod_simps\<close>)
  then show ?thesis by (simp add: ring_contents_def cells_tl)
qed

lemma ring_moved:
  assumes ok: "ring_ok w s" and "\<not> in_flush i"
  shows "ring_contents w (ring_step w i s) =
    (if in_rready i \<and> ring_rvalid s then tl (ring_contents w s) else ring_contents w s) @
    (if ring_wready w s \<and> in_wvalid i then [in_wdata i] else [])"
proof -
  define t where "t = (if ring_wready w s \<and> in_wvalid i
    then s\<lparr>ring_mem := (ring_mem s)(ring_tail s := in_wdata i), ring_tail := (ring_tail s + 1) mod 2 ^ w\<rparr> else s)"
  have t: "ring_ok w t" "ring_head t = ring_head s"
    "ring_contents w t = ring_contents w s @ (if ring_wready w s \<and> in_wvalid i then [in_wdata i] else [])"
    using ring_put [OF ok, of "in_wdata i"] ok by (simp_all add: t_def)
  have step: "ring_step w i s = (if in_rready i \<and> ring_rvalid s then t\<lparr>ring_head := (ring_head s + 1) mod 2 ^ w\<rparr> else t)"
    using assms(2) by (simp add: ring_step_def t_def Let_def)
  show ?thesis
  proof (cases "in_rready i \<and> ring_rvalid s")
    case True
    then have "ring_contents w s \<noteq> []" using ring_flags(1) [OF ok] by simp
    then show ?thesis using True step t ring_pop [OF t(1)] by (simp del: One_nat_def)
  qed (use step t in auto)
qed

lemma ring_flushed: "in_flush i \<Longrightarrow> ring_contents w (ring_step w i s) = []"
  by (simp add: ring_step_def ring_contents_def ring_count_def cells_def)

interpretation ring: handshake_queue "ring_ok w" "\<lambda>_. ring_wready w" ring_rvalid ring_rdata "ring_step w"
  "ring_contents w" "2 ^ w - 1" for w
proof unfold_locales
  show "length (ring_contents w s) \<le> 2 ^ w - 1" if "ring_ok w s" for s :: "'a fifo_ring"
    using ring_tail_count(2) [OF that] by (simp add: ring_contents_def)
qed (simp_all add: ring_ok_step ring_flags ring_flushed ring_moved)

lemma ring_reset_ok: "0 < w \<Longrightarrow> ring_ok w (ring_reset s)" "ring_contents w (ring_reset s) = []"
  by (simp_all add: ring_reset_def ring_ok_def ring_contents_def ring_count_def cells_def)


section \<open>The bounded queue and the properties\<close>

text \<open>The specification: a list of at most \<open>cap\<close> words.\<close>

definition queue_step :: "nat \<Rightarrow> 'a fifo_in \<Rightarrow> 'a list \<Rightarrow> 'a list" where
  "queue_step cap i q =
     (if in_flush i then []
      else (if in_rready i then tl q else q) @
           (if in_wvalid i \<and> length q < cap then [in_wdata i] else []))"

text \<open>
  C40. The ring buffer refines the bounded queue. With \<open>WIDTH\<close>-bit pointers it holds up to
  \<open>2 ^ WIDTH - 1\<close> words; every edge (push, pop, both at once, flush) does to its contents what
  \<open>queue_step\<close> does to the list, its pointers stay in range, and its outputs are those of the list:
  \<open>rvalid\<close> and \<open>rdata\<close> give the first word, \<open>wready\<close> that one more fits and \<open>wready_two\<close> that two do.
\<close>

theorem ring_refines_queue:
  assumes "ring_ok w s"
  shows "ring_ok w (ring_step w i s) \<and>
    ring_contents w (ring_step w i s) = queue_step (2 ^ w - 1) i (ring_contents w s) \<and>
    ring_rvalid s = (ring_contents w s \<noteq> []) \<and>
    (ring_contents w s = [] \<or> ring_rdata s = hd (ring_contents w s)) \<and>
    ring_wready w s = (length (ring_contents w s) < 2 ^ w - 1) \<and>
    ring_wready_two w s = (length (ring_contents w s) + 2 \<le> 2 ^ w - 1)"
proof -
  have "ring_contents w (ring_step w i s) = queue_step (2 ^ w - 1) i (ring_contents w s)"
    by (cases "in_flush i") (auto simp: queue_step_def ring_flushed ring_moved [OF assms] ring_flags [OF assms])
  then show ?thesis using ring_flags [OF assms] ring_ok_step [OF assms] by blast
qed

definition demo_ring :: "nat fifo_ring" where
  "demo_ring = \<lparr>ring_head = 3, ring_tail = 1, ring_mem = (\<lambda>k. 10 + k)\<rparr>"

definition demo_edge :: "nat \<Rightarrow> bool \<Rightarrow> bool \<Rightarrow> nat fifo_in" where
  "demo_edge x wr rd = \<lparr>in_flush = False, in_wvalid = wr, in_wdata = x, in_rready = rd\<rparr>"

lemma demo_ring_ok: "ring_ok 2 demo_ring"
  by (simp add: ring_ok_def demo_ring_def)

theorem ring_refines_queue_witness:
  "ring_contents 2 demo_ring = [13, 10] \<and>
   ring_contents 2 (ring_step 2 (demo_edge 7 True True) demo_ring) = [10, 7]"
proof -
  have c: "ring_contents 2 demo_ring = [13, 10]"
    by (simp add: ring_contents_def ring_count_def demo_ring_def cells_def upt_rec)
  then show ?thesis
    using ring_refines_queue [OF demo_ring_ok, of "demo_edge 7 True True"]
    by (simp add: queue_step_def demo_edge_def)
qed

text \<open>
  Nothing is lost, duplicated or reordered. From reset, and as long as no flush comes, the words
  a reader has taken are a prefix of the words the writer had accepted, in their order, and at most
  the capacity is still inside (\<open>2 ^ WIDTH - 1\<close> words in the ring, one in the one-entry register); a
  reader that stays ready then takes exactly the words inside, one an edge.
\<close>

theorem queues_deliver_in_order:
  fixes r :: "'a fifo_ring"
  assumes "0 < w" "\<not> (\<exists>e \<in> set es. in_flush e)"
    and "inside = ring_contents w (fifo_run (ring_step w) es (ring_reset r))"
    and "length ds = length inside" "\<not> (\<exists>e \<in> set ds. in_flush e \<or> \<not> in_rready e)"
  shows "accepted (\<lambda>_. ring_wready w) (ring_step w) es (ring_reset r) =
      taken ring_rvalid ring_rdata (ring_step w) es (ring_reset r) @ inside \<and>
    length inside \<le> 2 ^ w - 1 \<and>
    taken ring_rvalid ring_rdata (ring_step w) ds (fifo_run (ring_step w) es (ring_reset r)) = inside \<and>
    (\<exists>rest. accepted one_wready one_step es (one_reset z) =
      taken one_rvalid one_rdata one_step es (one_reset z) @ rest \<and> length rest \<le> 1)"
proof -
  have ok: "ring_ok w (ring_reset r)" using assms(1) by (rule ring_reset_ok)
  note ok' = ring.ok_run [OF ok, of es]
  have "\<exists>rest. accepted one_wready one_step es (one_reset z) =
      taken one_rvalid one_rdata one_step es (one_reset z) @ rest \<and> length rest \<le> 1"
    using one.in_order [of "one_reset z" es] assms(2) by (simp add: one_contents_def one_reset_def)
  moreover have "accepted (\<lambda>_. ring_wready w) (ring_step w) es (ring_reset r) =
      taken ring_rvalid ring_rdata (ring_step w) es (ring_reset r) @ inside"
    using ring.fifo_order [OF ok assms(2)] assms(3) by (simp add: ring_reset_ok)
  ultimately show ?thesis
    using ring.bounded [OF ok'] ring.drains [OF ok', of ds] assms(3-5) by auto
qed

theorem queues_deliver_in_order_witness:
  "taken ring_rvalid ring_rdata (ring_step 2) [demo_edge 0 False True, demo_edge 0 False True]
     (fifo_run (ring_step 2) [demo_edge 5 True False, demo_edge 6 True True, demo_edge 7 True False]
       (ring_reset demo_ring)) = [6, 7]"
proof -
  let ?es = "[demo_edge 5 True False, demo_edge 6 True True, demo_edge 7 True False]"
  have "ring_contents 2 (fifo_run (ring_step 2) ?es (ring_reset demo_ring)) = [6, 7]"
    by (simp add: demo_edge_def demo_ring_def ring_reset_def ring_step_def ring_wready_def ring_rvalid_def
        ring_contents_def ring_count_def cells_def upt_rec)
  then show ?thesis
    using queues_deliver_in_order [of 2 ?es "[6, 7]" demo_ring "[demo_edge 0 False True, demo_edge 0 False True]"]
    by (simp add: demo_edge_def)
qed

end
