(* ===== verification/Ptw.thy ===== *)
theory Ptw
  imports Csr Pmp
begin

text \<open>
  The page-table walker, \<open>sv39_ptw.sv\<close>, one clock edge at a time, beside the memory it reads: the
  relation \<open>ptw_reach\<close> is every state a run can reach with any requests, stalls, bus errors and
  flushes, for a memory that answers each request once. The reference is the Sv39 algorithm of the
  privileged specification in integer arithmetic.
\<close>

unbundle bit_operations_syntax

section \<open>Registers and inputs\<close>

datatype sv39_fault =
    SV39_FAULT_NONE | SV39_FAULT_ADDR_INVALID | SV39_FAULT_PTE_MEM_ERROR | SV39_FAULT_PTE_INVALID
  | SV39_FAULT_W_NO_R | SV39_FAULT_RESERVED | SV39_FAULT_NONLEAF_AT_L0 | SV39_FAULT_SUPERPAGE
  | SV39_FAULT_FETCH_X | SV39_FAULT_LOAD_R | SV39_FAULT_STORE_W | SV39_FAULT_PTE_A | SV39_FAULT_PTE_D
  | SV39_FAULT_PTE_U | SV39_FAULT_PTE_SUM

datatype ptw_state = Idle | Req | WaitResp | Check | Done | DrainResp

record ptw_in =
  i_flush :: bool
  i_start :: bool
  i_va :: u64
  i_access_type :: access_type
  i_priv_mode :: priv
  i_satp :: u64
  i_sum :: bool
  i_mxr :: bool
  i_mem_ready :: bool
  i_mem_rvalid :: bool
  i_mem_error :: bool
  i_mem_rdata :: u64

record ptw =
  ptw_state :: ptw_state
  req_va :: u64
  req_access_type :: access_type
  req_priv_mode :: priv
  req_sum :: bool
  req_mxr :: bool
  level :: nat
  base_ppn :: u64
  pte :: u64
  result_fault :: bool
  result_fault_detail :: sv39_fault
  result_pa :: u64
  result_fault_cause :: u64
  result_leaf_valid :: bool
  result_leaf_pte :: u64
  result_leaf_level :: nat
  mem_outstanding :: bool

definition ptw_reset :: ptw where
  "ptw_reset = \<lparr>ptw_state = Idle, req_va = 0, req_access_type = PMP_ACCESS_READ, req_priv_mode = PRIV_M,
     req_sum = False, req_mxr = False, level = 2, base_ppn = 0, pte = 0, result_fault = False,
     result_fault_detail = SV39_FAULT_NONE, result_pa = 0, result_fault_cause = 0, result_leaf_valid = False,
     result_leaf_pte = 0, result_leaf_level = 0, mem_outstanding = False\<rparr>"


section \<open>Combinational logic\<close>

definition vpn :: "nat \<Rightarrow> u64 \<Rightarrow> u64" where
  "vpn lvl va =
     (if lvl = 2 then bits 38 30 va else if lvl = 1 then bits 29 21 va else if lvl = 0 then bits 20 12 va else 0)"

definition pte_addr :: "ptw \<Rightarrow> u64" where
  "pte_addr s = push_bit 12 (base_ppn s) + push_bit 3 (vpn (level s) (req_va s))"

definition pte_invalid :: "u64 \<Rightarrow> bool" where
  "pte_invalid p \<longleftrightarrow> \<not> bit p 0 \<or> (bit p 2 \<and> \<not> bit p 1) \<or> bits 63 54 p \<noteq> 0"

definition pte_nonleaf :: "u64 \<Rightarrow> bool" where
  "pte_nonleaf p \<longleftrightarrow> \<not> (bit p 1 \<or> bit p 3)"

definition pte_reserved_nonleaf :: "u64 \<Rightarrow> bool" where
  "pte_reserved_nonleaf p \<longleftrightarrow> pte_nonleaf p \<and> (bit p 4 \<or> bit p 6 \<or> bit p 7)"

definition superpage_misaligned :: "nat \<Rightarrow> u64 \<Rightarrow> bool" where
  "superpage_misaligned lvl p =
     (if lvl = 2 then bits 27 10 p \<noteq> 0 else if lvl = 1 then bits 18 10 p \<noteq> 0 else False)"

definition pte_access_perm_fault :: "ptw \<Rightarrow> bool" where
  "pte_access_perm_fault s =
     (let p = pte s;
          fault = (case req_access_type s of
              PMP_ACCESS_READ \<Rightarrow> \<not> (bit p 1 \<or> req_mxr s \<and> bit p 3)
            | PMP_ACCESS_WRITE \<Rightarrow> \<not> bit p 2
            | PMP_ACCESS_EXEC \<Rightarrow> \<not> bit p 3)
      in if req_priv_mode s = PRIV_U then (if \<not> bit p 4 then True else fault)
         else if req_priv_mode s = PRIV_S
         then (if bit p 4
               then (if req_access_type s = PMP_ACCESS_EXEC then True
                     else if \<not> req_sum s then True else fault)
               else fault)
         else fault)"

definition pte_ad_fault :: "ptw \<Rightarrow> bool" where
  "pte_ad_fault s = (if req_access_type s = PMP_ACCESS_WRITE \<and> \<not> bit (pte s) 7 then True else \<not> bit (pte s) 6)"

definition leaf_pa :: "u64 \<Rightarrow> u64 \<Rightarrow> nat \<Rightarrow> u64" where
  "leaf_pa leaf_pte leaf_va leaf_level =
     (if leaf_level = 2 then push_bit 30 (bits 53 28 leaf_pte) OR push_bit 12 (bits 29 12 leaf_va) OR bits 11 0 leaf_va
      else if leaf_level = 1
      then push_bit 21 (bits 53 19 leaf_pte) OR push_bit 12 (bits 20 12 leaf_va) OR bits 11 0 leaf_va
      else push_bit 12 (bits 53 10 leaf_pte) OR bits 11 0 leaf_va)"

definition page_fault_cause :: "access_type \<Rightarrow> u64" where
  "page_fault_cause access = (case access of PMP_ACCESS_EXEC \<Rightarrow> 12 | PMP_ACCESS_WRITE \<Rightarrow> 15 | PMP_ACCESS_READ \<Rightarrow> 13)"

definition access_fault_cause :: "access_type \<Rightarrow> u64" where
  "access_fault_cause access = (case access of PMP_ACCESS_EXEC \<Rightarrow> 1 | PMP_ACCESS_WRITE \<Rightarrow> 7 | PMP_ACCESS_READ \<Rightarrow> 5)"

text \<open>\<open>{25{addr[38]}}\<close> is all ones or all zeros.\<close>

definition is_sv39_canonical :: "u64 \<Rightarrow> bool" where
  "is_sv39_canonical addr \<longleftrightarrow> bits 63 39 addr = (if bit addr 38 then mask 25 else 0)"

text \<open>The bus is one PTE wide, so the only lane is lane 0.\<close>

definition select_pte :: "u64 \<Rightarrow> u64 \<Rightarrow> u64" where
  "select_pte data addr = (if drop_bit 3 (addr AND (8 - 1)) = 0 then data else 0)"

definition invalid_fault_detail :: "u64 \<Rightarrow> sv39_fault" where
  "invalid_fault_detail p =
     (if \<not> bit p 0 then SV39_FAULT_PTE_INVALID
      else if bit p 2 \<and> \<not> bit p 1 then SV39_FAULT_W_NO_R
      else SV39_FAULT_RESERVED)"

definition access_perm_fault_detail :: "ptw \<Rightarrow> sv39_fault" where
  "access_perm_fault_detail s =
     (let access = req_access_type s; priv = req_priv_mode s; u = bit (pte s) 4
      in if access = PMP_ACCESS_READ \<and> \<not> (bit (pte s) 1 \<or> req_mxr s \<and> bit (pte s) 3) then SV39_FAULT_LOAD_R
         else if access = PMP_ACCESS_WRITE \<and> \<not> bit (pte s) 2 then SV39_FAULT_STORE_W
         else if access = PMP_ACCESS_EXEC \<and> \<not> bit (pte s) 3 then SV39_FAULT_FETCH_X
         else if priv = PRIV_U \<and> \<not> u then SV39_FAULT_PTE_U
         else if priv = PRIV_S \<and> u \<and> access = PMP_ACCESS_EXEC then SV39_FAULT_PTE_U
         else if priv = PRIV_S \<and> u \<and> \<not> req_sum s then SV39_FAULT_PTE_SUM
         else SV39_FAULT_RESERVED)"

definition ad_fault_detail :: "ptw \<Rightarrow> sv39_fault" where
  "ad_fault_detail s =
     (if \<not> bit (pte s) 6 then SV39_FAULT_PTE_A
      else if req_access_type s = PMP_ACCESS_WRITE \<and> \<not> bit (pte s) 7 then SV39_FAULT_PTE_D
      else SV39_FAULT_RESERVED)"

definition mem_fire :: "ptw_in \<Rightarrow> ptw \<Rightarrow> bool" where
  "mem_fire i s \<longleftrightarrow> ptw_state s = Req \<and> i_mem_ready i"


section \<open>One clock edge\<close>

definition ptw_flush :: "ptw_in \<Rightarrow> ptw \<Rightarrow> ptw" where
  "ptw_flush i s =
     (let drain = (mem_outstanding s \<or> mem_fire i s) \<and> \<not> i_mem_rvalid i
      in ptw_reset\<lparr>ptw_state := (if drain then DrainResp else Idle), mem_outstanding := drain\<rparr>)"

definition ptw_start :: "ptw_in \<Rightarrow> ptw \<Rightarrow> ptw" where
  "ptw_start i s =
     (let canonical = is_sv39_canonical (i_va i)
      in s\<lparr>req_va := i_va i, req_access_type := i_access_type i, req_priv_mode := i_priv_mode i,
           req_sum := i_sum i, req_mxr := i_mxr i, level := 2, base_ppn := bits 43 0 (i_satp i),
           result_fault := \<not> canonical,
           result_fault_detail := (if canonical then SV39_FAULT_NONE else SV39_FAULT_ADDR_INVALID),
           result_pa := 0, result_fault_cause := page_fault_cause (i_access_type i),
           result_leaf_valid := False, result_leaf_pte := 0, result_leaf_level := 0,
           ptw_state := (if canonical then Req else Done)\<rparr>)"

definition ptw_fault :: "sv39_fault \<Rightarrow> ptw \<Rightarrow> ptw" where
  "ptw_fault detail s = s\<lparr>result_fault := True, result_fault_detail := detail, ptw_state := Done\<rparr>"

definition ptw_check :: "ptw \<Rightarrow> ptw" where
  "ptw_check s =
     (if pte_invalid (pte s) then ptw_fault (invalid_fault_detail (pte s)) s
      else if pte_reserved_nonleaf (pte s) then ptw_fault SV39_FAULT_RESERVED s
      else if pte_nonleaf (pte s)
      then (if level s = 0 then ptw_fault SV39_FAULT_NONLEAF_AT_L0 s
            else s\<lparr>base_ppn := bits 53 10 (pte s), level := level s - 1, ptw_state := Req\<rparr>)
      else if pte_access_perm_fault s then ptw_fault (access_perm_fault_detail s) s
      else if superpage_misaligned (level s) (pte s) then ptw_fault SV39_FAULT_SUPERPAGE s
      else if pte_ad_fault s then ptw_fault (ad_fault_detail s) s
      else s\<lparr>result_fault := False, result_fault_detail := SV39_FAULT_NONE,
             result_pa := leaf_pa (pte s) (req_va s) (level s), result_leaf_valid := True,
             result_leaf_pte := pte s, result_leaf_level := level s, ptw_state := Done\<rparr>)"

definition ptw_step :: "ptw_in \<Rightarrow> ptw \<Rightarrow> ptw" where
  "ptw_step i s =
     (if i_flush i then ptw_flush i s
      else case ptw_state s of
        Idle \<Rightarrow> if i_start i then ptw_start i s else s
      | Req \<Rightarrow> if mem_fire i s then s\<lparr>mem_outstanding := True, ptw_state := WaitResp\<rparr> else s
      | WaitResp \<Rightarrow>
          if i_mem_rvalid i
          then (let t = s\<lparr>mem_outstanding := False\<rparr>
                in if i_mem_error i
                   then t\<lparr>result_fault := True, result_fault_detail := SV39_FAULT_PTE_MEM_ERROR,
                          result_fault_cause := access_fault_cause (req_access_type s), ptw_state := Done\<rparr>
                   else t\<lparr>pte := select_pte (i_mem_rdata i) (pte_addr s), ptw_state := Check\<rparr>)
          else s
      | Check \<Rightarrow> ptw_check s
      | Done \<Rightarrow> s\<lparr>ptw_state := Idle\<rparr>
      | DrainResp \<Rightarrow> if i_mem_rvalid i then s\<lparr>mem_outstanding := False, ptw_state := Idle\<rparr> else s)"

fun ptw_run :: "ptw_in list \<Rightarrow> ptw \<Rightarrow> ptw" where
  "ptw_run [] s = s"
| "ptw_run (i # is) s = ptw_run is (ptw_step i s)"


section \<open>The reference: Sv39 address translation\<close>

text \<open>
  The privileged specification's algorithm, over integers: \<open>M\<close> is the memory of page-table entries,
  \<open>None\<close> where an access faults, \<open>ppn\<close> the page number of the table. Entries with A (or D, on a store)
  clear fault; there are no reserved-bit extensions.
\<close>

datatype translation = Translated (tr_pa: nat) (tr_pte: u64) (tr_level: nat) | PageFault | AccessFault

definition pte_ppn :: "u64 \<Rightarrow> nat" where
  "pte_ppn p = unat p div 2 ^ 10 mod 2 ^ 44"

definition may_access :: "access_type \<Rightarrow> priv \<Rightarrow> bool \<Rightarrow> bool \<Rightarrow> u64 \<Rightarrow> bool" where
  "may_access access prv sm mxr p \<longleftrightarrow>
     (case access of
        PMP_ACCESS_READ \<Rightarrow> bit p 1 \<or> (mxr \<and> bit p 3)
      | PMP_ACCESS_WRITE \<Rightarrow> bit p 2
      | PMP_ACCESS_EXEC \<Rightarrow> bit p 3) \<and>
     (prv = PRIV_U \<longrightarrow> bit p 4) \<and>
     (prv = PRIV_S \<and> bit p 4 \<longrightarrow> sm \<and> access \<noteq> PMP_ACCESS_EXEC)"

definition leaf_translation :: "ptw_in \<Rightarrow> nat \<Rightarrow> u64 \<Rightarrow> translation" where
  "leaf_translation j lvl p =
     (if \<not> may_access (i_access_type j) (i_priv_mode j) (i_sum j) (i_mxr j) p \<or>
         pte_ppn p mod 512 ^ lvl \<noteq> 0 \<or>
         \<not> bit p 6 \<or> (i_access_type j = PMP_ACCESS_WRITE \<and> \<not> bit p 7)
      then PageFault
      else Translated (pte_ppn p * 2 ^ 12 + unat (i_va j) mod 2 ^ (12 + 9 * lvl)) p lvl)"

fun sv39_walk :: "(nat \<Rightarrow> u64 option) \<Rightarrow> ptw_in \<Rightarrow> nat \<Rightarrow> nat \<Rightarrow> translation" where
  "sv39_walk M j lvl ppn =
     (case M (ppn * 2 ^ 12 + unat (i_va j) div 2 ^ (12 + 9 * lvl) mod 512 * 8) of
        None \<Rightarrow> AccessFault
      | Some p \<Rightarrow>
          if \<not> bit p 0 \<or> (\<not> bit p 1 \<and> bit p 2) \<or> unat p div 2 ^ 54 \<noteq> 0 then PageFault
          else if bit p 1 \<or> bit p 3 then leaf_translation j lvl p
          else if bit p 4 \<or> bit p 6 \<or> bit p 7 then PageFault
          else (case lvl of 0 \<Rightarrow> PageFault | Suc l \<Rightarrow> sv39_walk M j l (pte_ppn p)))"

definition sv39_translate :: "(nat \<Rightarrow> u64 option) \<Rightarrow> ptw_in \<Rightarrow> translation" where
  "sv39_translate M j =
     (if unat (i_va j) < 2 ^ 38 \<or> 2 ^ 64 - 2 ^ 38 \<le> unat (i_va j) then sv39_walk M j 2 (unat (i_satp j) mod 2 ^ 44)
      else PageFault)"


section \<open>Words and integers\<close>

lemma level_cases: "(l :: nat) \<le> 2 \<Longrightarrow> l = 0 \<or> l = 1 \<or> l = 2"
  by arith

lemma unat_less_64: "unat (w :: u64) < 2 ^ 64"
proof -
  have "unat w < 2 ^ LENGTH(64)" by (rule unsigned_less)
  then show ?thesis by simp
qed

lemma mod_div_power: "x mod 2 ^ (a + b) div 2 ^ a = x div 2 ^ a mod (2 :: nat) ^ b"
  by (simp add: power_add mod_mult2_eq)

lemma unat_vpn: "l \<le> 2 \<Longrightarrow> unat (vpn l va) = unat va div 2 ^ (12 + 9 * l) mod 512"
  by (drule level_cases) (elim disjE; simp add: vpn_def unat_bits)

lemma unat_push_small:
  assumes "unat (w :: u64) < 2 ^ k" "k + n \<le> 64"
  shows "unat (push_bit n w) = unat w * 2 ^ n"
proof -
  have "unat w * 2 ^ n < 2 ^ k * 2 ^ n" using assms(1) by simp
  also have "\<dots> \<le> 2 ^ 64" unfolding power_add [symmetric] by (rule power_increasing) (use assms(2) in auto)
  finally have "take_bit 64 (unat w * 2 ^ n) = unat w * 2 ^ n" by (rule take_bit_nat_eq_self)
  then show ?thesis by (simp only: unsigned_push_bit_eq len_num0 len_bit0 len_num1) (simp only: push_bit_eq_mult, simp)
qed

text \<open>A field placed above an \<open>n\<close>-bit remainder.\<close>

lemma unat_join:
  assumes "unat (x :: u64) < 2 ^ k" "k + n \<le> 64"
  shows "unat (push_bit n x OR take_bit n v) = unat x * 2 ^ n + unat v mod 2 ^ n"
proof -
  have "push_bit n (unat x) AND take_bit n (unat v) = 0"
    by (rule bit_eqI) (auto simp: bit_simps)
  then have "push_bit n (unat x) + take_bit n (unat v) = push_bit n (unat x) OR take_bit n (unat v)"
    by (rule disjunctive_add_eq_or)
  then show ?thesis
    by (simp only: unsigned_or_eq unsigned_take_bit_eq unat_push_small [OF assms])
      (simp only: push_bit_eq_mult take_bit_eq_mod)
qed

lemma unat_pte_addr:
  assumes "unat (base_ppn s) < 2 ^ 44" "level s \<le> 2"
  shows "unat (pte_addr s) = unat (base_ppn s) * 2 ^ 12 + unat (req_va s) div 2 ^ (12 + 9 * level s) mod 512 * 8"
proof -
  let ?v = "vpn (level s) (req_va s)"
  have v: "unat ?v < 2 ^ 9" using assms(2) by (simp add: unat_vpn)
  have p: "unat (push_bit 12 (base_ppn s)) = unat (base_ppn s) * 2 ^ 12"
    "unat (push_bit 3 ?v) = unat ?v * 2 ^ 3"
    by (rule unat_push_small [OF assms(1)] unat_push_small [OF v], simp)+
  have "unat (push_bit 12 (base_ppn s)) + unat (push_bit 3 ?v) < 2 ^ 64"
    using assms(1) v unfolding p by simp
  then have "unat (pte_addr s) = unat (push_bit 12 (base_ppn s)) + unat (push_bit 3 ?v)"
    by (simp only: pte_addr_def unat_plus_if_size word_size len_num0 len_bit0 len_num1) simp
  then show ?thesis unfolding p unat_vpn [OF assms(2)] by simp
qed

lemma unat_bits_ppn: "unat (bits 53 10 p) = pte_ppn p"
  by (simp add: unat_bits pte_ppn_def)

lemma pte_ppn_less: "pte_ppn p < 2 ^ 44"
  by (simp add: pte_ppn_def)

lemma reserved_bits: "bits 63 54 (p :: u64) \<noteq> 0 \<longleftrightarrow> unat p div 2 ^ 54 \<noteq> 0"
proof -
  have "unat p div 2 ^ 54 < 2 ^ 10" using unat_less_64 [of p] by (simp add: less_mult_imp_div_less)
  then have "unat (bits 63 54 p) = unat p div 2 ^ 54" by (simp add: unat_bits)
  then show ?thesis by (simp flip: unat_eq_0)
qed

lemma superpage_iff: "l \<le> 2 \<Longrightarrow> superpage_misaligned l p \<longleftrightarrow> pte_ppn p mod 512 ^ l \<noteq> 0"
  by (drule level_cases)
    (elim disjE; simp add: superpage_misaligned_def pte_ppn_def unat_bits mod_mod_cancel flip: unat_eq_0)

lemma unat_leaf_pa:
  assumes "l \<le> 2" "\<not> superpage_misaligned l p"
  shows "unat (leaf_pa p va l) = pte_ppn p * 2 ^ 12 + unat va mod 2 ^ (12 + 9 * l)"
proof -
  have w: "leaf_pa p va l = push_bit (12 + 9 * l) (bits 53 (10 + 9 * l) p) OR take_bit (12 + 9 * l) va"
    using level_cases [OF assms(1)]
    by (elim disjE; intro bit_word_eqI) (auto simp: leaf_pa_def bit_simps word_slices)
  have b: "unat (bits 53 (10 + 9 * l) p) = pte_ppn p div 512 ^ l"
    using level_cases [OF assms(1)] mod_div_power [of "unat p div 2 ^ 10" 9 35] mod_div_power [of "unat p div 2 ^ 10" 18 26]
    by (elim disjE) (simp_all add: unat_bits pte_ppn_def div_mult2_eq [symmetric])
  have "unat (bits 53 (10 + 9 * l) p) < 2 ^ (44 - 9 * l)"
    using unat_bits_less [of 53 "10 + 9 * l" p] by (simp add: Suc_diff_le)
  moreover have "44 - 9 * l + (12 + 9 * l) \<le> 64" using assms(1) by simp
  ultimately have "unat (leaf_pa p va l) = pte_ppn p div 512 ^ l * 2 ^ (12 + 9 * l) + unat va mod 2 ^ (12 + 9 * l)"
    unfolding w b [symmetric] by (rule unat_join)
  moreover have "pte_ppn p div 512 ^ l * 2 ^ (12 + 9 * l) = pte_ppn p * 2 ^ 12"
  proof -
    have "512 ^ l dvd pte_ppn p" using assms superpage_iff [of l p] by (simp add: dvd_eq_mod_eq_0)
    then obtain q where q: "pte_ppn p = 512 ^ l * q" by (elim dvdE)
    have "(2 :: nat) ^ (9 * l) = 512 ^ l" by (simp add: power_mult)
    then show ?thesis by (simp add: q power_add)
  qed
  ultimately show ?thesis by simp
qed

lemma canonical_iff: "is_sv39_canonical va \<longleftrightarrow> unat va < 2 ^ 38 \<or> 2 ^ 64 - 2 ^ 38 \<le> unat va"
proof -
  let ?h = "unat va div 2 ^ 39"
  have split: "unat va = ?h * 2 ^ 39 + unat va mod 2 ^ 39" by simp
  have h: "unat (bits 63 39 va) = ?h"
    using unat_less_64 [of va] by (simp add: unat_bits less_mult_imp_div_less)
  have b: "bit va 38 \<longleftrightarrow> 2 ^ 38 \<le> unat va mod 2 ^ 39"
  proof -
    have "bit va 38 \<longleftrightarrow> bit (unat va mod 2 ^ 39) 38"
      unfolding take_bit_eq_mod [symmetric] by (simp add: bit_unsigned_iff Bit_Operations.bit_take_bit_iff)
    also have "\<dots> \<longleftrightarrow> odd (unat va mod 2 ^ 39 div 2 ^ 38)" by (rule bit_iff_odd)
    also have "unat va mod 2 ^ 39 div 2 ^ 38 < 2" by (simp add: less_mult_imp_div_less)
    then have "odd (unat va mod 2 ^ 39 div 2 ^ 38) \<longleftrightarrow> unat va mod 2 ^ 39 div 2 ^ 38 = 1"
      by (metis One_nat_def even_zero less_2_cases odd_one)
    also have "\<dots> \<longleftrightarrow> 2 ^ 38 \<le> unat va mod 2 ^ 39"
      using \<open>unat va mod 2 ^ 39 div 2 ^ 38 < 2\<close> by (metis One_nat_def div_less div_greater_zero_iff less_2_cases less_one not_le zero_less_numeral zero_less_power nat_neq_iff)
    finally show ?thesis .
  qed
  have "is_sv39_canonical va \<longleftrightarrow> ?h = (if bit va 38 then 2 ^ 25 - 1 else 0)"
    unfolding is_sv39_canonical_def h [symmetric] by (simp add: word_unat_eq_iff mask_numeral)
  moreover have "?h < 2 ^ 25" using unat_less_64 [of va] by (simp add: less_mult_imp_div_less)
  moreover have "unat va mod 2 ^ 39 < 2 ^ 39" by simp
  moreover define q r where "q = ?h" and "r = unat va mod 2 ^ 39"
  ultimately show ?thesis unfolding b split [folded q_def r_def] q_def [symmetric] r_def [symmetric]
    by (auto split: if_splits)
qed


section \<open>The walker beside its memory\<close>

text \<open>
  \<open>owed\<close> is the request the memory still has to answer. It answers only what it owes, with the entry
  at that address or an error where there is none; \<open>job\<close> is the request the walker works on.
\<close>

definition answers :: "(nat \<Rightarrow> u64 option) \<Rightarrow> u64 option \<Rightarrow> ptw_in \<Rightarrow> bool" where
  "answers M owed i \<longleftrightarrow>
     (i_mem_rvalid i \<longrightarrow>
        (case owed of
           None \<Rightarrow> False
         | Some a \<Rightarrow> M (unat a) = (if i_mem_error i then None else Some (i_mem_rdata i))))"

definition owed_after :: "ptw_in \<Rightarrow> ptw \<Rightarrow> u64 option \<Rightarrow> u64 option" where
  "owed_after i s owed = (if mem_fire i s then Some (pte_addr s) else if i_mem_rvalid i then None else owed)"

definition job_after :: "ptw_in \<Rightarrow> ptw \<Rightarrow> ptw_in option \<Rightarrow> ptw_in option" where
  "job_after i s job =
     (if i_flush i then None
      else if ptw_state s = Idle then (if i_start i then Some i else None)
      else if ptw_state s = Done then None
      else job)"

inductive ptw_reach :: "(nat \<Rightarrow> u64 option) \<Rightarrow> ptw \<Rightarrow> u64 option \<Rightarrow> ptw_in option \<Rightarrow> bool" for M where
  reset: "ptw_reach M ptw_reset None None"
| edge: "ptw_reach M s owed job \<Longrightarrow> answers M owed i \<Longrightarrow>
     ptw_reach M (ptw_step i s) (owed_after i s owed) (job_after i s job)"

definition request_of :: "ptw_in \<Rightarrow> ptw \<Rightarrow> bool" where
  "request_of j s \<longleftrightarrow> req_va s = i_va j \<and> req_access_type s = i_access_type j \<and> req_priv_mode s = i_priv_mode j \<and>
     req_sum s = i_sum j \<and> req_mxr s = i_mxr j"

definition walking :: "(nat \<Rightarrow> u64 option) \<Rightarrow> ptw_in \<Rightarrow> ptw \<Rightarrow> bool" where
  "walking M j s \<longleftrightarrow> request_of j s \<and> level s \<le> 2 \<and> unat (base_ppn s) < 2 ^ 44 \<and>
     result_fault_cause s = page_fault_cause (i_access_type j) \<and> \<not> result_leaf_valid s \<and>
     sv39_translate M j = sv39_walk M j (level s) (unat (base_ppn s))"

text \<open>The outputs that stand for a translation.\<close>

definition outputs :: "ptw_in \<Rightarrow> translation \<Rightarrow> ptw \<Rightarrow> bool" where
  "outputs j r s \<longleftrightarrow>
     (case r of
        Translated a p l \<Rightarrow> \<not> result_fault s \<and> unat (result_pa s) = a \<and>
          result_leaf_valid s \<and> result_leaf_pte s = p \<and> result_leaf_level s = l
      | PageFault \<Rightarrow> result_fault s \<and> \<not> result_leaf_valid s \<and> result_fault_cause s = page_fault_cause (i_access_type j)
      | AccessFault \<Rightarrow> result_fault s \<and> \<not> result_leaf_valid s \<and>
          result_fault_cause s = access_fault_cause (i_access_type j)) \<and>
     (result_fault_detail s = SV39_FAULT_NONE \<longleftrightarrow> \<not> result_fault s)"

definition ptw_inv :: "(nat \<Rightarrow> u64 option) \<Rightarrow> ptw \<Rightarrow> u64 option \<Rightarrow> ptw_in option \<Rightarrow> bool" where
  "ptw_inv M s owed job \<longleftrightarrow>
     (mem_outstanding s \<longleftrightarrow> owed \<noteq> None) \<and>
     (case ptw_state s of
        Idle \<Rightarrow> owed = None \<and> job = None
      | Req \<Rightarrow> owed = None \<and> (\<exists>j. job = Some j \<and> walking M j s)
      | WaitResp \<Rightarrow> owed = Some (pte_addr s) \<and> (\<exists>j. job = Some j \<and> walking M j s)
      | Check \<Rightarrow> owed = None \<and> (\<exists>j. job = Some j \<and> walking M j s) \<and> M (unat (pte_addr s)) = Some (pte s)
      | Done \<Rightarrow> owed = None \<and> (\<exists>j. job = Some j \<and> request_of j s \<and> outputs j (sv39_translate M j) s)
      | DrainResp \<Rightarrow> owed \<noteq> None \<and> job = None)"

lemma select_pte_lane [simp]: "select_pte data addr = data"
proof -
  have "drop_bit 3 (addr AND 7) = 0"
    by (rule bit_word_eqI) (auto simp: bit_simps)
  then show ?thesis by (simp add: select_pte_def)
qed

lemma walk_address:
  "walking M j s \<Longrightarrow> unat (pte_addr s) =
     unat (base_ppn s) * 2 ^ 12 + unat (i_va j) div 2 ^ (12 + 9 * level s) mod 512 * 8"
  by (simp add: walking_def request_of_def unat_pte_addr)

lemma perm_fault_iff:
  "request_of j s \<Longrightarrow> pte_access_perm_fault s \<longleftrightarrow>
     \<not> may_access (i_access_type j) (i_priv_mode j) (i_sum j) (i_mxr j) (pte s)"
  by (cases "i_access_type j") (auto simp: pte_access_perm_fault_def may_access_def request_of_def Let_def)

lemmas check_details = invalid_fault_detail_def access_perm_fault_detail_def ad_fault_detail_def

lemma detail_given [simp]:
  "invalid_fault_detail p \<noteq> SV39_FAULT_NONE" "access_perm_fault_detail s \<noteq> SV39_FAULT_NONE"
  "ad_fault_detail s \<noteq> SV39_FAULT_NONE"
  by (simp_all add: check_details Let_def)

text \<open>A faulting check ends the walk with a page fault.\<close>

lemma fault_step:
  assumes "walking M j s" "sv39_translate M j = PageFault" "detail \<noteq> SV39_FAULT_NONE"
  shows "ptw_state (ptw_fault detail s) = Done \<and> request_of j (ptw_fault detail s) \<and>
    outputs j (sv39_translate M j) (ptw_fault detail s)"
  using assms by (simp add: ptw_fault_def request_of_def outputs_def walking_def)

declare sv39_walk.simps [simp del]

lemma walk_entry:
  assumes "walking M j s" "M (unat (pte_addr s)) = Some (pte s)"
  shows "sv39_translate M j =
    (if pte_invalid (pte s) then PageFault
     else if \<not> pte_nonleaf (pte s) then leaf_translation j (level s) (pte s)
     else if pte_reserved_nonleaf (pte s) then PageFault
     else (case level s of 0 \<Rightarrow> PageFault | Suc l \<Rightarrow> sv39_walk M j l (pte_ppn (pte s))))"
proof -
  have "sv39_translate M j = sv39_walk M j (level s) (unat (base_ppn s))"
    using assms(1) by (simp add: walking_def)
  also have "\<dots> = (if \<not> bit (pte s) 0 \<or> (\<not> bit (pte s) 1 \<and> bit (pte s) 2) \<or> unat (pte s) div 2 ^ 54 \<noteq> 0 then PageFault
      else if bit (pte s) 1 \<or> bit (pte s) 3 then leaf_translation j (level s) (pte s)
      else if bit (pte s) 4 \<or> bit (pte s) 6 \<or> bit (pte s) 7 then PageFault
      else (case level s of 0 \<Rightarrow> PageFault | Suc l \<Rightarrow> sv39_walk M j l (pte_ppn (pte s))))"
    using assms(2) unfolding walk_address [OF assms(1)] by (subst sv39_walk.simps) simp
  finally show ?thesis
    unfolding pte_invalid_def reserved_bits pte_reserved_nonleaf_def pte_nonleaf_def
    by (cases "bit (pte s) 1 \<or> bit (pte s) 3") auto
qed

lemma check_step:
  assumes w: "walking M j s" and m: "M (unat (pte_addr s)) = Some (pte s)"
  shows "ptw_state (ptw_check s) = Req \<and> walking M j (ptw_check s) \<or>
    ptw_state (ptw_check s) = Done \<and> request_of j (ptw_check s) \<and> outputs j (sv39_translate M j) (ptw_check s)"
proof -
  note t = walk_entry [OF w m]
  have lv: "level s \<le> 2" and rq: "request_of j s" using w by (simp_all add: walking_def)
  note perm = perm_fault_iff [OF rq]
  have ad: "pte_ad_fault s \<longleftrightarrow> \<not> bit (pte s) 6 \<or> (i_access_type j = PMP_ACCESS_WRITE \<and> \<not> bit (pte s) 7)"
    using rq by (auto simp: pte_ad_fault_def request_of_def)
  consider (invalid) "pte_invalid (pte s)"
    | (reserved) "\<not> pte_invalid (pte s)" "pte_reserved_nonleaf (pte s)"
    | (pointer) "\<not> pte_invalid (pte s)" "\<not> pte_reserved_nonleaf (pte s)" "pte_nonleaf (pte s)"
    | (leaf) "\<not> pte_invalid (pte s)" "\<not> pte_reserved_nonleaf (pte s)" "\<not> pte_nonleaf (pte s)" by blast
  then show ?thesis
  proof cases
    case invalid
    then show ?thesis using fault_step [OF w] t by (simp add: ptw_check_def)
  next
    case reserved
    then have "pte_nonleaf (pte s)" by (simp add: pte_reserved_nonleaf_def)
    then show ?thesis using reserved fault_step [OF w] t by (simp add: ptw_check_def)
  next
    case pointer
    show ?thesis
    proof (cases "level s")
      case 0
      then show ?thesis using pointer fault_step [OF w] t by (simp add: ptw_check_def)
    next
      case (Suc l)
      then show ?thesis using pointer w t pte_ppn_less
        by (simp add: ptw_check_def walking_def request_of_def unat_bits_ppn)
    qed
  next
    case leaf
    then have t': "sv39_translate M j = leaf_translation j (level s) (pte s)" using t by simp
    show ?thesis
    proof (cases "pte_access_perm_fault s \<or> superpage_misaligned (level s) (pte s) \<or> pte_ad_fault s")
      case True
      then have "sv39_translate M j = PageFault"
        using t' perm ad superpage_iff [OF lv] by (auto simp: leaf_translation_def)
      then show ?thesis using True leaf fault_step [OF w] by (auto simp: ptw_check_def)
    next
      case False
      then have "sv39_translate M j =
          Translated (unat (leaf_pa (pte s) (i_va j) (level s))) (pte s) (level s)"
        using t' perm ad superpage_iff [OF lv] unat_leaf_pa [OF lv] by (auto simp: leaf_translation_def)
      then show ?thesis using False leaf rq
        by (simp add: ptw_check_def request_of_def outputs_def)
    qed
  qed
qed

lemma start_step:
  assumes "ptw_state s = Idle" "\<not> mem_outstanding s" "i_start i"
  shows "ptw_inv M (ptw_start i s) None (Some i)"
proof (cases "is_sv39_canonical (i_va i)")
  case True
  have p: "unat (bits 43 0 (i_satp i)) = unat (i_satp i) mod 2 ^ 44" by (simp add: unat_bits)
  then have "sv39_translate M i = sv39_walk M i 2 (unat (bits 43 0 (i_satp i)))"
    using True canonical_iff [of "i_va i"] by (simp only: sv39_translate_def simp_thms if_True)
  moreover have "unat (bits 43 0 (i_satp i)) < 2 ^ 44" by (simp add: p)
  ultimately show ?thesis using True assms
    by (simp add: ptw_inv_def ptw_start_def walking_def request_of_def Let_def)
next
  case False
  then have "sv39_translate M i = PageFault" using canonical_iff [of "i_va i"] by (simp only: sv39_translate_def if_False)
  then show ?thesis using False assms
    by (simp add: ptw_inv_def ptw_start_def outputs_def request_of_def Let_def)
qed

lemma ptw_inv_check:
  assumes "walking M j s" "M (unat (pte_addr s)) = Some (pte s)" "\<not> mem_outstanding s"
  shows "ptw_inv M (ptw_check s) None (Some j)"
proof -
  have "\<not> mem_outstanding (ptw_check s)"
    using assms(3) by (simp add: ptw_check_def ptw_fault_def)
  then show ?thesis using check_step [OF assms(1,2)] by (auto simp: ptw_inv_def)
qed

lemma ptw_inv_response:
  assumes inv: "ptw_inv M s owed job" and st: "ptw_state s = WaitResp" and a: "answers M owed i"
    and rv: "i_mem_rvalid i" and nf: "\<not> i_flush i"
  shows "ptw_inv M (ptw_step i s) None job"
proof -
  obtain j where j: "job = Some j" "walking M j s" "owed = Some (pte_addr s)"
    using inv st by (auto simp: ptw_inv_def)
  have m: "M (unat (pte_addr s)) = (if i_mem_error i then None else Some (i_mem_rdata i))"
    using a rv j by (simp add: answers_def)
  show ?thesis
  proof (cases "i_mem_error i")
    case True
    have "sv39_translate M j = AccessFault"
      using j(2) m True unfolding walking_def walk_address [OF j(2)] by (subst (asm) sv39_walk.simps) auto
    then show ?thesis using st rv nf True j
      by (simp add: ptw_step_def ptw_inv_def outputs_def walking_def request_of_def Let_def)
  next
    case False
    then show ?thesis using st rv nf m j
      by (simp add: ptw_step_def ptw_inv_def walking_def request_of_def pte_addr_def Let_def)
  qed
qed

lemma ptw_inv_step:
  assumes inv: "ptw_inv M s owed job" and a: "answers M owed i"
  shows "ptw_inv M (ptw_step i s) (owed_after i s owed) (job_after i s job)"
proof (cases "i_flush i")
  case True
  then show ?thesis using inv a
    by (auto simp: ptw_inv_def ptw_step_def ptw_flush_def owed_after_def job_after_def mem_fire_def answers_def
        ptw_reset_def Let_def split: ptw_state.splits if_splits)
next
  case nf: False
  note defs = ptw_step_def owed_after_def job_after_def mem_fire_def
  have idle: "\<not> i_mem_rvalid i" if "owed = None" using a that by (auto simp: answers_def)
  show ?thesis
  proof (cases "ptw_state s")
    case Idle
    then show ?thesis using inv nf idle start_step [of s i M] by (auto simp: defs ptw_inv_def)
  next
    case Req
    then show ?thesis using inv nf idle
      by (auto simp: defs ptw_inv_def walking_def request_of_def pte_addr_def)
  next
    case WaitResp
    then show ?thesis using inv nf ptw_inv_response [OF inv WaitResp a] by (auto simp: defs ptw_inv_def)
  next
    case Check
    then show ?thesis using inv nf idle ptw_inv_check [of M _ s] by (auto simp: defs ptw_inv_def)
  next
    case Done
    then show ?thesis using inv nf idle by (auto simp: defs ptw_inv_def)
  next
    case DrainResp
    then show ?thesis using inv nf by (auto simp: defs ptw_inv_def)
  qed
qed

lemma reach_inv: "ptw_reach M s owed job \<Longrightarrow> ptw_inv M s owed job"
proof (induction rule: ptw_reach.induct)
  case reset
  then show ?case by (simp add: ptw_inv_def ptw_reset_def)
next
  case (edge s owed job i)
  then show ?case by (blast intro: ptw_inv_step)
qed

text \<open>
  Progress: an edge is lost only when the memory does not take the request or has not answered yet;
  every other edge brings the walk nearer to its end.
\<close>

definition stalled :: "ptw_in \<Rightarrow> ptw \<Rightarrow> bool" where
  "stalled i s \<longleftrightarrow> ptw_state s = Req \<and> \<not> i_mem_ready i \<or> ptw_state s = WaitResp \<and> \<not> i_mem_rvalid i"

fun progress :: "ptw_in list \<Rightarrow> ptw \<Rightarrow> nat" where
  "progress [] s = 0"
| "progress (i # is) s = (if stalled i s then 0 else 1) + progress is (ptw_step i s)"

definition work :: "ptw \<Rightarrow> nat" where
  "work s = (case ptw_state s of Req \<Rightarrow> 3 * level s + 3 | WaitResp \<Rightarrow> 3 * level s + 2 | Check \<Rightarrow> 3 * level s + 1 | _ \<Rightarrow> 0)"

definition busy :: "ptw \<Rightarrow> bool" where
  "busy s \<longleftrightarrow> ptw_state s \<in> {Req, WaitResp, Check}"

lemma check_cases:
  "ptw_state (ptw_check s) = Done \<or> ptw_state (ptw_check s) = Req \<and> level (ptw_check s) < level s"
  by (simp add: ptw_check_def ptw_fault_def)

lemma busy_step:
  assumes "busy s" "\<not> i_flush i"
  shows "(busy (ptw_step i s) \<or> ptw_state (ptw_step i s) = Done) \<and>
    work (ptw_step i s) + (if stalled i s then 0 else 1) \<le> work s"
  using assms check_cases [of s]
  by (auto simp: busy_def ptw_step_def mem_fire_def stalled_def work_def Let_def)

lemma busy_ends:
  "busy s \<Longrightarrow> \<forall>i \<in> set is. \<not> i_flush i \<Longrightarrow> work s \<le> progress is s \<Longrightarrow>
   \<exists>k \<le> length is. ptw_state (ptw_run (take k is) s) = Done"
proof (induction "is" arbitrary: s)
  case Nil
  then show ?case by (auto simp: busy_def work_def)
next
  case (Cons i "is")
  note b = busy_step [of s i]
  show ?case
  proof (cases "busy (ptw_step i s)")
    case True
    then obtain k where "k \<le> length is" "ptw_state (ptw_run (take k is) (ptw_step i s)) = Done"
      using Cons b by fastforce
    then show ?thesis by (intro exI [of _ "Suc k"]) simp
  next
    case False
    then show ?thesis using b Cons.prems by (intro exI [of _ 1]) simp
  qed
qed


section \<open>Properties\<close>

text \<open>
  C20. The walker translates as Sv39 says, whatever happens around it. In every state a run from
  reset can reach, with any requests, stalls, bus errors and flushes at any time, a walker that
  reports a result has the fault, cause, physical address and leaf entry that the privileged
  specification's algorithm gives for the request it took over; and it never asks or offers to start
  while the memory still owes an answer, so no answer to an abandoned walk reaches a later one.
\<close>

theorem ptw_translates:
  assumes "ptw_reach M s owed job"
  shows "(ptw_state s = Done \<longrightarrow>
      (\<exists>j. job = Some j \<and> req_va s = i_va j \<and> outputs j (sv39_translate M j) s)) \<and>
    (ptw_state s \<in> {Idle, Req, Check, Done} \<longrightarrow> owed = None) \<and>
    (ptw_state s = WaitResp \<longrightarrow> owed = Some (pte_addr s))"
  using reach_inv [OF assms] by (auto simp: ptw_inv_def request_of_def)

text \<open>A store through a 1 GiB page: the table at 0x80000000 maps 0x40000000 to itself.\<close>

definition demo_pages :: "nat \<Rightarrow> u64 option" where
  "demo_pages a = (if a = 0x80000008 then Some 0x100000cf else None)"

definition demo_edges :: "ptw_in list" where
  "demo_edges = (let quiet = \<lparr>i_flush = False, i_start = False, i_va = 0, i_access_type = PMP_ACCESS_READ,
       i_priv_mode = PRIV_M, i_satp = 0, i_sum = False, i_mxr = False, i_mem_ready = False, i_mem_rvalid = False,
       i_mem_error = False, i_mem_rdata = 0\<rparr>
     in [quiet\<lparr>i_start := True, i_va := 0x40001234, i_access_type := PMP_ACCESS_WRITE, i_priv_mode := PRIV_S,
               i_satp := 0x8000000000080000\<rparr>,
         quiet\<lparr>i_mem_ready := True\<rparr>, quiet\<lparr>i_mem_rvalid := True, i_mem_rdata := 0x100000cf\<rparr>, quiet])"

lemma demo_walk:
  "ptw_reach demo_pages (ptw_run demo_edges ptw_reset) None (Some (hd demo_edges))"
  "ptw_state (ptw_run demo_edges ptw_reset) = Done"
proof -
  note ev = demo_edges_def ptw_step_def ptw_start_def ptw_reset_def mem_fire_def owed_after_def job_after_def Let_def
    answers_def demo_pages_def is_sv39_canonical_def bits_def vpn_def pte_addr_def
  let ?s1 = "ptw_step (demo_edges ! 0) ptw_reset"
  let ?s2 = "ptw_step (demo_edges ! 1) ?s1"
  let ?s3 = "ptw_step (demo_edges ! 2) ?s2"
  have run: "ptw_run demo_edges ptw_reset = ptw_step (demo_edges ! 3) ?s3"
    by (simp add: demo_edges_def Let_def)
  have 1: "ptw_reach demo_pages ?s1 None (Some (hd demo_edges))"
    using ptw_reach.edge [OF ptw_reach.reset, of demo_pages "demo_edges ! 0"] by (simp add: ev)
  have 2: "ptw_reach demo_pages ?s2 (Some 0x80000008) (Some (hd demo_edges))"
    using ptw_reach.edge [OF 1, of "demo_edges ! 1"] by (simp add: ev)
  have 3: "ptw_reach demo_pages ?s3 None (Some (hd demo_edges))"
    using ptw_reach.edge [OF 2, of "demo_edges ! 2"] by (simp add: ev)
  show "ptw_reach demo_pages (ptw_run demo_edges ptw_reset) None (Some (hd demo_edges))"
    using ptw_reach.edge [OF 3, of "demo_edges ! 3"] unfolding run by (simp add: ev)
  show "ptw_state (ptw_run demo_edges ptw_reset) = Done"
    unfolding run
    by (simp add: ev ptw_check_def pte_invalid_def pte_nonleaf_def pte_reserved_nonleaf_def
        pte_access_perm_fault_def superpage_misaligned_def pte_ad_fault_def)
qed

lemma demo_translation:
  "sv39_translate demo_pages (hd demo_edges) = Translated 0x40001234 0x100000cf 2"
  by (simp add: sv39_translate_def sv39_walk.simps demo_edges_def demo_pages_def leaf_translation_def may_access_def
      pte_ppn_def Let_def)

theorem ptw_translates_witness:
  "ptw_state (ptw_run demo_edges ptw_reset) = Done \<and> result_pa (ptw_run demo_edges ptw_reset) = 0x40001234"
  using ptw_translates [OF demo_walk(1)] demo_walk(2) by (simp add: outputs_def demo_translation word_unat_eq_iff)

text \<open>
  C21. A walk ends. After a request is taken, and unless a flush comes, the walker reports its result
  by the time nine edges have passed on which the memory did not make it wait: three levels, and a
  request, an answer and a check for each.
\<close>

theorem ptw_walk_ends:
  assumes "ptw_state s = Idle" "i_start i" "\<not> (\<exists>e \<in> set (i # es). i_flush e)"
    and "9 \<le> progress es (ptw_step i s)"
  shows "\<exists>k \<le> length es. ptw_state (ptw_run (i # take k es) s) = Done"
proof (cases "is_sv39_canonical (i_va i)")
  case True
  then have "busy (ptw_step i s)" "work (ptw_step i s) = 9"
    using assms(1-3) by (simp_all add: ptw_step_def ptw_start_def busy_def work_def Let_def)
  then show ?thesis using busy_ends [of "ptw_step i s" es] assms(3,4) by auto
next
  case False
  then show ?thesis using assms(1-3) by (intro exI [of _ 0]) (simp add: ptw_step_def ptw_start_def Let_def)
qed

text \<open>A table of pointers only: the walk ends with a fault at level 0.\<close>

definition demo_pointer :: ptw_in where
  "demo_pointer = (hd demo_edges)\<lparr>i_mem_ready := True, i_mem_rvalid := True, i_mem_rdata := 0x20000001\<rparr>"

lemma progress_ready: "\<forall>i \<in> set is. i_mem_ready i \<and> i_mem_rvalid i \<Longrightarrow> progress is s = length is"
  by (induction "is" arbitrary: s) (auto simp: stalled_def)

theorem ptw_walk_ends_witness:
  "\<exists>k \<le> 9. ptw_state (ptw_run (demo_pointer # take k (replicate 9 demo_pointer)) ptw_reset) = Done"
proof -
  have "progress (replicate 9 demo_pointer) (ptw_step demo_pointer ptw_reset) = 9"
    by (subst progress_ready) (simp_all add: demo_pointer_def)
  then show ?thesis
    using ptw_walk_ends [of ptw_reset demo_pointer "replicate 9 demo_pointer"]
    by (simp add: demo_pointer_def demo_edges_def ptw_reset_def Let_def)
qed

end
