(* ===== verification/Tlb.thy ===== *)
theory Tlb
  imports Ptw
begin

text \<open>
  The translation look-aside buffer, \<open>rtl/mmu/tlb.sv\<close>: eight entries, looked up by virtual page and
  address space, refilled round robin, flushed as a whole. An entry is sound for a memory of page
  tables when it holds the leaf entry the walk of its page ends in; a sound entry that matches a
  request answers it as the walk would.
\<close>

unbundle bit_operations_syntax

section \<open>State\<close>

record tlb_entry =
  e_valid :: bool
  e_vpn :: u64
  e_ppn :: u64
  e_asid :: u64
  e_level :: nat
  e_global :: bool
  e_user :: bool
  e_read :: bool
  e_write :: bool
  e_execute :: bool
  e_accessed :: bool
  e_dirty :: bool

record tlb =
  entries :: "tlb_entry list"
  replace_index :: nat

definition ENTRY_COUNT :: nat where "ENTRY_COUNT = 8"

definition empty_entry :: tlb_entry where
  "empty_entry = \<lparr>e_valid = False, e_vpn = 0, e_ppn = 0, e_asid = 0, e_level = 0, e_global = False,
     e_user = False, e_read = False, e_write = False, e_execute = False, e_accessed = False, e_dirty = False\<rparr>"

definition tlb_reset :: tlb where
  "tlb_reset = \<lparr>entries = replicate ENTRY_COUNT empty_entry, replace_index = 0\<rparr>"


section \<open>Lookup\<close>

definition vpn_of :: "u64 \<Rightarrow> u64" where
  "vpn_of va = bits 38 12 va"

definition asid_of :: "u64 \<Rightarrow> u64" where
  "asid_of stp = bits 59 44 stp"

definition vpn_matches :: "u64 \<Rightarrow> nat \<Rightarrow> u64 \<Rightarrow> bool" where
  "vpn_matches entry_vpn entry_level request_vpn \<longleftrightarrow>
     (if entry_level = 2 then bits 26 18 entry_vpn = bits 26 18 request_vpn
      else if entry_level = 1 then bits 26 9 entry_vpn = bits 26 9 request_vpn
      else entry_vpn = request_vpn)"

definition asid_matches :: "tlb_entry \<Rightarrow> u64 \<Rightarrow> bool" where
  "asid_matches e request_asid \<longleftrightarrow> e_global e \<or> e_asid e = request_asid"

definition entry_matches_lookup :: "u64 \<Rightarrow> u64 \<Rightarrow> tlb_entry \<Rightarrow> bool" where
  "entry_matches_lookup request_vpn request_asid e \<longleftrightarrow>
     e_valid e \<and> vpn_matches (e_vpn e) (e_level e) request_vpn \<and> asid_matches e request_asid"

definition translated_pa :: "tlb_entry \<Rightarrow> u64 \<Rightarrow> u64" where
  "translated_pa e va =
     (if e_level e = 2 then push_bit 30 (bits 43 18 (e_ppn e)) OR bits 29 0 va
      else if e_level e = 1 then push_bit 21 (bits 43 9 (e_ppn e)) OR bits 20 0 va
      else push_bit 12 (bits 43 0 (e_ppn e)) OR bits 11 0 va)"

definition permission_fault_detail :: "tlb_entry \<Rightarrow> access_type \<Rightarrow> priv \<Rightarrow> bool \<Rightarrow> bool \<Rightarrow> sv39_fault" where
  "permission_fault_detail e access prv sm mxr =
     (if access = PMP_ACCESS_READ \<and> \<not> (e_read e \<or> mxr \<and> e_execute e) then SV39_FAULT_LOAD_R
      else if access = PMP_ACCESS_WRITE \<and> \<not> e_write e then SV39_FAULT_STORE_W
      else if access = PMP_ACCESS_EXEC \<and> \<not> e_execute e then SV39_FAULT_FETCH_X
      else if prv = PRIV_U \<and> \<not> e_user e then SV39_FAULT_PTE_U
      else if prv = PRIV_S \<and> e_user e \<and> access = PMP_ACCESS_EXEC then SV39_FAULT_PTE_U
      else if prv = PRIV_S \<and> e_user e \<and> \<not> sm then SV39_FAULT_PTE_SUM
      else if \<not> e_accessed e then SV39_FAULT_PTE_A
      else if access = PMP_ACCESS_WRITE \<and> \<not> e_dirty e then SV39_FAULT_PTE_D
      else SV39_FAULT_NONE)"

definition entry_allows_access :: "tlb_entry \<Rightarrow> access_type \<Rightarrow> priv \<Rightarrow> bool \<Rightarrow> bool \<Rightarrow> bool" where
  "entry_allows_access e access prv sm mxr =
     (let allowed = (case access of
            PMP_ACCESS_READ \<Rightarrow> e_read e \<or> mxr \<and> e_execute e
          | PMP_ACCESS_WRITE \<Rightarrow> e_write e
          | PMP_ACCESS_EXEC \<Rightarrow> e_execute e);
          allowed = (if prv = PRIV_U then allowed \<and> e_user e
            else if prv = PRIV_S
            then (if e_user e then (if access = PMP_ACCESS_EXEC then False else allowed \<and> sm) else allowed)
            else allowed);
          allowed = (allowed \<and> e_accessed e)
      in if access = PMP_ACCESS_WRITE then allowed \<and> e_dirty e else allowed)"

text \<open>The loop keeps the first match.\<close>

definition tlb_find :: "tlb \<Rightarrow> u64 \<Rightarrow> u64 \<Rightarrow> tlb_entry option" where
  "tlb_find t va stp = find (entry_matches_lookup (vpn_of va) (asid_of stp)) (entries t)"


section \<open>Refill and flush\<close>

definition entry_matches_refill :: "u64 \<Rightarrow> u64 \<Rightarrow> nat \<Rightarrow> bool \<Rightarrow> tlb_entry \<Rightarrow> bool" where
  "entry_matches_refill request_vpn request_asid request_level request_global e \<longleftrightarrow>
     (if \<not> e_valid e then False
      else if e_level e \<noteq> request_level then False
      else if \<not> vpn_matches (e_vpn e) (e_level e) request_vpn then False
      else if e_global e \<noteq> request_global then False
      else if request_global then True
      else e_asid e = request_asid)"

text \<open>The entry a refill writes: the leaf \<open>p\<close> at level \<open>lvl\<close>, reached from \<open>va\<close> under \<open>stp\<close>.\<close>

definition refill_entry :: "u64 \<Rightarrow> u64 \<Rightarrow> u64 \<Rightarrow> nat \<Rightarrow> tlb_entry" where
  "refill_entry va stp p lvl = \<lparr>e_valid = True, e_vpn = vpn_of va, e_ppn = bits 53 10 p, e_asid = asid_of stp,
     e_level = lvl, e_global = bit p 5, e_user = bit p 4, e_read = bit p 1, e_write = bit p 2, e_execute = bit p 3,
     e_accessed = bit p 6, e_dirty = bit p 7\<rparr>"

fun first_index :: "('a \<Rightarrow> bool) \<Rightarrow> 'a list \<Rightarrow> nat \<Rightarrow> nat option" where
  "first_index P [] k = None"
| "first_index P (x # xs) k = (if P x then Some k else first_index P xs (Suc k))"

definition tlb_refill :: "u64 \<Rightarrow> u64 \<Rightarrow> u64 \<Rightarrow> nat \<Rightarrow> tlb \<Rightarrow> tlb" where
  "tlb_refill va stp p lvl t =
     (let e = refill_entry va stp p lvl
      in case first_index (entry_matches_refill (vpn_of va) (asid_of stp) lvl (bit p 5)) (entries t) 0 of
           Some k \<Rightarrow> t\<lparr>entries := (entries t)[k := e]\<rparr>
         | None \<Rightarrow> t\<lparr>entries := (entries t)[replace_index t := e],
                     replace_index := (if replace_index t = ENTRY_COUNT - 1 then 0 else replace_index t + 1)\<rparr>)"

definition tlb_flush :: "tlb \<Rightarrow> tlb" where
  "tlb_flush t = \<lparr>entries = map (\<lambda>e. e\<lparr>e_valid := False\<rparr>) (entries t), replace_index = 0\<rparr>"


section \<open>The leaf a walk ends in\<close>

fun sv39_leaf :: "(nat \<Rightarrow> u64 option) \<Rightarrow> u64 \<Rightarrow> nat \<Rightarrow> nat \<Rightarrow> (u64 \<times> nat) option" where
  "sv39_leaf M va lvl ppn =
     (case M (ppn * 2 ^ 12 + unat va div 2 ^ (12 + 9 * lvl) mod 512 * 8) of
        None \<Rightarrow> None
      | Some p \<Rightarrow>
          if \<not> bit p 0 \<or> (\<not> bit p 1 \<and> bit p 2) \<or> unat p div 2 ^ 54 \<noteq> 0 then None
          else if bit p 1 \<or> bit p 3 then Some (p, lvl)
          else if bit p 4 \<or> bit p 6 \<or> bit p 7 then None
          else (case lvl of 0 \<Rightarrow> None | Suc l \<Rightarrow> sv39_leaf M va l (pte_ppn p)))"

declare sv39_leaf.simps [simp del] sv39_walk.simps [simp del]

definition leaf_of :: "(nat \<Rightarrow> u64 option) \<Rightarrow> u64 \<Rightarrow> u64 \<Rightarrow> (u64 \<times> nat) option" where
  "leaf_of M stp va = sv39_leaf M va 2 (unat stp mod 2 ^ 44)"

lemma sv39_leaf_level: "sv39_leaf M va lvl ppn = Some (p, l) \<Longrightarrow> l \<le> lvl"
proof (induction lvl arbitrary: ppn)
  case 0
  then show ?case by (subst (asm) sv39_leaf.simps) (auto split: option.splits if_splits)
next
  case (Suc lvl)
  show ?case
    using Suc.prems by (subst (asm) sv39_leaf.simps) (auto split: option.splits if_splits dest: Suc.IH)
qed

text \<open>A walk that meets a leaf is decided by it, and one that translates met one.\<close>

lemma walk_leaf:
  "sv39_leaf M (i_va j) lvl ppn = Some (p, l) \<Longrightarrow> sv39_walk M j lvl ppn = leaf_translation j l p"
proof (induction lvl arbitrary: ppn)
  case 0
  then show ?case
    by (subst (asm) sv39_leaf.simps, subst sv39_walk.simps) (auto split: option.splits if_splits)
next
  case (Suc lvl)
  show ?case
    using Suc.prems
    by (subst (asm) sv39_leaf.simps, subst sv39_walk.simps) (auto split: option.splits if_splits dest: Suc.IH)
qed

lemma leaf_walk:
  "sv39_walk M j lvl ppn = Translated a p l \<Longrightarrow>
   sv39_leaf M (i_va j) lvl ppn = Some (p, l) \<and> pte_ppn p mod 512 ^ l = 0 \<and> bit p 0"
proof (induction lvl arbitrary: ppn)
  case 0
  then show ?case
    by (subst sv39_leaf.simps, subst (asm) sv39_walk.simps)
      (auto simp: leaf_translation_def split: option.splits if_splits)
next
  case (Suc lvl)
  show ?case
    using Suc.prems
    by (subst sv39_leaf.simps, subst (asm) sv39_walk.simps)
      (auto simp: leaf_translation_def split: option.splits if_splits dest: Suc.IH)
qed

lemma translate_leaf:
  "is_sv39_canonical (i_va j) \<Longrightarrow> leaf_of M (i_satp j) (i_va j) = Some (p, l) \<Longrightarrow>
   sv39_translate M j = leaf_translation j l p"
  unfolding sv39_translate_def leaf_of_def canonical_iff by (simp add: walk_leaf)

lemma leaf_translate:
  "sv39_translate M j = Translated a p l \<Longrightarrow>
   leaf_of M (i_satp j) (i_va j) = Some (p, l) \<and> pte_ppn p mod 512 ^ l = 0 \<and> l \<le> 2"
  unfolding sv39_translate_def leaf_of_def
  by (auto split: if_splits dest!: leaf_walk dest: sv39_leaf_level)

text \<open>The walks of two addresses of one page of the leaf's size read the same entries.\<close>

lemma page_slice:
  assumes "l \<le> k" "k \<le> 2"
  shows "x div 2 ^ (12 + 9 * l) mod 2 ^ (27 - 9 * l) div 2 ^ (9 * (k - l)) mod 512 = x div 2 ^ (12 + 9 * k) mod (512 :: nat)"
proof -
  have e: "27 - 9 * l = 9 * (k - l) + (27 - 9 * k)" "12 + 9 * k = 12 + 9 * l + 9 * (k - l)" using assms by auto
  have "x div 2 ^ (12 + 9 * l) mod 2 ^ (27 - 9 * l) div 2 ^ (9 * (k - l)) =
      x div 2 ^ (12 + 9 * k) mod 2 ^ (27 - 9 * k)"
    by (subst e(1), subst mod_div_power) (simp add: e(2) div_mult2_eq power_add [of 2 "12 + 9 * l"])
  moreover have "(512 :: nat) dvd 2 ^ (27 - 9 * k)"
    using level_cases [OF assms(2)] by (elim disjE) simp_all
  ultimately show ?thesis by (simp add: mod_mod_cancel)
qed

lemma leaf_same_page:
  assumes "sv39_leaf M va lvl ppn = Some (p, l)" and "lvl \<le> 2"
    and "unat va div 2 ^ (12 + 9 * l) mod 2 ^ (27 - 9 * l) = unat va' div 2 ^ (12 + 9 * l) mod 2 ^ (27 - 9 * l)"
  shows "sv39_leaf M va' lvl ppn = Some (p, l)"
  using assms(1,2)
proof (induction lvl arbitrary: ppn)
  case 0
  have "l = 0" using sv39_leaf_level [OF "0.prems"(1)] by simp
  then have "unat va div 2 ^ 12 mod 512 = unat va' div 2 ^ 12 mod 512"
    using page_slice [of l 0 "unat va"] page_slice [of l 0 "unat va'"] assms(3) by simp
  then show ?case
    using "0.prems" by (subst sv39_leaf.simps, subst (asm) sv39_leaf.simps) (auto split: option.splits if_splits)
next
  case (Suc lvl)
  have "unat va div 2 ^ (12 + 9 * Suc lvl) mod 512 = unat va' div 2 ^ (12 + 9 * Suc lvl) mod 512"
    using page_slice [OF sv39_leaf_level [OF Suc.prems(1)] Suc.prems(2), of "unat va"]
      page_slice [OF sv39_leaf_level [OF Suc.prems(1)] Suc.prems(2), of "unat va'"] assms(3) by metis
  then show ?case
    using Suc.prems Suc.IH
    by (subst sv39_leaf.simps, subst (asm) sv39_leaf.simps) (auto split: option.splits if_splits)
qed


section \<open>Sound entries\<close>

text \<open>
  \<open>U\<close> is the set of \<open>satp\<close> values in use. What software must keep: one address-space number stands
  for one root table, and a global page is mapped alike in every address space.
\<close>

definition asid_discipline :: "(nat \<Rightarrow> u64 option) \<Rightarrow> u64 set \<Rightarrow> bool" where
  "asid_discipline M U \<longleftrightarrow>
     (\<forall>s \<in> U. \<forall>t \<in> U. asid_of s = asid_of t \<longrightarrow> unat s mod 2 ^ 44 = unat t mod 2 ^ 44) \<and>
     (\<forall>s \<in> U. \<forall>t \<in> U. \<forall>va p l. leaf_of M s va = Some (p, l) \<and> bit p 5 \<longrightarrow> leaf_of M t va = Some (p, l))"

definition sound_entry :: "(nat \<Rightarrow> u64 option) \<Rightarrow> u64 set \<Rightarrow> tlb_entry \<Rightarrow> bool" where
  "sound_entry M U e \<longleftrightarrow>
     (e_valid e \<longrightarrow> (\<exists>va stp p l. stp \<in> U \<and> leaf_of M stp va = Some (p, l) \<and> pte_ppn p mod 512 ^ l = 0 \<and>
        l \<le> 2 \<and> e = refill_entry va stp p l))"

definition sound_tlb :: "(nat \<Rightarrow> u64 option) \<Rightarrow> u64 set \<Rightarrow> tlb \<Rightarrow> bool" where
  "sound_tlb M U t \<longleftrightarrow> list_all (sound_entry M U) (entries t) \<and> length (entries t) = ENTRY_COUNT \<and>
     replace_index t < ENTRY_COUNT"

lemma vpn_matches_iff:
  "l \<le> 2 \<Longrightarrow> vpn_matches (vpn_of va) l (vpn_of va') \<longleftrightarrow>
     unat va div 2 ^ (12 + 9 * l) mod 2 ^ (27 - 9 * l) = unat va' div 2 ^ (12 + 9 * l) mod 2 ^ (27 - 9 * l)"
proof -
  assume "l \<le> 2"
  moreover have "unat (bits 26 18 (vpn_of va)) = unat va div 2 ^ 30 mod 2 ^ 9"
    "unat (bits 26 9 (vpn_of va)) = unat va div 2 ^ 21 mod 2 ^ 18" "unat (vpn_of va) = unat va div 2 ^ 12 mod 2 ^ 27" for va
    using mod_div_power [of "unat va div 2 ^ 12" 18 9] mod_div_power [of "unat va div 2 ^ 12" 9 18]
    by (simp_all add: vpn_of_def unat_bits div_mult2_eq [symmetric])
  ultimately show ?thesis
    by (drule_tac level_cases) (elim disjE; simp add: vpn_matches_def word_unat_eq_iff)
qed

lemma matching_leaf:
  assumes "sound_entry M U e" and "entry_matches_lookup (vpn_of va) (asid_of stp) e" and "stp \<in> U"
    and "asid_discipline M U"
  shows "\<exists>p l va0 stp0. leaf_of M stp va = Some (p, l) \<and> pte_ppn p mod 512 ^ l = 0 \<and> l \<le> 2 \<and>
    e = refill_entry va0 stp0 p l"
proof -
  obtain va0 stp0 p l where e: "stp0 \<in> U" "leaf_of M stp0 va0 = Some (p, l)" "pte_ppn p mod 512 ^ l = 0" "l \<le> 2"
      "e = refill_entry va0 stp0 p l"
    using assms(1,2) by (auto simp: sound_entry_def entry_matches_lookup_def)
  have "vpn_matches (vpn_of va0) l (vpn_of va)"
    using assms(2) by (simp add: e(5) entry_matches_lookup_def refill_entry_def)
  then have "leaf_of M stp0 va = Some (p, l)"
    using leaf_same_page [of M va0 2 _ p l va] e(2) by (simp add: leaf_of_def vpn_matches_iff [OF e(4)])
  moreover have "bit p 5 \<or> asid_of stp0 = asid_of stp"
    using assms(2) by (simp add: e(5) entry_matches_lookup_def asid_matches_def refill_entry_def)
  ultimately have "leaf_of M stp va = Some (p, l)"
    using assms(3,4) e(1) unfolding asid_discipline_def leaf_of_def by metis
  with e(3-5) show ?thesis by (intro exI conjI)
qed

lemma refill_allows:
  "entry_allows_access (refill_entry va stp p l) access prv sm mxr \<longleftrightarrow>
     may_access access prv sm mxr p \<and> bit p 6 \<and> (access = PMP_ACCESS_WRITE \<longrightarrow> bit p 7)"
  by (cases access) (auto simp: entry_allows_access_def refill_entry_def may_access_def Let_def)

lemma refill_pa: "l \<le> 2 \<Longrightarrow> translated_pa (refill_entry va0 stp0 p l) va = leaf_pa p va l"
proof -
  have "bits 43 18 (bits 53 10 p) = bits 53 28 p" "bits 43 9 (bits 53 10 p) = bits 53 19 p"
    "bits 43 0 (bits 53 10 p) = bits 53 10 p"
    by (rule bit_word_eqI, auto simp: word_slices)+
  moreover have "push_bit 12 (bits 29 12 va) OR bits 11 0 va = bits 29 0 va"
    "push_bit 12 (bits 20 12 va) OR bits 11 0 va = bits 20 0 va"
    by (rule bit_word_eqI, auto simp: bit_simps word_slices)+
  ultimately show "l \<le> 2 \<Longrightarrow> ?thesis"
    by (drule_tac level_cases) (elim disjE; simp add: translated_pa_def refill_entry_def leaf_pa_def or.assoc)
qed

text \<open>A hit on a sound entry is the walk's answer.\<close>

lemma hit_answers:
  assumes "sound_entry M U e" and "entry_matches_lookup (vpn_of (i_va j)) (asid_of (i_satp j)) e"
    and "i_satp j \<in> U" and "asid_discipline M U" and "is_sv39_canonical (i_va j)"
  shows "if entry_allows_access e (i_access_type j) (i_priv_mode j) (i_sum j) (i_mxr j)
    then \<exists>p l. sv39_translate M j = Translated (unat (translated_pa e (i_va j))) p l
    else sv39_translate M j = PageFault"
proof -
  obtain p l va0 stp0 where l: "leaf_of M (i_satp j) (i_va j) = Some (p, l)" "pte_ppn p mod 512 ^ l = 0" "l \<le> 2"
      "e = refill_entry va0 stp0 p l"
    using matching_leaf [OF assms(1-4)] by (elim exE conjE)
  show ?thesis
    using translate_leaf [OF assms(5) l(1)] l superpage_iff [OF l(3), of p] unat_leaf_pa [OF l(3)]
    by (simp add: refill_allows refill_pa leaf_translation_def)
qed

lemma tlb_find_sound:
  "sound_tlb M U t \<Longrightarrow> tlb_find t va stp = Some e \<Longrightarrow>
   sound_entry M U e \<and> entry_matches_lookup (vpn_of va) (asid_of stp) e"
  by (auto simp: tlb_find_def sound_tlb_def find_Some_iff list_all_length)

lemma sound_reset: "sound_tlb M U tlb_reset"
  by (simp add: sound_tlb_def tlb_reset_def sound_entry_def empty_entry_def ENTRY_COUNT_def list_all_iff)

lemma sound_flush: "length (entries t) = ENTRY_COUNT \<Longrightarrow> sound_tlb M U (tlb_flush t)"
  by (simp add: sound_tlb_def tlb_flush_def sound_entry_def list_all_iff ENTRY_COUNT_def)

lemma sound_update:
  "sound_tlb M U t \<Longrightarrow> sound_entry M U e \<Longrightarrow> n < ENTRY_COUNT \<Longrightarrow>
   sound_tlb M U (t\<lparr>entries := (entries t)[k := e], replace_index := n\<rparr>)"
  by (auto simp: sound_tlb_def list_all_iff dest: set_update_subset_insert [THEN subsetD])

lemma sound_refill:
  assumes "sound_tlb M U t" and "stp \<in> U" and "leaf_of M stp va = Some (p, l)" and "pte_ppn p mod 512 ^ l = 0" and "l \<le> 2"
  shows "sound_tlb M U (tlb_refill va stp p l t)"
proof -
  have e: "sound_entry M U (refill_entry va stp p l)" using assms(2-5) unfolding sound_entry_def by (intro impI exI conjI) (rule assms refl)+
  have r: "replace_index t < ENTRY_COUNT" using assms(1) by (simp add: sound_tlb_def)
  have "(if replace_index t = ENTRY_COUNT - 1 then 0 else replace_index t + 1) < ENTRY_COUNT"
    using r by (auto simp: ENTRY_COUNT_def)
  note upd = sound_update [OF assms(1) e this] sound_update [OF assms(1) e r]
  have "t\<lparr>entries := x, replace_index := replace_index t\<rparr> = t\<lparr>entries := x\<rparr>" for x by simp
  then show ?thesis using upd by (auto simp: tlb_refill_def Let_def split: option.split)
qed

end
