(* ===== verification/Translate.thy ===== *)
theory Translate
  imports Tlb
begin

text \<open>
  The translation unit, \<open>rtl/mmu/address_translation.sv\<close>, of which \<open>data_translation.sv\<close> and
  \<open>instruction_translation.sv\<close> are instances: requests, the fast path (Bare, machine mode, hits),
  the walker behind it with every read of a table checked by the PMP, the refill and the held
  response. One clock edge at a time, beside the memory the walker reads.
\<close>

unbundle bit_operations_syntax

section \<open>Inputs and registers\<close>

record xl_in =
  x_flush :: bool
  x_tlb_flush :: bool
  x_req_valid :: bool
  x_req_va :: u64
  x_req_priv_mode :: priv
  x_req_access_type :: access_type
  x_req_sum :: bool
  x_req_mxr :: bool
  x_satp :: u64
  x_rsp_ready :: bool
  x_mem_ready :: bool
  x_mem_rvalid :: bool
  x_mem_error :: bool
  x_mem_rdata :: u64

datatype xl_state = XIdle | PtwWait | Refill | Response

record xlate =
  xl_state :: xl_state
  pending_va :: u64
  pending_priv_mode :: priv
  pending_access_type :: access_type
  pending_sum :: bool
  pending_mxr :: bool
  pending_satp :: u64
  ptw_started :: bool
  xr_pa :: u64
  xr_fault :: bool
  xr_fault_detail :: sv39_fault
  xr_fault_cause :: u64
  xr_fault_value :: u64
  refill_pa :: u64
  refill_leaf_pte :: u64
  refill_leaf_level :: nat
  refill_leaf_valid :: bool
  translation_tlb :: tlb
  walker :: ptw
  ptw_pmp_fault_pending :: bool

definition xlate_clear :: "xlate \<Rightarrow> xlate" where
  "xlate_clear s = s\<lparr>xl_state := XIdle, pending_va := 0, pending_priv_mode := PRIV_M,
     pending_access_type := PMP_ACCESS_READ, pending_sum := False, pending_mxr := False, pending_satp := 0,
     ptw_started := False, xr_pa := 0, xr_fault := False, xr_fault_detail := SV39_FAULT_NONE, xr_fault_cause := 0,
     xr_fault_value := 0, refill_pa := 0, refill_leaf_pte := 0, refill_leaf_level := 0, refill_leaf_valid := False\<rparr>"

definition xlate_reset :: xlate where
  "xlate_reset = \<lparr>xl_state = XIdle, pending_va = 0, pending_priv_mode = PRIV_M,
     pending_access_type = PMP_ACCESS_READ, pending_sum = False, pending_mxr = False, pending_satp = 0,
     ptw_started = False, xr_pa = 0, xr_fault = False, xr_fault_detail = SV39_FAULT_NONE, xr_fault_cause = 0,
     xr_fault_value = 0, refill_pa = 0, refill_leaf_pte = 0, refill_leaf_level = 0, refill_leaf_valid = False,
     translation_tlb = tlb_reset, walker = ptw_reset, ptw_pmp_fault_pending = False\<rparr>"


section \<open>Combinational logic\<close>

definition req_needs_ptw :: "xl_in \<Rightarrow> bool" where
  "req_needs_ptw i \<longleftrightarrow> bits 63 60 (x_satp i) = 8 \<and> x_req_priv_mode i \<noteq> PRIV_M"

definition fast_rsp_is_bare :: "xl_in \<Rightarrow> bool" where
  "fast_rsp_is_bare i \<longleftrightarrow> bits 63 60 (x_satp i) = 0 \<or> x_req_priv_mode i = PRIV_M"

definition fast_rsp_is_unsupported :: "xl_in \<Rightarrow> bool" where
  "fast_rsp_is_unsupported i \<longleftrightarrow> bits 63 60 (x_satp i) \<noteq> 8 \<and> \<not> fast_rsp_is_bare i"

definition tlb_lookup_valid :: "xl_in \<Rightarrow> xlate \<Rightarrow> bool" where
  "tlb_lookup_valid i s \<longleftrightarrow>
     xl_state s = XIdle \<and> x_req_valid i \<and> req_needs_ptw i \<and> \<not> x_flush i \<and> \<not> x_tlb_flush i"

definition tlb_hit :: "xl_in \<Rightarrow> xlate \<Rightarrow> tlb_entry option" where
  "tlb_hit i s = (if tlb_lookup_valid i s then tlb_find (translation_tlb s) (x_req_va i) (x_satp i) else None)"

definition tlb_fault :: "xl_in \<Rightarrow> tlb_entry \<Rightarrow> bool" where
  "tlb_fault i e \<longleftrightarrow>
     \<not> entry_allows_access e (x_req_access_type i) (x_req_priv_mode i) (x_req_sum i) (x_req_mxr i)"

definition fast_rsp_is_tlb_hit :: "xl_in \<Rightarrow> xlate \<Rightarrow> bool" where
  "fast_rsp_is_tlb_hit i s \<longleftrightarrow> req_needs_ptw i \<and> tlb_hit i s \<noteq> None"

definition req_ready :: "xl_in \<Rightarrow> xlate \<Rightarrow> bool" where
  "req_ready i s \<longleftrightarrow> xl_state s = XIdle \<and> \<not> x_flush i \<and> \<not> x_tlb_flush i \<and>
     (\<not> req_needs_ptw i \<or> tlb_hit i s \<noteq> None \<or> ptw_state (walker s) = Idle)"

definition fast_rsp_valid :: "xl_in \<Rightarrow> xlate \<Rightarrow> bool" where
  "fast_rsp_valid i s \<longleftrightarrow> xl_state s = XIdle \<and> x_req_valid i \<and> req_ready i s \<and>
     (fast_rsp_is_bare i \<or> fast_rsp_is_unsupported i \<or> fast_rsp_is_tlb_hit i s)"

definition fast_rsp_pa :: "xl_in \<Rightarrow> xlate \<Rightarrow> u64" where
  "fast_rsp_pa i s =
     (if fast_rsp_is_bare i then x_req_va i
      else if req_needs_ptw i then (case tlb_hit i s of Some e \<Rightarrow> translated_pa e (x_req_va i) | None \<Rightarrow> 0)
      else 0)"

definition fast_tlb_fault :: "xl_in \<Rightarrow> xlate \<Rightarrow> bool" where
  "fast_tlb_fault i s \<longleftrightarrow> req_needs_ptw i \<and> (case tlb_hit i s of Some e \<Rightarrow> tlb_fault i e | None \<Rightarrow> False)"

definition fast_rsp_fault :: "xl_in \<Rightarrow> xlate \<Rightarrow> bool" where
  "fast_rsp_fault i s \<longleftrightarrow> fast_rsp_is_unsupported i \<or> fast_tlb_fault i s"

definition fast_rsp_fault_detail :: "xl_in \<Rightarrow> xlate \<Rightarrow> sv39_fault" where
  "fast_rsp_fault_detail i s =
     (if fast_rsp_is_unsupported i then SV39_FAULT_ADDR_INVALID
      else if fast_tlb_fault i s
      then (case tlb_hit i s of
              Some e \<Rightarrow> permission_fault_detail e (x_req_access_type i) (x_req_priv_mode i) (x_req_sum i) (x_req_mxr i)
            | None \<Rightarrow> SV39_FAULT_NONE)
      else SV39_FAULT_NONE)"

definition fast_rsp_fault_cause :: "xl_in \<Rightarrow> xlate \<Rightarrow> u64" where
  "fast_rsp_fault_cause i s = (if fast_rsp_fault i s then page_fault_cause (x_req_access_type i) else 0)"

text \<open>The response port.\<close>

definition rsp_valid :: "xl_in \<Rightarrow> xlate \<Rightarrow> bool" where
  "rsp_valid i s \<longleftrightarrow> fast_rsp_valid i s \<or> xl_state s = Response"

definition rsp_pa :: "xl_in \<Rightarrow> xlate \<Rightarrow> u64" where
  "rsp_pa i s = (if fast_rsp_valid i s then fast_rsp_pa i s else xr_pa s)"

definition rsp_fault :: "xl_in \<Rightarrow> xlate \<Rightarrow> bool" where
  "rsp_fault i s = (if fast_rsp_valid i s then fast_rsp_fault i s else xr_fault s)"

definition rsp_fault_detail :: "xl_in \<Rightarrow> xlate \<Rightarrow> sv39_fault" where
  "rsp_fault_detail i s = (if fast_rsp_valid i s then fast_rsp_fault_detail i s else xr_fault_detail s)"

definition rsp_fault_cause :: "xl_in \<Rightarrow> xlate \<Rightarrow> u64" where
  "rsp_fault_cause i s = (if fast_rsp_valid i s then fast_rsp_fault_cause i s else xr_fault_cause s)"

definition rsp_fault_value :: "xl_in \<Rightarrow> xlate \<Rightarrow> u64" where
  "rsp_fault_value i s = (if fast_rsp_valid i s then x_req_va i else xr_fault_value s)"

text \<open>The walker's side: its memory port with the PMP in between (\<open>c\<close> holds the PMP registers).\<close>

definition ptw_start_now :: "xlate \<Rightarrow> bool" where
  "ptw_start_now s \<longleftrightarrow> xl_state s = PtwWait \<and> \<not> ptw_started s \<and> ptw_state (walker s) = Idle"

definition ptw_mem_pmp_allow :: "csr_file \<Rightarrow> xlate \<Rightarrow> bool" where
  "ptw_mem_pmp_allow c s = pmp_allow PRIV_S c (pte_addr (walker s)) 8 PMP_ACCESS_READ"

definition ptw_mem_valid :: "csr_file \<Rightarrow> xlate \<Rightarrow> bool" where
  "ptw_mem_valid c s \<longleftrightarrow> ptw_state (walker s) = Req \<and> ptw_mem_pmp_allow c s"

definition ptw_mem_ready_to_ptw :: "csr_file \<Rightarrow> xl_in \<Rightarrow> xlate \<Rightarrow> bool" where
  "ptw_mem_ready_to_ptw c i s = (if ptw_mem_pmp_allow c s then x_mem_ready i else \<not> x_flush i)"

definition ptw_pmp_deny_fire :: "csr_file \<Rightarrow> xl_in \<Rightarrow> xlate \<Rightarrow> bool" where
  "ptw_pmp_deny_fire c i s \<longleftrightarrow>
     ptw_state (walker s) = Req \<and> \<not> ptw_mem_pmp_allow c s \<and> ptw_mem_ready_to_ptw c i s"

definition walker_in :: "csr_file \<Rightarrow> xl_in \<Rightarrow> xlate \<Rightarrow> ptw_in" where
  "walker_in c i s = \<lparr>i_flush = x_flush i, i_start = ptw_start_now s, i_va = pending_va s,
     i_access_type = pending_access_type s, i_priv_mode = pending_priv_mode s, i_satp = pending_satp s,
     i_sum = pending_sum s, i_mxr = pending_mxr s, i_mem_ready = ptw_mem_ready_to_ptw c i s,
     i_mem_rvalid = (x_mem_rvalid i \<or> ptw_pmp_fault_pending s),
     i_mem_error = (x_mem_error i \<or> ptw_pmp_fault_pending s),
     i_mem_rdata = (if ptw_pmp_fault_pending s then 0 else x_mem_rdata i)\<rparr>"


section \<open>One clock edge\<close>

definition accept_request :: "xl_in \<Rightarrow> xlate \<Rightarrow> xlate" where
  "accept_request i s =
     (let t = s\<lparr>pending_va := x_req_va i, pending_priv_mode := x_req_priv_mode i,
         pending_access_type := x_req_access_type i, pending_sum := x_req_sum i, pending_mxr := x_req_mxr i,
         pending_satp := x_satp i, ptw_started := False, xr_fault_value := x_req_va i, refill_pa := 0,
         refill_leaf_pte := 0, refill_leaf_level := 0, refill_leaf_valid := False\<rparr>
      in if fast_rsp_valid i s
         then t\<lparr>xr_pa := fast_rsp_pa i s, xr_fault := fast_rsp_fault i s,
                xr_fault_detail := fast_rsp_fault_detail i s, xr_fault_cause := fast_rsp_fault_cause i s,
                xl_state := (if x_rsp_ready i then XIdle else Response)\<rparr>
         else t\<lparr>xr_pa := 0, xr_fault := False, xr_fault_detail := SV39_FAULT_NONE, xr_fault_cause := 0,
                xl_state := PtwWait\<rparr>)"

definition await_walk :: "xlate \<Rightarrow> xlate" where
  "await_walk s =
     (let w = walker s; s' = (if ptw_start_now s then s\<lparr>ptw_started := True\<rparr> else s)
      in if ptw_state w = Done
         then s'\<lparr>xr_pa := result_pa w, xr_fault := result_fault w, xr_fault_detail := result_fault_detail w,
                 xr_fault_cause := result_fault_cause w, xr_fault_value := req_va w, refill_pa := result_pa w,
                 refill_leaf_pte := result_leaf_pte w, refill_leaf_level := result_leaf_level w,
                 refill_leaf_valid := (result_leaf_valid w \<and> \<not> result_fault w),
                 xl_state := (if result_fault w then Response else Refill)\<rparr>
         else if ptw_started s \<and> ptw_state w = Idle then s'\<lparr>ptw_started := False\<rparr>
         else s')"

definition xl_control :: "xl_in \<Rightarrow> xlate \<Rightarrow> xlate" where
  "xl_control i s =
     (if x_flush i then xlate_clear s
      else case xl_state s of
        XIdle \<Rightarrow> if x_req_valid i \<and> req_ready i s then accept_request i s else s
      | PtwWait \<Rightarrow> await_walk s
      | Refill \<Rightarrow> s\<lparr>xl_state := Response\<rparr>
      | Response \<Rightarrow> if x_rsp_ready i then s\<lparr>xl_state := XIdle\<rparr> else s)"

definition tlb_edge :: "xl_in \<Rightarrow> xlate \<Rightarrow> tlb" where
  "tlb_edge i s =
     (if x_tlb_flush i then tlb_flush (translation_tlb s)
      else if xl_state s = Refill \<and> refill_leaf_valid s
      then tlb_refill (pending_va s) (pending_satp s) (refill_leaf_pte s) (refill_leaf_level s) (translation_tlb s)
      else translation_tlb s)"

definition xl_step :: "csr_file \<Rightarrow> xl_in \<Rightarrow> xlate \<Rightarrow> xlate" where
  "xl_step c i s = (xl_control i s)
     \<lparr>translation_tlb := tlb_edge i s, walker := ptw_step (walker_in c i s) (walker s),
      ptw_pmp_fault_pending := (\<not> x_flush i \<and> ptw_pmp_deny_fire c i s)\<rparr>"

fun xl_run :: "csr_file \<Rightarrow> xl_in list \<Rightarrow> xlate \<Rightarrow> xlate" where
  "xl_run c [] s = s"
| "xl_run c (i # is) s = xl_run c is (xl_step c i s)"


section \<open>The unit beside its memory\<close>

text \<open>
  The tables as the walker may read them: where the PMP refuses a supervisor read there is nothing.
\<close>

definition readable :: "csr_file \<Rightarrow> (nat \<Rightarrow> u64 option) \<Rightarrow> nat \<Rightarrow> u64 option" where
  "readable c M a = (if pmp_allow PRIV_S c (of_nat a) 8 PMP_ACCESS_READ then M a else None)"

text \<open>\<open>owed\<close> is the read the memory has taken and not answered. It answers only that.\<close>

definition xl_answers :: "(nat \<Rightarrow> u64 option) \<Rightarrow> u64 option \<Rightarrow> xl_in \<Rightarrow> xlate \<Rightarrow> bool" where
  "xl_answers M owed i s \<longleftrightarrow>
     (x_mem_rvalid i \<longrightarrow>
        (case owed of
           None \<Rightarrow> False
         | Some a \<Rightarrow> ptw_state (walker s) = WaitResp \<longrightarrow>
             M (unat a) = (if x_mem_error i then None else Some (x_mem_rdata i))))"

definition xl_owed :: "csr_file \<Rightarrow> xl_in \<Rightarrow> xlate \<Rightarrow> u64 option \<Rightarrow> u64 option" where
  "xl_owed c i s owed =
     (if ptw_mem_valid c s \<and> x_mem_ready i then Some (pte_addr (walker s))
      else if x_mem_rvalid i then None else owed)"

text \<open>
  An epoch starts when the tables have been changed and the unit flushed (\<open>sfence.vma\<close>): no valid
  entry, no request; a read of the time before may still be owed. In the epoch the tables and the
  PMP registers stay as they are.
\<close>

definition epoch_start :: "xlate \<Rightarrow> u64 option \<Rightarrow> bool" where
  "epoch_start s owed \<longleftrightarrow>
     xl_state s = XIdle \<and> length (entries (translation_tlb s)) = ENTRY_COUNT \<and>
     list_all (\<lambda>e. \<not> e_valid e) (entries (translation_tlb s)) \<and> replace_index (translation_tlb s) < ENTRY_COUNT \<and>
     \<not> ptw_pmp_fault_pending s \<and> mem_outstanding (walker s) = (owed \<noteq> None) \<and>
     ptw_state (walker s) = (if owed = None then Idle else DrainResp)"

inductive xl_reach :: "csr_file \<Rightarrow> (nat \<Rightarrow> u64 option) \<Rightarrow> u64 set \<Rightarrow> xlate \<Rightarrow> u64 option \<Rightarrow> bool" for c M U where
  start: "epoch_start s owed \<Longrightarrow> xl_reach c M U s owed"
| edge: "xl_reach c M U s owed \<Longrightarrow> (x_req_valid i \<and> req_needs_ptw i \<longrightarrow> x_satp i \<in> U) \<Longrightarrow> xl_answers M owed i s \<Longrightarrow>
     xl_reach c M U (xl_step c i s) (xl_owed c i s owed)"

text \<open>What a response means: the request's translation.\<close>

definition xl_request :: "xlate \<Rightarrow> xl_in" where
  "xl_request s = \<lparr>x_flush = False, x_tlb_flush = False, x_req_valid = True, x_req_va = pending_va s,
     x_req_priv_mode = pending_priv_mode s, x_req_access_type = pending_access_type s, x_req_sum = pending_sum s,
     x_req_mxr = pending_mxr s, x_satp = pending_satp s, x_rsp_ready = False, x_mem_ready = False,
     x_mem_rvalid = False, x_mem_error = False, x_mem_rdata = 0\<rparr>"

definition walk_request :: "xl_in \<Rightarrow> ptw_in" where
  "walk_request r = \<lparr>i_flush = False, i_start = True, i_va = x_req_va r, i_access_type = x_req_access_type r,
     i_priv_mode = x_req_priv_mode r, i_satp = x_satp r, i_sum = x_req_sum r, i_mxr = x_req_mxr r,
     i_mem_ready = False, i_mem_rvalid = False, i_mem_error = False, i_mem_rdata = 0\<rparr>"

definition xl_spec :: "(nat \<Rightarrow> u64 option) \<Rightarrow> xl_in \<Rightarrow> translation" where
  "xl_spec M r =
     (if fast_rsp_is_bare r then Translated (unat (x_req_va r)) 0 0
      else if fast_rsp_is_unsupported r then PageFault
      else sv39_translate M (walk_request r))"

definition stands_for :: "xl_in \<Rightarrow> translation \<Rightarrow> bool \<Rightarrow> u64 \<Rightarrow> u64 \<Rightarrow> bool" where
  "stands_for r t fault pa cause \<longleftrightarrow>
     (case t of
        Translated a p l \<Rightarrow> \<not> fault \<and> unat pa = a
      | PageFault \<Rightarrow> fault \<and> cause = page_fault_cause (x_req_access_type r)
      | AccessFault \<Rightarrow> fault \<and> cause = access_fault_cause (x_req_access_type r))"



section \<open>The walker inside the unit\<close>

text \<open>An answer that is only drained may be anything.\<close>

lemma drained_answer:
  "ptw_state s = DrainResp \<Longrightarrow> ptw_step i s = ptw_step (i\<lparr>i_mem_error := e, i_mem_rdata := d\<rparr>) s"
  by (simp add: ptw_step_def ptw_flush_def mem_fire_def)

lemma walker_step:
  assumes inv: "ptw_inv M s owed job" and rv: "i_mem_rvalid i \<Longrightarrow> owed \<noteq> None"
    and a: "i_mem_rvalid i \<Longrightarrow> ptw_state s = WaitResp \<Longrightarrow> answers M owed i"
  shows "ptw_inv M (ptw_step i s) (owed_after i s owed) (job_after i s job)"
proof (cases "ptw_state s = DrainResp")
  case True
  define x where "x = M (unat (the owed))"
  define i' where "i' = i\<lparr>i_mem_error := (x = None), i_mem_rdata := the x\<rparr>"
  have "answers M owed i'" using rv by (auto simp: answers_def i'_def x_def)
  then have "ptw_inv M (ptw_step i' s) (owed_after i' s owed) (job_after i' s job)" by (rule ptw_inv_step [OF inv])
  moreover have "ptw_step i' s = ptw_step i s" unfolding i'_def using drained_answer [OF True] by simp
  moreover have "owed_after i' s owed = owed_after i s owed" "job_after i' s job = job_after i s job"
    by (simp_all add: i'_def owed_after_def job_after_def mem_fire_def True)
  ultimately show ?thesis by simp
next
  case False
  have "answers M owed i"
  proof (cases "i_mem_rvalid i")
    case True
    then have "owed \<noteq> None" by (rule rv)
    with inv False have "ptw_state s = WaitResp" by (auto simp: ptw_inv_def split: ptw_state.splits)
    then show ?thesis by (rule a [OF True])
  qed (simp add: answers_def)
  then show ?thesis by (rule ptw_inv_step [OF inv])
qed

text \<open>The read the walker waits for: the memory's, or the one the PMP has just refused.\<close>

definition walker_owed :: "xlate \<Rightarrow> u64 option \<Rightarrow> u64 option" where
  "walker_owed s owed = (if ptw_pmp_fault_pending s then Some (pte_addr (walker s)) else owed)"

definition port_inv :: "csr_file \<Rightarrow> xlate \<Rightarrow> u64 option \<Rightarrow> bool" where
  "port_inv c s owed \<longleftrightarrow>
     (ptw_pmp_fault_pending s \<longrightarrow> owed = None \<and> ptw_state (walker s) = WaitResp \<and> \<not> ptw_mem_pmp_allow c s) \<and>
     (ptw_state (walker s) = WaitResp \<and> \<not> ptw_pmp_fault_pending s \<longrightarrow> ptw_mem_pmp_allow c s)"

lemma of_nat_unat_u64 [simp]: "(of_nat (unat (a :: u64)) :: u64) = a"
  by simp

lemma unit_walker_step:
  assumes inv: "ptw_inv (readable c M) (walker s) (walker_owed s owed) job" and port: "port_inv c s owed"
    and a: "xl_answers M owed i s"
  shows "ptw_inv (readable c M) (walker (xl_step c i s)) (walker_owed (xl_step c i s) (xl_owed c i s owed))
           (job_after (walker_in c i s) (walker s) job)"
    and "port_inv c (xl_step c i s) (xl_owed c i s owed)"
proof -
  let ?w = "walker s" and ?i = "walker_in c i s"
  have step: "ptw_inv (readable c M) (ptw_step ?i ?w) (owed_after ?i ?w (walker_owed s owed)) (job_after ?i ?w job)"
  proof (rule walker_step [OF inv])
    assume rv: "i_mem_rvalid ?i"
    then show "walker_owed s owed \<noteq> None"
      using a by (auto simp: walker_in_def walker_owed_def xl_answers_def split: option.splits)
    assume st: "ptw_state ?w = WaitResp"
    then have "walker_owed s owed = Some (pte_addr ?w)"
      using inv by (simp add: ptw_inv_def)
    then show "answers (readable c M) (walker_owed s owed) ?i"
      using a rv st port
      by (auto simp: answers_def walker_in_def walker_owed_def readable_def xl_answers_def port_inv_def
          ptw_mem_pmp_allow_def split: if_splits)
  qed
  have idle: "owed = None" "\<not> x_mem_rvalid i" "\<not> ptw_pmp_fault_pending s" if "ptw_state ?w = Req"
  proof -
    have "walker_owed s owed = None" using inv that by (simp add: ptw_inv_def)
    then show "owed = None" "\<not> ptw_pmp_fault_pending s" by (auto simp: walker_owed_def split: if_splits)
    then show "\<not> x_mem_rvalid i" using a by (auto simp: xl_answers_def)
  qed
  have w': "walker (xl_step c i s) = ptw_step ?i ?w"
    "ptw_pmp_fault_pending (xl_step c i s) = (\<not> x_flush i \<and> ptw_pmp_deny_fire c i s)"
    by (simp_all add: xl_step_def)
  have fired: "pte_addr (ptw_step ?i ?w) = pte_addr ?w" "ptw_state (ptw_step ?i ?w) = WaitResp"
    if "mem_fire ?i ?w" "\<not> x_flush i"
    using that by (simp_all add: ptw_step_def mem_fire_def walker_in_def pte_addr_def)
  have "owed_after ?i ?w (walker_owed s owed) = walker_owed (xl_step c i s) (xl_owed c i s owed)"
    using idle fired port
    by (auto simp: owed_after_def walker_owed_def xl_owed_def w' ptw_pmp_deny_fire_def ptw_mem_valid_def mem_fire_def
        walker_in_def ptw_mem_ready_to_ptw_def port_inv_def)
  with step show "ptw_inv (readable c M) (walker (xl_step c i s)) (walker_owed (xl_step c i s) (xl_owed c i s owed))
           (job_after ?i ?w job)"
    by (simp add: w'(1))
  have waits: "ptw_state (ptw_step ?i ?w) = WaitResp \<Longrightarrow>
      \<not> x_flush i \<and> (mem_fire ?i ?w \<or> ptw_state ?w = WaitResp \<and> \<not> i_mem_rvalid ?i) \<and> pte_addr (ptw_step ?i ?w) = pte_addr ?w"
    by (auto simp: ptw_step_def ptw_flush_def ptw_start_def ptw_check_def ptw_fault_def ptw_reset_def mem_fire_def
        walker_in_def pte_addr_def Let_def split: if_splits ptw_state.splits)
  have deny: "ptw_pmp_deny_fire c i s \<Longrightarrow> \<not> x_flush i \<and> mem_fire ?i ?w \<and> \<not> ptw_mem_pmp_allow c s"
    by (simp add: ptw_pmp_deny_fire_def ptw_mem_ready_to_ptw_def mem_fire_def walker_in_def)
  have allow': "ptw_mem_pmp_allow c (xl_step c i s) = ptw_mem_pmp_allow c s"
    if "ptw_state (ptw_step ?i ?w) = WaitResp"
    using waits [OF that] by (simp add: ptw_mem_pmp_allow_def w')
  have refused: "ptw_pmp_fault_pending (xl_step c i s) \<Longrightarrow> ptw_state (ptw_step ?i ?w) = WaitResp \<and>
      \<not> ptw_mem_pmp_allow c s \<and> xl_owed c i s owed = None"
    using deny fired(2) idle by (simp add: w'(2) xl_owed_def ptw_mem_valid_def mem_fire_def)
  have granted: "ptw_mem_pmp_allow c s"
    if st: "ptw_state (ptw_step ?i ?w) = WaitResp" and np: "\<not> ptw_pmp_fault_pending (xl_step c i s)"
  proof (cases "mem_fire ?i ?w")
    case True
    then show ?thesis using np waits [OF st]
      by (simp add: w'(2) ptw_pmp_deny_fire_def mem_fire_def walker_in_def)
  next
    case False
    then have "ptw_state ?w = WaitResp \<and> \<not> i_mem_rvalid ?i" using waits [OF st] by blast
    then show ?thesis using port by (simp add: port_inv_def walker_in_def)
  qed
  show "port_inv c (xl_step c i s) (xl_owed c i s owed)"
    unfolding port_inv_def w'(1) using refused granted allow' by blast
qed


section \<open>Answers\<close>

text \<open>A translation depends on six inputs of the walker only.\<close>

definition same_walk :: "ptw_in \<Rightarrow> ptw_in \<Rightarrow> bool" where
  "same_walk j k \<longleftrightarrow> i_va j = i_va k \<and> i_access_type j = i_access_type k \<and> i_priv_mode j = i_priv_mode k \<and>
     i_satp j = i_satp k \<and> i_sum j = i_sum k \<and> i_mxr j = i_mxr k"

lemma translate_cong: "same_walk j k \<Longrightarrow> sv39_translate M j = sv39_translate M k"
proof -
  assume s: "same_walk j k"
  have leaf: "leaf_translation j l p = leaf_translation k l p" for l p
    using s by (simp add: leaf_translation_def same_walk_def)
  have "sv39_walk M j lvl ppn = sv39_walk M k lvl ppn" for lvl ppn
  proof (induction lvl arbitrary: ppn)
    case 0
    show ?case using s leaf by (subst (1 2) sv39_walk.simps) (simp add: same_walk_def split: option.split)
  next
    case (Suc lvl)
    show ?case using s leaf Suc.IH by (subst (1 2) sv39_walk.simps) (simp add: same_walk_def split: option.split)
  qed
  then show ?thesis using s by (simp add: sv39_translate_def same_walk_def)
qed

lemma walk_request_fields [simp]:
  "i_va (walk_request r) = x_req_va r" "i_access_type (walk_request r) = x_req_access_type r"
  "i_satp (walk_request r) = x_satp r" "i_priv_mode (walk_request r) = x_req_priv_mode r"
  "i_sum (walk_request r) = x_req_sum r" "i_mxr (walk_request r) = x_req_mxr r"
  by (simp_all add: walk_request_def)

lemma fast_answer:
  assumes "fast_rsp_valid i s" and "sound_tlb R U (translation_tlb s)" and "asid_discipline R U"
    and "req_needs_ptw i \<longrightarrow> x_satp i \<in> U" and "is_sv39_canonical (x_req_va i) \<or> \<not> req_needs_ptw i"
  shows "stands_for i (xl_spec R i) (fast_rsp_fault i s) (fast_rsp_pa i s) (fast_rsp_fault_cause i s)"
proof (cases "req_needs_ptw i")
  case False
  then show ?thesis
    by (auto simp: stands_for_def xl_spec_def fast_rsp_fault_def fast_rsp_pa_def fast_rsp_fault_cause_def
        fast_tlb_fault_def fast_rsp_is_unsupported_def fast_rsp_is_bare_def req_needs_ptw_def)
next
  case True
  then have sup: "\<not> fast_rsp_is_bare i" "\<not> fast_rsp_is_unsupported i"
    by (auto simp: req_needs_ptw_def fast_rsp_is_bare_def fast_rsp_is_unsupported_def)
  with assms(1) obtain e where e: "tlb_hit i s = Some e"
    by (auto simp: fast_rsp_valid_def fast_rsp_is_tlb_hit_def)
  then have "tlb_find (translation_tlb s) (x_req_va i) (x_satp i) = Some e"
    by (simp add: tlb_hit_def split: if_splits)
  note snd = tlb_find_sound [OF assms(2) this]
  have "if \<not> tlb_fault i e
    then \<exists>p l. sv39_translate R (walk_request i) = Translated (unat (translated_pa e (x_req_va i))) p l
    else sv39_translate R (walk_request i) = PageFault"
    using hit_answers [of R U e "walk_request i"] snd assms(3-5) True
    unfolding tlb_fault_def walk_request_fields not_not by blast
  then show ?thesis
    using sup True e
    by (auto simp: stands_for_def xl_spec_def fast_rsp_fault_def fast_rsp_pa_def fast_rsp_fault_cause_def
        fast_tlb_fault_def split: if_splits)
qed


section \<open>The invariant of the unit\<close>

definition answered :: "(nat \<Rightarrow> u64 option) \<Rightarrow> xlate \<Rightarrow> bool" where
  "answered R s \<longleftrightarrow> xr_fault_value s = pending_va s \<and>
     (is_sv39_canonical (pending_va s) \<or> \<not> req_needs_ptw (xl_request s) \<or> ptw_started s \<longrightarrow>
        stands_for (xl_request s) (xl_spec R (xl_request s)) (xr_fault s) (xr_pa s) (xr_fault_cause s))"

definition control_inv :: "(nat \<Rightarrow> u64 option) \<Rightarrow> u64 set \<Rightarrow> xlate \<Rightarrow> ptw_in option \<Rightarrow> bool" where
  "control_inv R U s job \<longleftrightarrow>
     (case xl_state s of
        XIdle \<Rightarrow> job = None
      | PtwWait \<Rightarrow> req_needs_ptw (xl_request s) \<and> pending_satp s \<in> U \<and> xr_fault_value s = pending_va s \<and>
          (if ptw_started s then \<exists>j. job = Some j \<and> same_walk j (walk_request (xl_request s)) else job = None)
      | Refill \<Rightarrow> job = None \<and> answered R s \<and> pending_satp s \<in> U \<and>
          leaf_of R (pending_satp s) (pending_va s) = Some (refill_leaf_pte s, refill_leaf_level s) \<and>
          pte_ppn (refill_leaf_pte s) mod 512 ^ refill_leaf_level s = 0 \<and> refill_leaf_level s \<le> 2
      | Response \<Rightarrow> job = None \<and> answered R s)"

lemma control_frame [simp]:
  "control_inv R U (s\<lparr>translation_tlb := t, walker := w, ptw_pmp_fault_pending := f\<rparr>) job = control_inv R U s job"
  by (simp add: control_inv_def answered_def xl_request_def split: xl_state.split)

lemma accept_control:
  assumes "sound_tlb R U (translation_tlb s)" and "asid_discipline R U"
    and "x_req_valid i \<and> req_needs_ptw i \<longrightarrow> x_satp i \<in> U" and "x_req_valid i" and "req_ready i s"
  shows "control_inv R U (accept_request i s) None"
proof (cases "fast_rsp_valid i s")
  case True
  have spec: "xl_spec R (xl_request (accept_request i s)) = xl_spec R i"
    "x_req_access_type (xl_request (accept_request i s)) = x_req_access_type i"
    "req_needs_ptw (xl_request (accept_request i s)) = req_needs_ptw i"
    by (simp_all add: xl_spec_def xl_request_def accept_request_def walk_request_def fast_rsp_is_bare_def
        fast_rsp_is_unsupported_def req_needs_ptw_def Let_def)
  have out: "xr_fault (accept_request i s) = fast_rsp_fault i s" "xr_pa (accept_request i s) = fast_rsp_pa i s"
    "xr_fault_cause (accept_request i s) = fast_rsp_fault_cause i s"
    "xr_fault_value (accept_request i s) = x_req_va i" "pending_va (accept_request i s) = x_req_va i"
    "ptw_started (accept_request i s) = False"
    using True by (simp_all add: accept_request_def Let_def)
  have "answered R (accept_request i s)"
    using fast_answer [OF True assms(1,2)] assms(3,4) unfolding answered_def stands_for_def spec out by blast
  moreover have "xl_state (accept_request i s) = (if x_rsp_ready i then XIdle else Response)"
    using True by (simp add: accept_request_def Let_def)
  ultimately show ?thesis by (simp add: control_inv_def)
next
  case False
  then have "req_needs_ptw i"
    using assms(4,5) by (auto simp: fast_rsp_valid_def req_ready_def fast_rsp_is_bare_def fast_rsp_is_unsupported_def
        req_needs_ptw_def)
  then show ?thesis using False assms(3,4)
    by (simp add: control_inv_def accept_request_def xl_request_def req_needs_ptw_def Let_def)
qed

text \<open>The walk that has ended is the answer to the pending request.\<close>

lemma walk_done:
  assumes "control_inv R U s job" and "xl_state s = PtwWait" and "ptw_inv R (walker s) owed job"
    and "ptw_state (walker s) = Done"
  shows "control_inv R U (await_walk s) None"
proof -
  let ?w = "walker s" and ?r = "xl_request s"
  from assms obtain j where j: "job = Some j" "request_of j ?w" "outputs j (sv39_translate R j) ?w"
    by (auto simp: ptw_inv_def)
  from assms(1,2) j(1) have c: "ptw_started s" "same_walk j (walk_request ?r)" "pending_satp s \<in> U"
      "req_needs_ptw ?r"
    by (auto simp: control_inv_def split: if_splits)
  have spec: "xl_spec R ?r = sv39_translate R j"
    using c(4) translate_cong [OF c(2), of R]
    by (auto simp: xl_spec_def fast_rsp_is_bare_def fast_rsp_is_unsupported_def req_needs_ptw_def)
  have j': "i_va j = pending_va s" "i_access_type j = pending_access_type s" "i_satp j = pending_satp s"
    using c(2) by (simp_all add: same_walk_def xl_request_def)
  have va: "req_va ?w = pending_va s" using j(2) j' by (simp add: request_of_def)
  have s': "xl_request (await_walk s) = ?r" "xl_state (await_walk s) = (if result_fault ?w then Response else Refill)"
    "xr_fault (await_walk s) = result_fault ?w" "xr_pa (await_walk s) = result_pa ?w"
    "xr_fault_cause (await_walk s) = result_fault_cause ?w" "xr_fault_value (await_walk s) = req_va ?w"
    "pending_va (await_walk s) = pending_va s" "pending_satp (await_walk s) = pending_satp s"
    "refill_leaf_pte (await_walk s) = result_leaf_pte ?w" "refill_leaf_level (await_walk s) = result_leaf_level ?w"
    using assms(4) by (simp_all add: await_walk_def xl_request_def ptw_start_now_def Let_def)
  have "answered R (await_walk s)"
    unfolding answered_def s' spec va using j(3) j'
    by (simp add: outputs_def stands_for_def xl_request_def split: translation.splits)
  moreover have "leaf_of R (pending_satp s) (pending_va s) = Some (result_leaf_pte ?w, result_leaf_level ?w) \<and>
      pte_ppn (result_leaf_pte ?w) mod 512 ^ result_leaf_level ?w = 0 \<and> result_leaf_level ?w \<le> 2"
    if nf: "\<not> result_fault ?w"
  proof -
    obtain a p l where t: "sv39_translate R j = Translated a p l"
      using j(3) nf by (auto simp: outputs_def split: translation.splits)
    with j(3) have "result_leaf_pte ?w = p" "result_leaf_level ?w = l" by (simp_all add: outputs_def)
    then show ?thesis using leaf_translate [OF t] j' by simp
  qed
  ultimately show ?thesis using c(3) by (simp add: control_inv_def s')
qed

lemma control_step:
  assumes inv: "control_inv R U s job" and w: "ptw_inv R (walker s) owed job"
    and t: "sound_tlb R U (translation_tlb s)" and d: "asid_discipline R U"
    and r: "x_req_valid i \<and> req_needs_ptw i \<longrightarrow> x_satp i \<in> U"
  shows "control_inv R U (xl_control i s) (job_after (walker_in c i s) (walker s) job)"
proof (cases "x_flush i")
  case True
  then show ?thesis by (simp add: control_inv_def xl_control_def xlate_clear_def job_after_def walker_in_def)
next
  case nf: False
  have calm: "ptw_state (walker s) = Idle \<or> ptw_state (walker s) = DrainResp" if "job = None"
    using w that by (auto simp: ptw_inv_def split: ptw_state.splits)
  note job = job_after_def walker_in_def ptw_start_now_def
  show ?thesis
  proof (cases "xl_state s")
    case XIdle
    then have "job_after (walker_in c i s) (walker s) job = None"
      using inv nf calm by (auto simp: job control_inv_def)
    then show ?thesis using XIdle nf inv accept_control [OF t d r]
      by (auto simp: xl_control_def control_inv_def)
  next
    case PtwWait
    show ?thesis
    proof (cases "ptw_state (walker s) = Done")
      case True
      then show ?thesis using walk_done [OF inv PtwWait w] PtwWait nf by (simp add: xl_control_def job)
    next
      case False
      then show ?thesis using inv PtwWait nf calm w
        by (auto simp: xl_control_def await_walk_def job control_inv_def xl_request_def walk_request_def same_walk_def
            ptw_inv_def Let_def)
    qed
  next
    case Refill
    then show ?thesis using inv nf calm
      by (auto simp: xl_control_def control_inv_def answered_def xl_request_def job)
  next
    case Response
    then show ?thesis using inv nf calm
      by (auto simp: xl_control_def control_inv_def answered_def xl_request_def job)
  qed
qed

definition xl_inv :: "csr_file \<Rightarrow> (nat \<Rightarrow> u64 option) \<Rightarrow> u64 set \<Rightarrow> xlate \<Rightarrow> u64 option \<Rightarrow> bool" where
  "xl_inv c M U s owed \<longleftrightarrow>
     sound_tlb (readable c M) U (translation_tlb s) \<and> port_inv c s owed \<and>
     (\<exists>job. ptw_inv (readable c M) (walker s) (walker_owed s owed) job \<and> control_inv (readable c M) U s job)"

lemma tlb_step:
  assumes "sound_tlb R U (translation_tlb s)" and "control_inv R U s job"
  shows "sound_tlb R U (tlb_edge i s)"
proof -
  have "length (entries (translation_tlb s)) = ENTRY_COUNT" using assms(1) by (simp add: sound_tlb_def)
  then show ?thesis
    using assms sound_flush [of "translation_tlb s" R U]
    by (auto simp: tlb_edge_def control_inv_def intro: sound_refill)
qed

lemma reach_xl_inv:
  assumes "asid_discipline (readable c M) U"
  shows "xl_reach c M U s owed \<Longrightarrow> xl_inv c M U s owed"
proof (induction rule: xl_reach.induct)
  case (start s owed)
  then have "ptw_inv (readable c M) (walker s) owed None" "\<not> ptw_pmp_fault_pending s"
    by (auto simp: epoch_start_def ptw_inv_def split: if_splits)
  moreover have "sound_tlb (readable c M) U (translation_tlb s)"
    using start by (auto simp: epoch_start_def sound_tlb_def sound_entry_def list_all_iff)
  moreover have "control_inv (readable c M) U s None" "port_inv c s owed"
    using start by (auto simp: epoch_start_def control_inv_def port_inv_def split: if_splits)
  ultimately show ?case unfolding xl_inv_def by (auto simp: walker_owed_def)
next
  case (edge s owed i)
  then obtain job where inv: "sound_tlb (readable c M) U (translation_tlb s)" "port_inv c s owed"
      "ptw_inv (readable c M) (walker s) (walker_owed s owed) job" "control_inv (readable c M) U s job"
    by (auto simp: xl_inv_def)
  note w = unit_walker_step [OF inv(3,2) edge.hyps(3)]
  have "control_inv (readable c M) U (xl_step c i s) (job_after (walker_in c i s) (walker s) job)"
    unfolding xl_step_def control_frame by (rule control_step [OF inv(4,3,1) assms edge.hyps(2)])
  moreover have "sound_tlb (readable c M) U (translation_tlb (xl_step c i s))"
    using tlb_step [OF inv(1,4)] by (simp add: xl_step_def)
  ultimately show ?case using w by (auto simp: xl_inv_def)
qed


section \<open>Progress\<close>

text \<open>What the walker sees of a run of the unit.\<close>

fun walker_ins :: "csr_file \<Rightarrow> xl_in list \<Rightarrow> xlate \<Rightarrow> ptw_in list" where
  "walker_ins c [] s = []"
| "walker_ins c (i # is) s = walker_in c i s # walker_ins c is (xl_step c i s)"

definition at_walk :: "xlate \<Rightarrow> bool" where
  "at_walk s \<longleftrightarrow> xl_state s = PtwWait \<and> ptw_started s \<and> busy (walker s)"

lemma at_walk_step:
  assumes "at_walk s" and "\<not> x_flush i"
  shows "xl_state (xl_step c i s) = PtwWait \<and> ptw_started (xl_step c i s)"
  using assms by (auto simp: at_walk_def busy_def xl_step_def xl_control_def await_walk_def ptw_start_now_def Let_def)

lemma walk_ends_in_unit:
  "at_walk s \<Longrightarrow> \<forall>i \<in> set is. \<not> x_flush i \<Longrightarrow> work (walker s) \<le> progress (walker_ins c is s) (walker s) \<Longrightarrow>
   \<exists>k \<le> length is. xl_state (xl_run c (take k is) s) = PtwWait \<and> ptw_state (walker (xl_run c (take k is) s)) = Done"
proof (induction "is" arbitrary: s)
  case Nil
  then show ?case by (auto simp: at_walk_def busy_def work_def)
next
  case (Cons i "is")
  have nf: "\<not> i_flush (walker_in c i s)" using Cons.prems(2) by (simp add: walker_in_def)
  have w: "walker (xl_step c i s) = ptw_step (walker_in c i s) (walker s)" by (simp add: xl_step_def)
  note b = busy_step [OF _ nf, of "walker s", folded w] and st = at_walk_step [OF Cons.prems(1), of i c]
  show ?case
  proof (cases "busy (walker (xl_step c i s))")
    case True
    then have "at_walk (xl_step c i s)" using st Cons.prems(2) by (simp add: at_walk_def)
    moreover have "work (walker (xl_step c i s)) \<le> progress (walker_ins c is (xl_step c i s)) (walker (xl_step c i s))"
      using b Cons.prems(1,3) by (simp add: at_walk_def w split: if_splits)
    ultimately obtain k where "k \<le> length is" "xl_state (xl_run c (take k is) (xl_step c i s)) = PtwWait"
        "ptw_state (walker (xl_run c (take k is) (xl_step c i s))) = Done"
      using Cons.IH [of "xl_step c i s"] Cons.prems(2) by auto
    then show ?thesis by (intro exI [of _ "Suc k"]) simp
  next
    case False
    then show ?thesis using b Cons.prems(1,2) st by (intro exI [of _ 1]) (simp add: at_walk_def)
  qed
qed

lemma done_responds:
  assumes "xl_state s = PtwWait" and "ptw_state (walker s) = Done" and "\<not> x_flush i" and "\<not> x_flush i'"
  shows "xl_state (xl_step c i s) = Response \<or> xl_state (xl_step c i' (xl_step c i s)) = Response"
  using assms by (simp add: xl_step_def xl_control_def await_walk_def Let_def)

lemma next_two:
  "k \<le> length es \<Longrightarrow> \<exists>a b. a \<in> set (es @ [y, z]) \<and> b \<in> set (es @ [y, z]) \<and>
     take (Suc k) (es @ [y, z]) = take k es @ [a] \<and> take (Suc (Suc k)) (es @ [y, z]) = take k es @ [a, b]"
proof (induction es arbitrary: k)
  case (Cons e es)
  show ?case
  proof (cases k)
    case 0
    then show ?thesis by (cases es) auto
  next
    case (Suc n)
    then show ?thesis using Cons.IH [of n] Cons.prems by auto
  qed
qed simp

lemma needs_walk: "req_needs_ptw i \<or> fast_rsp_is_bare i \<or> fast_rsp_is_unsupported i"
  unfolding req_needs_ptw_def fast_rsp_is_bare_def fast_rsp_is_unsupported_def by blast

lemma accept_walk:
  assumes "xl_state s = XIdle" and "x_req_valid i" and "req_ready i s" and "\<not> fast_rsp_valid i s" and "\<not> x_flush i"
    and "ptw_state (walker s) = Idle"
  shows "xl_state (xl_step c i s) = PtwWait \<and> \<not> ptw_started (xl_step c i s) \<and> ptw_state (walker (xl_step c i s)) = Idle"
proof -
  have "xl_control i s = accept_request i s" using assms by (simp add: xl_control_def)
  moreover have "ptw_step (walker_in c i s) (walker s) = walker s"
    using assms by (simp add: ptw_step_def walker_in_def ptw_start_now_def)
  ultimately show ?thesis using assms(4,6) by (simp add: xl_step_def accept_request_def Let_def)
qed

lemma start_work: "busy (ptw_start i w) \<Longrightarrow> work (ptw_start i w) = 9"
  and start_done: "\<not> busy (ptw_start i w) \<Longrightarrow> ptw_state (ptw_start i w) = Done"
  by (auto simp: ptw_start_def busy_def work_def Let_def split: if_splits)

lemma start_walk:
  assumes "xl_state s = PtwWait" and "\<not> ptw_started s" and "ptw_state (walker s) = Idle" and "\<not> x_flush i"
  shows "xl_state (xl_step c i s) = PtwWait \<and> ptw_started (xl_step c i s) \<and>
    walker (xl_step c i s) = ptw_start (walker_in c i s) (walker s)"
  using assms
  by (simp add: xl_step_def xl_control_def await_walk_def ptw_start_now_def ptw_step_def walker_in_def Let_def)

lemma xl_run_append: "xl_run c (xs @ ys) s = xl_run c ys (xl_run c xs s)"
  by (induction xs arbitrary: s) simp_all


section \<open>Properties\<close>

text \<open>
  C9. Caching is invisible. In every state the unit can reach after its tables were set up and it
  was flushed, whatever requests, stalls, refused reads, flushes and held responses came in between,
  a response carries exactly what the Sv39 algorithm computes from the tables the PMP lets it read
  (and the address itself where translation is off): the physical address, or the fault with its
  cause. This covers every request whose address is canonical or that is not translated, hits,
  misses and refills included, and every request a walk has answered, whatever its address
  (\<open>ptw_started\<close> is set from the start of its walk until the next request is taken); what a hit answers
  for a non-canonical address is C31. The tables and the PMP registers stay as they are from
  one flush to the next (\<open>xl_reach\<close>), and software keeps one root table per address-space number and
  maps global pages alike everywhere (\<open>asid_discipline\<close>).
\<close>
theorem translation_transparent:
  assumes "xl_reach c M U s owed" and "asid_discipline (readable c M) U"
    and "x_req_valid i \<and> req_needs_ptw i \<longrightarrow> x_satp i \<in> U" and "rsp_valid i s"
  shows "let r = (if fast_rsp_valid i s then i else xl_request s)
    in rsp_fault_value i s = x_req_va r \<and>
       (is_sv39_canonical (x_req_va r) \<or> \<not> req_needs_ptw r \<or> (\<not> fast_rsp_valid i s \<and> ptw_started s) \<longrightarrow>
          stands_for r (xl_spec (readable c M) r) (rsp_fault i s) (rsp_pa i s) (rsp_fault_cause i s))"
proof -
  from reach_xl_inv [OF assms(2,1)] have inv: "sound_tlb (readable c M) U (translation_tlb s)"
      "\<exists>job. control_inv (readable c M) U s job"
    by (auto simp: xl_inv_def)
  show ?thesis
  proof (cases "fast_rsp_valid i s")
    case True
    then have "x_req_valid i" by (simp add: fast_rsp_valid_def)
    then have "req_needs_ptw i \<longrightarrow> x_satp i \<in> U" using assms(3) by simp
    from fast_answer [OF True inv(1) assms(2) this] True show ?thesis
      by (simp add: rsp_fault_def rsp_pa_def rsp_fault_cause_def rsp_fault_value_def)
  next
    case False
    then have "answered (readable c M) s" using inv(2) assms(4) by (auto simp: rsp_valid_def control_inv_def)
    with False show ?thesis
      by (auto simp: answered_def rsp_fault_def rsp_pa_def rsp_fault_cause_def rsp_fault_value_def xl_request_def)
  qed
qed

text \<open>
  C25. A request that is not answered at once is answered: unless a flush comes, the response is
  there by the time the walker has had nine edges on which the memory did not make it wait, after
  two edges to take the request and start the walk and before two for refill and response.
\<close>
theorem translation_answers:
  assumes "xl_state s = XIdle" and "x_req_valid i" and "req_ready i s" and "\<not> fast_rsp_valid i s"
    and "\<forall>e \<in> set ([i, i1] @ es @ [e1, e2]). \<not> x_flush e"
    and "9 \<le> progress (walker_ins c es (xl_run c [i, i1] s)) (walker (xl_run c [i, i1] s))"
  shows "\<exists>k \<le> length es + 4. xl_state (xl_run c (take k ([i, i1] @ es @ [e1, e2])) s) = Response"
proof -
  let ?s1 = "xl_step c i s" and ?s2 = "xl_run c [i, i1] s"
  have nf: "\<not> x_flush i" "\<not> x_flush i1" using assms(5) by simp_all
  have idle: "ptw_state (walker s) = Idle"
    using assms(1-4) needs_walk [of i] unfolding req_ready_def fast_rsp_valid_def fast_rsp_is_tlb_hit_def by satx
  have s1: "xl_state ?s1 = PtwWait" "\<not> ptw_started ?s1" "ptw_state (walker ?s1) = Idle"
    using accept_walk [OF assms(1-4) nf(1) idle, of c] by blast+
  have s2: "xl_state ?s2 = PtwWait" "ptw_started ?s2" "walker ?s2 = ptw_start (walker_in c i1 ?s1) (walker ?s1)"
    using start_walk [OF s1 nf(2), of c] by (simp_all only: xl_run.simps)
  have ends: "\<exists>k \<le> length es. xl_state (xl_run c (take k es) ?s2) = PtwWait \<and>
      ptw_state (walker (xl_run c (take k es) ?s2)) = Done"
  proof (cases "busy (walker ?s2)")
    case True
    then have w: "work (walker ?s2) = 9" unfolding s2(3) by (rule start_work)
    have "at_walk ?s2" using True s2(1,2) unfolding at_walk_def by (intro conjI)
    moreover have "\<forall>e \<in> set es. \<not> x_flush e" using assms(5) by simp
    ultimately show ?thesis by (rule walk_ends_in_unit) (unfold w, rule assms(6))
  next
    case False
    then have "ptw_state (walker ?s2) = Done" unfolding s2(3) by (rule start_done)
    with s2(1) show ?thesis by (intro exI [of _ 0] conjI) (simp_all only: take_0 xl_run.simps le0)
  qed
  then obtain k where k: "k \<le> length es" "xl_state (xl_run c (take k es) ?s2) = PtwWait"
      "ptw_state (walker (xl_run c (take k es) ?s2)) = Done" by blast
  obtain a b where ab: "a \<in> set (es @ [e1, e2])" "b \<in> set (es @ [e1, e2])"
      "take (Suc k) (es @ [e1, e2]) = take k es @ [a]" "take (Suc (Suc k)) (es @ [e1, e2]) = take k es @ [a, b]"
    using next_two [OF k(1)] by metis
  have nf': "\<not> x_flush a" "\<not> x_flush b" using assms(5) ab(1,2) by auto
  have t: "take (k + 2 + 1) ([i, i1] @ es @ [e1, e2]) = [i, i1] @ take k es @ [a]"
    "take (k + 2 + 2) ([i, i1] @ es @ [e1, e2]) = [i, i1] @ take k es @ [a, b]"
    using ab(3,4) by simp_all
  have "xl_state (xl_run c (take (k + 2 + 1) ([i, i1] @ es @ [e1, e2])) s) = Response \<or>
        xl_state (xl_run c (take (k + 2 + 2) ([i, i1] @ es @ [e1, e2])) s) = Response"
    using done_responds [OF k(2,3) nf', of c] unfolding t xl_run_append [of c "[i, i1]"] xl_run_append [of c "take k es"]
    by (simp only: xl_run.simps)
  moreover have "k + 2 + 1 \<le> length es + 4" "k + 2 + 2 \<le> length es + 4" using k(1) by simp_all
  ultimately show ?thesis by blast
qed


section \<open>A run\<close>

lemma reset_epoch: "epoch_start xlate_reset None"
  by code_simp

text \<open>
  The tables of the walker's demo, all memory open to supervisor reads: a load through the 1 GiB
  page misses, is walked, refilled and answered.
\<close>

definition demo_open :: csr_file where
  "demo_open = csr_reset\<lparr>pmpcfg0 := 0x1f, pmpaddr := (\<lambda>_. 0)(0 := PMPADDR_WMASK)\<rparr>"

definition demo_satp :: u64 where "demo_satp = 0x8000000000080000"

definition demo_load :: xl_in where
  "demo_load = \<lparr>x_flush = False, x_tlb_flush = False, x_req_valid = True, x_req_va = 0x40001234,
     x_req_priv_mode = PRIV_S, x_req_access_type = PMP_ACCESS_READ, x_req_sum = False, x_req_mxr = False,
     x_satp = demo_satp, x_rsp_ready = True, x_mem_ready = True, x_mem_rvalid = False, x_mem_error = False,
     x_mem_rdata = 0\<rparr>"

definition demo_wait :: xlate where
  "demo_wait = xlate_reset\<lparr>xl_state := PtwWait, pending_va := 0x40001234, pending_priv_mode := PRIV_S,
     pending_satp := demo_satp, xr_fault_value := 0x40001234\<rparr>"

definition demo_walker :: ptw where
  "demo_walker = ptw_reset\<lparr>ptw_state := Req, req_va := 0x40001234, req_priv_mode := PRIV_S, base_ppn := 0x80000,
     result_fault_cause := 13\<rparr>"

definition demo_ended :: ptw where
  "demo_ended = demo_walker\<lparr>ptw_state := Done, pte := 0x100000cf, result_pa := 0x40001234, result_leaf_valid := True,
     result_leaf_pte := 0x100000cf, result_leaf_level := 2\<rparr>"

definition demo_refill :: xlate where
  "demo_refill = demo_wait\<lparr>xl_state := Refill, ptw_started := True, xr_pa := 0x40001234, xr_fault_cause := 13,
     refill_pa := 0x40001234, refill_leaf_pte := 0x100000cf, refill_leaf_level := 2, refill_leaf_valid := True,
     walker := demo_ended\<lparr>ptw_state := Idle\<rparr>\<rparr>"

definition demo_response :: xlate where
  "demo_response = demo_refill\<lparr>xl_state := Response,
     translation_tlb := tlb_refill 0x40001234 demo_satp 0x100000cf 2 tlb_reset\<rparr>"

lemmas demo_evs = demo_wait_def demo_walker_def demo_ended_def demo_refill_def demo_response_def

lemma demo_steps:
  "xl_step demo_open demo_load xlate_reset = demo_wait"
  "xl_step demo_open demo_load demo_wait = demo_wait\<lparr>ptw_started := True, walker := demo_walker\<rparr>"
  "xl_step demo_open demo_load (demo_wait\<lparr>ptw_started := True, walker := demo_walker\<rparr>) =
     demo_wait\<lparr>ptw_started := True, walker := demo_walker\<lparr>ptw_state := WaitResp, mem_outstanding := True\<rparr>\<rparr>"
  "xl_step demo_open (demo_load\<lparr>x_mem_rvalid := True, x_mem_rdata := 0x100000cf\<rparr>)
       (demo_wait\<lparr>ptw_started := True, walker := demo_walker\<lparr>ptw_state := WaitResp, mem_outstanding := True\<rparr>\<rparr>) =
     demo_wait\<lparr>ptw_started := True, walker := demo_walker\<lparr>ptw_state := Check, pte := 0x100000cf\<rparr>\<rparr>"
  "xl_step demo_open demo_load (demo_wait\<lparr>ptw_started := True, walker := demo_walker\<lparr>ptw_state := Check, pte := 0x100000cf\<rparr>\<rparr>) =
     demo_wait\<lparr>ptw_started := True, walker := demo_ended\<rparr>"
  "xl_step demo_open demo_load (demo_wait\<lparr>ptw_started := True, walker := demo_ended\<rparr>) = demo_refill"
  "xl_step demo_open demo_load demo_refill = demo_response"
  "xl_step demo_open demo_load demo_response = demo_response\<lparr>xl_state := XIdle\<rparr>"
  by code_simp+

lemma reach_to:
  "xl_reach c M {stp} s owed \<Longrightarrow> (x_req_valid i \<and> req_needs_ptw i \<longrightarrow> x_satp i = stp) \<Longrightarrow> xl_answers M owed i s \<Longrightarrow>
   xl_step c i s = t \<Longrightarrow> xl_owed c i s owed = owed' \<Longrightarrow> xl_reach c M {stp} t owed'"
  using xl_reach.edge [of c M "{stp}" s owed i] by simp

lemma demo_reach:
  "xl_reach demo_open demo_pages {demo_satp} demo_response None"
  "xl_reach demo_open demo_pages {demo_satp} (demo_response\<lparr>xl_state := XIdle\<rparr>) None"
proof -
  have satp: "x_req_valid demo_load \<and> req_needs_ptw demo_load \<longrightarrow> x_satp demo_load = demo_satp"
    "x_satp (demo_load\<lparr>x_mem_rvalid := True, x_mem_rdata := 0x100000cf\<rparr>) = demo_satp"
    by (simp_all add: demo_load_def)
  have quiet: "xl_answers demo_pages owed demo_load s" for owed s
    by (simp add: xl_answers_def demo_load_def)
  note step = reach_to [OF _ satp(1) quiet]
  have 1: "xl_reach demo_open demo_pages {demo_satp} demo_wait None"
    by (rule step [OF xl_reach.start [OF reset_epoch] demo_steps(1)]) code_simp
  have 2: "xl_reach demo_open demo_pages {demo_satp} (demo_wait\<lparr>ptw_started := True, walker := demo_walker\<rparr>) None"
    by (rule step [OF 1 demo_steps(2)]) code_simp
  have 3: "xl_reach demo_open demo_pages {demo_satp}
      (demo_wait\<lparr>ptw_started := True, walker := demo_walker\<lparr>ptw_state := WaitResp, mem_outstanding := True\<rparr>\<rparr>) (Some 0x80000008)"
    by (rule step [OF 2 demo_steps(3)]) code_simp
  have 4: "xl_reach demo_open demo_pages {demo_satp}
      (demo_wait\<lparr>ptw_started := True, walker := demo_walker\<lparr>ptw_state := Check, pte := 0x100000cf\<rparr>\<rparr>) None"
  proof (rule reach_to [OF 3 _ _ demo_steps(4)])
    show "xl_answers demo_pages (Some 0x80000008) (demo_load\<lparr>x_mem_rvalid := True, x_mem_rdata := 0x100000cf\<rparr>)
        (demo_wait\<lparr>ptw_started := True, walker := demo_walker\<lparr>ptw_state := WaitResp, mem_outstanding := True\<rparr>\<rparr>)"
      by (simp add: xl_answers_def demo_load_def demo_pages_def)
  qed code_simp+
  have 5: "xl_reach demo_open demo_pages {demo_satp} (demo_wait\<lparr>ptw_started := True, walker := demo_ended\<rparr>) None"
    by (rule step [OF 4 demo_steps(5)]) code_simp
  have 6: "xl_reach demo_open demo_pages {demo_satp} demo_refill None"
    by (rule step [OF 5 demo_steps(6)]) code_simp
  show 7: "xl_reach demo_open demo_pages {demo_satp} demo_response None"
    by (rule step [OF 6 demo_steps(7)]) code_simp
  show "xl_reach demo_open demo_pages {demo_satp} (demo_response\<lparr>xl_state := XIdle\<rparr>) None"
    by (rule step [OF 7 demo_steps(8)]) code_simp
qed

lemma demo_discipline: "asid_discipline M {stp}"
  by (simp add: asid_discipline_def)

lemma demo_readable: "readable demo_open demo_pages 0x80000008 = Some 0x100000cf"
proof -
  have "pmp_allow PRIV_S demo_open 0x80000008 8 PMP_ACCESS_READ" by code_simp
  then show ?thesis by (simp add: readable_def demo_pages_def)
qed

lemma demo_spec:
  "xl_spec (readable demo_open demo_pages) (demo_load\<lparr>x_req_valid := v, x_rsp_ready := r, x_mem_ready := g\<rparr>) =
     Translated 0x40001234 0x100000cf 2"
  by (simp add: xl_spec_def fast_rsp_is_bare_def fast_rsp_is_unsupported_def demo_load_def demo_satp_def bits_def
      walk_request_def sv39_translate_def sv39_walk.simps demo_readable leaf_translation_def may_access_def pte_ppn_def)

text \<open>The address a response carries for the demo is the page's.\<close>

theorem translation_transparent_witness:
  "xl_spec (readable demo_open demo_pages) (xl_request demo_response) = Translated 0x40001234 0x100000cf 2 \<and>
   rsp_pa demo_load demo_response = 0x40001234 \<and> \<not> rsp_fault demo_load demo_response"
proof -
  have v: "rsp_valid demo_load demo_response" "\<not> fast_rsp_valid demo_load demo_response"
    "x_req_valid demo_load \<and> req_needs_ptw demo_load \<longrightarrow> x_satp demo_load \<in> {demo_satp}"
    "is_sv39_canonical (x_req_va (xl_request demo_response))"
    by code_simp+
  moreover have "xl_spec (readable demo_open demo_pages) (xl_request demo_response) = Translated 0x40001234 0x100000cf 2"
    using demo_spec [where v = True and r = False and g = False] by (simp add: demo_evs xl_request_def demo_load_def xlate_reset_def)
  ultimately show ?thesis
    using translation_transparent [OF demo_reach(1) demo_discipline v(3,1)]
    by (simp add: stands_for_def word_unat_eq_iff Let_def)
qed

text \<open>The address a hit sees: bits 38..0, sign-extended. A hit cannot tell the two apart.\<close>

definition sign_extended :: "u64 \<Rightarrow> u64" where
  "sign_extended va = (if bit va 38 then va OR NOT (mask 39) else va AND mask 39)"

lemma bit_sign_extended: "n < 39 \<Longrightarrow> bit (sign_extended va) n = bit va n"
  by (auto simp: sign_extended_def bit_simps)

lemma sign_extended_canonical: "is_sv39_canonical (sign_extended va)"
proof -
  have b: "bit (sign_extended va) (39 + n) = bit va 38" if "n < 25" for n
    using that by (auto simp: sign_extended_def bit_simps)
  show ?thesis
    unfolding is_sv39_canonical_def
    by (rule bit_word_eqI) (auto simp: word_slices bit_mask_iff bit_sign_extended b)
qed

lemma bits_sign_extended: "hi < 39 \<Longrightarrow> bits hi lo (sign_extended va) = bits hi lo va"
  by (rule bit_word_eqI) (auto simp: word_slices bit_sign_extended)

lemma hit_sign_extended:
  "fast_rsp_valid (i\<lparr>x_req_va := sign_extended (x_req_va i)\<rparr>) s = fast_rsp_valid i s"
  "req_needs_ptw i \<Longrightarrow> fast_rsp_fault (i\<lparr>x_req_va := sign_extended (x_req_va i)\<rparr>) s = fast_rsp_fault i s"
  "req_needs_ptw i \<Longrightarrow> fast_rsp_pa (i\<lparr>x_req_va := sign_extended (x_req_va i)\<rparr>) s = fast_rsp_pa i s"
proof -
  let ?j = "i\<lparr>x_req_va := sign_extended (x_req_va i)\<rparr>"
  have r: "req_needs_ptw ?j = req_needs_ptw i" "fast_rsp_is_bare ?j = fast_rsp_is_bare i"
    "fast_rsp_is_unsupported ?j = fast_rsp_is_unsupported i" "tlb_fault ?j e = tlb_fault i e" for e
    by (simp_all add: req_needs_ptw_def fast_rsp_is_bare_def fast_rsp_is_unsupported_def tlb_fault_def)
  have h: "tlb_hit ?j s = tlb_hit i s"
    by (simp add: tlb_hit_def tlb_lookup_valid_def r tlb_find_def vpn_of_def bits_sign_extended)
  show "fast_rsp_valid ?j s = fast_rsp_valid i s"
    by (simp add: fast_rsp_valid_def req_ready_def fast_rsp_is_tlb_hit_def r h)
  show "req_needs_ptw i \<Longrightarrow> fast_rsp_fault ?j s = fast_rsp_fault i s"
    by (simp add: fast_rsp_fault_def fast_tlb_fault_def r h split: option.split)
  show "req_needs_ptw i \<Longrightarrow> fast_rsp_pa ?j s = fast_rsp_pa i s"
    by (auto simp: fast_rsp_pa_def r h translated_pa_def bits_sign_extended req_needs_ptw_def fast_rsp_is_bare_def
        split: option.split)
qed

text \<open>
  C31. Only the walker checks that an address is canonical; a hit looks at bits 38..0 alone. In every
  state the unit can reach, a request with a non-canonical address that hits is answered as if its
  address were the sign extension of bits 38..0: with that address's translation, or its fault. Sv39
  demands a page fault.
\<close>
theorem noncanonical_hit_translates:
  assumes "xl_reach c M U s owed" and "asid_discipline (readable c M) U" and "x_satp i \<in> U"
    and "req_needs_ptw i" and "fast_rsp_valid i s" and "\<not> is_sv39_canonical (x_req_va i)"
  shows "xl_spec (readable c M) i = PageFault \<and> rsp_valid i s \<and>
    is_sv39_canonical (sign_extended (x_req_va i)) \<and>
    stands_for i (xl_spec (readable c M) (i\<lparr>x_req_va := sign_extended (x_req_va i)\<rparr>))
      (rsp_fault i s) (rsp_pa i s) (rsp_fault_cause i s)"
proof -
  let ?j = "i\<lparr>x_req_va := sign_extended (x_req_va i)\<rparr>"
  have m: "req_needs_ptw ?j" using assms(4) by (simp add: req_needs_ptw_def)
  have tlb: "sound_tlb (readable c M) U (translation_tlb s)"
    using reach_xl_inv [OF assms(2,1)] by (simp add: xl_inv_def)
  have cause: "fast_rsp_fault_cause ?j s = fast_rsp_fault_cause i s"
    using hit_sign_extended(2) [OF assms(4), of s] by (simp add: fast_rsp_fault_cause_def)
  have "stands_for ?j (xl_spec (readable c M) ?j) (fast_rsp_fault ?j s) (fast_rsp_pa ?j s) (fast_rsp_fault_cause ?j s)"
    using assms(3,5) m sign_extended_canonical
    by (intro fast_answer [OF _ tlb assms(2)]) (simp_all add: hit_sign_extended(1))
  then have "stands_for i (xl_spec (readable c M) ?j) (fast_rsp_fault i s) (fast_rsp_pa i s) (fast_rsp_fault_cause i s)"
    by (simp add: hit_sign_extended(2,3) [OF assms(4)] cause stands_for_def cong: translation.case_cong)
  then have "stands_for i (xl_spec (readable c M) ?j) (rsp_fault i s) (rsp_pa i s) (rsp_fault_cause i s)"
    using assms(5) by (simp only: rsp_fault_def rsp_pa_def rsp_fault_cause_def if_True)
  moreover have "xl_spec (readable c M) i = PageFault"
    using assms(4,6) unfolding canonical_iff
    by (simp add: xl_spec_def req_needs_ptw_def fast_rsp_is_bare_def fast_rsp_is_unsupported_def sv39_translate_def)
  ultimately show ?thesis using assms(5) sign_extended_canonical by (simp add: rsp_valid_def)
qed

text \<open>After a load from \<open>0x40001234\<close>, the address \<open>0x8040001234\<close> is translated to the same page.\<close>

theorem noncanonical_hit_translates_witness:
  "xl_spec (readable demo_open demo_pages) (demo_load\<lparr>x_req_va := 0x8040001234\<rparr>) = PageFault \<and>
   \<not> rsp_fault (demo_load\<lparr>x_req_va := 0x8040001234\<rparr>) (demo_response\<lparr>xl_state := XIdle\<rparr>) \<and>
   rsp_pa (demo_load\<lparr>x_req_va := 0x8040001234\<rparr>) (demo_response\<lparr>xl_state := XIdle\<rparr>) = 0x40001234"
proof -
  let ?s = "demo_response\<lparr>xl_state := XIdle\<rparr>" and ?i = "demo_load\<lparr>x_req_va := 0x8040001234\<rparr>"
  have "x_satp ?i \<in> {demo_satp}" "req_needs_ptw ?i" "fast_rsp_valid ?i ?s" "\<not> is_sv39_canonical (x_req_va ?i)"
    by code_simp+
  note t = noncanonical_hit_translates [OF demo_reach(2) demo_discipline this]
  have "sign_extended (x_req_va ?i) = 0x40001234" by code_simp
  then have "?i\<lparr>x_req_va := sign_extended (x_req_va ?i)\<rparr> = demo_load" by (simp add: demo_load_def)
  moreover have "xl_spec (readable demo_open demo_pages) demo_load = Translated 0x40001234 0x100000cf 2"
    using demo_spec [where v = True and r = True and g = True] by (simp add: demo_load_def)
  ultimately show ?thesis
    using t by (simp add: stands_for_def word_unat_eq_iff)
qed

text \<open>A walk without a stall: six edges after the request the response is there.\<close>

definition demo_answering :: xl_in where
  "demo_answering = demo_load\<lparr>x_mem_rvalid := True, x_mem_rdata := 0x20000001\<rparr>"

theorem translation_answers_witness:
  "\<exists>k \<le> 13. xl_state (xl_run demo_open (take k (replicate 13 demo_answering)) xlate_reset) = Response"
proof -
  have e: "replicate 13 demo_answering = [demo_answering, demo_answering] @ replicate 9 demo_answering @
      [demo_answering, demo_answering]"
    by (simp add: numeral_eq_Suc)
  have "\<forall>e \<in> set ([demo_answering, demo_answering] @ replicate 9 demo_answering @ [demo_answering, demo_answering]).
      \<not> x_flush e"
    by (simp add: demo_answering_def demo_load_def)
  moreover have "9 \<le> progress (walker_ins demo_open (replicate 9 demo_answering) (xl_run demo_open [demo_answering, demo_answering] xlate_reset))
      (walker (xl_run demo_open [demo_answering, demo_answering] xlate_reset))"
    by code_simp
  moreover have "xl_state xlate_reset = XIdle" "x_req_valid demo_answering" "req_ready demo_answering xlate_reset"
    "\<not> fast_rsp_valid demo_answering xlate_reset"
    by code_simp+
  ultimately show ?thesis
    using translation_answers [where c = demo_open and s = xlate_reset and i = demo_answering and ?i1.0 = demo_answering
        and es = "replicate 9 demo_answering" and ?e1.0 = demo_answering and ?e2.0 = demo_answering]
    unfolding e length_replicate by force
qed

end
