(* ===== verification/Sfence.thy ===== *)
theory Sfence
  imports Prelude
begin

text \<open>
  How the memory stage of \<open>core.sv\<close> handles the instructions that change translation, \<open>sfence.vma\<close>
  and the accesses to \<open>satp\<close>: the stage waits while the data cache is writing back, and one cycle
  flushes both translation units (\<open>translation_flush_fetch_value\<close>).
\<close>

section \<open>The stage\<close>

record mems_in =
  memq_rvalid :: bool
  mems_satp_access :: bool
  mems_sfence_vma :: bool
  dcache_flush_busy :: bool
  memu_stall :: bool
  wbq_wready :: bool
  csru_raise_trap :: bool
  mems_expt_valid :: bool

definition mems_translation_hazard :: "mems_in \<Rightarrow> bool" where
  "mems_translation_hazard i \<longleftrightarrow> mems_satp_access i \<or> mems_sfence_vma i"

definition mems_translation_flush_wait :: "mems_in \<Rightarrow> bool" where
  "mems_translation_flush_wait i \<longleftrightarrow> memq_rvalid i \<and> mems_translation_hazard i \<and> dcache_flush_busy i"

definition memq_rready :: "mems_in \<Rightarrow> bool" where
  "memq_rready i \<longleftrightarrow> wbq_wready i \<and> \<not> memu_stall i \<and> \<not> mems_translation_flush_wait i"

text \<open>The flush, for the value \<open>n\<close> of the register \<open>mems_is_new\<close>, and the register's next value.\<close>

definition translation_flush :: "mems_in \<Rightarrow> bool \<Rightarrow> bool" where
  "translation_flush i n \<longleftrightarrow> memq_rvalid i \<and> n \<and> mems_translation_hazard i \<and> \<not> dcache_flush_busy i \<and>
     \<not> csru_raise_trap i \<and> \<not> mems_expt_valid i"

definition next_is_new :: "mems_in \<Rightarrow> bool \<Rightarrow> bool" where
  "next_is_new i n = (if memq_rvalid i then memq_rready i else True)"

text \<open>The cycles of a run in which the units are flushed.\<close>

fun flushes :: "mems_in list \<Rightarrow> bool \<Rightarrow> bool list" where
  "flushes [] n = []"
| "flushes (i # is) n = translation_flush i n # flushes is (next_is_new i n)"

text \<open>One instruction's stay: it is there in every cycle and leaves in the last.\<close>

definition stay :: "mems_in list \<Rightarrow> bool" where
  "stay is \<longleftrightarrow> is \<noteq> [] \<and> (\<forall>i \<in> set is. memq_rvalid i) \<and> (\<forall>i \<in> set (butlast is). \<not> memq_rready i) \<and>
     memq_rready (last is)"

lemma old_never_flushes:
  "\<forall>i \<in> set is. memq_rvalid i \<Longrightarrow> \<forall>i \<in> set (butlast is). \<not> memq_rready i \<Longrightarrow> True \<notin> set (flushes is False)"
proof (induction "is")
  case (Cons i "is")
  then show ?case by (cases "is = []") (auto simp: translation_flush_def next_is_new_def)
qed simp


section \<open>Properties\<close>

text \<open>
  C32. An \<open>sfence.vma\<close> or \<open>satp\<close> access that raises no trap flushes the translation units exactly when
  the data cache is not writing back in its first cycle in the stage. One that arrives during a
  write-back waits for its end, as intended, but then leaves without having flushed anything: by
  then it is no longer new.
\<close>
theorem sfence_flushes_iff_idle:
  assumes "stay is" and "\<forall>i \<in> set is. mems_translation_hazard i \<and> \<not> csru_raise_trap i \<and> \<not> mems_expt_valid i"
  shows "True \<in> set (flushes is True) \<longleftrightarrow> \<not> dcache_flush_busy (hd is)"
proof (cases "is")
  case Nil
  then show ?thesis using assms(1) by (simp add: stay_def)
next
  case (Cons i rest)
  have "True \<notin> set (flushes rest (next_is_new i True))"
  proof (cases "rest = []")
    case False
    then have "\<not> next_is_new i True" "\<forall>i \<in> set rest. memq_rvalid i" "\<forall>i \<in> set (butlast rest). \<not> memq_rready i"
      using assms(1) Cons by (simp_all add: stay_def next_is_new_def)
    then show ?thesis using old_never_flushes [of rest] by simp
  qed simp
  moreover have "translation_flush i True \<longleftrightarrow> \<not> dcache_flush_busy i"
    using assms Cons by (simp add: translation_flush_def stay_def)
  ultimately show ?thesis using Cons by auto
qed

text \<open>An \<open>sfence.vma\<close> that meets two busy cycles.\<close>

definition demo_sfence :: mems_in where
  "demo_sfence = \<lparr>memq_rvalid = True, mems_satp_access = False, mems_sfence_vma = True, dcache_flush_busy = False,
     memu_stall = False, wbq_wready = True, csru_raise_trap = False, mems_expt_valid = False\<rparr>"

theorem sfence_flushes_iff_idle_witness:
  "True \<notin> set (flushes [demo_sfence\<lparr>dcache_flush_busy := True\<rparr>, demo_sfence\<lparr>dcache_flush_busy := True\<rparr>, demo_sfence] True)"
proof -
  let ?is = "[demo_sfence\<lparr>dcache_flush_busy := True\<rparr>, demo_sfence\<lparr>dcache_flush_busy := True\<rparr>, demo_sfence]"
  have "stay ?is" "\<forall>i \<in> set ?is. mems_translation_hazard i \<and> \<not> csru_raise_trap i \<and> \<not> mems_expt_valid i"
    by (simp_all add: stay_def memq_rready_def mems_translation_flush_wait_def mems_translation_hazard_def demo_sfence_def)
  from sfence_flushes_iff_idle [OF this] show ?thesis by simp
qed

end
