(* ===== verification/Decode.thy ===== *)
theory Decode
  imports Prelude
begin

text \<open>
  Instruction decoding: the encoders of \<open>inst_gen_pkg.sv\<close>, the expansion of compressed instructions in
  \<open>rvc_converter.sv\<close>, the decoder \<open>inst_decoder.sv\<close> with the control word of \<open>corectrl.sv\<close>, and the
  combinational units behind it, \<open>alu.sv\<close> and \<open>brunit.sv\<close>. \<open>XLEN\<close> is 64 and \<open>IALIGN\<close> 16; a
  SystemVerilog \<open>'x\<close> is the parameter \<open>undef\<close>. Declarations with an initialiser (\<open>op\<close>, \<open>imm_i\<close>, \<open>beq\<close>) are
  read as the continuous assignments the comment in \<open>inst_decoder.sv\<close> takes them for.
\<close>

unbundle bit_operations_syntax

section \<open>Opcodes and control word\<close>

abbreviation OP_LUI :: "7 word" where "OP_LUI \<equiv> 0x37"
abbreviation OP_AUIPC :: "7 word" where "OP_AUIPC \<equiv> 0x17"
abbreviation OP_OP :: "7 word" where "OP_OP \<equiv> 0x33"
abbreviation OP_OP_IMM :: "7 word" where "OP_OP_IMM \<equiv> 0x13"
abbreviation OP_OP_32 :: "7 word" where "OP_OP_32 \<equiv> 0x3b"
abbreviation OP_OP_IMM_32 :: "7 word" where "OP_OP_IMM_32 \<equiv> 0x1b"
abbreviation OP_JAL :: "7 word" where "OP_JAL \<equiv> 0x6f"
abbreviation OP_JALR :: "7 word" where "OP_JALR \<equiv> 0x67"
abbreviation OP_BRANCH :: "7 word" where "OP_BRANCH \<equiv> 0x63"
abbreviation OP_LOAD :: "7 word" where "OP_LOAD \<equiv> 0x03"
abbreviation OP_STORE :: "7 word" where "OP_STORE \<equiv> 0x23"
abbreviation OP_SYSTEM :: "7 word" where "OP_SYSTEM \<equiv> 0x73"
abbreviation OP_MISC_MEM :: "7 word" where "OP_MISC_MEM \<equiv> 0x0f"
abbreviation OP_AMO :: "7 word" where "OP_AMO \<equiv> 0x2f"

datatype inst_type = INST_X | INST_R | INST_I | INST_S | INST_B | INST_U | INST_J

record inst_ctrl =
  itype :: inst_type
  rwb_en :: bool
  is_lui :: bool
  is_aluop :: bool
  is_muldiv :: bool
  is_op32 :: bool
  is_jump :: bool
  is_load :: bool
  is_csr :: bool
  is_amo :: bool
  ctrl_rvc :: bool
  funct3 :: "3 word"
  funct7 :: "7 word"

definition inst_is_memop :: "inst_ctrl \<Rightarrow> bool" where
  "inst_is_memop c \<longleftrightarrow> itype c = INST_S \<or> is_load c \<or> is_amo c"

definition inst_is_store :: "inst_ctrl \<Rightarrow> bool" where
  "inst_is_store c \<longleftrightarrow> inst_is_memop c \<and> \<not> is_load c"

definition inst_is_br :: "inst_ctrl \<Rightarrow> bool" where
  "inst_is_br c \<longleftrightarrow> itype c = INST_B"


section \<open>Encoders\<close>

type_synonym reg = "5 word"

text \<open>The three concatenations the encoders share.\<close>

definition inst_r :: "7 word \<Rightarrow> reg \<Rightarrow> reg \<Rightarrow> 3 word \<Rightarrow> reg \<Rightarrow> 7 word \<Rightarrow> u32" where
  "inst_r f7 rs2 rs1 f3 rd op =
     push_bit 25 (ucast f7) OR push_bit 20 (ucast rs2) OR push_bit 15 (ucast rs1) OR push_bit 12 (ucast f3) OR
     push_bit 7 (ucast rd) OR ucast op"

definition inst_i :: "12 word \<Rightarrow> reg \<Rightarrow> 3 word \<Rightarrow> reg \<Rightarrow> 7 word \<Rightarrow> u32" where
  "inst_i imm rs1 f3 rd op =
     push_bit 20 (ucast imm) OR push_bit 15 (ucast rs1) OR push_bit 12 (ucast f3) OR push_bit 7 (ucast rd) OR ucast op"

definition inst_u :: "20 word \<Rightarrow> reg \<Rightarrow> 7 word \<Rightarrow> u32" where
  "inst_u imm rd op = push_bit 12 (ucast imm) OR push_bit 7 (ucast rd) OR ucast op"

definition gen_add :: "reg \<Rightarrow> reg \<Rightarrow> reg \<Rightarrow> u32" where "gen_add rd rs1 rs2 = inst_r 0 rs2 rs1 0 rd OP_OP"
definition gen_addw :: "reg \<Rightarrow> reg \<Rightarrow> reg \<Rightarrow> u32" where "gen_addw rd rs1 rs2 = inst_r 0 rs2 rs1 0 rd OP_OP_32"
definition gen_addi :: "reg \<Rightarrow> reg \<Rightarrow> 12 word \<Rightarrow> u32" where "gen_addi rd rs1 imm = inst_i imm rs1 0 rd OP_OP_IMM"
definition gen_addiw :: "reg \<Rightarrow> reg \<Rightarrow> 12 word \<Rightarrow> u32" where "gen_addiw rd rs1 imm = inst_i imm rs1 0 rd OP_OP_IMM_32"
definition gen_sub :: "reg \<Rightarrow> reg \<Rightarrow> reg \<Rightarrow> u32" where "gen_sub rd rs1 rs2 = inst_r 0x20 rs2 rs1 0 rd OP_OP"
definition gen_subw :: "reg \<Rightarrow> reg \<Rightarrow> reg \<Rightarrow> u32" where "gen_subw rd rs1 rs2 = inst_r 0x20 rs2 rs1 0 rd OP_OP_32"
definition inst_xor :: "reg \<Rightarrow> reg \<Rightarrow> reg \<Rightarrow> u32" where "inst_xor rd rs1 rs2 = inst_r 0 rs2 rs1 4 rd OP_OP"
definition inst_or :: "reg \<Rightarrow> reg \<Rightarrow> reg \<Rightarrow> u32" where "inst_or rd rs1 rs2 = inst_r 0 rs2 rs1 6 rd OP_OP"
definition inst_and :: "reg \<Rightarrow> reg \<Rightarrow> reg \<Rightarrow> u32" where "inst_and rd rs1 rs2 = inst_r 0 rs2 rs1 7 rd OP_OP"
definition gen_andi :: "reg \<Rightarrow> reg \<Rightarrow> 12 word \<Rightarrow> u32" where "gen_andi rd rs1 imm = inst_i imm rs1 7 rd OP_OP_IMM"

definition gen_slli :: "reg \<Rightarrow> reg \<Rightarrow> 6 word \<Rightarrow> u32" where
  "gen_slli rd rs1 shamt = inst_i (ucast shamt) rs1 1 rd OP_OP_IMM"

definition gen_srli :: "reg \<Rightarrow> reg \<Rightarrow> 6 word \<Rightarrow> u32" where
  "gen_srli rd rs1 shamt = inst_i (ucast shamt) rs1 5 rd OP_OP_IMM"

definition gen_srai :: "reg \<Rightarrow> reg \<Rightarrow> 6 word \<Rightarrow> u32" where
  "gen_srai rd rs1 shamt = inst_i (push_bit 6 0x10 OR ucast shamt) rs1 5 rd OP_OP_IMM"

definition gen_lui :: "reg \<Rightarrow> 20 word \<Rightarrow> u32" where "gen_lui rd imm = inst_u imm rd OP_LUI"

definition gen_load :: "reg \<Rightarrow> reg \<Rightarrow> 12 word \<Rightarrow> 3 word \<Rightarrow> u32" where
  "gen_load rd rs1 imm f3 = inst_i imm rs1 f3 rd OP_LOAD"

definition gen_store :: "reg \<Rightarrow> reg \<Rightarrow> 12 word \<Rightarrow> 3 word \<Rightarrow> u32" where
  "gen_store rs1 rs2 imm f3 = inst_r (ucast (bits 11 5 imm)) rs2 rs1 f3 (ucast (bits 4 0 imm)) OP_STORE"

definition gen_jal :: "reg \<Rightarrow> 20 word \<Rightarrow> u32" where
  "gen_jal rd imm =
     inst_u (push_bit 19 (bits 19 19 imm) OR push_bit 9 (bits 9 0 imm) OR push_bit 8 (bits 10 10 imm) OR bits 18 11 imm)
       rd OP_JAL"

definition gen_jalr :: "reg \<Rightarrow> reg \<Rightarrow> 12 word \<Rightarrow> u32" where "gen_jalr rd rs1 imm = inst_i imm rs1 0 rd OP_JALR"

definition gen_branch :: "3 word \<Rightarrow> reg \<Rightarrow> reg \<Rightarrow> 12 word \<Rightarrow> u32" where
  "gen_branch f3 rs1 rs2 imm =
     inst_r (ucast (push_bit 6 (bits 11 11 imm) OR bits 9 4 imm)) rs2 rs1 f3
       (ucast (push_bit 1 (bits 3 0 imm) OR bits 10 10 imm)) OP_BRANCH"

definition gen_beq :: "reg \<Rightarrow> reg \<Rightarrow> 12 word \<Rightarrow> u32" where "gen_beq = gen_branch 0"
definition gen_bne :: "reg \<Rightarrow> reg \<Rightarrow> 12 word \<Rightarrow> u32" where "gen_bne = gen_branch 1"
definition gen_ebreak :: u32 where "gen_ebreak = 0x00100073"


section \<open>Compressed instructions\<close>

definition rvc_rs1 :: "u16 \<Rightarrow> reg" where "rvc_rs1 i = ucast (bits 11 7 i)"
definition rvc_rs2 :: "u16 \<Rightarrow> reg" where "rvc_rs2 i = ucast (bits 6 2 i)"
definition rvc_rs1d :: "u16 \<Rightarrow> reg" where "rvc_rs1d i = 8 OR ucast (bits 9 7 i)"
definition rvc_rs2d :: "u16 \<Rightarrow> reg" where "rvc_rs2d i = 8 OR ucast (bits 4 2 i)"

definition c0_mem_w :: "u16 \<Rightarrow> 12 word" where
  "c0_mem_w i = ucast (push_bit 6 (bits 5 5 i) OR push_bit 3 (bits 12 10 i) OR push_bit 2 (bits 6 6 i))"

definition c0_mem_d :: "u16 \<Rightarrow> 12 word" where
  "c0_mem_d i = ucast (push_bit 6 (bits 6 5 i) OR push_bit 3 (bits 12 10 i))"

definition rvc_imm_i :: "u16 \<Rightarrow> 12 word" where
  "rvc_imm_i i = (if bit i 12 then push_bit 5 (mask 7) else 0) OR ucast (bits 6 2 i)"

definition rvc_imm_shamt :: "u16 \<Rightarrow> 6 word" where
  "rvc_imm_shamt i = ucast (push_bit 5 (bits 12 12 i) OR bits 6 2 i)"

definition rvc_imm_j :: "u16 \<Rightarrow> 20 word" where
  "rvc_imm_j i = (if bit i 12 then push_bit 10 (mask 10) else 0) OR
     ucast (push_bit 9 (bits 8 8 i) OR push_bit 7 (bits 10 9 i) OR push_bit 6 (bits 6 6 i) OR push_bit 5 (bits 7 7 i) OR
            push_bit 4 (bits 2 2 i) OR push_bit 3 (bits 11 11 i) OR bits 5 3 i)"

definition rvc_imm_br :: "u16 \<Rightarrow> 12 word" where
  "rvc_imm_br i = (if bit i 12 then push_bit 7 (mask 5) else 0) OR
     ucast (push_bit 5 (bits 6 5 i) OR push_bit 4 (bits 2 2 i) OR push_bit 2 (bits 11 10 i) OR bits 4 3 i)"

definition rvc_funct3 :: "u16 \<Rightarrow> u16" where "rvc_funct3 i = bits 15 13 i"

text \<open>The four quadrants; \<open>None\<close> is the default \<open>{16'b0, inst16}\<close>.\<close>

definition rvc_c0 :: "u16 \<Rightarrow> u32 option" where
  "rvc_c0 i =
     (let f = rvc_funct3 i in
      if f = 0
      then (if i \<noteq> 0
            then Some (gen_addi (rvc_rs2d i) 2
              (ucast (push_bit 6 (bits 10 7 i) OR push_bit 4 (bits 12 11 i) OR push_bit 3 (bits 5 5 i) OR
                      push_bit 2 (bits 6 6 i))))
            else None)
      else if f = 2 then Some (gen_load (rvc_rs2d i) (rvc_rs1d i) (c0_mem_w i) 2)
      else if f = 3 then Some (gen_load (rvc_rs2d i) (rvc_rs1d i) (c0_mem_d i) 3)
      else if f = 6 then Some (gen_store (rvc_rs1d i) (rvc_rs2d i) (c0_mem_w i) 2)
      else if f = 7 then Some (gen_store (rvc_rs1d i) (rvc_rs2d i) (c0_mem_d i) 3)
      else None)"

definition rvc_c1_alu :: "u16 \<Rightarrow> u32 option" where
  "rvc_c1_alu i =
     (let rs1d = rvc_rs1d i; rs2d = rvc_rs2d i in
      if bits 11 10 i = 0 then Some (gen_srli rs1d rs1d (rvc_imm_shamt i))
      else if bits 11 10 i = 1 then Some (gen_srai rs1d rs1d (rvc_imm_shamt i))
      else if bits 11 10 i = 2 then Some (gen_andi rs1d rs1d (rvc_imm_i i))
      else if \<not> bit i 12
      then (if bits 6 5 i = 0 then Some (gen_sub rs1d rs1d rs2d)
            else if bits 6 5 i = 1 then Some (inst_xor rs1d rs1d rs2d)
            else if bits 6 5 i = 2 then Some (inst_or rs1d rs1d rs2d)
            else Some (inst_and rs1d rs1d rs2d))
      else if bits 6 5 i = 0 then Some (gen_subw rs1d rs1d rs2d)
      else if bits 6 5 i = 1 then Some (gen_addw rs1d rs1d rs2d)
      else None)"

definition rvc_c1 :: "u16 \<Rightarrow> u32 option" where
  "rvc_c1 i =
     (let f = rvc_funct3 i; rs1 = rvc_rs1 i; imm_i = rvc_imm_i i in
      if f = 0 then Some (gen_addi rs1 rs1 imm_i)
      else if f = 1 then Some (gen_addiw rs1 rs1 imm_i)
      else if f = 2 then Some (gen_addi rs1 0 imm_i)
      else if f = 3
      then (if rs1 = 2
            then (let imm = push_bit 9 (bits 12 12 i) OR push_bit 7 (bits 4 3 i) OR push_bit 6 (bits 5 5 i) OR
                            push_bit 5 (bits 2 2 i) OR push_bit 4 (bits 6 6 i)
                  in Some (gen_addi 2 2 ((if bit imm 9 then push_bit 10 (mask 2) else 0) OR ucast imm)))
            else Some (gen_lui rs1 ((if bit imm_i 11 then push_bit 12 (mask 8) else 0) OR ucast imm_i)))
      else if f = 4 then rvc_c1_alu i
      else if f = 5 then Some (gen_jal 0 (rvc_imm_j i))
      else if f = 6 then Some (gen_beq (rvc_rs1d i) 0 (rvc_imm_br i))
      else Some (gen_bne (rvc_rs1d i) 0 (rvc_imm_br i)))"

definition rvc_c2 :: "u16 \<Rightarrow> u32 option" where
  "rvc_c2 i =
     (let f = rvc_funct3 i; rs1 = rvc_rs1 i; rs2 = rvc_rs2 i in
      if f = 0 then Some (gen_slli rs1 rs1 (rvc_imm_shamt i))
      else if f = 2
      then (if rs1 \<noteq> 0
            then Some (gen_load rs1 2 (ucast (push_bit 6 (bits 3 2 i) OR push_bit 5 (bits 12 12 i) OR push_bit 2 (bits 6 4 i))) 2)
            else None)
      else if f = 3
      then (if rs1 \<noteq> 0
            then Some (gen_load rs1 2 (ucast (push_bit 6 (bits 4 2 i) OR push_bit 5 (bits 12 12 i) OR push_bit 3 (bits 6 5 i))) 3)
            else None)
      else if f = 4
      then (if \<not> bit i 12
            then (if rs2 = 0 then Some (gen_jalr 0 rs1 0) else Some (gen_addi rs1 rs2 0))
            else if rs2 = 0 then (if rs1 = 0 then Some gen_ebreak else Some (gen_jalr 1 rs1 0))
            else Some (gen_add rs1 rs1 rs2))
      else if f = 6 then Some (gen_store 2 rs2 (ucast (push_bit 6 (bits 8 7 i) OR push_bit 2 (bits 12 9 i))) 2)
      else if f = 7 then Some (gen_store 2 rs2 (ucast (push_bit 6 (bits 9 7 i) OR push_bit 3 (bits 12 10 i))) 3)
      else None)"

definition rvc_expansion :: "u16 \<Rightarrow> u32 option" where
  "rvc_expansion i =
     (let q = bits 1 0 i in
      if q = 0 then rvc_c0 i else if q = 1 then rvc_c1 i else if q = 2 then rvc_c2 i else None)"

definition rvc_is_rvc :: "u16 \<Rightarrow> bool" where
  "rvc_is_rvc i \<longleftrightarrow> bits 1 0 i \<noteq> 3"

definition rvc_converter :: "u16 \<Rightarrow> u32" where
  "rvc_converter i = (case rvc_expansion i of None \<Rightarrow> ucast i | Some inst32 \<Rightarrow> inst32)"


section \<open>The decoder\<close>

definition op_of :: "u32 \<Rightarrow> 7 word" where "op_of b = ucast (bits 6 0 b)"
definition f3_of :: "u32 \<Rightarrow> 3 word" where "f3_of b = ucast (bits 14 12 b)"
definition f7_of :: "u32 \<Rightarrow> 7 word" where "f7_of b = ucast (bits 31 25 b)"

definition sext32 :: "nat \<Rightarrow> u32 \<Rightarrow> u64" where
  "sext32 n w = (if bit w (n - 1) then NOT (mask n) else 0) OR ucast (take_bit n w)"

definition decode_valid :: "u32 \<Rightarrow> bool" where
  "decode_valid b =
     (let op = op_of b; f3 = f3_of b; f7 = f7_of b in
      if op = OP_LUI \<or> op = OP_AUIPC \<or> op = OP_JAL \<or> op = OP_JALR then True
      else if op = OP_BRANCH then f3 \<noteq> 2 \<and> f3 \<noteq> 3
      else if op = OP_LOAD then f3 \<noteq> 7
      else if op = OP_STORE then \<not> bit f3 2
      else if op = OP_OP
      then (if f7 = 0 then True else if f7 = 0x20 then f3 = 0 \<or> f3 = 5 else f7 = 1)
      else if op = OP_OP_IMM
      then (if f3 = 1 then drop_bit 1 f7 = 0 else if f3 = 5 then drop_bit 1 f7 = 0 \<or> drop_bit 1 f7 = 0x10 else True)
      else if op = OP_OP_32
      then (if f7 = 1 then f3 = 0 \<or> bit f3 2
            else if f7 = 0 then f3 = 0 \<or> f3 = 1 \<or> f3 = 5
            else if f7 = 0x20 then f3 = 0 \<or> f3 = 5 else False)
      else if op = OP_OP_IMM_32
      then (if f3 = 0 then True else if f3 = 1 then f7 = 0 else if f3 = 5 then f7 = 0 \<or> f7 = 0x20 else False)
      else if op = OP_SYSTEM
      then (f3 \<noteq> 0 \<and> f3 \<noteq> 4) \<or> b = 0x00000073 \<or> b = 0x00100073 \<or> b = 0x30200073 \<or> b = 0x10200073 \<or>
           b = 0x10500073 \<or> (f3 = 0 \<and> f7 = 0x09)
      else if op = OP_MISC_MEM then True
      else if op = OP_AMO then f3 = 2 \<or> f3 = 3
      else False)"

definition decode_imm :: "u64 \<Rightarrow> u32 \<Rightarrow> u64" where
  "decode_imm undef b =
     (let op = op_of b;
          imm_i = sext32 12 (bits 31 20 b);
          imm_s = sext32 12 (push_bit 5 (bits 31 25 b) OR bits 11 7 b);
          imm_b = sext32 13 (push_bit 12 (bits 31 31 b) OR push_bit 11 (bits 7 7 b) OR push_bit 5 (bits 30 25 b) OR
                             push_bit 1 (bits 11 8 b));
          imm_u = sext32 32 (push_bit 12 (bits 31 12 b));
          imm_j = sext32 21 (push_bit 20 (bits 31 31 b) OR push_bit 12 (bits 19 12 b) OR push_bit 11 (bits 20 20 b) OR
                             push_bit 1 (bits 30 21 b))
      in if op = OP_LUI \<or> op = OP_AUIPC then imm_u
         else if op = OP_JAL then imm_j
         else if op = OP_JALR \<or> op = OP_LOAD then imm_i
         else if op = OP_OP_IMM \<or> op = OP_OP_IMM_32 then imm_i
         else if op = OP_BRANCH then imm_b
         else if op = OP_STORE then imm_s
         else undef)"

definition decode_ctrl :: "bool \<Rightarrow> u32 \<Rightarrow> inst_ctrl" where
  "decode_ctrl is_rvc b =
     (let op = op_of b; f3 = f3_of b; f7 = f7_of b;
          c = \<lparr>itype = INST_X, rwb_en = False, is_lui = False, is_aluop = False, is_muldiv = False, is_op32 = False,
               is_jump = False, is_load = False, is_csr = False, is_amo = False, ctrl_rvc = is_rvc,
               funct3 = f3, funct7 = f7\<rparr>
      in if op = OP_LUI then c\<lparr>itype := INST_U, rwb_en := True, is_lui := True\<rparr>
         else if op = OP_AUIPC then c\<lparr>itype := INST_U, rwb_en := True\<rparr>
         else if op = OP_JAL then c\<lparr>itype := INST_J, rwb_en := True, is_jump := True\<rparr>
         else if op = OP_JALR then c\<lparr>itype := INST_I, rwb_en := True, is_jump := True\<rparr>
         else if op = OP_BRANCH then c\<lparr>itype := INST_B\<rparr>
         else if op = OP_LOAD then c\<lparr>itype := INST_I, rwb_en := True, is_load := True\<rparr>
         else if op = OP_STORE then c\<lparr>itype := INST_S\<rparr>
         else if op = OP_OP then c\<lparr>itype := INST_R, rwb_en := True, is_aluop := True, is_muldiv := (f7 = 1)\<rparr>
         else if op = OP_OP_IMM then c\<lparr>itype := INST_I, rwb_en := True, is_aluop := True\<rparr>
         else if op = OP_OP_32
         then c\<lparr>itype := INST_R, rwb_en := True, is_aluop := True, is_muldiv := (f7 = 1), is_op32 := True\<rparr>
         else if op = OP_OP_IMM_32 then c\<lparr>itype := INST_I, rwb_en := True, is_aluop := True, is_op32 := True\<rparr>
         else if op = OP_SYSTEM then c\<lparr>itype := INST_I, rwb_en := (f3 \<noteq> 0), is_csr := (f3 \<noteq> 0)\<rparr>
         else if op = OP_AMO then c\<lparr>itype := INST_R, rwb_en := True, is_amo := True\<rparr>
         else c)"


section \<open>ALU and branch unit\<close>

definition sel_w :: "bool \<Rightarrow> u32 \<Rightarrow> u64 \<Rightarrow> u64" where
  "sel_w op32 value32 value64 = (if op32 then scast value32 else value64)"

definition alu :: "inst_ctrl \<Rightarrow> u64 \<Rightarrow> u64 \<Rightarrow> u64" where
  "alu c op1 op2 =
     (let a = ucast op1 :: u32; b = ucast op2 :: u32;
          sh = unat (take_bit 6 op2); sh32 = unat (take_bit 5 op2) in
      if is_aluop c
      then (if funct3 c = 0
            then (if itype c = INST_I \<or> funct7 c = 0 then sel_w (is_op32 c) (a + b) (op1 + op2)
                  else sel_w (is_op32 c) (a - b) (op1 - op2))
            else if funct3 c = 1 then sel_w (is_op32 c) (push_bit sh32 a) (push_bit sh op1)
            else if funct3 c = 2 then (if op1 <s op2 then 1 else 0)
            else if funct3 c = 3 then (if op1 < op2 then 1 else 0)
            else if funct3 c = 4 then op1 XOR op2
            else if funct3 c = 5
            then (if \<not> bit (funct7 c) 5 then sel_w (is_op32 c) (drop_bit sh32 a) (drop_bit sh op1)
                  else sel_w (is_op32 c) (signed_drop_bit sh32 a) (signed_drop_bit sh op1))
            else if funct3 c = 6 then op1 OR op2
            else op1 AND op2)
      else op1 + op2)"

definition brunit :: "3 word \<Rightarrow> u64 \<Rightarrow> u64 \<Rightarrow> bool" where
  "brunit f3 op1 op2 =
     (if f3 = 0 then op1 = op2
      else if f3 = 1 then op1 \<noteq> op2
      else if f3 = 4 then op1 <s op2
      else if f3 = 5 then \<not> op1 <s op2
      else if f3 = 6 then op1 < op2
      else if f3 = 7 then \<not> op1 < op2
      else False)"



section \<open>Fields of an encoding\<close>

named_theorems fields \<open>opcode and function fields of encoded instructions\<close>

lemma fields_r [fields]:
  "op_of (inst_r f7 rs2 rs1 f3 rd op) = op" "f3_of (inst_r f7 rs2 rs1 f3 rd op) = f3"
  "f7_of (inst_r f7 rs2 rs1 f3 rd op) = f7"
  by (rule bit_word_eqI; auto simp: op_of_def f3_of_def f7_of_def inst_r_def bit_simps word_slices dest: bit_imp_le_length)+

lemma fields_i [fields]:
  "op_of (inst_i imm rs1 f3 rd op) = op" "f3_of (inst_i imm rs1 f3 rd op) = f3"
  "f7_of (inst_i imm rs1 f3 rd op) = ucast (drop_bit 5 imm)"
  by (rule bit_word_eqI; auto simp: op_of_def f3_of_def f7_of_def inst_i_def bit_simps word_slices dest: bit_imp_le_length)+

lemma fields_u [fields]: "op_of (inst_u imm rd op) = op"
  by (rule bit_word_eqI) (auto simp: op_of_def inst_u_def bit_simps word_slices dest: bit_imp_le_length)

lemmas gen_defs = gen_add_def gen_addw_def gen_addi_def gen_addiw_def gen_sub_def gen_subw_def inst_xor_def inst_or_def
  inst_and_def gen_andi_def gen_slli_def gen_srli_def gen_srai_def gen_lui_def gen_load_def gen_store_def gen_jal_def
  gen_jalr_def gen_branch_def gen_beq_def gen_bne_def

lemma shamt_fields:
  "drop_bit 1 (f7_of (gen_slli rd rs1 sh)) = 0" "drop_bit 1 (f7_of (gen_srli rd rs1 sh)) = 0"
  "drop_bit 1 (f7_of (gen_srai rd rs1 sh)) = 0x10"
proof -
  have field: "drop_bit 1 (ucast (drop_bit 5 x) :: 7 word) = ucast (drop_bit 6 x)" for x :: "12 word"
    by (rule bit_word_eqI) (auto simp: bit_simps dest: bit_imp_le_length)
  have sh: "drop_bit 6 (ucast sh :: 12 word) = 0"
    by (rule bit_word_eqI) (auto simp: bit_simps dest: bit_imp_le_length)
  show "drop_bit 1 (f7_of (gen_slli rd rs1 sh)) = 0" "drop_bit 1 (f7_of (gen_srli rd rs1 sh)) = 0"
    unfolding gen_slli_def gen_srli_def fields field by (simp_all add: sh)
  show "drop_bit 1 (f7_of (gen_srai rd rs1 sh)) = 0x10"
    unfolding gen_srai_def fields field by (simp add: drop_bit_or sh)
qed

lemma shift_valid:
  "decode_valid (gen_slli rd rs1 sh)" "decode_valid (gen_srli rd rs1 sh)" "decode_valid (gen_srai rd rs1 sh)"
proof -
  have "op_of (gen_slli rd rs1 sh) = OP_OP_IMM" "f3_of (gen_slli rd rs1 sh) = 1"
    "op_of (gen_srli rd rs1 sh) = OP_OP_IMM" "f3_of (gen_srli rd rs1 sh) = 5"
    "op_of (gen_srai rd rs1 sh) = OP_OP_IMM" "f3_of (gen_srai rd rs1 sh) = 5"
    by (simp_all add: gen_slli_def gen_srli_def gen_srai_def fields)
  then show "decode_valid (gen_slli rd rs1 sh)" "decode_valid (gen_srli rd rs1 sh)" "decode_valid (gen_srai rd rs1 sh)"
    using shamt_fields [of rd rs1 sh] by (simp_all add: decode_valid_def Let_def)
qed

lemma ebreak_fields [fields]: "op_of gen_ebreak = OP_SYSTEM"
  by (simp add: gen_ebreak_def op_of_def bits_def)

lemma ebreak_valid: "decode_valid gen_ebreak"
  using ebreak_fields by (simp add: decode_valid_def gen_ebreak_def Let_def)

lemma gen_valid:
  "decode_valid (gen_add rd rs1 rs2)" "decode_valid (gen_addw rd rs1 rs2)" "decode_valid (gen_addi rd rs1 imm)"
  "decode_valid (gen_addiw rd rs1 imm)" "decode_valid (gen_sub rd rs1 rs2)" "decode_valid (gen_subw rd rs1 rs2)"
  "decode_valid (inst_xor rd rs1 rs2)" "decode_valid (inst_or rd rs1 rs2)" "decode_valid (inst_and rd rs1 rs2)"
  "decode_valid (gen_andi rd rs1 imm)" "decode_valid (gen_lui rd uimm)" "decode_valid (gen_jal rd uimm)"
  "decode_valid (gen_jalr rd rs1 imm)" "decode_valid (gen_beq rs1 rs2 imm)" "decode_valid (gen_bne rs1 rs2 imm)"
  "decode_valid (gen_load rd rs1 imm f3) \<longleftrightarrow> f3 \<noteq> 7"
  "decode_valid (gen_store rs1 rs2 imm f3) \<longleftrightarrow> \<not> bit f3 2"
  by (simp_all add: decode_valid_def gen_defs fields)

lemma rvc_some_valid: "rvc_expansion i = Some w \<Longrightarrow> decode_valid w"
  by (auto simp: rvc_expansion_def rvc_c0_def rvc_c1_def rvc_c1_alu_def rvc_c2_def Let_def gen_valid shift_valid ebreak_valid split: if_splits)

text \<open>Every opcode ends in \<open>11\<close>; a parcel left as it is does not.\<close>

lemma low_bits_valid: "decode_valid b \<Longrightarrow> bits 1 0 b = 3"
proof -
  assume "decode_valid b"
  then have "take_bit 2 (op_of b) = 3"
    by (auto simp: decode_valid_def Let_def split: if_splits)
  moreover have "bits 1 0 b = ucast (take_bit 2 (op_of b))"
    by (rule bit_word_eqI) (auto simp: op_of_def bit_simps word_slices)
  ultimately show ?thesis by simp
qed

lemma low_bits_ucast: "bits 1 0 i = ucast (bits 1 0 (ucast (i :: u16) :: u32))"
  by (rule bit_word_eqI) (auto simp: bit_simps word_slices)

lemma ucast_low_bits: "bits 1 0 (ucast (i :: u16) :: u32) = 3 \<Longrightarrow> bits 1 0 i = 3"
  by (subst low_bits_ucast) simp

lemma rvc_none_invalid: "rvc_expansion i = None \<Longrightarrow> rvc_is_rvc i \<Longrightarrow> \<not> decode_valid (ucast i)"
proof
  assume "rvc_is_rvc i" "decode_valid (ucast i)"
  moreover have "bits 1 0 i = ucast (bits 1 0 (ucast i :: u32))" by (rule low_bits_ucast)
  ultimately show False using low_bits_valid [of "ucast i"] by (simp add: rvc_is_rvc_def)
qed



section \<open>The ALU and the branch unit behind the decoder\<close>

lemma encoded_alu:
  "alu (decode_ctrl r (gen_add rd rs1 rs2)) a b = a + b"
  "alu (decode_ctrl r (gen_sub rd rs1 rs2)) a b = a - b"
  "alu (decode_ctrl r (gen_addw rd rs1 rs2)) a b = scast (ucast a + ucast b :: u32)"
  "alu (decode_ctrl r (gen_subw rd rs1 rs2)) a b = scast (ucast a - ucast b :: u32)"
  "alu (decode_ctrl r (inst_xor rd rs1 rs2)) a b = a XOR b"
  "alu (decode_ctrl r (inst_or rd rs1 rs2)) a b = a OR b"
  "alu (decode_ctrl r (inst_and rd rs1 rs2)) a b = a AND b"
  "alu (decode_ctrl r (gen_addi rd rs1 imm)) a b = a + b"
  "alu (decode_ctrl r (gen_addiw rd rs1 imm)) a b = scast (ucast a + ucast b :: u32)"
  "alu (decode_ctrl r (gen_andi rd rs1 imm)) a b = a AND b"
  "alu (decode_ctrl r (gen_load rd rs1 imm f3)) a b = a + b"
  "alu (decode_ctrl r (gen_store rs1 rs2 imm f3)) a b = a + b"
  by (simp_all add: alu_def decode_ctrl_def gen_defs fields sel_w_def Let_def)

lemma encoded_shift:
  "alu (decode_ctrl r (gen_slli rd rs1 sh)) a b = push_bit (unat (take_bit 6 b)) a"
  "alu (decode_ctrl r (gen_srli rd rs1 sh)) a b = drop_bit (unat (take_bit 6 b)) a"
  "alu (decode_ctrl r (gen_srai rd rs1 sh)) a b = signed_drop_bit (unat (take_bit 6 b)) a"
proof -
  have "bit (f7_of (gen_srli rd rs1 sh)) 5 = bit (drop_bit 1 (f7_of (gen_srli rd rs1 sh))) 4"
    "bit (f7_of (gen_srai rd rs1 sh)) 5 = bit (drop_bit 1 (f7_of (gen_srai rd rs1 sh))) 4"
    by (simp_all add: bit_simps del: drop_bit_Suc)
  then have "\<not> bit (f7_of (gen_srli rd rs1 sh)) 5" "bit (f7_of (gen_srai rd rs1 sh)) 5"
    unfolding shamt_fields by simp_all
  then show "alu (decode_ctrl r (gen_slli rd rs1 sh)) a b = push_bit (unat (take_bit 6 b)) a"
    "alu (decode_ctrl r (gen_srli rd rs1 sh)) a b = drop_bit (unat (take_bit 6 b)) a"
    "alu (decode_ctrl r (gen_srai rd rs1 sh)) a b = signed_drop_bit (unat (take_bit 6 b)) a"
    by (simp_all add: alu_def decode_ctrl_def gen_slli_def gen_srli_def gen_srai_def fields sel_w_def Let_def)
qed

lemma brunit_negates: "f3 \<in> {0, 4, 6} \<Longrightarrow> brunit (f3 OR 1) a b = (\<not> brunit f3 a b)"
  by (auto simp: brunit_def)


section \<open>Properties\<close>

text \<open>
  The instruction set's own table of 16-bit instructions for RV64IMAC, by quadrant and function field,
  with the operands each row forbids; hints are instructions. (The floating-point rows are the C
  extension's with F or D and are not here.)
\<close>

definition rv64imac_parcel :: "u16 \<Rightarrow> bool" where
  "rv64imac_parcel i \<longleftrightarrow>
     (let n = unat i; q = n mod 4; f = n div 2 ^ 13; rd = n div 2 ^ 7 mod 32; rs2 = n div 2 ^ 2 mod 32;
          bit12 = odd (n div 2 ^ 12); bit6 = odd (n div 2 ^ 6)
      in q = 0 \<and> (f = 0 \<and> n div 2 ^ 5 mod 2 ^ 8 \<noteq> 0                 \<comment> \<open>c.addi4spn, immediate not 0\<close>
                  \<or> f \<in> {2, 3, 6, 7})                               \<comment> \<open>c.lw, c.ld, c.sw, c.sd\<close>
       \<or> q = 1 \<and> (f \<in> {0, 2, 5, 6, 7}                              \<comment> \<open>c.addi, c.li, c.j, c.beqz, c.bnez\<close>
                  \<or> f = 1 \<and> rd \<noteq> 0                                 \<comment> \<open>c.addiw\<close>
                  \<or> f = 3 \<and> (bit12 \<or> rs2 \<noteq> 0)                      \<comment> \<open>c.lui, c.addi16sp, immediate not 0\<close>
                  \<or> f = 4 \<and> (n div 2 ^ 10 mod 4 \<noteq> 3                 \<comment> \<open>c.srli, c.srai, c.andi\<close>
                           \<or> \<not> bit12                              \<comment> \<open>c.sub, c.xor, c.or, c.and\<close>
                           \<or> \<not> bit6))                             \<comment> \<open>c.subw, c.addw\<close>
       \<or> q = 2 \<and> (f \<in> {0, 6, 7}                                    \<comment> \<open>c.slli, c.swsp, c.sdsp\<close>
                  \<or> f \<in> {2, 3} \<and> rd \<noteq> 0                            \<comment> \<open>c.lwsp, c.ldsp\<close>
                  \<or> f = 4 \<and> (bit12 \<or> rs2 \<noteq> 0 \<or> rd \<noteq> 0)))"

text \<open>The four rows whose reserved operand the converter does not look at, the last being \<open>c.jr x0\<close>.\<close>

definition reserved_operand :: "u16 \<Rightarrow> bool" where
  "reserved_operand i \<longleftrightarrow>
     (let n = unat i; q = n mod 4; f = n div 2 ^ 13; rd = n div 2 ^ 7 mod 32; rs2 = n div 2 ^ 2 mod 32;
          bit12 = odd (n div 2 ^ 12)
      in i \<noteq> 0 \<and> q = 0 \<and> f = 0 \<and> n div 2 ^ 5 mod 2 ^ 8 = 0
       \<or> q = 1 \<and> f = 1 \<and> rd = 0
       \<or> q = 1 \<and> f = 3 \<and> \<not> bit12 \<and> rs2 = 0
       \<or> q = 2 \<and> f = 4 \<and> \<not> bit12 \<and> rs2 = 0 \<and> rd = 0)"

text \<open>What the converter has no case for.\<close>

definition no_expansion :: "u16 \<Rightarrow> bool" where
  "no_expansion i \<longleftrightarrow>
     (let q = unat i mod 4; f = unat i div 2 ^ 13; rd = unat i div 2 ^ 7 mod 32
      in i = 0 \<or> (q = 0 \<and> f \<in> {1, 4, 5}) \<or> (q = 1 \<and> f = 4 \<and> unat i div 2 ^ 10 mod 8 = 7 \<and> odd (unat i div 2 ^ 6)) \<or>
         (q = 2 \<and> (f \<in> {1, 5} \<or> (f \<in> {2, 3} \<and> rd = 0))))"

lemma field_eq: "bits hi lo (i :: u16) = numeral k \<longleftrightarrow> unat i div 2 ^ lo mod 2 ^ (Suc hi - lo) = unat (numeral k :: u16)"
  "bits hi lo i = 0 \<longleftrightarrow> unat i div 2 ^ lo mod 2 ^ (Suc hi - lo) = 0"
  "bits hi lo i = 1 \<longleftrightarrow> unat i div 2 ^ lo mod 2 ^ (Suc hi - lo) = 1"
  by (simp_all only: word_unat_eq_iff unat_bits unsigned_0 unsigned_1)

lemma parcel_fields:
  "unat (i :: u16) div 2 ^ 13 < 8" "rvc_rs1 i = 0 \<longleftrightarrow> unat i div 2 ^ 7 mod 32 = 0"
  "bit i 12 \<longleftrightarrow> odd (unat i div 2 ^ 12)"
proof -
  have "unat i < 2 ^ LENGTH(16)" by (rule unsigned_less)
  then show "unat i div 2 ^ 13 < 8" by (simp add: less_mult_imp_div_less)
  have "unat (rvc_rs1 i) = unat i div 2 ^ 7 mod 32"
    by (simp add: rvc_rs1_def unsigned_ucast_eq unat_bits take_bit_eq_mod)
  then show "rvc_rs1 i = 0 \<longleftrightarrow> unat i div 2 ^ 7 mod 32 = 0" by (simp only: word_unat_eq_iff unsigned_0)
  show "bit i 12 \<longleftrightarrow> odd (unat i div 2 ^ 12)"
    unfolding bit_iff_odd [of "unat i", symmetric] by (simp add: bit_unsigned_iff)
qed

lemma rvc_c1_alu_none:
  "rvc_c1_alu i = None \<longleftrightarrow> unat i div 2 ^ 10 mod 8 = 7 \<and> odd (unat i div 2 ^ 6)"
proof -
  define k where "k = unat i div 2 ^ 10"
  define l where "l = unat i div 2 ^ 5"
  have "rvc_c1_alu i = None \<longleftrightarrow> k mod 4 \<noteq> 0 \<and> k mod 4 \<noteq> 1 \<and> k mod 4 \<noteq> 2 \<and> odd (k div 4) \<and> l mod 4 \<noteq> 0 \<and> l mod 4 \<noteq> 1"
    by (simp add: rvc_c1_alu_def Let_def field_eq parcel_fields k_def l_def div_mult2_eq [symmetric])
  moreover have "unat i div 2 ^ 6 = l div 2" by (simp add: l_def div_mult2_eq [symmetric])
  moreover have "k mod 4 \<noteq> 0 \<and> k mod 4 \<noteq> 1 \<and> k mod 4 \<noteq> 2 \<and> odd (k div 4) \<longleftrightarrow> k mod 8 = 7"
    "l mod 4 \<noteq> 0 \<and> l mod 4 \<noteq> 1 \<longleftrightarrow> odd (l div 2)" by presburger+
  ultimately show ?thesis unfolding k_def [symmetric] by argo
qed

lemma rvc_none_iff:
  assumes "rvc_is_rvc i"
  shows "rvc_expansion i = None \<longleftrightarrow> no_expansion i"
proof -
  define q f where "q = unat i mod 4" and "f = unat i div 2 ^ 13"
  have f: "rvc_funct3 i = numeral k \<longleftrightarrow> f = unat (numeral k :: u16)" "rvc_funct3 i = 0 \<longleftrightarrow> f = 0" "rvc_funct3 i = 1 \<longleftrightarrow> f = 1" for k
    using parcel_fields(1) [of i] by (simp_all add: rvc_funct3_def field_eq f_def)
  have q: "bits 1 0 i = 0 \<longleftrightarrow> q = 0" "bits 1 0 i = 1 \<longleftrightarrow> q = 1" "bits 1 0 i = 2 \<longleftrightarrow> q = 2" "bits 1 0 i = 3 \<longleftrightarrow> q = 3"
    by (simp_all add: field_eq q_def)
  have b: "f < 8" "q < 4" "q \<noteq> 3"
    using parcel_fields(1) [of i] assms q(4) by (simp_all add: f_def q_def rvc_is_rvc_def)
  have 0: "rvc_c0 i = None \<longleftrightarrow> (f = 0 \<and> i = 0) \<or> f \<in> {1, 4, 5}"
    using b(1) by (auto simp: rvc_c0_def Let_def f)
  have 1: "rvc_c1 i = None \<longleftrightarrow> f = 4 \<and> rvc_c1_alu i = None"
    by (auto simp: rvc_c1_def Let_def f)
  have 2: "rvc_c2 i = None \<longleftrightarrow> f \<in> {1, 5} \<or> f \<in> {2, 3} \<and> unat i div 2 ^ 7 mod 32 = 0"
    using b(1) by (auto simp: rvc_c2_def Let_def f parcel_fields)
  have z: "i = 0 \<Longrightarrow> q = 0 \<and> f = 0" by (simp add: q_def f_def)
  have "rvc_expansion i = None \<longleftrightarrow> (q = 0 \<and> rvc_c0 i = None) \<or> (q = 1 \<and> rvc_c1 i = None) \<or> (q = 2 \<and> rvc_c2 i = None)"
    unfolding rvc_expansion_def Let_def q using b by auto
  then show ?thesis
    unfolding 0 1 2 rvc_c1_alu_none no_expansion_def Let_def q_def [symmetric] f_def [symmetric] using z by auto
qed

lemma expansion_iff:
  assumes "rvc_is_rvc i"
  shows "\<not> no_expansion i \<longleftrightarrow> rv64imac_parcel i \<or> reserved_operand i" and "\<not> (rv64imac_parcel i \<and> reserved_operand i)"
proof -
  define q f rd rs2 k where "q = unat i mod 4" and "f = unat i div 2 ^ 13" and "rd = unat i div 2 ^ 7 mod 32"
    and "rs2 = unat i div 2 ^ 2 mod 32" and "k = unat i div 2 ^ 10"
  define imm where "imm = unat i div 2 ^ 5 mod 2 ^ 8"
  have f: "f < 8" using parcel_fields(1) [of i] by (simp add: f_def)
  have "bits 1 0 i = 3 \<longleftrightarrow> q = 3" by (simp add: field_eq q_def)
  moreover have "q < 4" by (simp add: q_def)
  ultimately have q: "q = 0 \<or> q = 1 \<or> q = 2" using assms by (simp add: rvc_is_rvc_def) linarith
  have f8: "f = 0 \<or> f = 1 \<or> f = 2 \<or> f = 3 \<or> f = 4 \<or> f = 5 \<or> f = 6 \<or> f = 7" using f by linarith
  have z: "i = 0 \<Longrightarrow> q = 0 \<and> f = 0 \<and> imm = 0" by (simp add: q_def f_def imm_def)
  have k12: "unat i div 2 ^ 12 = k div 4" by (simp add: k_def div_mult2_eq [symmetric])
  have k8: "k mod 8 = 7 \<longleftrightarrow> k mod 4 = 3 \<and> odd (k div 4)" by presburger
  note defs = no_expansion_def rv64imac_parcel_def reserved_operand_def Let_def q_def [symmetric] f_def [symmetric]
    rd_def [symmetric] rs2_def [symmetric] imm_def [symmetric] k12 k_def [symmetric] k8
  show "\<not> no_expansion i \<longleftrightarrow> rv64imac_parcel i \<or> reserved_operand i"
    unfolding defs using q f8 z by (elim disjE) auto
  show "\<not> (rv64imac_parcel i \<and> reserved_operand i)"
    unfolding defs using q f8 by (elim disjE) auto
qed

text \<open>
  C39. Every compressed instruction becomes a full one. A 16-bit parcel (low bits not 11) that is an
  instruction of RV64IMAC expands to a full-length instruction the decoder accepts. Of the parcels
  that are none, all but four kinds reach the decoder unchanged, and it rejects them; the four are
  reserved operands the converter does not look at (\<open>c.addi4spn\<close>, \<open>c.lui\<close> and \<open>c.addi16sp\<close> with a zero
  immediate, \<open>c.addiw\<close> to \<open>x0\<close>, \<open>c.jr x0\<close>), which the core executes.
\<close>

theorem rvc_expands_to_valid:
  assumes "rvc_is_rvc i"
  shows "decode_valid (rvc_converter i) = (rv64imac_parcel i \<or> reserved_operand i) \<and>
    \<not> (rv64imac_parcel i \<and> reserved_operand i) \<and>
    (bits 1 0 (rvc_converter i) = 3) = (rv64imac_parcel i \<or> reserved_operand i) \<and>
    (rvc_converter i = ucast i) = (\<not> rv64imac_parcel i \<and> \<not> reserved_operand i)"
proof (cases "rvc_expansion i")
  case None
  then have "\<not> decode_valid (ucast i)" using rvc_none_invalid assms by simp
  moreover have "bits 1 0 (ucast i :: u32) \<noteq> 3" using ucast_low_bits assms by (auto simp: rvc_is_rvc_def)
  ultimately show ?thesis using None rvc_none_iff [OF assms] expansion_iff [OF assms] by (simp add: rvc_converter_def)
next
  case (Some w)
  then have v: "decode_valid w" by (rule rvc_some_valid)
  moreover have "w \<noteq> ucast i"
  proof
    assume "w = ucast i"
    then have "bits 1 0 i = 3" using low_bits_valid [OF v] ucast_low_bits [of i] by simp
    then show False using assms by (simp add: rvc_is_rvc_def)
  qed
  ultimately show ?thesis
    using Some rvc_none_iff [OF assms] low_bits_valid [OF v] expansion_iff [OF assms] by (simp add: rvc_converter_def)
qed

theorem rvc_expands_to_valid_witness:
  "decode_valid (rvc_converter 0x852e) \<and> decode_valid (rvc_converter 0x8002) \<and> \<not> decode_valid (rvc_converter 0x9c61)"
proof -
  have "rvc_is_rvc 0x852e" "rvc_is_rvc 0x8002" "rvc_is_rvc 0x9c61" by (simp_all add: rvc_is_rvc_def field_eq)
  note t = this [THEN rvc_expands_to_valid]
  have "rv64imac_parcel 0x852e" "reserved_operand 0x8002" "\<not> rv64imac_parcel 0x9c61" "\<not> reserved_operand 0x9c61"
    by (simp_all add: rv64imac_parcel_def reserved_operand_def)
  then show ?thesis using t by blast
qed

end
