(* ===== verification/LoadStore.thy ===== *)
theory LoadStore
  imports Translate Decode TrapFrame
begin

text \<open>
  The load/store unit of the memory stage, \<open>src/memunit.sv\<close>: alignment, PMP and translation of an
  access, the split of one that crosses a doubleword, the wait states and the fast-load port. The
  bus (\<open>core_data_if\<close>) and the translation unit are the inputs of each cycle. The trace texts, the
  fault detail they print and the performance counters are left out.
\<close>

unbundle bit_operations_syntax

section \<open>Functions of the module\<close>

definition MMAP_RAM_END :: u64 where "MMAP_RAM_END = 0x80000000 + push_bit 24 1"

definition access_size_bytes :: "3 word \<Rightarrow> 4 word" where
  "access_size_bytes f3 =
     (if f3 AND 3 = 0 then 1 else if f3 AND 3 = 1 then 2 else if f3 AND 3 = 2 then 4 else 8)"

definition byte_mask :: "4 word \<Rightarrow> u8" where
  "byte_mask n =
     (if n = 0 then 0x00 else if n = 1 then 0x01 else if n = 2 then 0x03 else if n = 3 then 0x07
      else if n = 4 then 0x0f else if n = 5 then 0x1f else if n = 6 then 0x3f else if n = 7 then 0x7f else 0xff)"

definition access_misaligned :: "3 word \<Rightarrow> u64 \<Rightarrow> bool" where
  "access_misaligned f3 a =
     (if f3 AND 3 = 0 then False else if f3 AND 3 = 1 then bits 0 0 a \<noteq> 0
      else if f3 AND 3 = 2 then bits 1 0 a \<noteq> 0 else bits 2 0 a \<noteq> 0)"

definition amo_misaligned :: "3 word \<Rightarrow> u64 \<Rightarrow> bool" where
  "amo_misaligned f3 a = (if f3 = 2 then bits 1 0 a \<noteq> 0 else if f3 = 3 then bits 2 0 a \<noteq> 0 else True)"

definition AMO_LR :: "5 word" where "AMO_LR = 2"
definition AMO_SC :: "5 word" where "AMO_SC = 3"

definition amo_needs_write_permission :: "5 word \<Rightarrow> bool" where
  "amo_needs_write_permission amoop \<longleftrightarrow> amoop \<noteq> AMO_LR"

definition mem_access_needs_write_permission :: "bool \<Rightarrow> bool \<Rightarrow> 5 word \<Rightarrow> bool" where
  "mem_access_needs_write_permission access_wen access_is_amo amoop \<longleftrightarrow>
     access_wen \<and> (\<not> access_is_amo \<or> amo_needs_write_permission amoop)"

definition is_normal_memory :: "u64 \<Rightarrow> bool" where
  "is_normal_memory a \<longleftrightarrow> (a \<ge> 0x80000000 \<and> a < MMAP_RAM_END) \<or> (a \<ge> 0x1000 \<and> a \<le> 0x1000 + 0x3ff)"

text \<open>\<open>{{n{s}}, v}\<close>: the low \<open>n\<close> bits of \<open>v\<close> under copies of \<open>s\<close>.\<close>

definition fill_above :: "nat \<Rightarrow> bool \<Rightarrow> u64 \<Rightarrow> u64" where
  "fill_above n s v = (if s then NOT (mask n) else 0) OR take_bit n v"

definition extract_load_data :: "128 word \<Rightarrow> 3 word \<Rightarrow> 3 word \<Rightarrow> u64" where
  "extract_load_data data offset f3 =
     (let shifted = ucast (drop_bit (8 * unat offset) data) :: u64
      in if f3 AND 3 = 0 then fill_above 8 (\<not> bit f3 2 \<and> bit shifted 7) shifted
         else if f3 AND 3 = 1 then fill_above 16 (\<not> bit f3 2 \<and> bit shifted 15) shifted
         else if f3 AND 3 = 2 then fill_above 32 (\<not> bit f3 2 \<and> bit shifted 31) shifted
         else shifted)"

definition join128 :: "u64 \<Rightarrow> u64 \<Rightarrow> 128 word" where
  "join128 hi lo = push_bit 64 (ucast hi) OR ucast lo"

definition split_store_second_wdata :: "u64 \<Rightarrow> 3 word \<Rightarrow> u64" where
  "split_store_second_wdata data offset = drop_bit (unat (push_bit 3 (8 - ucast offset :: 6 word))) data"


section \<open>Ports and registers\<close>

text \<open>The instruction in the stage, and the rest of a cycle's inputs.\<close>

record mem_op =
  o_ctrl :: inst_ctrl
  o_priv :: priv
  o_satp :: u64
  o_sum :: bool
  o_mxr :: bool
  o_pmp :: csr_file
  o_addr :: u64
  o_rs2 :: u64

record mu_in =
  m_valid :: bool
  m_is_new :: bool
  t_rsp_valid :: bool
  t_fault :: bool
  t_fault_cause :: u64
  t_fault_value :: u64
  t_pa :: u64
  t_mem_valid :: bool
  t_mem_addr :: u64
  b_ready :: bool
  b_rvalid :: bool
  b_rdata :: u64
  f_valid :: bool
  f_data :: u64

datatype mu_state = MuInit | TranslateWait | AccessWaitReady | AccessWaitValid
  | SplitAccessWaitReady | SplitAccessWaitValid | DiscardWaitValid | MuFault

datatype mem_owner = MemOwnerNone | MemOwnerTranslation | MemOwnerData

record memunit =
  mu_state :: mu_state
  mem_owner :: mem_owner
  q_wen :: bool
  q_vaddr :: u64
  q_paddr :: u64
  q_rs2 :: u64
  q_wdata :: u64
  q_wmask :: u8
  q_is_amo :: bool
  q_amoop :: "5 word"
  q_aq :: bool
  q_rl :: bool
  q_funct3 :: "3 word"
  q_offset :: "3 word"
  q_size :: "4 word"
  q_crosses_word :: bool
  q_first_rdata :: u64
  load_result :: u64
  fault_cause :: u64
  fault_value :: u64

record bus_req =
  r_addr :: u64
  r_wen :: bool
  r_wdata :: u64
  r_wmask :: u8
  r_is_amo :: bool
  r_amoop :: "5 word"
  r_aq :: bool
  r_rl :: bool
  r_funct3 :: "3 word"

definition memunit_reset :: memunit where
  "memunit_reset = \<lparr>mu_state = MuInit, mem_owner = MemOwnerNone, q_wen = False, q_vaddr = 0, q_paddr = 0, q_rs2 = 0,
     q_wdata = 0, q_wmask = 0, q_is_amo = False, q_amoop = 0, q_aq = False, q_rl = False, q_funct3 = 0, q_offset = 0,
     q_size = 0, q_crosses_word = False, q_first_rdata = 0, load_result = 0, fault_cause = 0, fault_value = 0\<rparr>"


section \<open>Combinational logic\<close>

definition op_amoop :: "mem_op \<Rightarrow> 5 word" where
  "op_amoop p = ucast (drop_bit 2 (funct7 (o_ctrl p)))"

definition need_translate :: "mem_op \<Rightarrow> bool" where
  "need_translate p \<longleftrightarrow> bits 63 60 (o_satp p) = 8 \<and> o_priv p \<noteq> PRIV_M"

definition req_needs_write_permission :: "memunit \<Rightarrow> bool" where
  "req_needs_write_permission s = mem_access_needs_write_permission (q_wen s) (q_is_amo s) (q_amoop s)"

definition current_needs_write_permission :: "mem_op \<Rightarrow> bool" where
  "current_needs_write_permission p =
     mem_access_needs_write_permission (inst_is_store (o_ctrl p)) (is_amo (o_ctrl p)) (op_amoop p)"

definition access_kind :: "bool \<Rightarrow> access_type" where
  "access_kind w = (if w then PMP_ACCESS_WRITE else PMP_ACCESS_READ)"

text \<open>The request on the port of \<open>data_translation\<close>.\<close>

definition mem_request :: "mem_op \<Rightarrow> xl_in" where
  "mem_request p = \<lparr>x_flush = False, x_tlb_flush = False, x_req_valid = True, x_req_va = o_addr p,
     x_req_priv_mode = o_priv p, x_req_access_type = access_kind (current_needs_write_permission p),
     x_req_sum = o_sum p, x_req_mxr = o_mxr p, x_satp = o_satp p, x_rsp_ready = True, x_mem_ready = False,
     x_mem_rvalid = False, x_mem_error = False, x_mem_rdata = 0\<rparr>"

definition data_pmp_allow :: "mem_op \<Rightarrow> mu_in \<Rightarrow> memunit \<Rightarrow> bool" where
  "data_pmp_allow p i s =
     pmp_allow (o_priv p) (o_pmp p)
       (if mu_state s = TranslateWait \<and> t_rsp_valid i \<and> \<not> t_fault i then t_pa i else o_addr p)
       (ucast (if mu_state s = TranslateWait then q_size s else access_size_bytes (funct3 (o_ctrl p))))
       (access_kind (if mu_state s = TranslateWait then req_needs_write_permission s else current_needs_write_permission p))"

definition data_mem_rvalid :: "mu_in \<Rightarrow> memunit \<Rightarrow> bool" where
  "data_mem_rvalid i s \<longleftrightarrow> b_rvalid i \<and> mem_owner s = MemOwnerData"

definition translated_access_can_issue :: "mem_op \<Rightarrow> mu_in \<Rightarrow> memunit \<Rightarrow> bool" where
  "translated_access_can_issue p i s \<longleftrightarrow>
     m_valid i \<and> mu_state s = TranslateWait \<and> t_rsp_valid i \<and> \<not> t_fault i \<and>
     \<not> (access_misaligned (q_funct3 s) (q_vaddr s) \<and> \<not> is_normal_memory (t_pa i)) \<and> data_pmp_allow p i s"

definition translated_fast_load_candidate :: "mem_op \<Rightarrow> mu_in \<Rightarrow> memunit \<Rightarrow> bool" where
  "translated_fast_load_candidate p i s \<longleftrightarrow>
     translated_access_can_issue p i s \<and> \<not> q_wen s \<and> \<not> q_is_amo s \<and> \<not> q_crosses_word s"

definition access_fast_load_candidate :: "mu_in \<Rightarrow> memunit \<Rightarrow> bool" where
  "access_fast_load_candidate i s \<longleftrightarrow>
     m_valid i \<and> mu_state s = AccessWaitReady \<and> \<not> q_wen s \<and> \<not> q_is_amo s \<and> \<not> q_crosses_word s"

definition translated_fast_load_complete :: "mem_op \<Rightarrow> mu_in \<Rightarrow> memunit \<Rightarrow> bool" where
  "translated_fast_load_complete p i s \<longleftrightarrow> translated_fast_load_candidate p i s \<and> f_valid i"

definition access_fast_load_complete :: "mu_in \<Rightarrow> memunit \<Rightarrow> bool" where
  "access_fast_load_complete i s \<longleftrightarrow> access_fast_load_candidate i s \<and> f_valid i"

definition data_fast_load_complete :: "mem_op \<Rightarrow> mu_in \<Rightarrow> memunit \<Rightarrow> bool" where
  "data_fast_load_complete p i s \<longleftrightarrow> translated_fast_load_complete p i s \<or> access_fast_load_complete i s"

definition fast_load_req :: "mem_op \<Rightarrow> mu_in \<Rightarrow> memunit \<Rightarrow> bool" where
  "fast_load_req p i s \<longleftrightarrow>
     \<not> t_mem_valid i \<and> (translated_fast_load_candidate p i s \<or> access_fast_load_candidate i s)"

definition fast_load_addr :: "mem_op \<Rightarrow> mu_in \<Rightarrow> memunit \<Rightarrow> u64" where
  "fast_load_addr p i s = (if translated_fast_load_candidate p i s then t_pa i else q_paddr s)"

definition translation_mem_fire :: "mu_in \<Rightarrow> bool" where
  "translation_mem_fire i \<longleftrightarrow> m_valid i \<and> t_mem_valid i \<and> b_ready i"

definition translated_data_mem_fire :: "mem_op \<Rightarrow> mu_in \<Rightarrow> memunit \<Rightarrow> bool" where
  "translated_data_mem_fire p i s \<longleftrightarrow>
     translated_access_can_issue p i s \<and> \<not> translated_fast_load_complete p i s \<and> b_ready i"

definition first_data_mem_fire :: "mu_in \<Rightarrow> memunit \<Rightarrow> bool" where
  "first_data_mem_fire i s \<longleftrightarrow>
     m_valid i \<and> mu_state s = AccessWaitReady \<and> \<not> access_fast_load_complete i s \<and> b_ready i"

definition split_data_mem_fire :: "mu_in \<Rightarrow> memunit \<Rightarrow> bool" where
  "split_data_mem_fire i s \<longleftrightarrow> m_valid i \<and> mu_state s = SplitAccessWaitReady \<and> b_ready i"

definition data_read_mem_fire :: "mem_op \<Rightarrow> mu_in \<Rightarrow> memunit \<Rightarrow> bool" where
  "data_read_mem_fire p i s \<longleftrightarrow>
     translated_data_mem_fire p i s \<and> (\<not> q_wen s \<or> q_is_amo s) \<or>
     first_data_mem_fire i s \<and> (\<not> q_wen s \<or> q_is_amo s) \<or>
     split_data_mem_fire i s \<and> \<not> q_wen s"

definition response_will_be_outstanding :: "mem_op \<Rightarrow> mu_in \<Rightarrow> memunit \<Rightarrow> bool" where
  "response_will_be_outstanding p i s \<longleftrightarrow>
     mem_owner s \<noteq> MemOwnerNone \<and> \<not> b_rvalid i \<or> translation_mem_fire i \<or> data_read_mem_fire p i s"

text \<open>The request on the bus; \<open>None\<close> is \<open>valid\<close> low.\<close>

definition access_request :: "u64 \<Rightarrow> memunit \<Rightarrow> bus_req" where
  "access_request a s = \<lparr>r_addr = a, r_wen = q_wen s, r_wdata = q_wdata s, r_wmask = q_wmask s,
     r_is_amo = q_is_amo s, r_amoop = q_amoop s, r_aq = q_aq s, r_rl = q_rl s, r_funct3 = q_funct3 s\<rparr>"

definition table_request :: "u64 \<Rightarrow> bus_req" where
  "table_request a = \<lparr>r_addr = a, r_wen = False, r_wdata = 0, r_wmask = 0, r_is_amo = False, r_amoop = 0,
     r_aq = False, r_rl = False, r_funct3 = 3\<rparr>"

definition split_request :: "memunit \<Rightarrow> bus_req" where
  "split_request s = \<lparr>r_addr = (q_paddr s AND NOT 7) + 8, r_wen = q_wen s,
     r_wdata = (if q_wen s then split_store_second_wdata (q_rs2 s) (q_offset s) else 0),
     r_wmask = (if q_wen s then byte_mask (q_size s - (8 - ucast (q_offset s))) else 0),
     r_is_amo = False, r_amoop = 0, r_aq = False, r_rl = False, r_funct3 = q_funct3 s\<rparr>"

definition mu_request :: "mem_op \<Rightarrow> mu_in \<Rightarrow> memunit \<Rightarrow> bus_req option" where
  "mu_request p i s =
     (if m_valid i \<and> t_mem_valid i then Some (table_request (t_mem_addr i))
      else if translated_fast_load_candidate p i s
      then (if translated_fast_load_complete p i s then None else Some (access_request (t_pa i) s))
      else if translated_access_can_issue p i s then Some (access_request (t_pa i) s)
      else if access_fast_load_candidate i s
      then (if access_fast_load_complete i s then None else Some (access_request (q_paddr s) s))
      else if m_valid i \<and> mu_state s = AccessWaitReady then Some (access_request (q_paddr s) s)
      else if m_valid i \<and> mu_state s = SplitAccessWaitReady then Some (split_request s)
      else None)"

text \<open>The outputs to the pipeline.\<close>

definition mu_rdata :: "mem_op \<Rightarrow> mu_in \<Rightarrow> memunit \<Rightarrow> u64" where
  "mu_rdata p i s =
     (if data_fast_load_complete p i s then extract_load_data (join128 0 (f_data i)) (q_offset s) (q_funct3 s)
      else if q_is_amo s \<and> q_amoop s = AMO_SC then b_rdata i
      else if q_crosses_word s \<and> mu_state s = SplitAccessWaitValid \<and> data_mem_rvalid i s
      then extract_load_data (join128 (b_rdata i) (q_first_rdata s)) (q_offset s) (q_funct3 s)
      else if q_crosses_word s then load_result s
      else extract_load_data (join128 0 (b_rdata i)) (q_offset s) (q_funct3 s))"

definition mu_paddr :: "mem_op \<Rightarrow> mu_in \<Rightarrow> memunit \<Rightarrow> u64" where
  "mu_paddr p i s = (if translated_fast_load_complete p i s then t_pa i else q_paddr s)"

definition mu_stall :: "mem_op \<Rightarrow> mu_in \<Rightarrow> memunit \<Rightarrow> bool" where
  "mu_stall p i s =
     (case mu_state s of
        MuInit \<Rightarrow> m_valid i \<and> m_is_new i \<and> inst_is_memop (o_ctrl p)
      | TranslateWait \<Rightarrow> m_valid i \<and> \<not> translated_fast_load_complete p i s
      | AccessWaitReady \<Rightarrow> m_valid i \<and> \<not> access_fast_load_complete i s
      | AccessWaitValid \<Rightarrow> m_valid i \<and> (\<not> data_mem_rvalid i s \<or> q_crosses_word s)
      | SplitAccessWaitReady \<Rightarrow> m_valid i
      | SplitAccessWaitValid \<Rightarrow> m_valid i \<and> \<not> data_mem_rvalid i s
      | DiscardWaitValid \<Rightarrow> m_valid i
      | MuFault \<Rightarrow> False)"

definition mu_expt :: "memunit \<Rightarrow> (u64 \<times> u64) option" where
  "mu_expt s = (if mu_state s = MuFault then Some (fault_cause s, fault_value s) else None)"


section \<open>One clock edge\<close>

definition mu_raise :: "u64 \<Rightarrow> u64 \<Rightarrow> memunit \<Rightarrow> memunit" where
  "mu_raise cause value s = s\<lparr>fault_cause := cause, fault_value := value, mu_state := MuFault\<rparr>"

definition latch_request :: "mem_op \<Rightarrow> memunit \<Rightarrow> memunit" where
  "latch_request p s =
     (let f3 = funct3 (o_ctrl p); a = o_addr p; size = access_size_bytes f3; off = ucast (bits 2 0 a) :: 3 word;
          crosses = (\<not> is_amo (o_ctrl p) \<and> ucast off + size > 8)
      in s\<lparr>q_wen := inst_is_store (o_ctrl p), q_vaddr := a, q_paddr := a, q_rs2 := o_rs2 p,
           q_wdata := push_bit (8 * unat off) (o_rs2 p), q_is_amo := is_amo (o_ctrl p), q_amoop := op_amoop p,
           q_aq := bit (funct7 (o_ctrl p)) 1, q_rl := bit (funct7 (o_ctrl p)) 0, q_funct3 := f3, q_offset := off,
           q_size := size, q_crosses_word := crosses,
           q_wmask := push_bit (unat off) (byte_mask (if crosses then 8 - ucast off else size))\<rparr>)"

definition mu_accept :: "mem_op \<Rightarrow> mu_in \<Rightarrow> memunit \<Rightarrow> memunit" where
  "mu_accept p i s =
     (let c = o_ctrl p; a = o_addr p; t = latch_request p s; misaligned = (if is_load c then 4 else 6)
      in if is_amo c \<and> amo_misaligned (funct3 c) a then mu_raise 6 a t
         else if \<not> need_translate p \<and> access_misaligned (funct3 c) a \<and> \<not> is_normal_memory a
         then mu_raise misaligned a t
         else if \<not> need_translate p \<and> \<not> data_pmp_allow p i s
         then mu_raise (if current_needs_write_permission p then 7 else 5) a t
         else if need_translate p
         then (if bits 11 0 a + ucast (access_size_bytes (funct3 c)) > 4096 then mu_raise misaligned a t
               else t\<lparr>mu_state := TranslateWait\<rparr>)
         else t\<lparr>mu_state := AccessWaitReady\<rparr>)"

definition mu_translated :: "mem_op \<Rightarrow> mu_in \<Rightarrow> memunit \<Rightarrow> memunit" where
  "mu_translated p i s =
     (if t_fault i then mu_raise (t_fault_cause i) (t_fault_value i) s
      else if access_misaligned (q_funct3 s) (q_vaddr s) \<and> \<not> is_normal_memory (t_pa i)
      then mu_raise (if q_wen s then 6 else 4) (q_vaddr s) s
      else if \<not> data_pmp_allow p i s
      then mu_raise (if req_needs_write_permission s then 7 else 5) (q_vaddr s) s
      else let t = s\<lparr>q_paddr := t_pa i\<rparr>
           in if translated_fast_load_complete p i s then t\<lparr>mu_state := MuInit\<rparr>
              else if translated_data_mem_fire p i s
              then (if q_wen s \<and> \<not> q_is_amo s
                    then t\<lparr>mu_state := (if q_crosses_word s then SplitAccessWaitReady else MuInit)\<rparr>
                    else t\<lparr>mu_state := AccessWaitValid\<rparr>)
              else t\<lparr>mu_state := AccessWaitReady\<rparr>)"

definition mu_advance :: "mem_op \<Rightarrow> mu_in \<Rightarrow> memunit \<Rightarrow> memunit" where
  "mu_advance p i s =
     (case mu_state s of
        MuInit \<Rightarrow> if m_is_new i \<and> inst_is_memop (o_ctrl p) then mu_accept p i s else s
      | TranslateWait \<Rightarrow> if t_rsp_valid i then mu_translated p i s else s
      | AccessWaitReady \<Rightarrow>
          if access_fast_load_complete i s then s\<lparr>mu_state := MuInit\<rparr>
          else if b_ready i
          then (if q_wen s \<and> \<not> q_is_amo s
                then s\<lparr>mu_state := (if q_crosses_word s then SplitAccessWaitReady else MuInit)\<rparr>
                else s\<lparr>mu_state := AccessWaitValid\<rparr>)
          else s
      | AccessWaitValid \<Rightarrow>
          if data_mem_rvalid i s
          then (if q_crosses_word s then s\<lparr>q_first_rdata := b_rdata i, mu_state := SplitAccessWaitReady\<rparr>
                else s\<lparr>mu_state := MuInit\<rparr>)
          else s
      | SplitAccessWaitReady \<Rightarrow>
          if b_ready i then s\<lparr>mu_state := (if q_wen s then MuInit else SplitAccessWaitValid)\<rparr> else s
      | SplitAccessWaitValid \<Rightarrow>
          if data_mem_rvalid i s
          then s\<lparr>load_result := extract_load_data (join128 (b_rdata i) (q_first_rdata s)) (q_offset s) (q_funct3 s),
                 mu_state := MuInit\<rparr>
          else s
      | DiscardWaitValid \<Rightarrow> if b_rvalid i \<or> mem_owner s = MemOwnerNone then s\<lparr>mu_state := MuInit\<rparr> else s
      | MuFault \<Rightarrow> s\<lparr>mu_state := MuInit\<rparr>)"

definition next_owner :: "mem_op \<Rightarrow> mu_in \<Rightarrow> memunit \<Rightarrow> mem_owner" where
  "next_owner p i s =
     (if translation_mem_fire i then MemOwnerTranslation
      else if data_read_mem_fire p i s then MemOwnerData
      else if b_rvalid i then MemOwnerNone else mem_owner s)"

definition mu_step :: "mem_op \<Rightarrow> mu_in \<Rightarrow> memunit \<Rightarrow> memunit" where
  "mu_step p i s =
     (if m_valid i then mu_advance p i s
      else s\<lparr>mu_state := (if response_will_be_outstanding p i s then DiscardWaitValid else MuInit)\<rparr>)
     \<lparr>mem_owner := next_owner p i s\<rparr>"

end
