(* ===== verification/LoadStoreProof.thy ===== *)
theory LoadStoreProof
  imports LoadStore
begin

text \<open>
  What \<open>memunit.sv\<close> does to memory and to the pipeline, against the architectural load and store
  over bytes, whatever its bus and the translation unit make it wait for.
\<close>

unbundle bit_operations_syntax

section \<open>The architectural access\<close>

text \<open>
  The value of a load of \<open>f3\<close>'s size, of the eight bytes from its address, and the memory after a
  store. Both are byte-wise: the doublewords of the bus do not occur.
\<close>

definition load_value :: "3 word \<Rightarrow> u64 \<Rightarrow> u64" where
  "load_value f3 w =
     (let n = 8 * unat (access_size_bytes f3) in if bit f3 2 then take_bit n w else signed_take_bit (n - 1) w)"

definition store_bytes :: "u64 \<Rightarrow> 4 word \<Rightarrow> u64 \<Rightarrow> mem \<Rightarrow> mem" where
  "store_bytes a sz v m = (\<lambda>b. if b - a < ucast sz then ucast (drop_bit (8 * unat (b - a)) v) else m b)"

text \<open>What the bus does with a write: the bytes of one aligned doubleword under the mask.\<close>

definition word_base :: "u64 \<Rightarrow> u64" where
  "word_base a = a AND NOT 7"

definition bus_write :: "u64 \<Rightarrow> u64 \<Rightarrow> u8 \<Rightarrow> mem \<Rightarrow> mem" where
  "bus_write a wdata wmask m =
     (\<lambda>b. let d = b - word_base a
          in if d < 8 \<and> bit wmask (unat d) then ucast (drop_bit (8 * unat d) wdata) else m b)"

definition bus_read :: "u64 \<Rightarrow> mem \<Rightarrow> u64" where
  "bus_read a m = ld m (word_base a)"


section \<open>Lanes\<close>

lemma f3_cases: "(f3 :: 3 word) = 0 \<or> f3 = 1 \<or> f3 = 2 \<or> f3 = 3 \<or> f3 = 4 \<or> f3 = 5 \<or> f3 = 6 \<or> f3 = 7"
proof -
  have "f3 \<in> set (map of_nat [0 ..< 8])"
    using unsigned_less [of f3] by (auto intro!: image_eqI [of _ _ "unat f3"])
  then show ?thesis by (simp add: upt_rec)
qed

lemma size_cases: "access_size_bytes f3 = 1 \<or> access_size_bytes f3 = 2 \<or> access_size_bytes f3 = 4 \<or> access_size_bytes f3 = 8"
  by (simp add: access_size_bytes_def)

lemma unat_size: "unat (access_size_bytes f3) \<in> {1, 2, 4, 8}"
  using size_cases [of f3] by auto

lemma seven_mask: "(7 :: u64) = mask 3"
  by (simp add: mask_eq_exp_minus_1)

lemma lane_split: "word_base a + bits 2 0 a = a"
proof -
  have "bits 2 0 a = a AND mask 3" by (simp add: bits_def take_bit_eq_mask)
  moreover have "(a AND NOT (mask 3)) + (a AND mask 3) = (a AND NOT (mask 3)) OR (a AND mask 3)"
    by (rule disjunctive_add) (simp add: bit_simps)
  moreover have "(a AND NOT (mask 3)) OR (a AND mask 3) = a" by (rule bit_word_eqI) (auto simp: bit_simps)
  ultimately show ?thesis unfolding word_base_def seven_mask by simp
qed

lemma word_base_lane: "bits 2 0 (word_base a) = 0"
  unfolding word_base_def seven_mask by (rule bit_word_eqI) (auto simp: word_slices bit_simps)

lemma word_base_simp [simp]: "a AND - 8 = word_base a" "a AND NOT 7 = word_base a"
  by (simp_all add: word_base_def)

lemma lane_shift: "a + of_nat k = word_base a + of_nat (unat (bits 2 0 a) + k)"
  using lane_split [of a] by (simp add: algebra_simps)

lemma lane_less: "unat (bits 2 0 (a :: u64)) < 8"
  using unat_bits_less [of 2 0 a] by simp

lemma lane_unat: "unat (ucast (bits 2 0 (a :: u64)) :: 3 word) = unat (bits 2 0 a)"
  using lane_less [of a] by (simp add: unsigned_ucast_eq take_bit_nat_eq_self)

lemma bit_load:
  "bit (load_value f3 w) n \<longleftrightarrow> n < 64 \<and>
     (if n < 8 * unat (access_size_bytes f3) then bit w n
      else \<not> bit f3 2 \<and> bit w (8 * unat (access_size_bytes f3) - 1))"
proof -
  define N where "N = 8 * unat (access_size_bytes f3)"
  have N: "0 < N" "N \<le> 64" using unat_size [of f3] by (auto simp: N_def)
  then have "min (N - 1) n = (if n < N then n else N - 1)" by simp
  then show ?thesis using N unfolding load_value_def N_def [symmetric]
    by (auto simp: bit_take_bit_iff bit_signed_take_bit_iff)
qed

lemma fill_above_is_load:
  "(if f3 AND 3 = 0 then fill_above 8 (\<not> bit f3 2 \<and> bit w 7) w
    else if f3 AND 3 = 1 then fill_above 16 (\<not> bit f3 2 \<and> bit w 15) w
    else if f3 AND 3 = 2 then fill_above 32 (\<not> bit f3 2 \<and> bit w 31) w else w) = load_value f3 w"
  by (rule bit_word_eqI, unfold bit_load)
     (use f3_cases [of f3] in \<open>auto simp: fill_above_def access_size_bytes_def bit_simps\<close>)

lemma extract_is_load:
  "extract_load_data d off f3 = load_value f3 (ucast (drop_bit (8 * unat off) d))"
  unfolding extract_load_data_def Let_def by (rule fill_above_is_load)

lemma load_value_cong:
  "(\<And>n. n < 8 * unat (access_size_bytes f3) \<Longrightarrow> bit w n = bit v n) \<Longrightarrow> load_value f3 w = load_value f3 v"
  by (rule bit_word_eqI) (use unat_size [of f3] in \<open>auto simp: bit_load\<close>)


section \<open>Reads\<close>

lemma bit_join: "bit (join128 hi lo) n \<longleftrightarrow> (if n < 64 then bit lo n else n < 128 \<and> bit hi (n - 64))"
  by (auto simp: join128_def bit_simps dest: bit_imp_le_length)

lemma bit_at_lane:
  assumes "n < 64"
  shows "bit (join128 (ld m (word_base a + 8)) (bus_read a m)) (8 * unat (bits 2 0 a) + n) = bit (ld m a) n"
proof -
  let ?x = "8 * unat (bits 2 0 a) + n"
  have d: "?x div 8 = unat (bits 2 0 a) + n div 8" "?x mod 8 = n mod 8" by simp_all
  have a: "a + of_nat (n div 8) = word_base a + of_nat (?x div 8)" unfolding d by (rule lane_shift)
  show ?thesis
  proof (cases "?x < 64")
    case True
    then show ?thesis using assms unfolding bit_join bus_read_def bit_ld a
      by (simp add: bit_ld)
  next
    case False
    then obtain y where y: "?x = 64 + y" using le_Suc_ex [of 64 ?x] by auto
    then have "y < 64" using assms lane_less [of a] by linarith
    moreover have "(64 + y) div 8 = 8 + y div 8" "(64 + y) mod 8 = y mod 8" by presburger+
    ultimately have "y < 64" "word_base a + of_nat (?x div 8) = word_base a + 8 + of_nat (y div 8)" "?x mod 8 = y mod 8"
      unfolding y by (simp_all add: algebra_simps)
    then show ?thesis using assms unfolding bit_join bit_ld a d(2) [symmetric] by (simp add: y bit_ld add.assoc)
  qed
qed

lemma read_across:
  "extract_load_data (join128 (ld m (word_base a + 8)) (bus_read a m)) (ucast (bits 2 0 a)) f3 = load_value f3 (ld m a)"
  unfolding extract_is_load
proof (rule load_value_cong)
  fix n assume n: "n < 8 * unat (access_size_bytes f3)"
  then have "n < 64" using unat_size [of f3] by auto
  then show "bit (ucast (drop_bit (8 * unat (ucast (bits 2 0 a) :: 3 word))
      (join128 (ld m (word_base a + 8)) (bus_read a m))) :: u64) n = bit (ld m a) n"
    using bit_at_lane [of n m a] lane_less [of a] by (simp add: bit_simps lane_unat)
qed

lemma read_within:
  assumes "unat (bits 2 0 a) + unat (access_size_bytes f3) \<le> 8"
  shows "extract_load_data (join128 0 (bus_read a m)) (ucast (bits 2 0 a)) f3 = load_value f3 (ld m a)"
  unfolding extract_is_load
proof (rule load_value_cong)
  fix n assume n: "n < 8 * unat (access_size_bytes f3)"
  then have k: "n < 64" "8 * unat (bits 2 0 a) + n < 64" using assms by simp_all
  then show "bit (ucast (drop_bit (8 * unat (ucast (bits 2 0 a) :: 3 word)) (join128 0 (bus_read a m))) :: u64) n =
      bit (ld m a) n"
    using bit_at_lane [of n m a] lane_less [of a] by (simp add: bit_simps lane_unat bit_join)
qed


section \<open>Writes\<close>

lemma word_base_next [simp]: "word_base (word_base a + 8) = word_base a + 8"
proof -
  let ?x = "word_base a + 8"
have "unat (word_base a) mod 8 = 0" using word_base_lane unat_bits [of 2 0 "word_base a"] by simp
  moreover have "unat ?x mod 8 = (unat (word_base a) + 8) mod 8"
    unfolding unat_word_ariths by (simp add: mod_mod_cancel)
  ultimately have "unat (bits 2 0 ?x) = 0" using unat_bits [of 2 0 ?x] by simp
  then show ?thesis using lane_split [of ?x] by (simp add: unat_eq_zero)
qed

lemma mask_values: "(n :: 4 word) \<in> set (map of_nat [0 ..< 16])"
  using unsigned_less [of n] by (auto intro!: image_eqI [of _ _ "unat n"])

lemma byte_mask_eq: "byte_mask n = mask (min 8 (unat n))"
proof -
  have "\<forall>n \<in> set (map of_nat [0 ..< 16]). byte_mask n = mask (min 8 (unat (n :: 4 word)))"
    by (simp add: upt_rec byte_mask_def mask_eq_exp_minus_1)
  then show ?thesis using mask_values [of n] by blast
qed

lemma bit_byte_mask: "bit (byte_mask n) k \<longleftrightarrow> k < 8 \<and> k < unat n"
  by (auto simp: byte_mask_eq bit_mask_iff)

lemma unat_size_u64 [simp]: "unat (ucast (n :: 4 word) :: u64) = unat n"
proof -
  have "unat n < 2 ^ 4" using unsigned_less [of n] by simp
  then have "unat n < 2 ^ 64" by (rule order_less_le_trans) simp
  then show ?thesis by (simp add: unsigned_ucast_eq take_bit_nat_eq_self)
qed

lemma sub_lane:
  "unat (b - a) = (if unat (bits 2 0 a) \<le> unat (b - word_base a) then unat (b - word_base a) - unat (bits 2 0 a)
     else unat (b - word_base a) + 2 ^ 64 - unat (bits 2 0 (a :: u64)))"
proof -
  have "b - a = (b - word_base a) - bits 2 0 a" using lane_split [of a] by (simp add: algebra_simps)
  then show ?thesis using unat_sub_if' [of "b - word_base a" "bits 2 0 a"] by (simp only: word_size) simp
qed

lemma write_within:
  assumes "unat (bits 2 0 a) + unat sz \<le> 8"
  shows "bus_write a (push_bit (8 * unat (bits 2 0 a)) v) (push_bit (unat (bits 2 0 a)) (byte_mask sz)) m = store_bytes a sz v m"
proof
  fix b
  let ?d = "unat (b - word_base a)" and ?o = "unat (bits 2 0 a)"
  have "unat (b - word_base a) < 2 ^ 64" by (rule unsigned_less [THEN order_less_le_trans]) simp
  have w: "unat (b - a) < unat sz \<longleftrightarrow> ?o \<le> ?d \<and> ?d < ?o + unat sz"
    using sub_lane [of b a] lane_less [of a] assms by auto
  have c: "(ucast (drop_bit (8 * ?d) (push_bit (8 * ?o) v)) :: u8) = ucast (drop_bit (8 * unat (b - a)) v)"
    if "?o \<le> ?d" "?d < 8"
    using that sub_lane [of b a] by (intro bit_word_eqI) (auto simp: bit_simps diff_mult_distrib2)
  show "bus_write a (push_bit (8 * ?o) v) (push_bit ?o (byte_mask sz)) m b = store_bytes a sz v m b"
    using w c assms lane_less [of a]
    by (auto simp: bus_write_def store_bytes_def Let_def word_less_nat_alt bit_simps bit_byte_mask)
qed

text \<open>A store that crosses: the second half goes to the next doubleword, from the bytes left over.\<close>

lemma second_half_shift:
  "k + unat (bits 2 0 (a :: u64)) = 8 \<Longrightarrow>
   split_store_second_wdata v (ucast (bits 2 0 a)) = (if k = 8 then v else drop_bit (8 * k) v)"
proof -
  assume k: "k + unat (bits 2 0 a) = 8"
  define o3 where "o3 = (ucast (bits 2 0 a) :: 3 word)"
  have o: "unat o3 = unat (bits 2 0 a)" by (simp add: o3_def lane_unat)
  have "\<forall>x \<in> {0, 1, 2, 3, 4, 5, 6, 7 :: 3 word}. unat (push_bit 3 (8 - ucast x :: 6 word)) = (8 * (8 - unat x)) mod 64"
    by simp
  then have "unat (push_bit 3 (8 - ucast o3 :: 6 word)) = (8 * (8 - unat o3)) mod 64" using f3_cases [of o3] by blast
  moreover have "8 - unat o3 = k" using o k by simp
  ultimately have "unat (push_bit 3 (8 - ucast o3 :: 6 word)) = (8 * k) mod 64" by simp
  moreover have "k \<le> 8" using k by simp
  ultimately show ?thesis by (auto simp: split_store_second_wdata_def o3_def [symmetric])
qed

lemma write_across:
  assumes "8 < unat (bits 2 0 a) + unat sz" and "unat sz \<le> 8"
  shows "bus_write (word_base a + 8) (split_store_second_wdata v (ucast (bits 2 0 a)))
      (byte_mask (sz - (8 - ucast (ucast (bits 2 0 a) :: 3 word))))
      (bus_write a (push_bit (8 * unat (bits 2 0 a)) v)
        (push_bit (unat (bits 2 0 a)) (byte_mask (8 - ucast (ucast (bits 2 0 a) :: 3 word)))) m) = store_bytes a sz v m"
proof
  fix b
  let ?D = "unat (b - word_base a)" and ?o = "unat (bits 2 0 a)"
  define k where "k = 8 - ?o"
  have k: "k + ?o = 8" "k < 8" "0 < k" "k < unat sz" using assms lane_less [of a] by (simp_all add: k_def)
  have D: "?D < 2 ^ 64" by (rule unsigned_less [THEN order_less_le_trans]) simp
  have n: "unat (8 - ucast (ucast (bits 2 0 a) :: 3 word) :: 4 word) = k"
  proof -
    have "unat (ucast (ucast (bits 2 0 a) :: 3 word) :: 4 word) = ?o"
      using lane_less [of a] lane_unat [of a] by (simp add: unsigned_ucast_eq [of "ucast (bits 2 0 a) :: 3 word"] take_bit_nat_eq_self)
    then show ?thesis using lane_less [of a] k by (simp add: unat_sub_if')
  qed
  have n2: "unat (sz - (8 - ucast (ucast (bits 2 0 a) :: 3 word))) = unat sz - k"
    using n k by (simp add: unat_sub_if')
  have w: "unat (b - a) < unat sz \<longleftrightarrow> ?o \<le> ?D \<and> ?D < ?o + unat sz"
    using sub_lane [of b a] lane_less [of a] assms D by auto
  have d2: "unat (b - (word_base a + 8)) = (if 8 \<le> ?D then ?D - 8 else ?D + 2 ^ 64 - 8)"
  proof -
    have "b - (word_base a + 8) = (b - word_base a) - 8" by simp
    then show ?thesis using unat_sub_if' [of "b - word_base a" 8] by (simp only: word_size) simp
  qed
  have c: "(ucast (drop_bit (8 * ?D) (push_bit (8 * ?o) v)) :: u8) = ucast (drop_bit (8 * unat (b - a)) v)"
    if "?o \<le> ?D" "?D < 8"
    using that sub_lane [of b a] by (intro bit_word_eqI) (auto simp: bit_simps diff_mult_distrib2)
  have c2: "drop_bit (8 * (?D - 8)) (drop_bit (8 * k) v) = drop_bit (8 * unat (b - a)) v" if "8 \<le> ?D"
  proof -
    have "8 * (?D - 8) + 8 * k = 8 * unat (b - a)" using that sub_lane [of b a] k by simp
    then show ?thesis by (metis drop_bit_drop_bit)
  qed
  show "bus_write (word_base a + 8) (split_store_second_wdata v (ucast (bits 2 0 a)))
      (byte_mask (sz - (8 - ucast (ucast (bits 2 0 a) :: 3 word))))
      (bus_write a (push_bit (8 * ?o) v) (push_bit ?o (byte_mask (8 - ucast (ucast (bits 2 0 a) :: 3 word)))) m) b =
     store_bytes a sz v m b"
  proof (cases "8 \<le> ?D")
    case True
    then show ?thesis using w c2 d2 k D assms
      by (auto simp: bus_write_def store_bytes_def Let_def word_less_nat_alt bit_simps bit_byte_mask n n2 second_half_shift [OF k(1)])
  next
    case False
    then show ?thesis using w c d2 k D assms
      by (auto simp: bus_write_def store_bytes_def Let_def word_less_nat_alt bit_simps bit_byte_mask n n2)
  qed
qed

section \<open>What an instruction does\<close>

text \<open>
  Where the access goes, or the exception it raises: alignment of atomics, then the page crossing of
  translated accesses, the translation over the tables \<open>M\<close>, misalignment outside RAM and ROM, the PMP.
\<close>

datatype access = Raises u64 | At u64

definition checked :: "mem_op \<Rightarrow> u64 \<Rightarrow> access" where
  "checked p pa =
     (if access_misaligned (funct3 (o_ctrl p)) (o_addr p) \<and> \<not> is_normal_memory pa
      then Raises (if is_load (o_ctrl p) then 4 else 6)
      else if \<not> pmp_allow (o_priv p) (o_pmp p) pa (ucast (access_size_bytes (funct3 (o_ctrl p))))
                 (access_kind (current_needs_write_permission p))
      then Raises (access_fault_cause (access_kind (current_needs_write_permission p)))
      else At pa)"

definition page_crossed :: "mem_op \<Rightarrow> bool" where
  "page_crossed p \<longleftrightarrow> bits 11 0 (o_addr p) + ucast (access_size_bytes (funct3 (o_ctrl p))) > 4096"

definition mem_plan :: "mem_op \<Rightarrow> (nat \<Rightarrow> u64 option) \<Rightarrow> access" where
  "mem_plan p M =
     (if is_amo (o_ctrl p) \<and> amo_misaligned (funct3 (o_ctrl p)) (o_addr p) then Raises 6
      else if \<not> need_translate p then checked p (o_addr p)
      else if page_crossed p then Raises (if is_load (o_ctrl p) then 4 else 6)
      else case xl_spec M (mem_request p) of
             PageFault \<Rightarrow> Raises (page_fault_cause (access_kind (current_needs_write_permission p)))
           | AccessFault \<Rightarrow> Raises (access_fault_cause (access_kind (current_needs_write_permission p)))
           | Translated x _ _ \<Rightarrow> checked p (of_nat x))"

text \<open>
  The bus: a request taken has its effect at once and a read (or atomic) is owed its answer. Atomics
  are the unit behind the bus, \<open>amo\<close>: the answer and the new memory of a request.
\<close>

type_synonym amo = "bus_req \<Rightarrow> mem \<Rightarrow> u64 \<times> mem"

definition bus_effect :: "amo \<Rightarrow> bus_req \<Rightarrow> mem \<Rightarrow> mem" where
  "bus_effect amo r m =
     (if r_is_amo r then snd (amo r m) else if r_wen r then bus_write (r_addr r) (r_wdata r) (r_wmask r) m else m)"

definition bus_answer :: "amo \<Rightarrow> bus_req \<Rightarrow> mem \<Rightarrow> u64" where
  "bus_answer amo r m = (if r_is_amo r then fst (amo r m) else bus_read (r_addr r) m)"

definition bus_cycle :: "amo \<Rightarrow> mem_op \<Rightarrow> mu_in \<Rightarrow> memunit \<Rightarrow> mem \<times> u64 option \<Rightarrow> mem \<times> u64 option" where
  "bus_cycle amo p i s = (\<lambda>(m, owed).
     let owed' = (if b_rvalid i then None else owed)
     in case mu_request p i s of
          Some r \<Rightarrow>
            if b_ready i
            then (bus_effect amo r m, if r_is_amo r \<or> \<not> r_wen r then Some (bus_answer amo r m) else owed')
            else (m, owed')
        | None \<Rightarrow> (m, owed'))"

text \<open>
  The surroundings in a cycle of the instruction's stay: the translation unit answers with the
  translation of the request (\<open>translation_transparent\<close>) and reads tables only before; the bus gives
  the answer it owes; the fast port gives the doubleword it was asked for.
\<close>

definition mu_env :: "mem_op \<Rightarrow> (nat \<Rightarrow> u64 option) \<Rightarrow> mu_in \<Rightarrow> memunit \<Rightarrow> mem \<times> u64 option \<Rightarrow> bool" where
  "mu_env p M i s = (\<lambda>(m, owed).
     (m_valid i \<or> mu_state s = MuFault) \<and> \<not> m_is_new i \<and>
     (mu_state s = TranslateWait \<and> t_rsp_valid i \<longrightarrow> owed = None \<and> t_fault_value i = o_addr p \<and>
        stands_for (mem_request p) (xl_spec M (mem_request p)) (t_fault i) (t_pa i) (t_fault_cause i)) \<and>
     (t_mem_valid i \<longrightarrow> mu_state s = TranslateWait \<and> \<not> t_rsp_valid i \<and> (owed = None \<or> b_rvalid i)) \<and>
     (b_rvalid i \<longrightarrow> (\<forall>v. owed = Some v \<longrightarrow> b_rdata i = v)) \<and>
     (fast_load_req p i s \<and> f_valid i \<longrightarrow> f_data i = bus_read (fast_load_addr p i s) m))"

inductive mu_reach :: "mem_op \<Rightarrow> amo \<Rightarrow> (nat \<Rightarrow> u64 option) \<Rightarrow> mem \<Rightarrow> memunit \<Rightarrow> mem \<times> u64 option \<Rightarrow> bool"
  for p amo M m0 where
  accepted: "mu_state s = MuInit \<Longrightarrow> mem_owner s = MemOwnerNone \<Longrightarrow> inst_is_memop (o_ctrl p) \<Longrightarrow>
     \<not> (is_amo (o_ctrl p) \<and> is_load (o_ctrl p)) \<Longrightarrow> m_valid i \<Longrightarrow> m_is_new i \<Longrightarrow> \<not> t_mem_valid i \<Longrightarrow>
     mu_reach p amo M m0 (mu_step p i s) (m0, None)"
| cycle: "mu_reach p amo M m0 s b \<Longrightarrow> mu_env p M i s b \<Longrightarrow> mu_stall p i s \<Longrightarrow>
     mu_reach p amo M m0 (mu_step p i s) (bus_cycle amo p i s b)"

text \<open>What the pipeline and the memory must show when the stall ends.\<close>

definition mu_outcome :: "mem_op \<Rightarrow> amo \<Rightarrow> (nat \<Rightarrow> u64 option) \<Rightarrow> mem \<Rightarrow> mu_in \<Rightarrow> memunit \<Rightarrow> mem \<Rightarrow> bool" where
  "mu_outcome p amo M m0 i s m \<longleftrightarrow>
     (let c = o_ctrl p; lane = unat (bits 2 0 (o_addr p))
      in case mem_plan p M of
           Raises cause \<Rightarrow> mu_expt s = Some (cause, o_addr p) \<and> m = m0
         | At pa \<Rightarrow> mu_expt s = None \<and> mu_paddr p i s = pa \<and>
             (if is_amo c
              then let (v, m') = amo (access_request pa (latch_request p memunit_reset)) m0
                   in m = m' \<and> mu_rdata p i s = (if op_amoop p = AMO_SC then v else load_value (funct3 c) (drop_bit (8 * lane) v))
              else if is_load c then m = m0 \<and> mu_rdata p i s = load_value (funct3 c) (ld m0 pa)
              else m = store_bytes pa (access_size_bytes (funct3 c)) (o_rs2 p) m0))"


section \<open>The invariant\<close>

definition latched :: "mem_op \<Rightarrow> memunit \<Rightarrow> bool" where
  "latched p s \<longleftrightarrow> s\<lparr>q_paddr := o_addr p\<rparr> = latch_request p s \<and> inst_is_memop (o_ctrl p) \<and>
     \<not> (is_amo (o_ctrl p) \<and> is_load (o_ctrl p))"

definition crosses :: "mem_op \<Rightarrow> bool" where
  "crosses p \<longleftrightarrow> \<not> is_amo (o_ctrl p) \<and>
     unat (bits 2 0 (o_addr p)) + unat (access_size_bytes (funct3 (o_ctrl p))) > 8"

definition mu_inv :: "mem_op \<Rightarrow> amo \<Rightarrow> (nat \<Rightarrow> u64 option) \<Rightarrow> mem \<Rightarrow> memunit \<Rightarrow> mem \<times> u64 option \<Rightarrow> bool" where
  "mu_inv p amo M m0 s = (\<lambda>(m, owed). latched p s \<and>
     (case mu_state s of
        MuInit \<Rightarrow> mem_plan p M = At (q_paddr s) \<and> mem_owner s = MemOwnerNone \<and> \<not> is_amo (o_ctrl p) \<and> \<not> is_load (o_ctrl p) \<and>
          m = store_bytes (q_paddr s) (access_size_bytes (funct3 (o_ctrl p))) (o_rs2 p) m0
      | TranslateWait \<Rightarrow> need_translate p \<and> \<not> page_crossed p \<and> m = m0 \<and>
          \<not> (is_amo (o_ctrl p) \<and> amo_misaligned (funct3 (o_ctrl p)) (o_addr p)) \<and>
          mem_owner s = (if owed = None then MemOwnerNone else MemOwnerTranslation)
      | AccessWaitReady \<Rightarrow> mem_plan p M = At (q_paddr s) \<and> m = m0 \<and> owed = None \<and> mem_owner s = MemOwnerNone
      | AccessWaitValid \<Rightarrow> mem_plan p M = At (q_paddr s) \<and> (is_amo (o_ctrl p) \<or> is_load (o_ctrl p)) \<and>
          mem_owner s = MemOwnerData \<and> m = bus_effect amo (access_request (q_paddr s) s) m0 \<and>
          owed = Some (bus_answer amo (access_request (q_paddr s) s) m0)
      | SplitAccessWaitReady \<Rightarrow> mem_plan p M = At (q_paddr s) \<and> crosses p \<and> owed = None \<and> mem_owner s = MemOwnerNone \<and>
          (if is_load (o_ctrl p) then m = m0 \<and> q_first_rdata s = bus_read (q_paddr s) m0
           else m = bus_write (q_paddr s) (q_wdata s) (q_wmask s) m0)
      | SplitAccessWaitValid \<Rightarrow> mem_plan p M = At (q_paddr s) \<and> crosses p \<and> is_load (o_ctrl p) \<and> m = m0 \<and>
          q_first_rdata s = bus_read (q_paddr s) m0 \<and> mem_owner s = MemOwnerData \<and>
          owed = Some (ld m0 (word_base (q_paddr s) + 8))
      | DiscardWaitValid \<Rightarrow> False
      | MuFault \<Rightarrow> mem_plan p M = Raises (fault_cause s) \<and> fault_value s = o_addr p \<and> m = m0 \<and>
          owed = None \<and> mem_owner s = MemOwnerNone))"

lemma crosses_word: "ucast (ucast (bits 2 0 a) :: 3 word) + access_size_bytes f3 > 8 \<longleftrightarrow>
    unat (bits 2 0 (a :: u64)) + unat (access_size_bytes f3) > 8"
proof -
  have "unat (ucast (ucast (bits 2 0 a) :: 3 word) :: 4 word) = unat (bits 2 0 a)"
    using lane_less [of a] lane_unat [of a] by (simp add: unsigned_ucast_eq [of "ucast (bits 2 0 a) :: 3 word"] take_bit_nat_eq_self)
  then show ?thesis using lane_less [of a] size_cases [of f3]
    by (auto simp: word_less_nat_alt unat_word_ariths)
qed

lemma latched_fields:
  assumes "latched p s"
  shows "q_wen s = (\<not> is_load (o_ctrl p))" "q_vaddr s = o_addr p" "q_rs2 s = o_rs2 p"
    "q_wdata s = push_bit (8 * unat (bits 2 0 (o_addr p))) (o_rs2 p)" "q_is_amo s = is_amo (o_ctrl p)"
    "q_amoop s = op_amoop p" "q_funct3 s = funct3 (o_ctrl p)" "q_offset s = ucast (bits 2 0 (o_addr p))"
    "q_size s = access_size_bytes (funct3 (o_ctrl p))" "q_crosses_word s = crosses p"
    "q_wmask s = push_bit (unat (bits 2 0 (o_addr p)))
       (byte_mask (if crosses p then 8 - ucast (ucast (bits 2 0 (o_addr p)) :: 3 word) else access_size_bytes (funct3 (o_ctrl p))))"
    "access_request a s = access_request a (latch_request p memunit_reset)"
proof -
  have e: "s\<lparr>q_paddr := o_addr p\<rparr> = latch_request p s" and m: "inst_is_memop (o_ctrl p)"
    using assms by (simp_all add: latched_def)
  note f = arg_cong [OF e]
  show "q_wen s = (\<not> is_load (o_ctrl p))" using f [of q_wen] m by (simp add: latch_request_def Let_def inst_is_store_def)
  show "q_vaddr s = o_addr p" using f [of q_vaddr] by (simp add: latch_request_def Let_def)
  show "q_rs2 s = o_rs2 p" using f [of q_rs2] by (simp add: latch_request_def Let_def)
  show "q_wdata s = push_bit (8 * unat (bits 2 0 (o_addr p))) (o_rs2 p)"
    using f [of q_wdata] by (simp add: latch_request_def Let_def lane_unat)
  show "q_is_amo s = is_amo (o_ctrl p)" using f [of q_is_amo] by (simp add: latch_request_def Let_def)
  show "q_amoop s = op_amoop p" using f [of q_amoop] by (simp add: latch_request_def Let_def)
  show "q_funct3 s = funct3 (o_ctrl p)" using f [of q_funct3] by (simp add: latch_request_def Let_def)
  show "q_offset s = ucast (bits 2 0 (o_addr p))" using f [of q_offset] by (simp add: latch_request_def Let_def)
  show "q_size s = access_size_bytes (funct3 (o_ctrl p))" using f [of q_size] by (simp add: latch_request_def Let_def)
  show "q_crosses_word s = crosses p"
    using f [of q_crosses_word] by (simp add: latch_request_def Let_def crosses_word crosses_def)
  show "q_wmask s = push_bit (unat (bits 2 0 (o_addr p)))
       (byte_mask (if crosses p then 8 - ucast (ucast (bits 2 0 (o_addr p)) :: 3 word) else access_size_bytes (funct3 (o_ctrl p))))"
    using f [of q_wmask] by (simp add: latch_request_def Let_def crosses_word crosses_def lane_unat)
  show "access_request a s = access_request a (latch_request p memunit_reset)"
    using f [of "access_request a"] by (simp add: latch_request_def access_request_def Let_def)
qed

lemma latched_update:
  assumes "latched p s"
  shows "latched p (s\<lparr>mu_state := x\<rparr>)" "latched p (s\<lparr>mem_owner := ow\<rparr>)" "latched p (s\<lparr>q_paddr := a\<rparr>)"
    "latched p (s\<lparr>q_first_rdata := d\<rparr>)" "latched p (s\<lparr>load_result := d\<rparr>)"
    "latched p (s\<lparr>fault_cause := d\<rparr>)" "latched p (s\<lparr>fault_value := d\<rparr>)"
  using assms by (cases s, simp add: latched_def latch_request_def Let_def)+

lemma latched_latch:
  "inst_is_memop (o_ctrl p) \<Longrightarrow> \<not> (is_amo (o_ctrl p) \<and> is_load (o_ctrl p)) \<Longrightarrow> latched p (latch_request p s)"
  by (cases s) (simp add: latched_def latch_request_def Let_def)

lemma latched_kind:
  "latched p s \<Longrightarrow> req_needs_write_permission s = current_needs_write_permission p"
  by (simp add: req_needs_write_permission_def current_needs_write_permission_def latched_fields latched_def inst_is_store_def)

lemma crosses_not_amo: "crosses p \<Longrightarrow> \<not> is_amo (o_ctrl p)"
  by (simp add: crosses_def)


section \<open>The access and its lane\<close>

lemma walk_offset: "sv39_walk M j lvl ppn = Translated x e l \<Longrightarrow> x mod 4096 = unat (i_va j) mod 4096"
proof (induction M j lvl ppn rule: sv39_walk.induct)
  case (1 M j lvl ppn)
  have leaf: "leaf_translation j lvl q = Translated x e l \<Longrightarrow> x mod 4096 = unat (i_va j) mod 4096" for q
  proof -
    assume a: "leaf_translation j lvl q = Translated x e l"
    have "x = pte_ppn q * 4096 + unat (i_va j) mod 2 ^ (12 + 9 * lvl)"
      using a by (auto simp: leaf_translation_def split: if_splits)
    moreover have "unat (i_va j) mod 2 ^ (12 + 9 * lvl) mod 4096 = unat (i_va j) mod 4096"
      by (rule mod_mod_cancel) (simp add: power_add)
    ultimately show ?thesis by simp
  qed
  then show ?case using 1 unfolding sv39_walk.simps [of M j lvl ppn] by (auto split: option.splits if_splits nat.splits)
qed

lemma spec_offset:
  assumes "xl_spec M (mem_request p) = Translated x e l"
  shows "bits 2 0 (of_nat x) = bits 2 0 (o_addr p)"
proof -
  have "x mod 4096 = unat (o_addr p) mod 4096"
    using assms walk_offset [of M "walk_request (mem_request p)" 2 _ x e l]
    by (auto simp: xl_spec_def mem_request_def sv39_translate_def walk_request_def split: if_splits)
  then have "x mod 4096 mod 8 = unat (o_addr p) mod 4096 mod 8" by simp
  then have "x mod 8 = unat (o_addr p) mod 8" by (simp add: mod_mod_cancel)
  moreover have "unat (of_nat x :: u64) mod 8 = x mod 8" by (simp add: unat_of_nat mod_mod_cancel)
  ultimately have "unat (bits 2 0 (of_nat x :: u64)) = unat (bits 2 0 (o_addr p))" by (simp add: unat_bits)
  then show ?thesis by (rule unsigned_word_eqI)
qed

lemma checked_at: "checked p a = At pa \<Longrightarrow> pa = a"
  by (simp add: checked_def split: if_splits)

lemma plan_lane: "mem_plan p M = At pa \<Longrightarrow> bits 2 0 pa = bits 2 0 (o_addr p)"
  by (auto simp: mem_plan_def spec_offset split: if_splits translation.splits dest!: checked_at)

lemma plan_at_amo: "mem_plan p M = At pa \<Longrightarrow> is_amo (o_ctrl p) \<Longrightarrow> \<not> amo_misaligned (funct3 (o_ctrl p)) (o_addr p)"
  by (auto simp: mem_plan_def split: if_splits)

lemma amo_fits:
  assumes "\<not> amo_misaligned f3 a"
  shows "unat (bits 2 0 a) + unat (access_size_bytes f3) \<le> 8"
proof (cases "f3 = 3")
  case True
  then show ?thesis using assms by (simp add: amo_misaligned_def access_size_bytes_def)
next
  case False
  then have f: "f3 = 2" "bits 1 0 a = 0" using assms by (simp_all add: amo_misaligned_def split: if_splits)
  then have "unat a mod 4 = 0" using unat_bits [of 1 0 a] by simp
  then have "unat a mod 8 \<le> 4" by presburger
  then show ?thesis using f by (simp add: access_size_bytes_def unat_bits)
qed

lemma store_done:
  assumes "latched p s" and "mem_plan p M = At pa" and "\<not> is_load (o_ctrl p)" and "\<not> is_amo (o_ctrl p)" and "\<not> crosses p"
  shows "bus_write pa (q_wdata s) (q_wmask s) m = store_bytes pa (access_size_bytes (funct3 (o_ctrl p))) (o_rs2 p) m"
  using write_within [of pa "access_size_bytes (funct3 (o_ctrl p))" "o_rs2 p" m] plan_lane [OF assms(2)] assms
  by (simp add: latched_fields crosses_def)


section \<open>Requests, state by state\<close>

lemma request_ready:
  "mu_state s = AccessWaitReady \<Longrightarrow> m_valid i \<Longrightarrow> \<not> t_mem_valid i \<Longrightarrow>
   mu_request p i s = (if access_fast_load_complete i s then None else Some (access_request (q_paddr s) s))"
  by (auto simp: mu_request_def translated_access_can_issue_def translated_fast_load_candidate_def
      access_fast_load_complete_def access_fast_load_candidate_def)

lemma request_translate:
  "mu_state s = TranslateWait \<Longrightarrow> m_valid i \<Longrightarrow>
   mu_request p i s =
     (if t_mem_valid i then Some (table_request (t_mem_addr i))
      else if translated_access_can_issue p i s \<and> \<not> translated_fast_load_complete p i s
      then Some (access_request (t_pa i) s) else None)"
  by (auto simp: mu_request_def translated_fast_load_candidate_def translated_fast_load_complete_def
      access_fast_load_complete_def access_fast_load_candidate_def)

lemma request_split:
  "mu_state s = SplitAccessWaitReady \<Longrightarrow> m_valid i \<Longrightarrow> \<not> t_mem_valid i \<Longrightarrow> mu_request p i s = Some (split_request s)"
  by (auto simp: mu_request_def translated_access_can_issue_def translated_fast_load_candidate_def
      access_fast_load_complete_def access_fast_load_candidate_def)

lemma request_none:
  "mu_state s \<in> {MuInit, AccessWaitValid, SplitAccessWaitValid, MuFault} \<Longrightarrow> \<not> t_mem_valid i \<Longrightarrow> mu_request p i s = None"
  by (auto simp: mu_request_def translated_access_can_issue_def translated_fast_load_candidate_def
      access_fast_load_complete_def access_fast_load_candidate_def)

lemmas fires = translation_mem_fire_def data_read_mem_fire_def translated_data_mem_fire_def first_data_mem_fire_def
  split_data_mem_fire_def translated_access_can_issue_def

text \<open>An access the bus has just taken.\<close>

lemma fired_inv:
  assumes "latched p t" and "mem_plan p M = At (q_paddr t)"
    and "mu_state t = (if q_wen t \<and> \<not> q_is_amo t then (if q_crosses_word t then SplitAccessWaitReady else MuInit)
                       else AccessWaitValid)"
    and "mem_owner t = (if q_wen t \<and> \<not> q_is_amo t then MemOwnerNone else MemOwnerData)"
    and "b = (bus_effect amo (access_request (q_paddr t) t) m0,
              if q_wen t \<and> \<not> q_is_amo t then None else Some (bus_answer amo (access_request (q_paddr t) t) m0))"
  shows "mu_inv p amo M m0 t b"
proof (cases "is_amo (o_ctrl p) \<or> is_load (o_ctrl p)")
  case True
  then show ?thesis using assms by (auto simp: mu_inv_def latched_fields(1,5))
next
  case False
  then show ?thesis
    using assms store_done [OF assms(1,2), of m0]
    by (auto simp: mu_inv_def latched_fields(1,5,10) bus_effect_def access_request_def)
qed


section \<open>Every cycle keeps the invariant\<close>

lemma answered_plan:
  assumes "latched p s" and "mu_state s = TranslateWait" and "need_translate p" and "\<not> page_crossed p"
    and "\<not> (is_amo (o_ctrl p) \<and> amo_misaligned (funct3 (o_ctrl p)) (o_addr p))" and "t_rsp_valid i"
    and "stands_for (mem_request p) (xl_spec M (mem_request p)) (t_fault i) (t_pa i) (t_fault_cause i)"
  shows "mem_plan p M = (if t_fault i then Raises (t_fault_cause i) else checked p (t_pa i))"
    and "\<not> t_fault i \<Longrightarrow> data_pmp_allow p i s =
      pmp_allow (o_priv p) (o_pmp p) (t_pa i) (ucast (access_size_bytes (funct3 (o_ctrl p))))
        (access_kind (current_needs_write_permission p))"
  using assms
  by (auto simp: mem_plan_def stands_for_def mem_request_def data_pmp_allow_def latched_fields latched_kind
      split: translation.splits)

lemma translate_raises:
  assumes "latched p s" and "mem_plan p M = Raises c" and "b = (m0, None)"
  shows "mu_inv p amo M m0 ((mu_raise c (o_addr p) s)\<lparr>mem_owner := MemOwnerNone\<rparr>) b"
  using assms by (simp add: mu_inv_def mu_raise_def latched_update)

lemma translate_step:
  assumes inv: "mu_inv p amo M m0 s b" and st: "mu_state s = TranslateWait" and env: "mu_env p M i s b"
    and stall: "mu_stall p i s"
  shows "mu_inv p amo M m0 (mu_step p i s) (bus_cycle amo p i s b)"
proof (cases "t_rsp_valid i")
  case False
  then have q: "\<not> translated_access_can_issue p i s" "mu_advance p i s = s" "m_valid i"
    using st env by (auto simp: translated_access_can_issue_def mu_advance_def mu_env_def)
  have "\<not> data_read_mem_fire p i s" using q st by (simp add: fires translated_access_can_issue_def False)
  then show ?thesis using inv st env q
    by (auto simp: mu_inv_def mu_step_def next_owner_def latched_update bus_cycle_def request_translate translation_mem_fire_def
        mu_env_def bus_effect_def table_request_def Let_def split: if_splits)
next
  case True
  obtain m owed where b: "b = (m, owed)" by (cases b)
  have v: "m_valid i" "owed = None" "\<not> t_mem_valid i" "t_fault_value i = o_addr p" "m = m0"
    "mem_owner s = MemOwnerNone" "latched p s" using inv st env True by (auto simp: mu_inv_def mu_env_def b)
  have l: "latched p s" by fact
  note plan = answered_plan [OF l st, of i M]
  have plan1: "mem_plan p M = (if t_fault i then Raises (t_fault_cause i) else checked p (t_pa i))"
    and pmp: "\<not> t_fault i \<Longrightarrow> data_pmp_allow p i s =
      pmp_allow (o_priv p) (o_pmp p) (t_pa i) (ucast (access_size_bytes (funct3 (o_ctrl p))))
        (access_kind (current_needs_write_permission p))"
    using inv st env True plan by (auto simp: mu_inv_def mu_env_def b)
  have idle: "bus_cycle amo p i s b = (m0, None)" if "\<not> translated_access_can_issue p i s"
    using that v st by (simp add: bus_cycle_def b request_translate)
  show ?thesis
  proof (cases "mem_plan p M")
    case (Raises c)
    then have n: "\<not> translated_access_can_issue p i s"
      using plan1 pmp l by (auto simp: translated_access_can_issue_def checked_def latched_fields split: if_splits)
    have "mu_advance p i s = mu_raise c (o_addr p) s"
      using Raises plan1 pmp l st True v(4)
      by (auto simp: mu_advance_def mu_translated_def checked_def latched_fields latched_kind access_kind_def
          access_fault_cause_def split: if_splits)
    moreover have "next_owner p i s = MemOwnerNone" using n st v by (auto simp: next_owner_def fires)
    ultimately show ?thesis
      unfolding idle [OF n] mu_step_def using v(1) translate_raises [OF l Raises] by simp
  next
    case (At pa)
    then have n: "translated_access_can_issue p i s" "\<not> t_fault i" "pa = t_pa i"
      using plan1 pmp l st True v(1)
      by (auto simp: translated_access_can_issue_def checked_def latched_fields split: if_splits)
    let ?t = "s\<lparr>q_paddr := t_pa i\<rparr>"
    have slow: "\<not> translated_fast_load_complete p i s" using stall st by (simp add: mu_stall_def)
    have adv: "mu_advance p i s = (if b_ready i
        then (if q_wen s \<and> \<not> q_is_amo s
              then ?t\<lparr>mu_state := (if q_crosses_word s then SplitAccessWaitReady else MuInit)\<rparr>
              else ?t\<lparr>mu_state := AccessWaitValid\<rparr>)
        else ?t\<lparr>mu_state := AccessWaitReady\<rparr>)"
      using n st True slow by (auto simp: mu_advance_def mu_translated_def translated_access_can_issue_def
          translated_data_mem_fire_def Let_def)
    have rq: "mu_request p i s = Some (access_request (t_pa i) s)" using n st v slow by (simp add: request_translate)
    have lt: "latched p (mu_step p i s)" using v(1) l by (simp add: mu_step_def adv latched_update)
    show ?thesis
    proof (cases "b_ready i")
      case True
      have "next_owner p i s = (if q_wen s \<and> \<not> q_is_amo s then MemOwnerNone else MemOwnerData)"
        using True n st v slow by (auto simp: next_owner_def fires)
      then show ?thesis
        using True v lt n(3) At
        by (intro fired_inv [OF lt])
           (auto simp: mu_step_def adv bus_cycle_def b rq access_request_def)
    next
      case False
      then have "\<not> data_read_mem_fire p i s" "\<not> translation_mem_fire i" using st by (auto simp: fires)
      then show ?thesis using False v lt n(3) At
        by (auto simp: mu_inv_def mu_step_def adv next_owner_def bus_cycle_def b rq)
    qed
  qed
qed

lemma ready_step:
  assumes inv: "mu_inv p amo M m0 s b" and st: "mu_state s = AccessWaitReady" and env: "mu_env p M i s b"
    and stall: "mu_stall p i s"
  shows "mu_inv p amo M m0 (mu_step p i s) (bus_cycle amo p i s b)"
proof -
  have b: "b = (m0, None)" and v: "m_valid i" "\<not> t_mem_valid i" "mem_owner s = MemOwnerNone" "mem_plan p M = At (q_paddr s)"
    and l: "latched p s" using inv st env by (auto simp: mu_inv_def mu_env_def)
  have slow: "\<not> access_fast_load_complete i s" using stall st by (simp add: mu_stall_def)
  have adv: "mu_advance p i s = (if b_ready i
      then (if q_wen s \<and> \<not> q_is_amo s
            then s\<lparr>mu_state := (if q_crosses_word s then SplitAccessWaitReady else MuInit)\<rparr>
            else s\<lparr>mu_state := AccessWaitValid\<rparr>)
      else s)"
    using st slow by (simp add: mu_advance_def)
  have rq: "mu_request p i s = Some (access_request (q_paddr s) s)" using v st slow by (simp add: request_ready)
  have lt: "latched p (mu_step p i s)" using v(1) l by (simp add: mu_step_def adv latched_update)
  show ?thesis
  proof (cases "b_ready i")
    case True
    have "next_owner p i s = (if q_wen s \<and> \<not> q_is_amo s then MemOwnerNone else MemOwnerData)"
      using True st v slow by (auto simp: next_owner_def fires)
    then show ?thesis
      using True v lt
      by (intro fired_inv [OF lt]) (auto simp: mu_step_def adv bus_cycle_def b rq access_request_def)
  next
    case False
    then have "\<not> data_read_mem_fire p i s" "\<not> translation_mem_fire i" using st by (auto simp: fires)
    then show ?thesis using False v lt st
      by (auto simp: mu_inv_def mu_step_def adv next_owner_def bus_cycle_def b rq)
  qed
qed

lemma valid_step:
  assumes inv: "mu_inv p amo M m0 s b" and st: "mu_state s = AccessWaitValid" and env: "mu_env p M i s b"
    and stall: "mu_stall p i s"
  shows "mu_inv p amo M m0 (mu_step p i s) (bus_cycle amo p i s b)"
proof -
  let ?r = "access_request (q_paddr s) s"
  have b: "b = (bus_effect amo ?r m0, Some (bus_answer amo ?r m0))"
    and v: "m_valid i" "\<not> t_mem_valid i" "mem_owner s = MemOwnerData" "mem_plan p M = At (q_paddr s)"
      "is_amo (o_ctrl p) \<or> is_load (o_ctrl p)" "b_rvalid i \<longrightarrow> b_rdata i = bus_answer amo ?r m0"
    and l: "latched p s" using inv st env by (auto simp: mu_inv_def mu_env_def)
  have rq: "mu_request p i s = None" using v st by (intro request_none) auto
  have ow: "next_owner p i s = (if b_rvalid i then MemOwnerNone else MemOwnerData)"
    using st v by (simp add: next_owner_def fires)
  show ?thesis
  proof (cases "b_rvalid i")
    case True
    then have c: "crosses p" using stall st v l by (simp add: mu_stall_def data_mem_rvalid_def latched_fields)
    then have k: "\<not> is_amo (o_ctrl p)" "is_load (o_ctrl p)" using crosses_not_amo v by auto
    then have r: "bus_effect amo ?r m0 = m0" "bus_answer amo ?r m0 = bus_read (q_paddr s) m0"
      using l by (simp_all add: bus_effect_def bus_answer_def access_request_def latched_fields)
    show ?thesis using True v c k l st ow r
      by (simp add: mu_inv_def mu_step_def mu_advance_def data_mem_rvalid_def latched_fields(10) latched_update bus_cycle_def b rq)
  next
    case False
    then show ?thesis using v l st ow
      by (auto simp: mu_inv_def mu_step_def mu_advance_def data_mem_rvalid_def latched_update bus_cycle_def b rq access_request_def)
  qed
qed

lemma split_store_done:
  assumes "latched p s" and "mem_plan p M = At (q_paddr s)" and "crosses p" and "\<not> is_load (o_ctrl p)"
  shows "bus_effect amo (split_request s) (bus_write (q_paddr s) (q_wdata s) (q_wmask s) m) =
    store_bytes (q_paddr s) (access_size_bytes (funct3 (o_ctrl p))) (o_rs2 p) m"
  using write_across [of "q_paddr s" "access_size_bytes (funct3 (o_ctrl p))" "o_rs2 p" m] assms plan_lane [OF assms(2)]
    unat_size [of "funct3 (o_ctrl p)"]
  by (auto simp: bus_effect_def split_request_def latched_fields crosses_def)

lemma split_ready_step:
  assumes inv: "mu_inv p amo M m0 s b" and st: "mu_state s = SplitAccessWaitReady" and env: "mu_env p M i s b"
  shows "mu_inv p amo M m0 (mu_step p i s) (bus_cycle amo p i s b)"
proof -
  obtain m where b: "b = (m, None)" and v: "m_valid i" "\<not> t_mem_valid i" "mem_owner s = MemOwnerNone"
      "mem_plan p M = At (q_paddr s)" "crosses p"
      "if is_load (o_ctrl p) then m = m0 \<and> q_first_rdata s = bus_read (q_paddr s) m0
       else m = bus_write (q_paddr s) (q_wdata s) (q_wmask s) m0"
    and l: "latched p s" using inv st env by (cases b) (auto simp: mu_inv_def mu_env_def)
  have rq: "mu_request p i s = Some (split_request s)" using v st by (intro request_split) auto
  have k: "\<not> is_amo (o_ctrl p)" using v(5) by (rule crosses_not_amo)
  have ow: "next_owner p i s = (if b_ready i \<and> is_load (o_ctrl p) then MemOwnerData else MemOwnerNone)"
    using st v l by (simp add: next_owner_def fires latched_fields)
  have adv: "mu_advance p i s =
      (if b_ready i then s\<lparr>mu_state := (if is_load (o_ctrl p) then SplitAccessWaitValid else MuInit)\<rparr> else s)"
    using st l by (simp add: mu_advance_def latched_fields)
  show ?thesis
  proof (cases "is_load (o_ctrl p)")
    case True
    then have "r_wen (split_request s) = False" "r_is_amo (split_request s) = False"
      "r_addr (split_request s) = word_base (q_paddr s) + 8" using l by (simp_all add: split_request_def latched_fields)
    then show ?thesis using True v l st k ow
      by (auto simp: mu_inv_def mu_step_def adv latched_update bus_cycle_def b rq bus_effect_def bus_answer_def bus_read_def)
  next
    case False
    then have "r_wen (split_request s)" "r_is_amo (split_request s) = False"
      using l by (simp_all add: split_request_def latched_fields)
    then show ?thesis using False v l st k ow split_store_done [OF l v(4,5) False, of amo m0]
      by (auto simp: mu_inv_def mu_step_def adv latched_update bus_cycle_def b rq)
  qed
qed

lemma split_valid_step:
  assumes inv: "mu_inv p amo M m0 s b" and st: "mu_state s = SplitAccessWaitValid" and env: "mu_env p M i s b"
    and stall: "mu_stall p i s"
  shows "mu_inv p amo M m0 (mu_step p i s) (bus_cycle amo p i s b)"
proof -
  have v: "m_valid i" "\<not> t_mem_valid i" "mem_owner s = MemOwnerData" and l: "latched p s"
    using inv st env by (auto simp: mu_inv_def mu_env_def)
  have n: "\<not> b_rvalid i" using stall st v by (simp add: mu_stall_def data_mem_rvalid_def)
  have rq: "mu_request p i s = None" using v st by (intro request_none) auto
  have "next_owner p i s = MemOwnerData" using st v n by (simp add: next_owner_def fires)
  then show ?thesis using inv st v n
    by (auto simp: mu_inv_def mu_step_def mu_advance_def data_mem_rvalid_def latched_update bus_cycle_def rq)
qed

lemma mu_accept_inv:
  assumes "mu_state s = MuInit" and "mem_owner s = MemOwnerNone" and k: "inst_is_memop (o_ctrl p)"
    "\<not> (is_amo (o_ctrl p) \<and> is_load (o_ctrl p))" and "m_valid i" and "m_is_new i" and "\<not> t_mem_valid i"
  shows "mu_inv p amo M m0 (mu_step p i s) (m0, None)"
proof -
  let ?t = "latch_request p s"
  have l: "latched p ?t" by (rule latched_latch [OF k])
  have ow: "next_owner p i s = MemOwnerNone" using assms by (simp add: next_owner_def fires)
  have adv: "mu_advance p i s = mu_accept p i s" using assms by (simp add: mu_advance_def)
  have pmp: "data_pmp_allow p i s = pmp_allow (o_priv p) (o_pmp p) (o_addr p) (ucast (access_size_bytes (funct3 (o_ctrl p))))
      (access_kind (current_needs_write_permission p))" using assms(1) by (simp add: data_pmp_allow_def)
  have pa: "q_paddr ?t = o_addr p" by (simp add: latch_request_def Let_def)
  have acc: "mu_accept p i s =
      (if is_amo (o_ctrl p) \<and> amo_misaligned (funct3 (o_ctrl p)) (o_addr p) then mu_raise 6 (o_addr p) ?t
       else if \<not> need_translate p
       then (case checked p (o_addr p) of Raises c \<Rightarrow> mu_raise c (o_addr p) ?t | At _ \<Rightarrow> ?t\<lparr>mu_state := AccessWaitReady\<rparr>)
       else if page_crossed p then mu_raise (if is_load (o_ctrl p) then 4 else 6) (o_addr p) ?t
       else ?t\<lparr>mu_state := TranslateWait\<rparr>)"
    by (simp add: mu_accept_def Let_def page_crossed_def checked_def pmp access_kind_def access_fault_cause_def)
  have fault: ?thesis if "mem_plan p M = Raises c" "mu_accept p i s = mu_raise c (o_addr p) ?t" for c
    using translate_raises [OF l that(1) refl] assms by (simp add: mu_step_def adv ow that(2))
  have now: ?thesis if "mem_plan p M = At (o_addr p)" "mu_accept p i s = ?t\<lparr>mu_state := AccessWaitReady\<rparr>"
    using that l assms pa by (simp add: mu_inv_def mu_step_def adv ow latched_update)
  show ?thesis
  proof (cases "is_amo (o_ctrl p) \<and> amo_misaligned (funct3 (o_ctrl p)) (o_addr p)")
    case True
    then show ?thesis using fault [of 6] by (simp add: mem_plan_def acc)
  next
    case amo: False
    show ?thesis
    proof (cases "need_translate p")
      case True
      show ?thesis
      proof (cases "page_crossed p")
        case True
        then show ?thesis using fault [of "if is_load (o_ctrl p) then 4 else 6"] amo \<open>need_translate p\<close>
          by (simp add: mem_plan_def acc)
      next
        case False
        have "mu_accept p i s = ?t\<lparr>mu_state := TranslateWait\<rparr>" unfolding acc using amo \<open>need_translate p\<close> False by auto
        then show ?thesis using amo \<open>need_translate p\<close> False l assms
          by (simp add: mu_inv_def mu_step_def adv ow latched_update)
      qed
    next
      case False
      then have plan: "mem_plan p M = checked p (o_addr p)" using amo by (auto simp: mem_plan_def)
      show ?thesis
      proof (cases "checked p (o_addr p)")
        case (Raises c)
        then show ?thesis using fault [of c] amo False plan by (auto simp: acc)
      next
        case (At a)
        then show ?thesis using now checked_at [OF At] amo False plan by (auto simp: acc)
      qed
    qed
  qed
qed

lemma mu_cycle_inv:
  assumes inv: "mu_inv p amo M m0 s b" and env: "mu_env p M i s b" and stall: "mu_stall p i s"
  shows "mu_inv p amo M m0 (mu_step p i s) (bus_cycle amo p i s b)"
proof (cases "mu_state s")
  case MuInit
  then show ?thesis using stall env by (auto simp: mu_stall_def mu_env_def)
next
  case TranslateWait
  then show ?thesis by (rule translate_step [OF inv _ env stall])
next
  case AccessWaitReady
  then show ?thesis by (rule ready_step [OF inv _ env stall])
next
  case AccessWaitValid
  then show ?thesis by (rule valid_step [OF inv _ env stall])
next
  case SplitAccessWaitReady
  then show ?thesis by (rule split_ready_step [OF inv _ env])
next
  case SplitAccessWaitValid
  then show ?thesis by (rule split_valid_step [OF inv _ env stall])
next
  case DiscardWaitValid
  then show ?thesis using inv by (auto simp: mu_inv_def)
next
  case MuFault
  then show ?thesis using stall by (simp add: mu_stall_def)
qed

lemma mu_reach_inv: "mu_reach p amo M m0 s b \<Longrightarrow> mu_inv p amo M m0 s b"
  by (induction rule: mu_reach.induct) (auto intro: mu_accept_inv mu_cycle_inv)


section \<open>When the stall ends\<close>

lemma single_load:
  assumes "mem_plan p M = At pa" and "\<not> is_amo (o_ctrl p)" and "\<not> crosses p"
  shows "extract_load_data (join128 0 (bus_read pa m)) (ucast (bits 2 0 (o_addr p))) (funct3 (o_ctrl p)) =
    load_value (funct3 (o_ctrl p)) (ld m pa)"
  using read_within [of pa "funct3 (o_ctrl p)" m] plan_lane [OF assms(1)] assms by (simp add: crosses_def)

lemma split_load:
  assumes "mem_plan p M = At pa"
  shows "extract_load_data (join128 (ld m (word_base pa + 8)) (bus_read pa m)) (ucast (bits 2 0 (o_addr p))) (funct3 (o_ctrl p)) =
    load_value (funct3 (o_ctrl p)) (ld m pa)"
  using read_across [of m pa "funct3 (o_ctrl p)"] plan_lane [OF assms] by simp

lemma amo_result:
  assumes "\<not> amo_misaligned f3 a"
  shows "extract_load_data (join128 0 v) (ucast (bits 2 0 a)) f3 = load_value f3 (drop_bit (8 * unat (bits 2 0 a)) v)"
  unfolding extract_is_load
proof (rule load_value_cong)
  fix n assume "n < 8 * unat (access_size_bytes f3)"
  then have "8 * unat (bits 2 0 a) + n < 64" using amo_fits [OF assms] by simp
  then show "bit (ucast (drop_bit (8 * unat (ucast (bits 2 0 a) :: 3 word)) (join128 0 v)) :: u64) n =
      bit (drop_bit (8 * unat (bits 2 0 a)) v) n"
    by (simp add: bit_simps bit_join lane_unat)
qed

lemma translate_ends:
  assumes inv: "mu_inv p amo M m0 s (m, owed)" and st: "mu_state s = TranslateWait"
    and env: "mu_env p M i s (m, owed)" and stall: "\<not> mu_stall p i s"
  shows "mu_outcome p amo M m0 i s m \<and> mu_state (mu_step p i s) = MuInit \<and> mem_owner (mu_step p i s) = MemOwnerNone"
proof -
  have f: "translated_fast_load_complete p i s" "m_valid i"
    using st stall env by (auto simp: mu_stall_def mu_env_def)
  then have c: "translated_access_can_issue p i s" "\<not> q_wen s" "\<not> q_is_amo s" "\<not> q_crosses_word s" "f_valid i"
    by (auto simp: translated_fast_load_complete_def translated_fast_load_candidate_def)
  have v: "t_rsp_valid i" "\<not> t_fault i" using c by (auto simp: translated_access_can_issue_def)
  have l: "latched p s" and m: "m = m0" "owed = None" "\<not> t_mem_valid i" "mem_owner s = MemOwnerNone"
    using inv st env v by (auto simp: mu_inv_def mu_env_def)
  have plan: "mem_plan p M = checked p (t_pa i)"
    and pmp: "data_pmp_allow p i s =
      pmp_allow (o_priv p) (o_pmp p) (t_pa i) (ucast (access_size_bytes (funct3 (o_ctrl p))))
        (access_kind (current_needs_write_permission p))"
    using answered_plan [OF l st, of i M] inv env v st by (auto simp: mu_inv_def mu_env_def)
  then have at: "mem_plan p M = At (t_pa i)"
    using c(1) l by (auto simp: translated_access_can_issue_def checked_def latched_fields)
  have k: "is_load (o_ctrl p)" "\<not> is_amo (o_ctrl p)" "\<not> crosses p" using c l by (simp_all add: latched_fields)
  have "fast_load_req p i s" "fast_load_addr p i s = t_pa i"
    using f m by (auto simp: fast_load_req_def fast_load_addr_def translated_fast_load_complete_def)
  then have d: "f_data i = bus_read (t_pa i) m0" using env c(5) m by (simp add: mu_env_def)
  have "mu_rdata p i s = load_value (funct3 (o_ctrl p)) (ld m0 (t_pa i))"
    using f l single_load [OF at k(2,3), of m0] by (simp add: mu_rdata_def data_fast_load_complete_def d latched_fields)
  then have out: "mu_outcome p amo M m0 i s m"
    using at k m f st by (simp add: mu_outcome_def mu_expt_def mu_paddr_def)
  have "mu_state (mu_advance p i s) = MuInit"
    using v st f c(1) l by (auto simp: mu_advance_def mu_translated_def Let_def translated_access_can_issue_def)
  moreover have "next_owner p i s = MemOwnerNone"
    using st m f by (simp add: next_owner_def fires)
  ultimately show ?thesis using out f(2) by (simp add: mu_step_def)
qed

lemma ready_ends:
  assumes inv: "mu_inv p amo M m0 s (m, owed)" and st: "mu_state s = AccessWaitReady"
    and env: "mu_env p M i s (m, owed)" and stall: "\<not> mu_stall p i s"
  shows "mu_outcome p amo M m0 i s m \<and> mu_state (mu_step p i s) = MuInit \<and> mem_owner (mu_step p i s) = MemOwnerNone"
proof -
  have f: "access_fast_load_complete i s" "m_valid i"
    using st stall env by (auto simp: mu_stall_def mu_env_def)
  then have c: "\<not> q_wen s" "\<not> q_is_amo s" "\<not> q_crosses_word s" "f_valid i"
    by (auto simp: access_fast_load_complete_def access_fast_load_candidate_def)
  have l: "latched p s" and m: "m = m0" "\<not> t_mem_valid i" "mem_owner s = MemOwnerNone" and at: "mem_plan p M = At (q_paddr s)"
    using inv st env by (auto simp: mu_inv_def mu_env_def)
  have k: "is_load (o_ctrl p)" "\<not> is_amo (o_ctrl p)" "\<not> crosses p" using c l by (simp_all add: latched_fields)
  have n: "\<not> translated_fast_load_candidate p i s" "\<not> translated_fast_load_complete p i s"
    using st by (simp_all add: translated_fast_load_candidate_def translated_fast_load_complete_def translated_access_can_issue_def)
  have "fast_load_req p i s" "fast_load_addr p i s = q_paddr s"
    using f m n by (auto simp: fast_load_req_def fast_load_addr_def access_fast_load_complete_def)
  then have d: "f_data i = bus_read (q_paddr s) m0" using env c(4) m by (simp add: mu_env_def)
  have "mu_rdata p i s = load_value (funct3 (o_ctrl p)) (ld m0 (q_paddr s))"
    using f l single_load [OF at k(2,3), of m0] by (simp add: mu_rdata_def data_fast_load_complete_def d latched_fields)
  then have out: "mu_outcome p amo M m0 i s m"
    using at k m n st by (simp add: mu_outcome_def mu_expt_def mu_paddr_def)
  have "mu_advance p i s = s\<lparr>mu_state := MuInit\<rparr>" using st f by (simp add: mu_advance_def)
  moreover have "next_owner p i s = MemOwnerNone" using st m f by (auto simp: next_owner_def fires)
  ultimately show ?thesis using out f(2) by (simp add: mu_step_def)
qed

lemma answer_ends:
  assumes inv: "mu_inv p amo M m0 s (m, owed)" and st: "mu_state s \<in> {AccessWaitValid, SplitAccessWaitValid}"
    and env: "mu_env p M i s (m, owed)" and stall: "\<not> mu_stall p i s"
  shows "mu_outcome p amo M m0 i s m \<and> mu_state (mu_step p i s) = MuInit \<and> mem_owner (mu_step p i s) = MemOwnerNone"
proof -
  have v: "m_valid i" "\<not> t_mem_valid i" "mem_owner s = MemOwnerData" and l: "latched p s" and at: "mem_plan p M = At (q_paddr s)"
    using inv st env by (auto simp: mu_inv_def mu_env_def)
  then have r: "b_rvalid i" "data_mem_rvalid i s" using stall st by (auto simp: mu_stall_def data_mem_rvalid_def)
  have n: "\<not> translated_fast_load_complete p i s" "\<not> data_fast_load_complete p i s"
    using st by (auto simp: translated_fast_load_complete_def translated_fast_load_candidate_def translated_access_can_issue_def
        data_fast_load_complete_def access_fast_load_complete_def access_fast_load_candidate_def)
  have ow: "next_owner p i s = MemOwnerNone" using st v r by (auto simp: next_owner_def fires)
  have out: "mu_outcome p amo M m0 i s m"
  proof (cases "mu_state s = SplitAccessWaitValid")
    case True
    then have k: "is_load (o_ctrl p)" "crosses p" "m = m0" "q_first_rdata s = bus_read (q_paddr s) m0"
      and d: "b_rdata i = ld m0 (word_base (q_paddr s) + 8)"
      using inv env r by (auto simp: mu_inv_def mu_env_def)
    then have "\<not> is_amo (o_ctrl p)" using crosses_not_amo by auto
    then show ?thesis using True k d r n at l split_load [OF at, of m0]
      by (simp add: mu_outcome_def mu_expt_def mu_paddr_def mu_rdata_def latched_fields)
  next
    case False
    then have st': "mu_state s = AccessWaitValid" using st by simp
    let ?r = "access_request (q_paddr s) s"
    have m: "m = bus_effect amo ?r m0" and d: "b_rdata i = bus_answer amo ?r m0" and c: "\<not> crosses p"
      and k: "is_amo (o_ctrl p) \<or> is_load (o_ctrl p)"
      using inv env r st' stall v l by (auto simp: mu_inv_def mu_env_def mu_stall_def latched_fields)
    have f: "r_is_amo ?r = is_amo (o_ctrl p)" "r_wen ?r = (\<not> is_load (o_ctrl p))" "r_addr ?r = q_paddr s"
      using l by (simp_all add: access_request_def latched_fields)
    show ?thesis
    proof (cases "is_amo (o_ctrl p)")
      case True
      have eq: "access_request (q_paddr s) (latch_request p memunit_reset) = ?r" using latched_fields(12) [OF l] by simp
      show ?thesis using True st' m d c n at l f amo_result [OF plan_at_amo [OF at True], of "bus_answer amo ?r m0"]
        by (simp add: mu_outcome_def mu_expt_def mu_paddr_def mu_rdata_def latched_fields(5-10) bus_effect_def bus_answer_def
            eq case_prod_beta)
    next
      case False
      then show ?thesis using k st' m d c n at l f single_load [OF at False c, of m0]
        by (simp add: mu_outcome_def mu_expt_def mu_paddr_def mu_rdata_def latched_fields(5-10) bus_effect_def bus_answer_def)
    qed
  qed
  have "mu_state (mu_advance p i s) = MuInit"
  proof (cases "mu_state s = AccessWaitValid")
    case True
    then have "\<not> q_crosses_word s" using stall r v by (simp add: mu_stall_def)
    then show ?thesis using True r by (simp add: mu_advance_def)
  next
    case False
    then show ?thesis using st r by (simp add: mu_advance_def)
  qed
  then show ?thesis using out v(1) ow by (simp add: mu_step_def)
qed

lemma rest_ends:
  assumes inv: "mu_inv p amo M m0 s (m, owed)" and st: "mu_state s \<in> {MuInit, MuFault}" and env: "mu_env p M i s (m, owed)"
  shows "mu_outcome p amo M m0 i s m \<and> mu_state (mu_step p i s) = MuInit \<and> mem_owner (mu_step p i s) = MemOwnerNone"
proof -
  have e: "\<not> m_is_new i" "mu_state s = MuFault \<or> m_valid i" "t_mem_valid i \<longrightarrow> mu_state s = TranslateWait"
    using env unfolding mu_env_def prod.case by blast+
  have v: "\<not> t_mem_valid i" using e st by auto
  have l: "latched p s" using inv by (simp add: mu_inv_def)
  have ow: "mem_owner s = MemOwnerNone \<and> (case mem_plan p M of Raises c \<Rightarrow> mu_expt s = Some (c, o_addr p) \<and> m = m0
      | At pa \<Rightarrow> mu_expt s = None \<and> pa = q_paddr s \<and> \<not> is_amo (o_ctrl p) \<and> \<not> is_load (o_ctrl p) \<and>
          m = store_bytes pa (access_size_bytes (funct3 (o_ctrl p))) (o_rs2 p) m0)"
  proof (cases "mu_state s = MuInit")
    case True
    then show ?thesis using inv by (simp add: mu_inv_def mu_expt_def)
  next
    case False
    then have "mu_state s = MuFault" using st by simp
    then show ?thesis using inv by (simp add: mu_inv_def mu_expt_def)
  qed
  have n: "\<not> translated_fast_load_complete p i s" "\<not> data_read_mem_fire p i s" "\<not> translation_mem_fire i"
    using st v by (auto simp: translated_fast_load_complete_def translated_fast_load_candidate_def fires)
  have "mu_state (mu_step p i s) = MuInit" "mem_owner (mu_step p i s) = MemOwnerNone"
    using st e v n ow by (auto simp: mu_step_def mu_advance_def next_owner_def response_will_be_outstanding_def)
  moreover have "mu_outcome p amo M m0 i s m"
    using ow n by (simp add: mu_outcome_def mu_paddr_def Let_def split: access.splits)
  ultimately show ?thesis by simp
qed


section \<open>Progress\<close>

text \<open>The cycles on which neither the translation unit nor the bus keeps the instruction waiting.\<close>

definition productive :: "mu_in \<Rightarrow> memunit \<Rightarrow> bool" where
  "productive i s \<longleftrightarrow>
     (case mu_state s of
        TranslateWait \<Rightarrow> t_rsp_valid i
      | AccessWaitReady \<Rightarrow> b_ready i | SplitAccessWaitReady \<Rightarrow> b_ready i
      | AccessWaitValid \<Rightarrow> b_rvalid i | SplitAccessWaitValid \<Rightarrow> b_rvalid i
      | _ \<Rightarrow> True)"

text \<open>A stay of stalled cycles, and the number of its productive ones.\<close>

fun stalled_for :: "mem_op \<Rightarrow> amo \<Rightarrow> (nat \<Rightarrow> u64 option) \<Rightarrow> mu_in list \<Rightarrow> memunit \<Rightarrow> mem \<times> u64 option \<Rightarrow> bool" where
  "stalled_for p amo M [] s b = True"
| "stalled_for p amo M (i # is) s b \<longleftrightarrow> mu_env p M i s b \<and> mu_stall p i s \<and>
     stalled_for p amo M is (mu_step p i s) (bus_cycle amo p i s b)"

fun productive_cycles :: "mem_op \<Rightarrow> mu_in list \<Rightarrow> memunit \<Rightarrow> nat" where
  "productive_cycles p [] s = 0"
| "productive_cycles p (i # is) s = of_bool (productive i s) + productive_cycles p is (mu_step p i s)"

definition mu_work :: "memunit \<Rightarrow> nat" where
  "mu_work s = (case mu_state s of TranslateWait \<Rightarrow> 4 | AccessWaitReady \<Rightarrow> 3 | AccessWaitValid \<Rightarrow> 2
     | SplitAccessWaitReady \<Rightarrow> 1 | _ \<Rightarrow> 0)"

lemma translated_state:
  "mu_state (mu_translated p i s) \<noteq> TranslateWait"
  by (simp add: mu_translated_def mu_raise_def Let_def)

lemma step_state: "m_valid i \<Longrightarrow> mu_work (mu_step p i s) = mu_work (mu_advance p i s)"
  by (simp add: mu_work_def mu_step_def)

lemma work_decreases:
  assumes inv: "mu_inv p amo M m0 s b" and env: "mu_env p M i s b" and stall: "mu_stall p i s"
  shows "of_bool (productive i s) + mu_work (mu_step p i s) \<le> mu_work s"
proof -
  have v: "m_valid i" "\<not> m_is_new i"
  proof -
    obtain m owed where b: "b = (m, owed)" by (cases b)
    have "m_valid i \<or> mu_state s = MuFault" "\<not> m_is_new i" using env by (simp_all add: mu_env_def b)
    moreover have "mu_state s \<noteq> MuFault"
    proof
      assume "mu_state s = MuFault"
      then show False using stall by (simp add: mu_stall_def)
    qed
    ultimately show "m_valid i" "\<not> m_is_new i" by simp_all
  qed
  show ?thesis unfolding step_state [OF v(1)]
  proof (cases "mu_state s")
    case TranslateWait
    then show "of_bool (productive i s) + mu_work (mu_advance p i s) \<le> mu_work s"
      using translated_state [of p i s] by (simp add: mu_work_def productive_def mu_advance_def split: mu_state.splits)
  next
    case AccessWaitReady
    then have "\<not> access_fast_load_complete i s" using stall v by (simp add: mu_stall_def)
    then show "of_bool (productive i s) + mu_work (mu_advance p i s) \<le> mu_work s"
      using AccessWaitReady by (simp add: mu_work_def productive_def mu_advance_def)
  next
    case AccessWaitValid
    then have "mem_owner s = MemOwnerData" using inv by (auto simp: mu_inv_def)
    then show "of_bool (productive i s) + mu_work (mu_advance p i s) \<le> mu_work s"
      using AccessWaitValid stall v by (simp add: mu_work_def productive_def mu_advance_def mu_stall_def data_mem_rvalid_def)
  next
    case SplitAccessWaitValid
    then have "mem_owner s = MemOwnerData" using inv by (auto simp: mu_inv_def)
    then show "of_bool (productive i s) + mu_work (mu_advance p i s) \<le> mu_work s"
      using SplitAccessWaitValid stall v by (simp add: mu_work_def productive_def mu_advance_def mu_stall_def data_mem_rvalid_def)
  next
    case SplitAccessWaitReady
    then show "of_bool (productive i s) + mu_work (mu_advance p i s) \<le> mu_work s"
      by (simp add: mu_work_def productive_def mu_advance_def)
  next
    case MuInit
    then show "of_bool (productive i s) + mu_work (mu_advance p i s) \<le> mu_work s" using stall v by (simp add: mu_stall_def)
  next
    case DiscardWaitValid
    then show "of_bool (productive i s) + mu_work (mu_advance p i s) \<le> mu_work s" using inv by (auto simp: mu_inv_def)
  next
    case MuFault
    then show "of_bool (productive i s) + mu_work (mu_advance p i s) \<le> mu_work s" using stall by (simp add: mu_stall_def)
  qed
qed

lemma stalls_are_waits:
  "mu_inv p amo M m0 s b \<Longrightarrow> stalled_for p amo M is s b \<Longrightarrow> productive_cycles p is s \<le> mu_work s"
proof (induction "is" arbitrary: s b)
  case (Cons i "is")
  then have "productive_cycles p is (mu_step p i s) \<le> mu_work (mu_step p i s)"
    using mu_cycle_inv [of p amo M m0 s b i] by auto
  then show ?case using work_decreases [OF Cons.prems(1), of i] Cons.prems(2) by auto
qed simp

section \<open>Properties\<close>

text \<open>
  C4. Every load, store and atomic does what the architecture says. From the cycle it arrives, however
  long the bus and the translation unit make it wait, the cycle in which the stall ends shows the
  exception of \<open>mem_plan\<close> with the virtual address and an untouched memory, or the physical address,
  the sign- or zero-extended bytes of a load, exactly the bytes of a store changed (also when the
  access crosses a doubleword and is split in two), or the atomic done once with the answer of the
  atomic unit; and the unit is idle for the next instruction.
\<close>
theorem memunit_executes:
  assumes "mu_reach p amo M m0 s (m, owed)" and "mu_env p M i s (m, owed)" and "\<not> mu_stall p i s"
  shows "mu_outcome p amo M m0 i s m \<and> mu_state (mu_step p i s) = MuInit \<and> mem_owner (mu_step p i s) = MemOwnerNone"
proof -
  have inv: "mu_inv p amo M m0 s (m, owed)" using assms(1) by (rule mu_reach_inv)
  have "mu_state s \<notin> {SplitAccessWaitReady, DiscardWaitValid}"
    using inv assms(2,3) by (auto simp: mu_inv_def mu_stall_def mu_env_def)
  then show ?thesis
    using translate_ends [OF inv _ assms(2,3)] ready_ends [OF inv _ assms(2,3)] answer_ends [OF inv _ assms(2,3)]
      rest_ends [OF inv _ assms(2)] by (cases "mu_state s") auto
qed

text \<open>An M-mode \<open>ld\<close> at an odd address, over a memory in which every byte is the low byte of its address.\<close>

definition demo_ctrl :: inst_ctrl where
  "demo_ctrl = \<lparr>itype = INST_I, rwb_en = True, is_lui = False, is_aluop = False, is_muldiv = False, is_op32 = False,
     is_jump = False, is_load = True, is_csr = False, is_amo = False, ctrl_rvc = False, funct3 = 3, funct7 = 0\<rparr>"

definition demo_ld :: mem_op where
  "demo_ld = \<lparr>o_ctrl = demo_ctrl, o_priv = PRIV_M, o_satp = 0, o_sum = False, o_mxr = False, o_pmp = csr_reset,
     o_addr = 0x80000003, o_rs2 = 0\<rparr>"

definition demo_memory :: mem where "demo_memory a = ucast a"

definition no_amo :: amo where "no_amo r m = (0, m)"

definition demo_cycle :: "bool \<Rightarrow> bool \<Rightarrow> u64 \<Rightarrow> mu_in" where
  "demo_cycle ready rvalid d = \<lparr>m_valid = True, m_is_new = False, t_rsp_valid = False, t_fault = False, t_fault_cause = 0,
     t_fault_value = 0, t_pa = 0, t_mem_valid = False, t_mem_addr = 0, b_ready = ready, b_rvalid = rvalid, b_rdata = d,
     f_valid = False, f_data = 0\<rparr>"

definition demo_cycles :: "mu_in list" where
  "demo_cycles = [demo_cycle True False 0, demo_cycle False True 0x0706050403020100, demo_cycle True False 0]"

definition demo_answer :: mu_in where "demo_answer = demo_cycle False True 0x0f0e0d0c0b0a0908"

definition demo_start :: memunit where
  "demo_start = mu_step demo_ld ((demo_cycle False False 0)\<lparr>m_is_new := True\<rparr>) memunit_reset"

definition demo_end :: memunit where "demo_end = fold (mu_step demo_ld) demo_cycles demo_start"

lemma demo_start_eq: "demo_start = \<lparr>mu_state = AccessWaitReady, mem_owner = MemOwnerNone, q_wen = False,
    q_vaddr = 0x80000003, q_paddr = 0x80000003, q_rs2 = 0, q_wdata = 0, q_wmask = 0xf8, q_is_amo = False, q_amoop = 0,
    q_aq = False, q_rl = False, q_funct3 = 3, q_offset = 3, q_size = 8, q_crosses_word = True, q_first_rdata = 0,
    load_result = 0, fault_cause = 0, fault_value = 0\<rparr>"
  by code_simp

lemma demo_mu_steps:
  "mu_step demo_ld (demo_cycle True False 0) demo_start = demo_start\<lparr>mu_state := AccessWaitValid, mem_owner := MemOwnerData\<rparr>"
  "mu_step demo_ld (demo_cycle False True 0x0706050403020100) (demo_start\<lparr>mu_state := AccessWaitValid, mem_owner := MemOwnerData\<rparr>) =
     demo_start\<lparr>mu_state := SplitAccessWaitReady, q_first_rdata := 0x0706050403020100\<rparr>"
  "mu_step demo_ld (demo_cycle True False 0) (demo_start\<lparr>mu_state := SplitAccessWaitReady, q_first_rdata := 0x0706050403020100\<rparr>) =
     demo_start\<lparr>mu_state := SplitAccessWaitValid, q_first_rdata := 0x0706050403020100, mem_owner := MemOwnerData\<rparr>"
  unfolding demo_start_eq by code_simp+

lemma demo_requests:
  "mu_request demo_ld (demo_cycle True False 0) demo_start = Some (access_request 0x80000003 demo_start)"
  "mu_request demo_ld (demo_cycle False True d) (demo_start\<lparr>mu_state := AccessWaitValid, mem_owner := MemOwnerData\<rparr>) = None"
  "mu_request demo_ld (demo_cycle True False 0) (demo_start\<lparr>mu_state := SplitAccessWaitReady, q_first_rdata := 0x0706050403020100\<rparr>) =
     Some (split_request (demo_start\<lparr>mu_state := SplitAccessWaitReady, q_first_rdata := 0x0706050403020100\<rparr>))"
  by (simp_all add: request_ready request_none request_split demo_start_eq demo_cycle_def access_fast_load_complete_def)

lemma demo_reads:
  "bus_read 0x80000003 demo_memory = 0x0706050403020100" "bus_read 0x80000008 demo_memory = 0x0f0e0d0c0b0a0908"
  "word_base 0x80000003 = 0x80000000"
  by code_simp+

lemma demo_bus:
  "bus_cycle no_amo demo_ld (demo_cycle True False 0) demo_start (demo_memory, None) = (demo_memory, Some 0x0706050403020100)"
  "bus_cycle no_amo demo_ld (demo_cycle False True d) (demo_start\<lparr>mu_state := AccessWaitValid, mem_owner := MemOwnerData\<rparr>)
     (demo_memory, ow) = (demo_memory, None)"
  "bus_cycle no_amo demo_ld (demo_cycle True False 0)
     (demo_start\<lparr>mu_state := SplitAccessWaitReady, q_first_rdata := 0x0706050403020100\<rparr>) (demo_memory, None) =
     (demo_memory, Some 0x0f0e0d0c0b0a0908)"
  unfolding bus_cycle_def demo_requests
  by (simp_all add: demo_start_eq demo_cycle_def access_request_def split_request_def bus_effect_def bus_answer_def demo_reads)

lemma demo_stalls:
  "mu_stall demo_ld (demo_cycle True False 0) demo_start"
  "mu_stall demo_ld (demo_cycle False True d) (demo_start\<lparr>mu_state := AccessWaitValid, mem_owner := MemOwnerData\<rparr>)"
  "mu_stall demo_ld (demo_cycle True False 0) (demo_start\<lparr>mu_state := SplitAccessWaitReady, q_first_rdata := 0x0706050403020100\<rparr>)"
  "\<not> mu_stall demo_ld (demo_cycle False True d)
     (demo_start\<lparr>mu_state := SplitAccessWaitValid, q_first_rdata := 0x0706050403020100, mem_owner := MemOwnerData\<rparr>)"
  by (simp_all add: mu_stall_def demo_start_eq demo_cycle_def access_fast_load_complete_def data_mem_rvalid_def)

lemma demo_env:
  "mu_state s \<noteq> TranslateWait \<Longrightarrow> mu_env demo_ld M (demo_cycle r False d) s (m, owed)"
  "mu_state s \<noteq> TranslateWait \<Longrightarrow> mu_env demo_ld M (demo_cycle r True d) s (m, Some d)"
  by (simp_all add: mu_env_def demo_cycle_def)

lemma demo_states:
  "mu_state demo_start \<noteq> TranslateWait" "mu_state (s\<lparr>mu_state := AccessWaitValid, mem_owner := w\<rparr>) \<noteq> TranslateWait"
  "mu_state (s\<lparr>mu_state := SplitAccessWaitReady, q_first_rdata := d\<rparr>) \<noteq> TranslateWait"
  "mu_state (s\<lparr>mu_state := SplitAccessWaitValid, q_first_rdata := d, mem_owner := w\<rparr>) \<noteq> TranslateWait"
  by (simp_all add: demo_start_eq)

lemma demo_stay:
  "stalled_for demo_ld no_amo M demo_cycles demo_start (demo_memory, None)"
  unfolding demo_cycles_def stalled_for.simps demo_mu_steps demo_bus
  by (simp only: demo_env demo_states demo_stalls simp_thms not_False_eq_True)

lemma demo_begins: "mu_reach demo_ld no_amo M demo_memory demo_start (demo_memory, None)"
  unfolding demo_start_def
  by (rule mu_reach.accepted) (simp_all add: memunit_reset_def demo_cycle_def demo_ld_def demo_ctrl_def inst_is_memop_def)

lemma demo_end_eq:
  "demo_end = demo_start\<lparr>mu_state := SplitAccessWaitValid, q_first_rdata := 0x0706050403020100, mem_owner := MemOwnerData\<rparr>"
  by (simp add: demo_end_def demo_cycles_def demo_mu_steps)

lemma demo_ends: "mu_reach demo_ld no_amo M demo_memory demo_end (demo_memory, Some 0x0f0e0d0c0b0a0908)"
proof -
  note r1 = mu_reach.cycle [OF demo_begins demo_env(1) [OF demo_states(1)] demo_stalls(1), unfolded demo_mu_steps demo_bus]
  note r2 = mu_reach.cycle [OF r1 demo_env(2) [OF demo_states(2)] demo_stalls(2), unfolded demo_mu_steps demo_bus]
  note r3 = mu_reach.cycle [OF r2 demo_env(1) [OF demo_states(3)] demo_stalls(3), unfolded demo_mu_steps demo_bus]
  show ?thesis unfolding demo_end_eq by (rule r3)
qed

text \<open>The bytes 3 .. 10, from two doublewords.\<close>

theorem memunit_executes_witness:
  "mu_rdata demo_ld demo_answer demo_end = 0x0a09080706050403 \<and> mu_expt demo_end = None"
proof -
  have "mu_outcome demo_ld no_amo (\<lambda>a. None) demo_memory demo_answer demo_end demo_memory"
    using memunit_executes [OF demo_ends [of "\<lambda>a. None"], of demo_answer] demo_stalls(4) [of "0x0f0e0d0c0b0a0908"]
    unfolding demo_answer_def demo_end_eq using demo_env(2) [OF demo_states(4)] by blast
  moreover have "mem_plan demo_ld (\<lambda>a. None) = At 0x80000003" by code_simp
  moreover have "load_value 3 (ld demo_memory 0x80000003) = 0x0a09080706050403" by code_simp
  ultimately show ?thesis by (simp add: mu_outcome_def Let_def) (simp add: demo_ld_def demo_ctrl_def)
qed

text \<open>
  C30. The unit adds no waiting of its own without end: of all the cycles an instruction keeps the memory
  stage stalled, from the one in which an idle unit takes it on, at most five are not spent waiting
  for the translation, for the bus to take a request or for its answer. A translated load that crosses
  a word needs all five (taken on, translated, first word requested and answered, second word
  requested), and the cycle with the second answer ends the stall.
\<close>
theorem memunit_ends:
  assumes "mu_state s = MuInit" and "mem_owner s = MemOwnerNone" and "inst_is_memop (o_ctrl p)"
    and "\<not> (is_amo (o_ctrl p) \<and> is_load (o_ctrl p))" and "m_valid i" and "m_is_new i" and "\<not> t_mem_valid i"
    and "stalled_for p amo M is (mu_step p i s) (m0, None)"
  shows "productive_cycles p (i # is) s \<le> 5"
proof -
  have r: "mu_reach p amo M m0 (mu_step p i s) (m0, None)" by (rule mu_reach.accepted [OF assms(1-7)])
  have "productive_cycles p is (mu_step p i s) \<le> mu_work (mu_step p i s)"
    using stalls_are_waits [OF mu_reach_inv [OF r] assms(8)] .
  also have "\<dots> \<le> 4" by (simp add: mu_work_def split: mu_state.splits)
  finally show ?thesis by simp
qed

theorem memunit_ends_witness:
  "productive_cycles demo_ld ((demo_cycle False False 0)\<lparr>m_is_new := True\<rparr> # demo_cycles) memunit_reset \<le> 5"
  by (rule memunit_ends [where M = "\<lambda>a. None" and amo = no_amo, OF _ _ _ _ _ _ _ demo_stay [unfolded demo_start_def]])
    (simp_all add: memunit_reset_def demo_cycle_def demo_ld_def demo_ctrl_def inst_is_memop_def)

end
