(* ===== verification/Amo.thy ===== *)
theory Amo
  imports LoadStoreProof
begin

text \<open>
  The atomic unit, \<open>src/amounit.sv\<close>, between the load/store unit (through the data cache) and the
  bus: plain requests pass, LR/SC keep one reservation, the other atomics become a read and a write.
  Its bus is that of \<open>mmio_controller.sv\<close>, which takes nothing while an answer is owed. The priority
  hint and the trace texts are left out.
\<close>

unbundle bit_operations_syntax

section \<open>State and ports\<close>

datatype am_state = AmInit | WaitReady | WaitValid | SCSuccess | SCFail | AMOLoadReady | AMOLoadValid
  | AMOStoreReady | AMOStoreValid

record am_in =
  a_clear :: bool
  a_req :: "bus_req option"
  a_ready :: bool
  a_rvalid :: bool
  a_rdata :: u64

record amounit =
  am_state :: am_state
  slave_saved :: bus_req
  is_addr_reserved :: bool
  reserved_addr :: u64
  zaamo_fetched_data :: u64
  zaamo_written_data :: u64

definition amounit_reset :: amounit where
  "amounit_reset = \<lparr>am_state = AmInit, slave_saved = \<lparr>r_addr = 0, r_wen = False, r_wdata = 0, r_wmask = 0,
     r_is_amo = False, r_amoop = 0, r_aq = False, r_rl = False, r_funct3 = 0\<rparr>, is_addr_reserved = False,
     reserved_addr = 0, zaamo_fetched_data = 0, zaamo_written_data = 0\<rparr>"

record mem_req =
  w_addr :: u64
  w_wen :: bool
  w_wdata :: u64
  w_wmask :: u8


section \<open>The operation\<close>

definition calc_amo :: "5 word \<Rightarrow> 'a::len word \<Rightarrow> 'a word \<Rightarrow> 'a word" where
  "calc_amo op wdata rdata =
     (let lts = (sint wdata < sint rdata); ltu = (wdata < rdata)
      in if op = 1 then wdata
         else if op = 0 then rdata + wdata
         else if op = 4 then rdata XOR wdata
         else if op = 12 then rdata AND wdata
         else if op = 8 then rdata OR wdata
         else if op = 16 then (if lts then wdata else rdata)
         else if op = 20 then (if \<not> lts then wdata else rdata)
         else if op = 24 then (if ltu then wdata else rdata)
         else if op = 28 then (if \<not> ltu then wdata else rdata)
         else 0)"

definition calc_amo_32 :: "5 word \<Rightarrow> u32 \<Rightarrow> u32 \<Rightarrow> u32" where "calc_amo_32 = calc_amo"

definition calc_amo_64 :: "5 word \<Rightarrow> u64 \<Rightarrow> u64 \<Rightarrow> u64" where "calc_amo_64 = calc_amo"

definition gen_amo_wdata :: "bus_req \<Rightarrow> u64 \<Rightarrow> u64" where
  "gen_amo_wdata q rdata =
     (if r_funct3 q = 2
      then let low = \<not> bit (r_addr q) 2;
               rdata32 = (if low then ucast rdata else ucast (drop_bit 32 rdata));
               wdata32 = (if low then ucast (r_wdata q) else ucast (drop_bit 32 (r_wdata q)));
               result32 = calc_amo_32 (r_amoop q) wdata32 rdata32
           in if low then push_bit 32 (drop_bit 32 rdata) OR ucast result32
              else push_bit 32 (ucast result32) OR take_bit 32 rdata
      else if r_funct3 q = 3 then calc_amo_64 (r_amoop q) (r_wdata q) rdata
      else 0)"

definition is_Zaamo :: "bus_req \<Rightarrow> bool" where
  "is_Zaamo r \<longleftrightarrow> r_is_amo r \<and> r_amoop r \<noteq> AMO_LR \<and> r_amoop r \<noteq> AMO_SC"


section \<open>Combinational logic\<close>

definition slave_ready :: "am_in \<Rightarrow> amounit \<Rightarrow> bool" where
  "slave_ready i s =
     (case am_state s of
        AmInit \<Rightarrow> True | WaitValid \<Rightarrow> a_rvalid i | SCSuccess \<Rightarrow> a_rvalid i | SCFail \<Rightarrow> True
      | AMOStoreValid \<Rightarrow> a_rvalid i | _ \<Rightarrow> False)"

definition slave_rvalid :: "am_in \<Rightarrow> amounit \<Rightarrow> bool" where
  "slave_rvalid i s =
     (case am_state s of
        WaitValid \<Rightarrow> a_rvalid i | SCSuccess \<Rightarrow> a_rvalid i | SCFail \<Rightarrow> True | AMOStoreValid \<Rightarrow> a_rvalid i | _ \<Rightarrow> False)"

definition slave_rdata :: "am_in \<Rightarrow> amounit \<Rightarrow> u64" where
  "slave_rdata i s =
     (case am_state s of
        WaitValid \<Rightarrow> a_rdata i | SCSuccess \<Rightarrow> 0 | SCFail \<Rightarrow> 1 | AMOStoreValid \<Rightarrow> zaamo_fetched_data s | _ \<Rightarrow> 0)"

definition amo_commit :: "am_in \<Rightarrow> amounit \<Rightarrow> u64 option" where
  "amo_commit i s = (if am_state s = AMOStoreValid \<and> a_rvalid i then Some (zaamo_written_data s) else None)"

definition read_at :: "u64 \<Rightarrow> mem_req" where
  "read_at a = \<lparr>w_addr = a, w_wen = False, w_wdata = 0, w_wmask = 0\<rparr>"

definition pass_on :: "bus_req \<Rightarrow> mem_req" where
  "pass_on r = \<lparr>w_addr = r_addr r, w_wen = r_wen r, w_wdata = r_wdata r, w_wmask = r_wmask r\<rparr>"

definition write_at :: "bus_req \<Rightarrow> u64 \<Rightarrow> mem_req" where
  "write_at r d = \<lparr>w_addr = r_addr r, w_wen = True, w_wdata = d, w_wmask = r_wmask r\<rparr>"

definition reserves :: "am_in \<Rightarrow> amounit \<Rightarrow> bus_req \<Rightarrow> bool" where
  "reserves i s r \<longleftrightarrow> \<not> a_clear i \<and> is_addr_reserved s \<and> r_addr r = reserved_addr s"

definition taken_req :: "am_in \<Rightarrow> amounit \<Rightarrow> bus_req option" where
  "taken_req i s = (if slave_ready i s then a_req i else None)"

definition accept_request_comb :: "am_in \<Rightarrow> amounit \<Rightarrow> mem_req option" where
  "accept_request_comb i s =
     (case taken_req i s of
        None \<Rightarrow> None
      | Some r \<Rightarrow>
          if r_is_amo r
          then (if r_amoop r = AMO_LR then Some (read_at (r_addr r))
                else if r_amoop r = AMO_SC then (if reserves i s r then Some (write_at r (r_wdata r)) else None)
                else if is_Zaamo r then Some (read_at (r_addr r)) else None)
          else Some (pass_on r))"

definition master_request :: "am_in \<Rightarrow> amounit \<Rightarrow> mem_req option" where
  "master_request i s =
     (let r = slave_saved s
      in case am_state s of
           AmInit \<Rightarrow> accept_request_comb i s
         | WaitReady \<Rightarrow>
             (if r_is_amo r
              then (if r_amoop r = AMO_LR then Some (read_at (r_addr r))
                    else if r_amoop r = AMO_SC then (if \<not> a_clear i then Some (write_at r (r_wdata r)) else None)
                    else None)
              else Some (pass_on r))
         | WaitValid \<Rightarrow> accept_request_comb i s
         | SCSuccess \<Rightarrow> accept_request_comb i s
         | SCFail \<Rightarrow> accept_request_comb i s
         | AMOLoadReady \<Rightarrow> Some (read_at (r_addr r))
         | AMOLoadValid \<Rightarrow> Some (write_at r (gen_amo_wdata r (a_rdata i)))
         | AMOStoreReady \<Rightarrow> Some (write_at r (gen_amo_wdata r (zaamo_fetched_data s)))
         | AMOStoreValid \<Rightarrow> accept_request_comb i s)"


section \<open>One clock edge\<close>

definition accept_request_ff :: "am_in \<Rightarrow> amounit \<Rightarrow> amounit" where
  "accept_request_ff i s =
     (case taken_req i s of
        None \<Rightarrow> s\<lparr>am_state := AmInit\<rparr>
      | Some r \<Rightarrow>
          let t = s\<lparr>slave_saved := r\<rparr>
          in if r_is_amo r
             then (if r_amoop r = AMO_LR
                   then t\<lparr>is_addr_reserved := True, reserved_addr := r_addr r,
                          am_state := (if a_ready i then WaitValid else WaitReady)\<rparr>
                   else if r_amoop r = AMO_SC
                   then t\<lparr>is_addr_reserved := False,
                          am_state := (if reserves i s r then (if a_ready i then SCSuccess else WaitReady) else SCFail)\<rparr>
                   else if is_Zaamo r then t\<lparr>am_state := (if a_ready i then AMOLoadValid else AMOLoadReady)\<rparr>
                   else t)
             else t\<lparr>am_state := (if a_ready i then WaitValid else WaitReady)\<rparr>)"

definition am_advance :: "am_in \<Rightarrow> amounit \<Rightarrow> amounit" where
  "am_advance i s =
     (case am_state s of
        AmInit \<Rightarrow> accept_request_ff i s
      | WaitReady \<Rightarrow>
          if r_is_amo (slave_saved s) \<and> r_amoop (slave_saved s) = AMO_SC \<and> a_clear i then s\<lparr>am_state := SCFail\<rparr>
          else if a_ready i
          then (if r_is_amo (slave_saved s) \<and> r_amoop (slave_saved s) = AMO_SC then s\<lparr>am_state := SCSuccess\<rparr>
                else s\<lparr>am_state := WaitValid\<rparr>)
          else s
      | WaitValid \<Rightarrow> if a_rvalid i then accept_request_ff i s else s
      | SCSuccess \<Rightarrow> if a_rvalid i then accept_request_ff i s else s
      | SCFail \<Rightarrow> accept_request_ff i s
      | AMOLoadReady \<Rightarrow> if a_ready i then s\<lparr>am_state := AMOLoadValid\<rparr> else s
      | AMOLoadValid \<Rightarrow>
          if a_rvalid i
          then s\<lparr>zaamo_fetched_data := a_rdata i, am_state := (if slave_ready i s then AMOStoreValid else AMOStoreReady)\<rparr>
          else s
      | AMOStoreReady \<Rightarrow> if a_ready i then s\<lparr>am_state := AMOStoreValid\<rparr> else s
      | AMOStoreValid \<Rightarrow> if a_rvalid i then accept_request_ff i s else s)"

definition record_store :: "am_in \<Rightarrow> amounit \<Rightarrow> amounit \<Rightarrow> amounit" where
  "record_store i s t =
     (case master_request i s of
        Some q \<Rightarrow> if (am_state s = AMOLoadValid \<or> am_state s = AMOStoreReady) \<and> a_ready i \<and> w_wen q
                  then t\<lparr>zaamo_written_data := w_wdata q\<rparr> else t
      | None \<Rightarrow> t)"

definition am_step :: "am_in \<Rightarrow> amounit \<Rightarrow> amounit" where
  "am_step i s =
     (let t = record_store i s (am_advance i s) in if a_clear i then t\<lparr>is_addr_reserved := False\<rparr> else t)"


section \<open>The unit beside its bus\<close>

text \<open>
  \<open>owed\<close> is the bus's outstanding answer, with its data when that is determined (a read). The bus
  takes nothing while it owes, the cycle of the answer included.
\<close>

definition am_env :: "am_in \<Rightarrow> u64 option option \<Rightarrow> bool" where
  "am_env i owed \<longleftrightarrow>
     (a_ready i \<longrightarrow> owed = None) \<and>
     (a_rvalid i \<longrightarrow> (case owed of None \<Rightarrow> False | Some x \<Rightarrow> (\<forall>v. x = Some v \<longrightarrow> a_rdata i = v)))"

definition mem_effect :: "mem_req \<Rightarrow> mem \<Rightarrow> mem" where
  "mem_effect q m = (if w_wen q then bus_write (w_addr q) (w_wdata q) (w_wmask q) m else m)"

definition mem_answer :: "mem_req \<Rightarrow> mem \<Rightarrow> u64 option" where
  "mem_answer q m = (if w_wen q then None else Some (bus_read (w_addr q) m))"

text \<open>The request under way: itself, the memory and the reservation it met, and whether that was cleared since.\<close>

record job =
  j_req :: bus_req
  j_mem :: mem
  j_lr :: "u64 option"
  j_cleared :: bool

record am_world =
  am_mem :: mem
  am_owed :: "u64 option option"
  am_job :: "job option"
  am_lr :: "u64 option"

definition am_world_step :: "am_in \<Rightarrow> amounit \<Rightarrow> am_world \<Rightarrow> am_world" where
  "am_world_step i s w =
     (let owed' = (if a_rvalid i then None else am_owed w)
      in \<lparr>am_mem = (case master_request i s of Some q \<Rightarrow> if a_ready i then mem_effect q (am_mem w) else am_mem w | None \<Rightarrow> am_mem w),
          am_owed = (case master_request i s of Some q \<Rightarrow> if a_ready i then Some (mem_answer q (am_mem w)) else owed' | None \<Rightarrow> owed'),
          am_job = (case taken_req i s of
              Some r \<Rightarrow> Some \<lparr>j_req = r, j_mem = am_mem w, j_lr = am_lr w, j_cleared = a_clear i\<rparr>
            | None \<Rightarrow> if slave_rvalid i s then None
                      else map_option (\<lambda>j. j\<lparr>j_cleared := j_cleared j \<or> a_clear i\<rparr>) (am_job w)),
          am_lr = (if a_clear i then None
                   else case taken_req i s of
                     Some r \<Rightarrow> if r_is_amo r \<and> r_amoop r = AMO_LR then Some (r_addr r)
                               else if r_is_amo r \<and> r_amoop r = AMO_SC then None else am_lr w
                   | None \<Rightarrow> am_lr w)\<rparr>)"

inductive am_reach :: "amounit \<Rightarrow> am_world \<Rightarrow> bool" where
  start: "am_reach amounit_reset \<lparr>am_mem = m, am_owed = None, am_job = None, am_lr = None\<rparr>"
| edge: "am_reach s w \<Longrightarrow> am_env i (am_owed w) \<Longrightarrow> am_reach (am_step i s) (am_world_step i s w)"

text \<open>What the answer to a request must be, and the memory it leaves.\<close>

definition am_outcome :: "job \<Rightarrow> am_in \<Rightarrow> amounit \<Rightarrow> mem \<Rightarrow> bool" where
  "am_outcome j i s m =
     (let r = j_req j; old = bus_read (r_addr r) (j_mem j);
          written = (\<lambda>d. bus_write (r_addr r) d (r_wmask r) (j_mem j));
          reserved = (j_lr j = Some (r_addr r))
      in if \<not> r_is_amo r
         then (if r_wen r then m = written (r_wdata r) else m = j_mem j \<and> slave_rdata i s = old)
         else if r_amoop r = AMO_LR then m = j_mem j \<and> slave_rdata i s = old
         else if r_amoop r = AMO_SC
         then (slave_rdata i s = 0 \<and> reserved \<and> m = written (r_wdata r)) \<or>
              (slave_rdata i s = 1 \<and> (\<not> reserved \<or> j_cleared j) \<and> m = j_mem j)
         else slave_rdata i s = old \<and> m = written (gen_amo_wdata r old) \<and> amo_commit i s = Some (gen_amo_wdata r old))"


section \<open>The invariant\<close>

definition am_inv :: "amounit \<Rightarrow> am_world \<Rightarrow> bool" where
  "am_inv s w \<longleftrightarrow>
     am_lr w = (if is_addr_reserved s then Some (reserved_addr s) else None) \<and>
     (if am_state s = AmInit then am_owed w = None \<and> am_job w = None
      else case am_job w of
        None \<Rightarrow> False
      | Some j \<Rightarrow>
          let r = slave_saved s; old = bus_read (r_addr r) (j_mem j)
          in j_req j = r \<and>
             (case am_state s of
                WaitReady \<Rightarrow> am_owed w = None \<and> am_mem w = j_mem j \<and> \<not> is_Zaamo r \<and>
                  (r_is_amo r \<and> r_amoop r = AMO_SC \<longrightarrow> j_lr j = Some (r_addr r))
              | WaitValid \<Rightarrow> \<not> is_Zaamo r \<and> \<not> (r_is_amo r \<and> r_amoop r = AMO_SC) \<and>
                  (if r_wen r \<and> \<not> r_is_amo r
                   then am_owed w \<noteq> None \<and> am_mem w = bus_write (r_addr r) (r_wdata r) (r_wmask r) (j_mem j)
                   else am_owed w = Some (Some old) \<and> am_mem w = j_mem j)
              | SCSuccess \<Rightarrow> r_is_amo r \<and> r_amoop r = AMO_SC \<and> j_lr j = Some (r_addr r) \<and> am_owed w \<noteq> None \<and>
                  am_mem w = bus_write (r_addr r) (r_wdata r) (r_wmask r) (j_mem j)
              | SCFail \<Rightarrow> r_is_amo r \<and> r_amoop r = AMO_SC \<and> (j_lr j \<noteq> Some (r_addr r) \<or> j_cleared j) \<and>
                  am_owed w = None \<and> am_mem w = j_mem j
              | AMOLoadReady \<Rightarrow> is_Zaamo r \<and> am_owed w = None \<and> am_mem w = j_mem j
              | AMOLoadValid \<Rightarrow> is_Zaamo r \<and> am_owed w = Some (Some old) \<and> am_mem w = j_mem j
              | AMOStoreReady \<Rightarrow> is_Zaamo r \<and> am_owed w = None \<and> am_mem w = j_mem j \<and> zaamo_fetched_data s = old
              | AMOStoreValid \<Rightarrow> is_Zaamo r \<and> am_owed w \<noteq> None \<and> zaamo_fetched_data s = old \<and>
                  zaamo_written_data s = gen_amo_wdata r old \<and>
                  am_mem w = bus_write (r_addr r) (gen_amo_wdata r old) (r_wmask r) (j_mem j)
              | AmInit \<Rightarrow> True))"

lemma zaamo_iff: "is_Zaamo r \<longleftrightarrow> r_is_amo r \<and> r_amoop r \<noteq> AMO_LR \<and> r_amoop r \<noteq> AMO_SC"
  by (simp add: is_Zaamo_def)

lemma LR_not_SC [simp]: "AMO_LR \<noteq> AMO_SC" "AMO_SC \<noteq> AMO_LR"
  by (simp_all add: AMO_LR_def AMO_SC_def)

lemmas am_defs = am_step_def am_world_step_def am_inv_def record_store_def Let_def

lemma record_store_other: "am_state s \<noteq> AMOLoadValid \<Longrightarrow> am_state s \<noteq> AMOStoreReady \<Longrightarrow> record_store i s t = t"
  by (simp add: record_store_def split: option.splits)

lemma accept_inv:
  assumes lr: "am_lr w = (if is_addr_reserved s then Some (reserved_addr s) else None)"
    and acc: "am_advance i s = accept_request_ff i s" "master_request i s = accept_request_comb i s"
    and st: "am_state s \<noteq> AMOLoadValid" "am_state s \<noteq> AMOStoreReady"
    and o: "am_owed w = None \<or> a_rvalid i" and r: "a_ready i \<Longrightarrow> am_owed w = None"
    and j: "slave_rvalid i s \<or> am_job w = None"
  shows "am_inv (am_step i s) (am_world_step i s w)"
proof -
  have step: "am_step i s = (if a_clear i then (accept_request_ff i s)\<lparr>is_addr_reserved := False\<rparr> else accept_request_ff i s)"
    by (simp add: am_step_def record_store_other st acc)
  have ow: "(if a_rvalid i then None else am_owed w) = None" using o by auto
  show ?thesis
  proof (cases "taken_req i s")
    case None
    then show ?thesis using lr j o
      by (auto simp: am_inv_def am_world_step_def Let_def step acc accept_request_ff_def accept_request_comb_def)
  next
    case (Some q)
    note w = am_inv_def am_world_step_def Let_def step acc accept_request_ff_def accept_request_comb_def Some ow
    have rs: "reserves i s q \<longleftrightarrow> \<not> a_clear i \<and> am_lr w = Some (r_addr q)" using lr by (auto simp: reserves_def)
    consider (plain) "\<not> r_is_amo q" | (lr) "r_is_amo q" "r_amoop q = AMO_LR" | (sc) "r_is_amo q" "r_amoop q = AMO_SC"
      | (op) "is_Zaamo q" by (auto simp: is_Zaamo_def)
    then show ?thesis
    proof cases
      case plain
      then show ?thesis using lr by (simp add: w is_Zaamo_def pass_on_def mem_effect_def mem_answer_def)
    next
      case lr
      then show ?thesis by (simp add: w is_Zaamo_def read_at_def mem_effect_def mem_answer_def)
    next
      case sc
      then show ?thesis
        by (simp add: w is_Zaamo_def write_at_def mem_effect_def mem_answer_def rs)
    next
      case op
      then have "r_is_amo q" "r_amoop q \<noteq> AMO_LR" "r_amoop q \<noteq> AMO_SC" by (simp_all add: is_Zaamo_def)
      then show ?thesis using lr op by (simp add: w read_at_def mem_effect_def mem_answer_def)
    qed
  qed
qed

lemma am_inv_step:
  assumes inv: "am_inv s w" and env: "am_env i (am_owed w)"
  shows "am_inv (am_step i s) (am_world_step i s w)"
proof -
  have lr: "am_lr w = (if is_addr_reserved s then Some (reserved_addr s) else None)" using inv by (simp add: am_inv_def)
  have r: "a_ready i \<Longrightarrow> am_owed w = None" using env by (simp add: am_env_def)
  show ?thesis
  proof (cases "am_state s")
    case AmInit
    then show ?thesis using inv r
      by (intro accept_inv lr) (auto simp: am_inv_def am_advance_def master_request_def Let_def)
  next
    case SCFail
    then show ?thesis using inv r
      by (intro accept_inv lr) (auto simp: am_inv_def am_advance_def master_request_def slave_rvalid_def Let_def split: option.splits)
  next
    case WaitValid
    show ?thesis
    proof (cases "a_rvalid i")
      case True
      then show ?thesis using WaitValid r
        by (intro accept_inv lr) (auto simp: am_advance_def master_request_def slave_rvalid_def Let_def)
    next
      case False
      then have "taken_req i s = None" "\<not> slave_rvalid i s" "master_request i s = None"
        using WaitValid by (simp_all add: taken_req_def slave_ready_def slave_rvalid_def master_request_def accept_request_comb_def)
      then show ?thesis using inv False WaitValid
        by (auto simp: am_defs am_advance_def split: option.splits)
    qed
  next
    case SCSuccess
    show ?thesis
    proof (cases "a_rvalid i")
      case True
      then show ?thesis using SCSuccess r
        by (intro accept_inv lr) (auto simp: am_advance_def master_request_def slave_rvalid_def Let_def)
    next
      case False
      then have "taken_req i s = None" "\<not> slave_rvalid i s" "master_request i s = None"
        using SCSuccess by (simp_all add: taken_req_def slave_ready_def slave_rvalid_def master_request_def accept_request_comb_def)
      then show ?thesis using inv False SCSuccess
        by (auto simp: am_defs am_advance_def split: option.splits)
    qed
  next
    case AMOStoreValid
    show ?thesis
    proof (cases "a_rvalid i")
      case True
      then show ?thesis using AMOStoreValid r
        by (intro accept_inv lr) (auto simp: am_advance_def master_request_def slave_rvalid_def Let_def)
    next
      case False
      then have "taken_req i s = None" "\<not> slave_rvalid i s" "master_request i s = None"
        using AMOStoreValid by (simp_all add: taken_req_def slave_ready_def slave_rvalid_def master_request_def accept_request_comb_def)
      then show ?thesis using inv False AMOStoreValid
        by (auto simp: am_defs am_advance_def split: option.splits)
    qed
  next
    case AMOLoadReady
    then have "taken_req i s = None" "\<not> slave_rvalid i s" "master_request i s = Some (read_at (r_addr (slave_saved s)))"
      by (simp_all add: taken_req_def slave_ready_def slave_rvalid_def master_request_def)
    then show ?thesis using inv AMOLoadReady
      by (auto simp: am_defs am_advance_def read_at_def mem_effect_def mem_answer_def split: option.splits)
  next
    case AMOLoadValid
    then have "taken_req i s = None" "\<not> slave_rvalid i s" "\<not> a_ready i" "\<not> slave_ready i s"
      using inv r by (auto simp: taken_req_def slave_ready_def slave_rvalid_def am_inv_def Let_def split: option.splits)
    then show ?thesis using inv AMOLoadValid env
      by (auto simp: am_defs am_advance_def am_env_def split: option.splits)
  next
    case AMOStoreReady
    then have "taken_req i s = None" "\<not> slave_rvalid i s"
      "master_request i s = Some (write_at (slave_saved s) (gen_amo_wdata (slave_saved s) (zaamo_fetched_data s)))"
      by (simp_all add: taken_req_def slave_ready_def slave_rvalid_def master_request_def Let_def)
    then show ?thesis using inv AMOStoreReady
      by (auto simp: am_defs am_advance_def write_at_def mem_effect_def mem_answer_def split: option.splits)
  next
    case WaitReady
    let ?r = "slave_saved s"
    have n: "taken_req i s = None" "\<not> slave_rvalid i s" using WaitReady by (simp_all add: taken_req_def slave_ready_def slave_rvalid_def)
    consider (plain) "\<not> r_is_amo ?r" | (lr) "r_is_amo ?r" "r_amoop ?r = AMO_LR" | (sc) "r_is_amo ?r" "r_amoop ?r = AMO_SC"
      using inv WaitReady by (auto simp: am_inv_def is_Zaamo_def Let_def split: option.splits)
    then show ?thesis
    proof cases
      case plain
      then have "master_request i s = Some (pass_on ?r)" using WaitReady by (simp add: master_request_def Let_def)
      then show ?thesis using inv WaitReady n plain
        by (auto simp: am_defs am_advance_def pass_on_def mem_effect_def mem_answer_def split: option.splits)
    next
      case lr
      then have "master_request i s = Some (read_at (r_addr ?r))" using WaitReady by (simp add: master_request_def Let_def)
      then show ?thesis using inv WaitReady n lr
        by (auto simp: am_defs am_advance_def read_at_def mem_effect_def mem_answer_def split: option.splits)
    next
      case sc
      then have "master_request i s = (if a_clear i then None else Some (write_at ?r (r_wdata ?r)))"
        using WaitReady by (simp add: master_request_def Let_def)
      then show ?thesis using inv WaitReady n sc
        by (auto simp: am_defs am_advance_def write_at_def mem_effect_def mem_answer_def split: option.splits)
    qed
  qed
qed

lemma am_reach_inv: "am_reach s w \<Longrightarrow> am_inv s w"
proof (induction rule: am_reach.induct)
  case (start m)
  then show ?case by (simp add: am_inv_def amounit_reset_def)
next
  case (edge s w i)
  then show ?case by (intro am_inv_step)
qed


section \<open>The operations as the architecture has them\<close>

text \<open>On the old value \<open>a\<close> of memory and the register \<open>b\<close>, minima and maxima over the integers.\<close>

definition amo_alu :: "5 word \<Rightarrow> 'a::len word \<Rightarrow> 'a word \<Rightarrow> 'a word" where
  "amo_alu op a b =
     (if op = 1 then b else if op = 0 then a + b else if op = 4 then a XOR b else if op = 12 then a AND b
      else if op = 8 then a OR b
      else if op = 16 then word_of_int (min (sint a) (sint b)) else if op = 20 then word_of_int (max (sint a) (sint b))
      else if op = 24 then word_of_int (min (uint a) (uint b)) else if op = 28 then word_of_int (max (uint a) (uint b))
      else 0)"

lemma calc_is_alu: "calc_amo op b a = amo_alu op a b"
  by (simp add: calc_amo_def amo_alu_def Let_def min_def max_def word_less_def)

definition amo_value :: "3 word \<Rightarrow> 5 word \<Rightarrow> u64 \<Rightarrow> u64 \<Rightarrow> u64" where
  "amo_value f3 op old v = (if f3 = 2 then ucast (amo_alu op (ucast old :: u32) (ucast v)) else amo_alu op old v)"

lemma bus_write_cong:
  assumes "\<And>k. k < 8 \<Longrightarrow> bit msk k \<Longrightarrow> (ucast (drop_bit (8 * k) d) :: u8) = ucast (drop_bit (8 * k) d')"
  shows "bus_write a d msk m = bus_write a d' msk m"
  unfolding bus_write_def Let_def
  by (rule ext) (auto simp: word_less_nat_alt intro: assms)

lemma lane_write:
  assumes fit: "unat (bits 2 0 a) + unat sz \<le> 8"
    and lane: "\<And>n. n < 8 * unat sz \<Longrightarrow> bit d (8 * unat (bits 2 0 a) + n) = bit v n"
  shows "bus_write a d (push_bit (unat (bits 2 0 a)) (byte_mask sz)) m = store_bytes a sz v m"
proof -
  let ?o = "unat (bits 2 0 a)"
  have "bus_write a d (push_bit ?o (byte_mask sz)) m = bus_write a (push_bit (8 * ?o) v) (push_bit ?o (byte_mask sz)) m"
  proof (rule bus_write_cong, rule bit_word_eqI)
    fix k n assume k: "k < 8" "bit (push_bit ?o (byte_mask sz)) k" and n: "n < LENGTH(8)"
    then have "?o \<le> k" "k - ?o < unat sz" by (simp_all add: bit_simps bit_byte_mask)
    then have e: "8 * k + n = 8 * ?o + (8 * (k - ?o) + n)" "8 * (k - ?o) + n < 8 * unat sz" using n by auto
    have b: "8 * k + n < 64" "8 * ?o \<le> 8 * k + n" "8 * k + n - 8 * ?o = 8 * (k - ?o) + n"
      using k(1) n \<open>?o \<le> k\<close> by auto
    have "bit (ucast (drop_bit (8 * k) d) :: u8) n = bit d (8 * k + n)"
      "bit (ucast (drop_bit (8 * k) (push_bit (8 * ?o) v)) :: u8) n = bit v (8 * k + n - 8 * ?o)"
      using n b by (simp_all add: bit_simps)
    then show "bit (ucast (drop_bit (8 * k) d) :: u8) n = bit (ucast (drop_bit (8 * k) (push_bit (8 * ?o) v)) :: u8) n"
      using lane [OF e(2)] unfolding e(1) [symmetric] b(3) by simp
  qed
  then show ?thesis by (simp add: write_within [OF fit])
qed

lemma ld_lane:
  assumes "n < 64" and "8 * unat (bits 2 0 a) + n < 64"
  shows "bit (bus_read a m) (8 * unat (bits 2 0 a) + n) = bit (ld m a) n"
  using bit_at_lane [OF assms(1), of m a] assms(2) by (simp add: bit_join)

lemma word_lane:
  assumes "bits 1 0 a = 0"
  shows "unat (bits 2 0 a) = (if bit a 2 then 4 else 0)"
proof -
  have "unat a mod 4 = 0" using unat_bits [of 1 0 a] assms by simp
  then have "unat a mod 8 = 4 * (unat a div 4 mod 2)" using mod_mult2_eq [of "unat a" 4 2] by simp
  moreover have "bit a 2 \<longleftrightarrow> bit (unat a) 2" unfolding bit_unsigned_iff by simp
  moreover have "bit (unat a) 2 \<longleftrightarrow> odd (unat a div 4)" unfolding bit_iff_odd by simp
  moreover have "unat (bits 2 0 a) = unat a mod 8" unfolding unat_bits by simp
  ultimately show ?thesis by (cases "odd (unat a div 4)") (simp_all add: odd_iff_mod_2_eq_one)
qed

lemma gen_word_lane:
  assumes "r_funct3 r = 2" and "bits 1 0 (r_addr r) = 0" and "n < 32"
  shows "bit (gen_amo_wdata r old) (8 * unat (bits 2 0 (r_addr r)) + n) \<longleftrightarrow>
    bit (amo_alu (r_amoop r) (ucast (drop_bit (8 * unat (bits 2 0 (r_addr r))) old) :: u32)
      (ucast (drop_bit (8 * unat (bits 2 0 (r_addr r))) (r_wdata r)))) n"
proof (cases "bit (r_addr r) 2")
  case True
  then have l: "8 * unat (bits 2 0 (r_addr r)) = 32" unfolding word_lane [OF assms(2)] by simp
  show ?thesis unfolding l gen_amo_wdata_def Let_def calc_amo_32_def calc_is_alu using True assms(1,3)
    by (simp add: bit_or_iff bit_push_bit_iff bit_take_bit_iff bit_unsigned_iff)
next
  case False
  then have l: "8 * unat (bits 2 0 (r_addr r)) = 0" unfolding word_lane [OF assms(2)] by simp
  show ?thesis unfolding l gen_amo_wdata_def Let_def calc_amo_32_def calc_is_alu using False assms(1,3)
    by (simp add: bit_or_iff bit_push_bit_iff bit_unsigned_iff)
qed

text \<open>
  The answer and the write of an atomic, as bytes: the load/store unit returns the old value like a
  load, and the lane of the write holds the result.
\<close>

lemma amo_bytes:
  assumes "is_amo (o_ctrl p)" and "mem_plan p M = At pa"
  defines "r \<equiv> access_request pa (latch_request p memunit_reset)"
  shows "load_value (funct3 (o_ctrl p)) (drop_bit (8 * unat (bits 2 0 (o_addr p))) (bus_read pa m)) =
      load_value (funct3 (o_ctrl p)) (ld m pa)"
    and "bus_write pa (gen_amo_wdata r (bus_read pa m)) (r_wmask r) m =
      store_bytes pa (access_size_bytes (funct3 (o_ctrl p)))
        (amo_value (funct3 (o_ctrl p)) (op_amoop p) (ld m pa) (o_rs2 p)) m"
proof -
  let ?f3 = "funct3 (o_ctrl p)" and ?a = "o_addr p"
  have al: "\<not> amo_misaligned ?f3 ?a" using plan_at_amo assms by blast
  have lane: "bits 2 0 pa = bits 2 0 ?a" using plan_lane assms(2) by blast
  have fit: "unat (bits 2 0 pa) + unat (access_size_bytes ?f3) \<le> 8" using amo_fits [OF al] lane by simp
  show "load_value ?f3 (drop_bit (8 * unat (bits 2 0 ?a)) (bus_read pa m)) = load_value ?f3 (ld m pa)"
  proof (rule load_value_cong)
    fix n assume "n < 8 * unat (access_size_bytes ?f3)"
    then have "8 * unat (bits 2 0 pa) + n < 64" "n < 64" using fit by simp_all
    then show "bit (drop_bit (8 * unat (bits 2 0 ?a)) (bus_read pa m)) n = bit (ld m pa) n"
      using ld_lane [of n pa m] lane by (simp add: bit_simps)
  qed
  have c: "\<not> crosses p" using assms(1) by (simp add: crosses_def)
  have fields: "r_addr r = pa" "r_funct3 r = ?f3" "r_amoop r = op_amoop p"
    "r_wdata r = push_bit (8 * unat (bits 2 0 pa)) (o_rs2 p)"
    "r_wmask r = push_bit (unat (bits 2 0 pa)) (byte_mask (access_size_bytes ?f3))"
    using assms(1) by (simp_all add: r_def access_request_def latch_request_def Let_def lane lane_unat)
  show "bus_write pa (gen_amo_wdata r (bus_read pa m)) (r_wmask r) m =
      store_bytes pa (access_size_bytes ?f3) (amo_value ?f3 (op_amoop p) (ld m pa) (o_rs2 p)) m"
    unfolding fields(5)
  proof (rule lane_write [OF fit])
    fix n assume n: "n < 8 * unat (access_size_bytes ?f3)"
    then have n64: "8 * unat (bits 2 0 pa) + n < 64" "n < 64" using fit by simp_all
    show "bit (gen_amo_wdata r (bus_read pa m)) (8 * unat (bits 2 0 pa) + n) =
        bit (amo_value ?f3 (op_amoop p) (ld m pa) (o_rs2 p)) n"
    proof (cases "?f3 = 2")
      case True
      then have w: "bits 1 0 ?a = 0" "n < 32" using al n by (simp_all add: amo_misaligned_def access_size_bytes_def)
      have "bits 1 0 pa = take_bit 2 (bits 2 0 pa)" "bits 1 0 ?a = take_bit 2 (bits 2 0 ?a)" by (simp_all add: bits_def numeral_2_eq_2)
      then have w0: "bits 1 0 pa = 0" using w(1) lane by simp
      have old: "(ucast (drop_bit (8 * unat (bits 2 0 pa)) (bus_read pa m)) :: u32) = ucast (ld m pa)"
      proof (rule bit_word_eqI)
        fix k assume "k < LENGTH(32)"
        then have "k < 64" "8 * unat (bits 2 0 pa) + k < 64" using word_lane [OF w0] by simp_all
        then show "bit (ucast (drop_bit (8 * unat (bits 2 0 pa)) (bus_read pa m)) :: u32) k = bit (ucast (ld m pa) :: u32) k"
          using \<open>k < LENGTH(32)\<close> ld_lane [of k pa m] by (simp add: bit_simps)
      qed
      have new: "(ucast (drop_bit (8 * unat (bits 2 0 pa)) (r_wdata r)) :: u32) = ucast (o_rs2 p)"
        unfolding fields using word_lane [OF w0] by (intro bit_word_eqI) (auto simp: bit_simps)
      show ?thesis
        using gen_word_lane [of r n "bus_read pa m"] True w(2) w0 n64 unfolding fields old new [unfolded fields]
        by (simp add: amo_value_def bit_simps)
    next
      case False
      then have f: "?f3 = 3" "bits 2 0 ?a = 0" using al by (simp_all add: amo_misaligned_def split: if_splits)
      then have "bits 2 0 pa = 0" using lane by simp
      then have "bus_read pa m = ld m pa" using lane_split [of pa] by (simp add: bus_read_def)
      then show ?thesis using f \<open>bits 2 0 pa = 0\<close> fields
        by (simp add: gen_amo_wdata_def amo_value_def calc_amo_64_def calc_is_alu)
    qed
  qed
qed


section \<open>Properties\<close>

text \<open>
  C11. Requests are atomic and answered once. Whenever the unit answers there is exactly one request it
  answers for; a read gives the doubleword and a write is done; LR reads; SC writes and returns 0 only
  with a reservation of its address (the last LR, no SC and no clear since), and fails with 1, writing
  nothing, only without one or after a clear; another atomic returns the old doubleword and leaves,
  and reports for the lockstep trace, the result in its place. The doubled store that
  \<open>AMOLoadValid\<close> offers the bus before the data is there is never taken by a bus that owes an answer.
\<close>
theorem amo_answers:
  assumes "am_reach s w" and "am_env i (am_owed w)" and "slave_rvalid i s"
  shows "\<exists>j. am_job w = Some j \<and> j_req j = slave_saved s \<and> am_outcome j i s (am_mem w)"
proof -
  have inv: "am_inv s w" using assms(1) by (rule am_reach_inv)
  have st: "am_state s \<in> {WaitValid, SCSuccess, SCFail, AMOStoreValid}" "am_state s \<noteq> SCFail \<longrightarrow> a_rvalid i"
    using assms(3) by (auto simp: slave_rvalid_def split: am_state.splits)
  then obtain j where j: "am_job w = Some j" using inv by (auto simp: am_inv_def split: option.splits)
  have r: "j_req j = slave_saved s" using inv j st by (auto simp: am_inv_def Let_def)
  have d: "a_rvalid i \<Longrightarrow> am_owed w = Some (Some v) \<Longrightarrow> a_rdata i = v" for v using assms(2) by (simp add: am_env_def)
  have "am_outcome j i s (am_mem w)"
    using inv j r st d by (auto simp: am_inv_def am_outcome_def is_Zaamo_def Let_def slave_rdata_def amo_commit_def)
  then show ?thesis using j r by blast
qed

text \<open>An LR at 0x80000000, and an SC there once it is answered.\<close>

definition demo_amo :: "5 word \<Rightarrow> bus_req" where
  "demo_amo op = \<lparr>r_addr = 0x80000000, r_wen = True, r_wdata = 5, r_wmask = 0xff, r_is_amo = True, r_amoop = op,
     r_aq = False, r_rl = False, r_funct3 = 3\<rparr>"

definition demo_ask :: "5 word \<Rightarrow> am_in" where
  "demo_ask op = \<lparr>a_clear = False, a_req = Some (demo_amo op), a_ready = True, a_rvalid = False, a_rdata = 0\<rparr>"

definition demo_got :: "u64 \<Rightarrow> am_in" where
  "demo_got d = \<lparr>a_clear = False, a_req = None, a_ready = False, a_rvalid = True, a_rdata = d\<rparr>"

abbreviation demo_old :: u64 where "demo_old \<equiv> bus_read 0x80000000 demo_memory"

definition demo_world :: "u64 option option \<Rightarrow> job option \<Rightarrow> u64 option \<Rightarrow> mem \<Rightarrow> am_world" where
  "demo_world owed j lr m = \<lparr>am_mem = m, am_owed = owed, am_job = j, am_lr = lr\<rparr>"

definition demo_job :: "5 word \<Rightarrow> u64 option \<Rightarrow> job" where
  "demo_job op lr = \<lparr>j_req = demo_amo op, j_mem = demo_memory, j_lr = lr, j_cleared = False\<rparr>"

definition demo_unit :: "am_state \<Rightarrow> bus_req \<Rightarrow> bool \<Rightarrow> amounit" where
  "demo_unit st r res = \<lparr>am_state = st, slave_saved = r, is_addr_reserved = res, reserved_addr = 0x80000000,
     zaamo_fetched_data = 0, zaamo_written_data = 0\<rparr>"

lemmas demo_am = demo_ask_def demo_got_def demo_world_def demo_job_def demo_unit_def demo_amo_def am_step_def am_world_step_def
  am_advance_def accept_request_ff_def accept_request_comb_def master_request_def taken_req_def slave_ready_def slave_rvalid_def
  reserves_def record_store_def read_at_def write_at_def mem_effect_def mem_answer_def AMO_LR_def AMO_SC_def amounit_reset_def

lemma demo_am_steps:
  "am_step (demo_ask AMO_LR) amounit_reset = demo_unit WaitValid (demo_amo AMO_LR) True"
  "am_step (demo_got d) (demo_unit WaitValid (demo_amo AMO_LR) True) = demo_unit AmInit (demo_amo AMO_LR) True"
  "am_step (demo_ask AMO_SC) (demo_unit AmInit (demo_amo AMO_LR) True) = demo_unit SCSuccess (demo_amo AMO_SC) False"
  by (simp_all add: demo_am Let_def)

lemma demo_am_worlds:
  "am_world_step (demo_ask AMO_LR) amounit_reset (demo_world None None None demo_memory) =
     demo_world (Some (Some demo_old)) (Some (demo_job AMO_LR None)) (Some 0x80000000) demo_memory"
  "am_world_step (demo_got d) (demo_unit WaitValid (demo_amo AMO_LR) True)
     (demo_world (Some x) (Some j) (Some 0x80000000) demo_memory) = demo_world None None (Some 0x80000000) demo_memory"
  "am_world_step (demo_ask AMO_SC) (demo_unit AmInit (demo_amo AMO_LR) True) (demo_world None None (Some 0x80000000) demo_memory) =
     demo_world (Some None) (Some (demo_job AMO_SC (Some 0x80000000))) None (bus_write 0x80000000 5 0xff demo_memory)"
  by (simp_all add: demo_am Let_def)

lemma demo_am_env:
  "am_env (demo_ask op) (am_owed (demo_world None j lr m))" "am_env (demo_got v) (am_owed (demo_world (Some (Some v)) j lr m))"
  "am_env (demo_got v) (am_owed (demo_world (Some None) j lr m))"
  by (simp_all add: am_env_def demo_ask_def demo_got_def demo_world_def)

theorem amo_answers_witness:
  "am_outcome (demo_job AMO_SC (Some 0x80000000)) (demo_got 0) (demo_unit SCSuccess (demo_amo AMO_SC) False)
     (bus_write 0x80000000 5 0xff demo_memory)"
proof -
  have r0: "am_reach amounit_reset (demo_world None None None demo_memory)" unfolding demo_world_def by (rule am_reach.start)
  note r1 = am_reach.edge [OF r0 demo_am_env(1) [of AMO_LR], unfolded demo_am_steps demo_am_worlds]
  note r2 = am_reach.edge [OF r1 demo_am_env(2), unfolded demo_am_steps demo_am_worlds]
  note r3 = am_reach.edge [OF r2 demo_am_env(1) [of AMO_SC], unfolded demo_am_steps demo_am_worlds]
  have "slave_rvalid (demo_got 0) (demo_unit SCSuccess (demo_amo AMO_SC) False)"
    by (simp add: slave_rvalid_def demo_unit_def demo_got_def)
  then show ?thesis using amo_answers [OF r3 demo_am_env(3) [of 0]] by (auto simp: demo_world_def)
qed

text \<open>
  C12. The atomics compute what the A extension says, on bytes: for an atomic the load/store unit issues,
  the register gets the sign-extended old value at its address and exactly its four or eight bytes
  become the operation's result on it and \<open>rs2\<close>, minima and maxima over the signed or unsigned integers.
\<close>
theorem amo_architectural:
  assumes "is_amo (o_ctrl p)" and "mem_plan p M = At pa" and "op_amoop p \<noteq> AMO_LR" and "op_amoop p \<noteq> AMO_SC"
    and "j_req j = access_request pa (latch_request p memunit_reset)" and "am_outcome j i s m"
  shows "load_value (funct3 (o_ctrl p)) (drop_bit (8 * unat (bits 2 0 (o_addr p))) (slave_rdata i s)) =
      load_value (funct3 (o_ctrl p)) (ld (j_mem j) pa) \<and>
    m = store_bytes pa (access_size_bytes (funct3 (o_ctrl p)))
      (amo_value (funct3 (o_ctrl p)) (op_amoop p) (ld (j_mem j) pa) (o_rs2 p)) (j_mem j)"
proof -
  have "r_is_amo (j_req j)" "r_amoop (j_req j) = op_amoop p" "r_addr (j_req j) = pa"
    using assms(1,5) by (simp_all add: access_request_def latch_request_def Let_def)
  then have o: "slave_rdata i s = bus_read pa (j_mem j)"
    "m = bus_write pa (gen_amo_wdata (j_req j) (bus_read pa (j_mem j))) (r_wmask (j_req j)) (j_mem j)"
    using assms(3,4,6) by (simp_all add: am_outcome_def Let_def)
  show ?thesis
    unfolding o(2) unfolding o(1) assms(5)
    using amo_bytes(1) [OF assms(1,2), of "j_mem j"] amo_bytes(2) [OF assms(1,2), of "j_mem j"] by (intro conjI)
qed

text \<open>A signed minimum of 32 bits in the upper lane.\<close>

definition demo_amomin :: mem_op where
  "demo_amomin = demo_ld\<lparr>o_ctrl := demo_ctrl\<lparr>is_load := False, is_amo := True, funct3 := 2, funct7 := 0x40\<rparr>,
     o_addr := 0x80000004, o_rs2 := -1\<rparr>"

definition demo_amomin_req :: bus_req where
  "demo_amomin_req = access_request 0x80000004 (latch_request demo_amomin memunit_reset)"

definition demo_amomin_unit :: amounit where
  "demo_amomin_unit = \<lparr>am_state = AMOStoreValid, slave_saved = demo_amomin_req, is_addr_reserved = False, reserved_addr = 0,
     zaamo_fetched_data = 0x0706050403020100, zaamo_written_data = 0xffffffff03020100\<rparr>"

lemma demo_old_eq: "bus_read 0x80000004 demo_memory = 0x0706050403020100"
  by code_simp

theorem amo_architectural_witness:
  "bus_write 0x80000004 0xffffffff03020100 0xf0 demo_memory = store_bytes 0x80000004 4 0xffffffff demo_memory"
proof -
  let ?j = "\<lparr>j_req = demo_amomin_req, j_mem = demo_memory, j_lr = None, j_cleared = False\<rparr>"
  have f: "r_is_amo demo_amomin_req" "r_amoop demo_amomin_req = 16" "r_addr demo_amomin_req = 0x80000004"
    "r_wmask demo_amomin_req = 0xf0" "gen_amo_wdata demo_amomin_req 0x0706050403020100 = 0xffffffff03020100"
    by code_simp+
  have out: "am_outcome ?j (demo_got 0) demo_amomin_unit (bus_write 0x80000004 0xffffffff03020100 0xf0 demo_memory)"
    by (simp add: am_outcome_def Let_def f demo_old_eq slave_rdata_def amo_commit_def demo_amomin_unit_def demo_got_def
        AMO_LR_def AMO_SC_def)
  have p: "is_amo (o_ctrl demo_amomin)" "mem_plan demo_amomin (\<lambda>a. None) = At 0x80000004" "op_amoop demo_amomin \<noteq> AMO_LR"
    "op_amoop demo_amomin \<noteq> AMO_SC" "access_size_bytes (funct3 (o_ctrl demo_amomin)) = 4"
    "amo_value (funct3 (o_ctrl demo_amomin)) (op_amoop demo_amomin) (ld demo_memory 0x80000004) (o_rs2 demo_amomin) = 0xffffffff"
    by code_simp+
  from amo_architectural [OF p(1-4) _ out] show ?thesis by (simp add: p(5,6) demo_amomin_req_def)
qed

end
