(* ===== verification/Mmio.thy ===== *)
theory Mmio
  imports Amo Platform
begin

text \<open>
  The bus controller, \<open>src/mmio_controller.sv\<close>: one request at a time from the core's side is saved,
  offered to the device its address selects until that takes it, and answered by that device.
\<close>

section \<open>State and ports\<close>

record mmio_in =
  c_req :: "mem_req option"
  d_ready :: "device \<Rightarrow> bool"
  d_rvalid :: "device \<Rightarrow> bool"
  d_rdata :: "device \<Rightarrow> u64"

record mmio =
  req_saved_valid :: bool
  req_saved :: mem_req
  req_issued :: bool
  last_device :: device

definition mmio_reset :: mmio where
  "mmio_reset = \<lparr>req_saved_valid = False, req_saved = \<lparr>w_addr = 0, w_wen = False, w_wdata = 0, w_wmask = 0\<rparr>,
     req_issued = False, last_device = UNKNOWN\<rparr>"

text \<open>The devices' sides; there is none behind \<open>UNKNOWN\<close>.\<close>

definition get_device_ready :: "mmio_in \<Rightarrow> device \<Rightarrow> bool" where
  "get_device_ready i d = (if d = UNKNOWN then False else d_ready i d)"

definition get_device_rvalid :: "mmio_in \<Rightarrow> device \<Rightarrow> bool" where
  "get_device_rvalid i d = (if d = UNKNOWN then False else d_rvalid i d)"

definition get_device_rdata :: "mmio_in \<Rightarrow> device \<Rightarrow> u64" where
  "get_device_rdata i d = (if d = UNKNOWN then 0 else d_rdata i d)"

definition assign_device_master :: "mem_req \<Rightarrow> device \<Rightarrow> mem_req option" where
  "assign_device_master q d =
     (if d \<noteq> UNKNOWN \<and> get_device (w_addr q) = d then Some (q\<lparr>w_addr := device_offset (w_addr q)\<rparr>) else None)"

definition core_ready :: "mmio \<Rightarrow> bool" where
  "core_ready s \<longleftrightarrow> \<not> req_saved_valid s"

definition core_rvalid :: "mmio_in \<Rightarrow> mmio \<Rightarrow> bool" where
  "core_rvalid i s \<longleftrightarrow> req_saved_valid s \<and> get_device_rvalid i (last_device s)"

definition core_rdata :: "mmio_in \<Rightarrow> mmio \<Rightarrow> u64" where
  "core_rdata i s = (if req_saved_valid s then get_device_rdata i (last_device s) else 0)"

definition device_request :: "mmio \<Rightarrow> device \<Rightarrow> mem_req option" where
  "device_request s d = (if req_saved_valid s \<and> \<not> req_issued s then assign_device_master (req_saved s) d else None)"

definition mmio_step :: "mmio_in \<Rightarrow> mmio \<Rightarrow> mmio" where
  "mmio_step i s =
     (let t = (if req_saved_valid s
               then (let u = (if \<not> req_issued s \<and> get_device_ready i (last_device s) then s\<lparr>req_issued := True\<rparr> else s)
                     in if req_issued s \<and> get_device_rvalid i (last_device s)
                        then u\<lparr>req_saved_valid := False, req_issued := False\<rparr> else u)
               else s)
      in case c_req i of
           Some q \<Rightarrow>
             if \<not> req_saved_valid s
             then t\<lparr>req_saved_valid := True, req_issued := False, last_device := get_device (w_addr q), req_saved := q\<rparr>
             else t
         | None \<Rightarrow> t)"


section \<open>Runs\<close>

text \<open>
  What has been taken from the core, taken by the devices, returned by them and answered to the core,
  in order. A device answers only a request it has taken and not answered: \<open>owing\<close>.
\<close>

record mmio_log =
  accepted :: "mem_req list"
  delivered :: "(device \<times> mem_req) list"
  returned :: "(device \<times> u64) list"
  answered :: "(device \<times> u64) list"
  owing :: "device option"

definition mmio_env :: "mmio_in \<Rightarrow> mmio_log \<Rightarrow> bool" where
  "mmio_env i l \<longleftrightarrow> (\<forall>d. d_rvalid i d \<longrightarrow> owing l = Some d)"

definition mmio_log_step :: "mmio_in \<Rightarrow> mmio \<Rightarrow> mmio_log \<Rightarrow> mmio_log" where
  "mmio_log_step i s l =
     (let d = last_device s; q = device_request s d; fired = (q \<noteq> None \<and> get_device_ready i d)
      in \<lparr>accepted = accepted l @ (case c_req i of Some r \<Rightarrow> if core_ready s then [r] else [] | None \<Rightarrow> []),
          delivered = delivered l @ (if fired then [(d, the q)] else []),
          returned = returned l @ (case owing l of
              Some e \<Rightarrow> if d_rvalid i e then [(e, d_rdata i e)] else [] | None \<Rightarrow> []),
          answered = answered l @ (if core_rvalid i s then [(d, core_rdata i s)] else []),
          owing = (if fired then Some d else if core_rvalid i s then None else owing l)\<rparr>)"

inductive mmio_reach :: "mmio \<Rightarrow> mmio_log \<Rightarrow> bool" where
  start: "mmio_reach mmio_reset \<lparr>accepted = [], delivered = [], returned = [], answered = [], owing = None\<rparr>"
| edge: "mmio_reach s l \<Longrightarrow> mmio_env i l \<Longrightarrow> mmio_reach (mmio_step i s) (mmio_log_step i s l)"

definition mmio_run :: "mmio_in list \<Rightarrow> mmio \<times> mmio_log \<Rightarrow> mmio \<times> mmio_log" where
  "mmio_run is = fold (\<lambda>i (s, l). (mmio_step i s, mmio_log_step i s l)) is"

definition route :: "mem_req \<Rightarrow> device \<times> mem_req" where
  "route q = (get_device (w_addr q), q\<lparr>w_addr := device_offset (w_addr q)\<rparr>)"

definition mmio_inv :: "mmio \<Rightarrow> mmio_log \<Rightarrow> bool" where
  "mmio_inv s l \<longleftrightarrow>
     (if \<not> req_saved_valid s
      then \<not> req_issued s \<and> owing l = None \<and> delivered l = map route (accepted l) \<and> length (answered l) = length (accepted l)
      else last_device s = get_device (w_addr (req_saved s)) \<and>
           (\<exists>qs. accepted l = qs @ [req_saved s] \<and> length (answered l) = length qs \<and>
              (if req_issued s
               then owing l = Some (last_device s) \<and> last_device s \<noteq> UNKNOWN \<and> delivered l = map route (accepted l)
               else owing l = None \<and> delivered l = map route qs))) \<and>
     answered l = returned l \<and>
     map fst (answered l) = take (length (answered l)) (map fst (delivered l)) \<and>
     UNKNOWN \<notin> fst ` set (delivered l)"

lemma mmio_inv_step:
  assumes inv: "mmio_inv s l" and env: "mmio_env i l"
  shows "mmio_inv (mmio_step i s) (mmio_log_step i s l)"
proof (cases "req_saved_valid s")
  case False
  then have "\<not> core_rvalid i s" "device_request s d = None" "core_ready s" for d
    by (simp_all add: core_rvalid_def device_request_def core_ready_def)
  then show ?thesis using inv False
    by (auto simp: mmio_inv_def mmio_step_def mmio_log_step_def Let_def split: option.splits)
next
  case True
  then obtain qs where qs: "accepted l = qs @ [req_saved s]" "length (answered l) = length qs"
    and d: "last_device s = get_device (w_addr (req_saved s))" using inv by (auto simp: mmio_inv_def)
  have c: "\<not> core_ready s" using True by (simp add: core_ready_def)
  show ?thesis
  proof (cases "req_issued s")
    case issued: True
    then have q: "device_request s d = None" for d by (simp add: device_request_def)
    have o: "owing l = Some (last_device s)" "last_device s \<noteq> UNKNOWN" "delivered l = map route (accepted l)"
      using inv True issued by (auto simp: mmio_inv_def)
    show ?thesis
    proof (cases "d_rvalid i (last_device s)")
      case v: True
      have "map fst (answered l) @ [last_device s] = map fst (delivered l)"
        using inv True o qs d by (auto simp: mmio_inv_def route_def)
      then show ?thesis using inv True issued v q c o qs d
        by (auto simp: mmio_inv_def mmio_step_def mmio_log_step_def Let_def get_device_rvalid_def core_rvalid_def
            core_rdata_def get_device_rdata_def split: option.splits)
    next
      case False
      then show ?thesis using inv True issued q c o qs d
        by (auto simp: mmio_inv_def mmio_step_def mmio_log_step_def Let_def get_device_rvalid_def core_rvalid_def split: option.splits)
    qed
  next
    case issued: False
    have o: "owing l = None" "delivered l = map route qs" using inv True issued qs by (auto simp: mmio_inv_def)
    then have v: "\<not> get_device_rvalid i (last_device s)" "\<not> core_rvalid i s"
      using env by (auto simp: mmio_env_def get_device_rvalid_def core_rvalid_def)
    have q: "device_request s (last_device s) = (if last_device s = UNKNOWN then None else Some (snd (route (req_saved s))))"
      using True issued d by (auto simp: device_request_def assign_device_master_def route_def)
    show ?thesis
    proof (cases "get_device_ready i (last_device s)")
      case r: True
      then have "last_device s \<noteq> UNKNOWN" by (auto simp: get_device_ready_def)
      then show ?thesis using inv True issued r q c o qs d v
        by (auto simp: mmio_inv_def mmio_step_def mmio_log_step_def Let_def route_def split: option.splits)
    next
      case False
      then show ?thesis using inv True issued q c o qs d v
        by (auto simp: mmio_inv_def mmio_step_def mmio_log_step_def Let_def split: option.splits)
    qed
  qed
qed

lemma mmio_reach_inv: "mmio_reach s l \<Longrightarrow> mmio_inv s l"
proof (induction rule: mmio_reach.induct)
  case start
  then show ?case by (simp add: mmio_inv_def mmio_reset_def)
next
  case (edge s l i)
  then show ?case by (intro mmio_inv_step)
qed


section \<open>One request from beginning to end\<close>

definition under_way :: "mem_req \<Rightarrow> bool \<Rightarrow> mmio" where
  "under_way q b = \<lparr>req_saved_valid = True, req_saved = q, req_issued = b, last_device = get_device (w_addr q)\<rparr>"

text \<open>What a device sees while the request waits for it.\<close>

lemma offered:
  "device_request (under_way q False) d =
     (if d = get_device (w_addr q) \<and> d \<noteq> UNKNOWN then Some (snd (route q)) else None)"
  by (auto simp: device_request_def under_way_def assign_device_master_def route_def)

lemma offer_waits:
  assumes "\<not> d_ready e (get_device (w_addr q))" and "owing l = None" and "\<not> d_rvalid e (get_device (w_addr q))"
  shows "mmio_step e (under_way q False) = under_way q False" and "mmio_log_step e (under_way q False) l = l"
  using assms
  by (simp_all add: mmio_step_def mmio_log_step_def under_way_def get_device_ready_def get_device_rvalid_def core_ready_def
      core_rvalid_def Let_def split: option.split)

lemma offer_taken:
  assumes "d_ready e (get_device (w_addr q))" and "get_device (w_addr q) \<noteq> UNKNOWN" and "owing l = None"
    and "\<not> d_rvalid e (get_device (w_addr q))"
  shows "mmio_step e (under_way q False) = under_way q True"
    and "mmio_log_step e (under_way q False) l =
           l\<lparr>delivered := delivered l @ [route q], owing := Some (get_device (w_addr q))\<rparr>"
  using assms offered [of q "get_device (w_addr q)"]
  by (simp_all add: mmio_step_def mmio_log_step_def under_way_def get_device_ready_def get_device_rvalid_def core_ready_def
      core_rvalid_def Let_def route_def split: option.split)

lemma answer_waits:
  assumes "\<not> d_rvalid e (get_device (w_addr q))" and "owing l = Some (get_device (w_addr q))"
  shows "mmio_step e (under_way q True) = under_way q True" and "mmio_log_step e (under_way q True) l = l"
  using assms
  by (simp_all add: mmio_step_def mmio_log_step_def under_way_def get_device_ready_def get_device_rvalid_def core_ready_def
      core_rvalid_def device_request_def Let_def split: option.split)

lemma answer_comes:
  assumes "d_rvalid e (get_device (w_addr q))" and "get_device (w_addr q) \<noteq> UNKNOWN"
    and "owing l = Some (get_device (w_addr q))"
  shows "core_ready (mmio_step e (under_way q True))"
    and "mmio_log_step e (under_way q True) l =
           l\<lparr>returned := returned l @ [(get_device (w_addr q), d_rdata e (get_device (w_addr q)))],
             answered := answered l @ [(get_device (w_addr q), d_rdata e (get_device (w_addr q)))], owing := None\<rparr>"
  using assms
  by (simp_all add: mmio_step_def mmio_log_step_def under_way_def get_device_rvalid_def get_device_rdata_def core_ready_def
      core_rvalid_def core_rdata_def device_request_def Let_def split: option.split)

lemma mmio_run_simps [simp]:
  "mmio_run [] sl = sl"
  "mmio_run (e # es) sl = mmio_run es (mmio_step e (fst sl), mmio_log_step e (fst sl) (snd sl))"
  "mmio_run (xs @ ys) sl = mmio_run ys (mmio_run xs sl)"
  by (simp_all add: mmio_run_def case_prod_beta)

lemma mmio_run_stays:
  "(\<And>e. e \<in> set es \<Longrightarrow> mmio_step e s = s \<and> mmio_log_step e s l = l) \<Longrightarrow> mmio_run es (s, l) = (s, l)"
  by (induction es) simp_all

text \<open>
  A device that lets the request wait (\<open>a\<close>), takes it (\<open>t\<close>), works on it (\<open>b\<close>) and answers (\<open>v\<close>):
  the request reaches it once and the controller is ready again.
\<close>

lemma mmio_transaction:
  assumes "core_ready s" and "owing l = None" and "c_req i = Some q" and d: "d = get_device (w_addr q)"
    and "d \<noteq> UNKNOWN" and "\<forall>e \<in> set a. \<not> d_ready e d \<and> \<not> d_rvalid e d" and "d_ready t d \<and> \<not> d_rvalid t d"
    and "\<forall>e \<in> set b. \<not> d_rvalid e d" and "d_rvalid v d"
  shows "let (s', l') = mmio_run (i # a @ t # b @ [v]) (s, l)
    in core_ready s' \<and> accepted l' = accepted l @ [q] \<and> delivered l' = delivered l @ [route q] \<and>
       answered l' = answered l @ [(d, d_rdata v d)]"
proof -
  let ?l1 = "l\<lparr>accepted := accepted l @ [q]\<rparr>"
  let ?l2 = "?l1\<lparr>delivered := delivered l @ [route q], owing := Some d\<rparr>"
  have 1: "mmio_step i s = under_way q False" "mmio_log_step i s l = ?l1"
    using assms(1-3)
    by (simp_all add: mmio_step_def mmio_log_step_def under_way_def core_ready_def core_rvalid_def device_request_def)
  have 2: "mmio_run a (under_way q False, ?l1) = (under_way q False, ?l1)"
    by (rule mmio_run_stays) (use assms(2,6) d offer_waits [where l = ?l1 and q = q] in \<open>simp\<close>)
  have 3: "mmio_step t (under_way q False) = under_way q True" "mmio_log_step t (under_way q False) ?l1 = ?l2"
    using offer_taken [of t q ?l1] assms(2,5,7) d by simp_all
  have 4: "mmio_run b (under_way q True, ?l2) = (under_way q True, ?l2)"
    by (rule mmio_run_stays) (use assms(8) d answer_waits [where l = ?l2 and q = q] in \<open>simp\<close>)
  have 5: "core_ready (mmio_step v (under_way q True))"
    "answered (mmio_log_step v (under_way q True) ?l2) = answered l @ [(d, d_rdata v d)]"
    "accepted (mmio_log_step v (under_way q True) ?l2) = accepted l @ [q]"
    "delivered (mmio_log_step v (under_way q True) ?l2) = delivered l @ [route q]"
    using answer_comes [of v q ?l2] assms(5,9) d by simp_all
  show ?thesis by (simp add: 1 2 3 4 5)
qed


text \<open>The invariant read off for a controller that is ready and for one that is not.\<close>

lemma mmio_inv_ready:
  "mmio_inv s l \<Longrightarrow> core_ready s \<Longrightarrow>
   owing l = None \<and> delivered l = map route (accepted l) \<and> length (answered l) = length (accepted l)"
  unfolding mmio_inv_def core_ready_def by (auto split: if_splits)

lemma mmio_inv_busy:
  assumes "mmio_inv s l" and "\<not> core_ready s"
  shows "\<exists>qs q. accepted l = qs @ [q] \<and> length (answered l) = length qs \<and>
       (delivered l = map route (qs @ [q]) \<and> (\<forall>d. device_request s d = None) \<or>
        delivered l = map route qs \<and>
        (\<forall>d. device_request s d = (if d = get_device (w_addr q) \<and> d \<noteq> UNKNOWN then Some (snd (route q)) else None)))"
proof -
  obtain qs where qs: "accepted l = qs @ [req_saved s]" "length (answered l) = length qs"
    "if req_issued s then delivered l = map route (accepted l) else delivered l = map route qs"
    and d: "last_device s = get_device (w_addr (req_saved s))" and v: "req_saved_valid s"
    using assms by (auto simp: mmio_inv_def core_ready_def split: if_splits)
  have "s = under_way (req_saved s) (req_issued s)" using d v by (simp add: under_way_def)
  then have r: "device_request s d = (if req_issued s then None
      else if d = get_device (w_addr (req_saved s)) \<and> d \<noteq> UNKNOWN then Some (snd (route (req_saved s))) else None)" for d
    using offered [of "req_saved s" d] by (cases "req_issued s") (auto simp: device_request_def)
  show ?thesis
    using qs by (intro exI [of _ qs] exI [of _ "req_saved s"]) (cases "req_issued s", simp_all add: r)
qed


section \<open>Properties\<close>

text \<open>
  C13. The controller loses, repeats and reorders nothing. Whenever it is ready, every request
  accepted so far has reached, once and in order, the device its address selects, with that device's
  offset, and all of them are answered. While it is not, one request is under way: everything before
  it is delivered and answered, and the request itself is either with its device or still offered to
  it and to no other (to none at all when the address selects no device: C29). What the core is
  answered are the devices' answers, their data included, in order. And a request to a device ends:
  however long the device lets it wait and works on it, once it answers, the request has been
  delivered once, the core has the answer and the controller is ready again.
\<close>
theorem mmio_delivers:
  assumes "mmio_reach s l"
  shows "answered l = returned l \<and> map fst (answered l) = take (length (answered l)) (map fst (delivered l)) \<and>
    (if core_ready s
     then delivered l = map route (accepted l) \<and> length (answered l) = length (accepted l)
     else \<exists>qs q. accepted l = qs @ [q] \<and> length (answered l) = length qs \<and>
       (delivered l = map route (qs @ [q]) \<and> (\<forall>d. device_request s d = None) \<or>
        delivered l = map route qs \<and>
        (\<forall>d. device_request s d = (if d = get_device (w_addr q) \<and> d \<noteq> UNKNOWN then Some (snd (route q)) else None)))) \<and>
    UNKNOWN \<notin> fst ` set (delivered l) \<and>
    (\<forall>i q d a t b v. core_ready s \<and> c_req i = Some q \<and> d = get_device (w_addr q) \<and> d \<noteq> UNKNOWN \<and>
      (\<forall>e \<in> set a. \<not> d_ready e d \<and> \<not> d_rvalid e d) \<and> d_ready t d \<and> \<not> d_rvalid t d \<and>
      (\<forall>e \<in> set b. \<not> d_rvalid e d) \<and> d_rvalid v d \<longrightarrow>
      (let (s', l') = mmio_run (i # a @ t # b @ [v]) (s, l)
       in core_ready s' \<and> accepted l' = accepted l @ [q] \<and> delivered l' = delivered l @ [route q] \<and>
          answered l' = answered l @ [(d, d_rdata v d)]))"
proof -
  have inv: "mmio_inv s l" using assms by (rule mmio_reach_inv)
  have "answered l = returned l \<and> map fst (answered l) = take (length (answered l)) (map fst (delivered l)) \<and>
      UNKNOWN \<notin> fst ` set (delivered l)"
    using inv unfolding mmio_inv_def by blast
  moreover have "if core_ready s then delivered l = map route (accepted l) \<and> length (answered l) = length (accepted l)
      else \<exists>qs q. accepted l = qs @ [q] \<and> length (answered l) = length qs \<and>
       (delivered l = map route (qs @ [q]) \<and> (\<forall>d. device_request s d = None) \<or>
        delivered l = map route qs \<and>
        (\<forall>d. device_request s d = (if d = get_device (w_addr q) \<and> d \<noteq> UNKNOWN then Some (snd (route q)) else None)))"
    using mmio_inv_ready [OF inv] mmio_inv_busy [OF inv] by (cases "core_ready s") (simp_all only: if_True if_False simp_thms)
  moreover have "\<forall>i q d a t b v. core_ready s \<and> c_req i = Some q \<and> d = get_device (w_addr q) \<and> d \<noteq> UNKNOWN \<and>
      (\<forall>e \<in> set a. \<not> d_ready e d \<and> \<not> d_rvalid e d) \<and> d_ready t d \<and> \<not> d_rvalid t d \<and>
      (\<forall>e \<in> set b. \<not> d_rvalid e d) \<and> d_rvalid v d \<longrightarrow>
      (let (s', l') = mmio_run (i # a @ t # b @ [v]) (s, l)
       in core_ready s' \<and> accepted l' = accepted l @ [q] \<and> delivered l' = delivered l @ [route q] \<and>
          answered l' = answered l @ [(d, d_rdata v d)])"
    using mmio_inv_ready [OF inv] mmio_transaction [of s l] by blast
  ultimately show ?thesis by (intro conjI) blast+
qed

text \<open>A console write taken, delivered and answered.\<close>

definition demo_poke :: mem_req where
  "demo_poke = \<lparr>w_addr = 0x40000000, w_wen = True, w_wdata = 1, w_wmask = 0xff\<rparr>"

definition demo_offer :: mmio_in where
  "demo_offer = \<lparr>c_req = Some demo_poke, d_ready = (\<lambda>d. True), d_rvalid = (\<lambda>d. False), d_rdata = (\<lambda>d. 0)\<rparr>"

definition demo_answer :: mmio_in where
  "demo_answer = demo_offer\<lparr>d_rvalid := (\<lambda>d. d = DEBUG), d_rdata := (\<lambda>d. 5)\<rparr>"

theorem mmio_delivers_witness:
  "let (s, l) = mmio_run [demo_offer, demo_offer, demo_answer]
      (mmio_reset, \<lparr>accepted = [], delivered = [], returned = [], answered = [], owing = None\<rparr>)
   in core_ready s \<and> delivered l = [(DEBUG, demo_poke\<lparr>w_addr := 0\<rparr>)] \<and> answered l = [(DEBUG, 5)]"
proof -
  have d: "get_device 0x40000000 = DEBUG" "device_offset 0x40000000 = 0" by code_simp+
  have h: "core_ready mmio_reset \<and> c_req demo_offer = Some demo_poke \<and> DEBUG = get_device (w_addr demo_poke) \<and>
      DEBUG \<noteq> UNKNOWN \<and> (\<forall>e \<in> set []. \<not> d_ready e DEBUG \<and> \<not> d_rvalid e DEBUG) \<and> d_ready demo_offer DEBUG \<and>
      \<not> d_rvalid demo_offer DEBUG \<and> (\<forall>e \<in> set []. \<not> d_rvalid e DEBUG) \<and> d_rvalid demo_answer DEBUG"
    by (simp add: core_ready_def mmio_reset_def demo_offer_def demo_poke_def demo_answer_def d)
  have "route demo_poke = (DEBUG, demo_poke\<lparr>w_addr := 0\<rparr>)" "d_rdata demo_answer DEBUG = 5"
    by (simp_all add: route_def demo_poke_def d demo_answer_def)
  then show ?thesis
    using mmio_delivers [OF mmio_reach.start, THEN conjunct2, THEN conjunct2, THEN conjunct2, THEN conjunct2,
        rule_format, OF h]
    by (simp add: Let_def case_prod_beta del: mmio_run_simps)
qed

lemma unknown_stays:
  "req_saved_valid s \<and> \<not> req_issued s \<and> last_device s = UNKNOWN \<and> get_device (w_addr (req_saved s)) = UNKNOWN \<Longrightarrow>
   mmio_step i s = s"
  by (simp add: mmio_step_def get_device_ready_def get_device_rvalid_def split: option.splits)

text \<open>
  C29. A request to an address no device has is not discarded, as the code's comments say, but keeps
  the controller for ever: no device is offered it, no answer and no error comes, and nothing else is
  accepted, whatever the devices do.
\<close>
theorem unmapped_access_hangs:
  assumes "core_ready s" and "c_req i = Some q" and "get_device (w_addr q) = UNKNOWN"
  shows "\<forall>is j d. let t = fold mmio_step is (mmio_step i s)
    in \<not> core_ready t \<and> \<not> core_rvalid j t \<and> device_request t d = None"
proof (intro allI)
  fix "is" :: "mmio_in list" and j :: mmio_in and d :: device
  let ?u = "mmio_step i s"
  have u: "req_saved_valid ?u \<and> \<not> req_issued ?u \<and> last_device ?u = UNKNOWN \<and> get_device (w_addr (req_saved ?u)) = UNKNOWN"
    using assms by (simp add: mmio_step_def core_ready_def)
  have "fold mmio_step is ?u = ?u" using unknown_stays [OF u] by (induction "is") simp_all
  then show "let t = fold mmio_step is ?u in \<not> core_ready t \<and> \<not> core_rvalid j t \<and> device_request t d = None"
    using u by (auto simp: Let_def core_ready_def core_rvalid_def get_device_rvalid_def device_request_def assign_device_master_def)
qed

theorem unmapped_access_hangs_witness:
  "\<not> core_ready (mmio_step (demo_offer\<lparr>c_req := Some (demo_poke\<lparr>w_addr := 0x60000000\<rparr>)\<rparr>) mmio_reset)"
proof -
  let ?q = "demo_poke\<lparr>w_addr := 0x60000000\<rparr>"
  have u: "get_device (w_addr ?q) = UNKNOWN" by code_simp
  have r: "core_ready mmio_reset" by (simp add: core_ready_def mmio_reset_def)
  have c: "c_req (demo_offer\<lparr>c_req := Some ?q\<rparr>) = Some ?q" by simp
  from unmapped_access_hangs [OF r c u, rule_format, of "[]"] show ?thesis by (simp add: Let_def)
qed

end
