(* ===== verification/Ram.thy ===== *)
theory Ram
  imports Mmio
begin

text \<open>
  The memories and the arbiters in front of them: \<open>src/memory.sv\<close>, \<open>src/ram_arbiter.sv\<close> and the
  instruction/data arbiter of \<open>src/top.sv\<close>. RAM behind its arbiter is shown to be a memory whose
  accesses happen one at a time, in the order they were accepted.
\<close>

section \<open>memory.sv\<close>

text \<open>
  The module for 64-bit words; the word index is \<open>ADDR_WIDTH\<close> bits. Its masters drive zeros on the bus
  when they offer nothing.
\<close>

datatype mem_state = Ready | WriteValid

record 'i memory =
  mem_words :: "'i \<Rightarrow> u64"
  m_state :: mem_state
  m_rvalid :: bool
  m_rdata :: u64
  addr_saved :: 'i
  wdata_saved :: u64
  wmask_saved :: u8
  rdata_saved :: u64

record 'i word_req =
  q_addr :: 'i
  q_wen :: bool
  q_wdata :: u64
  q_wmask :: u8

definition driven :: "'i::zero word_req option \<Rightarrow> 'i word_req" where
  "driven q = (case q of Some r \<Rightarrow> r | None \<Rightarrow> \<lparr>q_addr = 0, q_wen = False, q_wdata = 0, q_wmask = 0\<rparr>)"

definition wmask_expand :: "u8 \<Rightarrow> u64" where
  "wmask_expand wmask = horner_sum of_bool 2 (map (\<lambda>i. bit wmask (i div 8)) [0 ..< 64])"

definition memory_reset :: "('i::zero \<Rightarrow> u64) \<Rightarrow> 'i memory" where
  "memory_reset init = \<lparr>mem_words = init, m_state = Ready, m_rvalid = False, m_rdata = 0, addr_saved = 0,
     wdata_saved = 0, wmask_saved = 0, rdata_saved = 0\<rparr>"

definition memory_ready :: "'i memory \<Rightarrow> bool" where
  "memory_ready s \<longleftrightarrow> m_state s = Ready"

definition memory_step :: "'i::zero word_req option \<Rightarrow> 'i memory \<Rightarrow> 'i memory" where
  "memory_step q s =
     (case m_state s of
        Ready \<Rightarrow>
          let r = driven q; word = mem_words s (q_addr r)
          in s\<lparr>m_rvalid := q \<noteq> None \<and> \<not> q_wen r, m_rdata := word, addr_saved := q_addr r,
               wdata_saved := q_wdata r, wmask_saved := q_wmask r, rdata_saved := word,
               m_state := (if q \<noteq> None \<and> q_wen r then WriteValid else Ready)\<rparr>
      | WriteValid \<Rightarrow>
          s\<lparr>mem_words := (mem_words s)(addr_saved s :=
               (wdata_saved s AND wmask_expand (wmask_saved s)) OR (rdata_saved s AND NOT (wmask_expand (wmask_saved s)))),
             m_state := Ready, m_rvalid := True, m_rdata := rdata_saved s\<rparr>)"


section \<open>ram\_arbiter.sv\<close>

datatype arb_state = A_IDLE | A_WAIT

record ram_arbiter =
  astate :: arb_state
  last_is_cpu :: bool

definition arbiter_reset :: ram_arbiter where
  "arbiter_reset = \<lparr>astate = A_IDLE, last_is_cpu = True\<rparr>"

definition arb_out :: "mem_req option \<Rightarrow> mem_req option \<Rightarrow> ram_arbiter \<Rightarrow> mem_req option" where
  "arb_out cpu dma s = (if astate s = A_IDLE then (if cpu \<noteq> None then cpu else dma) else None)"

definition arb_cpu_ready :: "mem_req option \<Rightarrow> bool \<Rightarrow> ram_arbiter \<Rightarrow> bool" where
  "arb_cpu_ready cpu out_ready s \<longleftrightarrow> astate s = A_IDLE \<and> cpu \<noteq> None \<and> out_ready"

definition arb_dma_ready :: "mem_req option \<Rightarrow> mem_req option \<Rightarrow> bool \<Rightarrow> ram_arbiter \<Rightarrow> bool" where
  "arb_dma_ready cpu dma out_ready s \<longleftrightarrow> astate s = A_IDLE \<and> cpu = None \<and> dma \<noteq> None \<and> out_ready"

definition arb_cpu_rvalid :: "bool \<Rightarrow> ram_arbiter \<Rightarrow> bool" where
  "arb_cpu_rvalid out_rvalid s \<longleftrightarrow> astate s = A_WAIT \<and> out_rvalid \<and> last_is_cpu s"

definition arb_dma_rvalid :: "bool \<Rightarrow> ram_arbiter \<Rightarrow> bool" where
  "arb_dma_rvalid out_rvalid s \<longleftrightarrow> astate s = A_WAIT \<and> out_rvalid \<and> \<not> last_is_cpu s"

definition arbiter_step :: "mem_req option \<Rightarrow> mem_req option \<Rightarrow> bool \<Rightarrow> bool \<Rightarrow> ram_arbiter \<Rightarrow> ram_arbiter" where
  "arbiter_step cpu dma out_ready out_rvalid s =
     (case astate s of
        A_IDLE \<Rightarrow> if arb_out cpu dma s \<noteq> None \<and> out_ready then s\<lparr>last_is_cpu := (cpu \<noteq> None), astate := A_WAIT\<rparr> else s
      | A_WAIT \<Rightarrow> if out_rvalid then s\<lparr>astate := A_IDLE\<rparr> else s)"


section \<open>RAM behind its arbiter (top.sv)\<close>

text \<open>The index of a 64-bit word of RAM, \<open>RAM_ADDR_WIDTH\<close> bits.\<close>

type_synonym ram_word = "24 word"

definition addr_to_ramaddr :: "u64 \<Rightarrow> ram_word" where
  "addr_to_ramaddr addr = ucast (drop_bit 3 addr)"

definition ram_req :: "mem_req \<Rightarrow> ram_word word_req" where
  "ram_req q = \<lparr>q_addr = addr_to_ramaddr (w_addr q), q_wen = w_wen q, q_wdata = w_wdata q, q_wmask = w_wmask q\<rparr>"

record ram_side =
  ram_arb :: ram_arbiter
  ram_mem :: "ram_word memory"

definition ram_reset :: "(ram_word \<Rightarrow> u64) \<Rightarrow> ram_side" where
  "ram_reset init = \<lparr>ram_arb = arbiter_reset, ram_mem = memory_reset init\<rparr>"

definition ram_step :: "mem_req option \<Rightarrow> mem_req option \<Rightarrow> ram_side \<Rightarrow> ram_side" where
  "ram_step cpu dma s =
     \<lparr>ram_arb = arbiter_step cpu dma (memory_ready (ram_mem s)) (m_rvalid (ram_mem s)) (ram_arb s),
      ram_mem = memory_step (map_option ram_req (arb_out cpu dma (ram_arb s))) (ram_mem s)\<rparr>"


section \<open>RAM as a sequence of accesses\<close>

text \<open>
  What the two sides have had accepted, in order, and what has been answered to whom. \<open>ram_after\<close> is
  the memory after a sequence of accesses done one at a time, \<open>answers_to\<close> what those accesses return:
  the word before the access.
\<close>

datatype port = CpuPort | DmaPort

record ram_log =
  taken_reqs :: "(port \<times> mem_req) list"
  answers :: "(port \<times> u64) list"

definition ram_cpu_ready :: "mem_req option \<Rightarrow> ram_side \<Rightarrow> bool" where
  "ram_cpu_ready cpu s = arb_cpu_ready cpu (memory_ready (ram_mem s)) (ram_arb s)"

definition ram_dma_ready :: "mem_req option \<Rightarrow> mem_req option \<Rightarrow> ram_side \<Rightarrow> bool" where
  "ram_dma_ready cpu dma s = arb_dma_ready cpu dma (memory_ready (ram_mem s)) (ram_arb s)"

definition ram_cpu_rvalid :: "ram_side \<Rightarrow> bool" where
  "ram_cpu_rvalid s = arb_cpu_rvalid (m_rvalid (ram_mem s)) (ram_arb s)"

definition ram_dma_rvalid :: "ram_side \<Rightarrow> bool" where
  "ram_dma_rvalid s = arb_dma_rvalid (m_rvalid (ram_mem s)) (ram_arb s)"

definition ram_log_step :: "mem_req option \<Rightarrow> mem_req option \<Rightarrow> ram_side \<Rightarrow> ram_log \<Rightarrow> ram_log" where
  "ram_log_step cpu dma s l =
     \<lparr>taken_reqs = taken_reqs l @ (if ram_cpu_ready cpu s then [(CpuPort, the cpu)] else
                         if ram_dma_ready cpu dma s then [(DmaPort, the dma)] else []),
      answers = answers l @ (if ram_cpu_rvalid s then [(CpuPort, m_rdata (ram_mem s))] else
                             if ram_dma_rvalid s then [(DmaPort, m_rdata (ram_mem s))] else [])\<rparr>"

definition apply_req :: "mem_req \<Rightarrow> (ram_word \<Rightarrow> u64) \<Rightarrow> ram_word \<Rightarrow> u64" where
  "apply_req q f =
     (if w_wen q
      then f(addr_to_ramaddr (w_addr q) := masked (wmask_expand (w_wmask q)) (w_wdata q) (f (addr_to_ramaddr (w_addr q))))
      else f)"

definition ram_after :: "(ram_word \<Rightarrow> u64) \<Rightarrow> (port \<times> mem_req) list \<Rightarrow> ram_word \<Rightarrow> u64" where
  "ram_after init qs = fold (\<lambda>x. apply_req (snd x)) qs init"

fun answers_to :: "(ram_word \<Rightarrow> u64) \<Rightarrow> (port \<times> mem_req) list \<Rightarrow> (port \<times> u64) list" where
  "answers_to f [] = []"
| "answers_to f ((p, q) # qs) = (p, f (addr_to_ramaddr (w_addr q))) # answers_to (apply_req q f) qs"

inductive ram_reach :: "(ram_word \<Rightarrow> u64) \<Rightarrow> ram_side \<Rightarrow> ram_log \<Rightarrow> bool" for init where
  start: "ram_reach init (ram_reset init) \<lparr>taken_reqs = [], answers = []\<rparr>"
| edge: "ram_reach init s l \<Longrightarrow> ram_reach init (ram_step cpu dma s) (ram_log_step cpu dma s l)"

lemma ram_after_simps [simp]:
  "ram_after init [] = init" "ram_after init (qs @ [x]) = apply_req (snd x) (ram_after init qs)"
  by (simp_all add: ram_after_def)

lemma answers_to_snoc [simp]:
  "answers_to f (qs @ [x]) = answers_to f qs @ [(fst x, ram_after f qs (addr_to_ramaddr (w_addr (snd x))))]"
  by (induction f qs rule: answers_to.induct; cases x) (auto simp: ram_after_def)

lemma length_answers_to [simp]: "length (answers_to f qs) = length qs"
  by (induction f qs rule: answers_to.induct) auto

definition ram_inv :: "(ram_word \<Rightarrow> u64) \<Rightarrow> ram_side \<Rightarrow> ram_log \<Rightarrow> bool" where
  "ram_inv init s l \<longleftrightarrow>
     (let m = ram_mem s; before = ram_after init (taken_reqs l) in
      case astate (ram_arb s) of
        A_IDLE \<Rightarrow> answers l = answers_to init (taken_reqs l) \<and> m_state m = Ready \<and> \<not> m_rvalid m \<and> mem_words m = before
      | A_WAIT \<Rightarrow>
          \<exists>qs p q. taken_reqs l = qs @ [(p, q)] \<and> answers l = answers_to init qs \<and> last_is_cpu (ram_arb s) = (p = CpuPort) \<and>
            (let old = ram_after init qs (addr_to_ramaddr (w_addr q)) in
             case m_state m of
               Ready \<Rightarrow> m_rvalid m \<and> m_rdata m = old \<and> mem_words m = before
             | WriteValid \<Rightarrow> \<not> m_rvalid m \<and> w_wen q \<and> mem_words m = ram_after init qs \<and> rdata_saved m = old \<and>
                 addr_saved m = addr_to_ramaddr (w_addr q) \<and> wdata_saved m = w_wdata q \<and> wmask_saved m = w_wmask q))"

lemmas ram_port_defs = ram_cpu_ready_def ram_dma_ready_def ram_cpu_rvalid_def ram_dma_rvalid_def
  arb_cpu_ready_def arb_dma_ready_def arb_cpu_rvalid_def arb_dma_rvalid_def memory_ready_def

lemma ram_inv_step:
  assumes "ram_inv init s l"
  shows "ram_inv init (ram_step cpu dma s) (ram_log_step cpu dma s l)"
proof (cases "astate (ram_arb s)")
  case A_IDLE
  then show ?thesis using assms
    by (cases cpu; cases dma)
      (auto simp: ram_inv_def ram_step_def ram_log_step_def ram_port_defs arbiter_step_def memory_step_def arb_out_def
        ram_req_def driven_def apply_req_def Let_def)
next
  case A_WAIT
  then obtain qs p q where l: "taken_reqs l = qs @ [(p, q)]" "answers l = answers_to init qs" "last_is_cpu (ram_arb s) = (p = CpuPort)"
    using assms by (auto simp: ram_inv_def Let_def)
  show ?thesis
  proof (cases "m_state (ram_mem s)")
    case Ready
    have "(if p = CpuPort then CpuPort else DmaPort) = p" by (cases p) simp_all
    with Ready show ?thesis using assms A_WAIT l
      by (auto simp: ram_inv_def ram_step_def ram_log_step_def ram_port_defs arbiter_step_def memory_step_def arb_out_def
        driven_def Let_def split: if_splits)
  next
    case WriteValid
    then show ?thesis using assms A_WAIT l
      by (auto simp: ram_inv_def ram_step_def ram_log_step_def ram_port_defs arbiter_step_def memory_step_def arb_out_def
        apply_req_def masked_def Let_def)
  qed
qed

lemma ram_reach_inv: "ram_reach init s l \<Longrightarrow> ram_inv init s l"
proof (induction rule: ram_reach.induct)
  case start
  then show ?case by (simp add: ram_inv_def ram_reset_def arbiter_reset_def memory_reset_def)
next
  case (edge s l cpu dma)
  then show ?case by (intro ram_inv_step)
qed


section \<open>The instruction and data sides of the bus controller (top.sv)\<close>

text \<open>
  Data goes first, except a low-priority store drain against an instruction fetch; the answer goes to
  whoever was taken last (\<open>memarb_last_i\<close>). A fetch is a read; its write lanes, unspecified in the code,
  are zero here.
\<close>

record hub =
  memarb_last_i :: bool
  mmioc :: mmio

record hub_in =
  i_fetch :: "u64 option"
  d_access :: "mem_req option"
  d_low_priority :: bool
  devices :: mmio_in

definition hub_reset :: hub where
  "hub_reset = \<lparr>memarb_last_i = False, mmioc = mmio_reset\<rparr>"

definition memarb_select_d :: "hub_in \<Rightarrow> bool" where
  "memarb_select_d i \<longleftrightarrow> d_access i \<noteq> None \<and> \<not> (d_low_priority i \<and> i_fetch i \<noteq> None)"

definition memarb_issue_is_i :: "hub_in \<Rightarrow> bool" where
  "memarb_issue_is_i i \<longleftrightarrow> i_fetch i \<noteq> None \<and> \<not> memarb_select_d i"

definition memarb_out :: "hub_in \<Rightarrow> mem_req option" where
  "memarb_out i =
     (if memarb_select_d i then d_access i
      else map_option (\<lambda>a. \<lparr>w_addr = a, w_wen = False, w_wdata = 0, w_wmask = 0\<rparr>) (i_fetch i))"

definition i_ready :: "hub_in \<Rightarrow> hub \<Rightarrow> bool" where
  "i_ready i s \<longleftrightarrow> core_ready (mmioc s) \<and> \<not> memarb_select_d i"

definition d_side_ready :: "hub_in \<Rightarrow> hub \<Rightarrow> bool" where
  "d_side_ready i s \<longleftrightarrow> core_ready (mmioc s) \<and> memarb_select_d i"

definition hub_controller_in :: "hub_in \<Rightarrow> mmio_in" where
  "hub_controller_in i = (devices i)\<lparr>c_req := memarb_out i\<rparr>"

definition i_side_rvalid :: "hub_in \<Rightarrow> hub \<Rightarrow> bool" where
  "i_side_rvalid i s \<longleftrightarrow> core_rvalid (hub_controller_in i) (mmioc s) \<and> memarb_last_i s"

definition d_side_rvalid :: "hub_in \<Rightarrow> hub \<Rightarrow> bool" where
  "d_side_rvalid i s \<longleftrightarrow> core_rvalid (hub_controller_in i) (mmioc s) \<and> \<not> memarb_last_i s"

definition hub_step :: "hub_in \<Rightarrow> hub \<Rightarrow> hub" where
  "hub_step i s =
     \<lparr>memarb_last_i = (if core_ready (mmioc s) \<and> memarb_out i \<noteq> None then memarb_issue_is_i i else memarb_last_i s),
      mmioc = mmio_step (hub_controller_in i) (mmioc s)\<rparr>"

text \<open>Who has been taken and who has been answered, in order, beside the controller's own log.\<close>

datatype side = ISide | DSide

record hub_log =
  sides_taken :: "side list"
  sides_answered :: "side list"
  controller_log :: mmio_log

definition hub_log_step :: "hub_in \<Rightarrow> hub \<Rightarrow> hub_log \<Rightarrow> hub_log" where
  "hub_log_step i s l =
     \<lparr>sides_taken = sides_taken l @ (if i_fetch i \<noteq> None \<and> i_ready i s then [ISide] else
                        if d_access i \<noteq> None \<and> d_side_ready i s then [DSide] else []),
      sides_answered = sides_answered l @ (if i_side_rvalid i s then [ISide] else if d_side_rvalid i s then [DSide] else []),
      controller_log = mmio_log_step (hub_controller_in i) (mmioc s) (controller_log l)\<rparr>"

inductive hub_reach :: "hub \<Rightarrow> hub_log \<Rightarrow> bool" where
  start: "hub_reach hub_reset \<lparr>sides_taken = [], sides_answered = [],
            controller_log = \<lparr>accepted = [], delivered = [], returned = [], answered = [], owing = None\<rparr>\<rparr>"
| edge: "hub_reach s l \<Longrightarrow> mmio_env (hub_controller_in i) (controller_log l) \<Longrightarrow>
    hub_reach (hub_step i s) (hub_log_step i s l)"

definition hub_inv :: "hub \<Rightarrow> hub_log \<Rightarrow> bool" where
  "hub_inv s l \<longleftrightarrow> mmio_inv (mmioc s) (controller_log l) \<and>
     length (sides_taken l) = length (accepted (controller_log l)) \<and>
     (if core_ready (mmioc s) then sides_answered l = sides_taken l
      else sides_taken l = sides_answered l @ [if memarb_last_i s then ISide else DSide])"

lemma core_ready_step:
  "core_ready (mmio_step j s) \<longleftrightarrow> (if core_ready s then c_req j = None else req_issued s \<and> core_rvalid j s)"
  by (auto simp: mmio_step_def core_ready_def core_rvalid_def Let_def split: option.splits)

lemma side_taken:
  "(if i_fetch i \<noteq> None \<and> i_ready i s then [ISide] else if d_access i \<noteq> None \<and> d_side_ready i s then [DSide] else []) =
   (if core_ready (mmioc s) \<and> memarb_out i \<noteq> None then [if memarb_issue_is_i i then ISide else DSide] else [])"
  by (auto simp: i_ready_def d_side_ready_def memarb_out_def memarb_issue_is_i_def memarb_select_d_def)

lemma side_answered:
  "(if i_side_rvalid i s then [ISide] else if d_side_rvalid i s then [DSide] else []) =
   (if core_rvalid (hub_controller_in i) (mmioc s) then [if memarb_last_i s then ISide else DSide] else [])"
  by (auto simp: i_side_rvalid_def d_side_rvalid_def)

lemmas hub_log_step_eq = hub_log_step_def [unfolded side_taken side_answered]

lemma hub_inv_step:
  assumes "hub_inv s l" and "mmio_env (hub_controller_in i) (controller_log l)"
  shows "hub_inv (hub_step i s) (hub_log_step i s l)"
proof -
  have "mmio_inv (mmioc (hub_step i s)) (controller_log (hub_log_step i s l))"
    using mmio_inv_step assms by (simp add: hub_inv_def hub_step_def hub_log_step_def)
  moreover have "\<not> core_rvalid (hub_controller_in i) (mmioc s)" if "core_ready (mmioc s)"
    using that by (simp add: core_rvalid_def core_ready_def)
  moreover have "core_rvalid (hub_controller_in i) (mmioc s) \<longrightarrow> req_issued (mmioc s)"
    using assms by (auto simp: hub_inv_def mmio_inv_def mmio_env_def core_rvalid_def get_device_rvalid_def split: if_splits)
  moreover have "c_req (hub_controller_in i) = memarb_out i" by (simp add: hub_controller_in_def)
  ultimately show ?thesis using assms(1)
    by (cases "core_ready (mmioc s)"; cases "memarb_out i")
      (simp_all add: hub_inv_def hub_step_def hub_log_step_eq mmio_log_step_def core_ready_step Let_def)
qed

lemma hub_reach_inv: "hub_reach s l \<Longrightarrow> hub_inv s l"
proof (induction rule: hub_reach.induct)
  case start
  then show ?case by (simp add: hub_inv_def hub_reset_def mmio_reset_def mmio_inv_def core_ready_def)
next
  case (edge s l i)
  then show ?case by (intro hub_inv_step)
qed


section \<open>Properties\<close>

text \<open>
  C16. RAM behind the arbiter is a memory with atomic accesses: whatever the two sides offer and when,
  the accepted accesses take effect one at a time in the order of acceptance, each is answered once, to
  the side that made it and with the word all earlier writes left, at most one is unanswered, and
  between accesses the cells hold exactly the accepted writes, byte enables applied.
\<close>
theorem ram_serialises:
  assumes "ram_reach init s l"
  shows "answers l = answers_to init (take (length (answers l)) (taken_reqs l)) \<and>
    length (answers l) \<le> length (taken_reqs l) \<and> length (taken_reqs l) \<le> length (answers l) + 1 \<and>
    (astate (ram_arb s) = A_IDLE \<longrightarrow>
       length (answers l) = length (taken_reqs l) \<and> mem_words (ram_mem s) = ram_after init (taken_reqs l))"
  using ram_reach_inv [OF assms]
  by (cases "astate (ram_arb s)") (auto simp: ram_inv_def Let_def)

text \<open>
  The two sides of the bus controller never see each other's answers: whatever is offered and
  whatever the devices do, the answers go to the sides whose accesses were taken, one for each and in
  that order, and the accesses taken are the ones the controller accepted.
\<close>
theorem hub_answers_issuer:
  assumes "hub_reach s l"
  shows "prefix (sides_answered l) (sides_taken l) \<and> length (sides_taken l) \<le> length (sides_answered l) + 1 \<and>
    length (sides_taken l) = length (accepted (controller_log l)) \<and>
    (core_ready (mmioc s) \<longrightarrow> sides_answered l = sides_taken l)"
  using hub_reach_inv [OF assms] by (auto simp: hub_inv_def split: if_splits)

text \<open>A fetch and a low-priority store offered together: the fetch is taken and is the one answered.\<close>

definition demo_both :: "bool \<Rightarrow> hub_in" where
  "demo_both v = \<lparr>i_fetch = Some 0x80000000, d_access = Some demo_poke, d_low_priority = True,
     devices = demo_offer\<lparr>d_rvalid := (\<lambda>d. v \<and> d = RAM)\<rparr>\<rparr>"

definition demo_both_run :: "hub \<times> hub_log" where
  "demo_both_run = fold (\<lambda>v (s, l). (hub_step (demo_both v) s, hub_log_step (demo_both v) s l)) [False, False, True]
     (hub_reset, \<lparr>sides_taken = [], sides_answered = [],
        controller_log = \<lparr>accepted = [], delivered = [], returned = [], answered = [], owing = None\<rparr>\<rparr>)"

lemma demo_both_reach: "hub_reach (fst demo_both_run) (snd demo_both_run)"
proof -
  have e: "mmio_env (hub_controller_in (demo_both False)) l" for l
    by (simp add: mmio_env_def hub_controller_in_def demo_both_def demo_offer_def)
  note r = hub_reach.edge [OF hub_reach.edge [OF hub_reach.start e] e]
  let ?l = "hub_log_step (demo_both False) (hub_step (demo_both False) hub_reset)
     (hub_log_step (demo_both False) hub_reset \<lparr>sides_taken = [], sides_answered = [],
        controller_log = \<lparr>accepted = [], delivered = [], returned = [], answered = [], owing = None\<rparr>\<rparr>)"
  have "owing (controller_log ?l) = Some RAM" by code_simp
  then have "mmio_env (hub_controller_in (demo_both True)) (controller_log ?l)"
    by (simp add: mmio_env_def hub_controller_in_def demo_both_def demo_offer_def)
  then show ?thesis unfolding demo_both_run_def using hub_reach.edge [OF r] by simp
qed

theorem hub_answers_issuer_witness:
  "sides_answered (snd demo_both_run) = [ISide]"
proof -
  have "sides_taken (snd demo_both_run) = [ISide]" "core_ready (mmioc (fst demo_both_run))" by code_simp+
  then show ?thesis using hub_answers_issuer [OF demo_both_reach] by simp
qed

text \<open>The core's write and the engine's read offered together: the write is taken first.\<close>

definition demo_word_write :: mem_req where
  "demo_word_write = \<lparr>w_addr = 8, w_wen = True, w_wdata = 0x1234, w_wmask = 1\<rparr>"

definition demo_word_read :: mem_req where
  "demo_word_read = \<lparr>w_addr = 8, w_wen = False, w_wdata = 0, w_wmask = 0\<rparr>"

fun ram_demo :: "nat \<Rightarrow> ram_side \<times> ram_log" where
  "ram_demo 0 = (ram_reset (\<lambda>a. 0xff00), \<lparr>taken_reqs = [], answers = []\<rparr>)"
| "ram_demo (Suc n) =
     (let (s, l) = ram_demo n; cpu = (if n = 0 then Some demo_word_write else None)
      in (ram_step cpu (Some demo_word_read) s, ram_log_step cpu (Some demo_word_read) s l))"

lemma ram_demo_reach: "ram_reach (\<lambda>a. 0xff00) (fst (ram_demo n)) (snd (ram_demo n))"
  by (induction n) (auto simp: case_prod_unfold Let_def intro: ram_reach.intros)

theorem ram_serialises_witness:
  "answers (snd (ram_demo 5)) = [(CpuPort, 0xff00), (DmaPort, 0xff34)]"
proof -
  have t: "taken_reqs (snd (ram_demo 5)) = [(CpuPort, demo_word_write), (DmaPort, demo_word_read)]"
    "length (answers (snd (ram_demo 5))) = 2" by code_simp+
  have "answers_to (\<lambda>a. 0xff00) [(CpuPort, demo_word_write), (DmaPort, demo_word_read)] = [(CpuPort, 0xff00), (DmaPort, 0xff34)]"
    by code_simp
  then show ?thesis using ram_serialises [OF ram_demo_reach [of 5]] t by simp
qed

end
