(* ===== verification/Dma.thy ===== *)
theory Dma
  imports Ram
begin

text \<open>
  The copy engine, \<open>src/dma.sv\<close>, and the engine behind the RAM arbiter as \<open>src/top.sv\<close> connects them.
  A transfer is shown to be the forward word copy of its ranges whatever the core does on its side of
  the arbiter outside them, and to end once the core leaves the memory alone.
\<close>

section \<open>dma.sv\<close>

definition MMAP_DMA_CTRL :: u64 where "MMAP_DMA_CTRL = 0"
definition MMAP_DMA_STATUS :: u64 where "MMAP_DMA_STATUS = 8"
definition MMAP_DMA_SRC :: u64 where "MMAP_DMA_SRC = 0x10"
definition MMAP_DMA_DST :: u64 where "MMAP_DMA_DST = 0x18"
definition MMAP_DMA_LEN :: u64 where "MMAP_DMA_LEN = 0x20"

definition CTRL_START :: nat where "CTRL_START = 0"
definition CTRL_CLEAR_DONE :: nat where "CTRL_CLEAR_DONE = 1"
definition CTRL_IRQ_EN :: nat where "CTRL_IRQ_EN = 2"

datatype dma_state = IDLE | READ_REQ | READ_WAIT | WRITE_REQ | DONE | ERR

record dma =
  r_src :: u64
  r_dst :: u64
  r_len :: u64
  st_busy :: bool
  st_done :: bool
  st_err :: bool
  irq_en :: bool
  mmio_rvalid_q :: bool
  mmio_rdata_q :: u64
  start_pulse :: bool
  dma_state :: dma_state
  cur_src :: u64
  cur_dst :: u64
  rem :: u64
  rd_buf :: u64

definition dma_reset :: dma where
  "dma_reset = \<lparr>r_src = 0, r_dst = 0, r_len = 0, st_busy = False, st_done = False, st_err = False, irq_en = False,
     mmio_rvalid_q = False, mmio_rdata_q = 0, start_pulse = False, dma_state = IDLE, cur_src = 0, cur_dst = 0,
     rem = 0, rd_buf = 0\<rparr>"

definition is_bad_align :: "u64 \<Rightarrow> bool" where
  "is_bad_align a \<longleftrightarrow> bits 2 0 a \<noteq> 0"

definition dma_active :: "dma \<Rightarrow> bool" where
  "dma_active s \<longleftrightarrow> dma_state s \<noteq> IDLE"

text \<open>The engine's port to the arbiter.\<close>

definition dma_ram_request :: "dma \<Rightarrow> mem_req option" where
  "dma_ram_request s =
     (case dma_state s of
        READ_REQ \<Rightarrow> Some \<lparr>w_addr = cur_src s, w_wen = False, w_wdata = 0, w_wmask = 0\<rparr>
      | WRITE_REQ \<Rightarrow> Some \<lparr>w_addr = cur_dst s, w_wen = True, w_wdata = rd_buf s, w_wmask = -1\<rparr>
      | _ \<Rightarrow> None)"

text \<open>The registers: what a read returns and what a write stores, with the state before the edge.\<close>

definition dma_register :: "u64 \<Rightarrow> dma \<Rightarrow> u64" where
  "dma_register a s =
     (if a = MMAP_DMA_CTRL then (if irq_en s then 4 else 0)
      else if a = MMAP_DMA_STATUS
        then put_bit 2 (st_err s) (put_bit 1 (st_done s) (put_bit 0 (st_busy s) 0))
      else if a = MMAP_DMA_SRC then r_src s
      else if a = MMAP_DMA_DST then r_dst s
      else if a = MMAP_DMA_LEN then r_len s
      else 0)"

definition dma_write :: "u64 \<Rightarrow> u64 \<Rightarrow> dma \<Rightarrow> dma" where
  "dma_write a v s =
     (if a = MMAP_DMA_CTRL
      then (let t = (if bit v CTRL_CLEAR_DONE then s\<lparr>st_done := False, st_err := False\<rparr> else s)
            in t\<lparr>irq_en := bit v CTRL_IRQ_EN, start_pulse := bit v CTRL_START \<and> \<not> dma_active s\<rparr>)
      else if dma_active s then s
      else if a = MMAP_DMA_SRC then s\<lparr>r_src := v\<rparr>
      else if a = MMAP_DMA_DST then s\<lparr>r_dst := v\<rparr>
      else if a = MMAP_DMA_LEN then s\<lparr>r_len := v\<rparr>
      else s)"

definition dma_mmio :: "mem_req option \<Rightarrow> dma \<Rightarrow> dma" where
  "dma_mmio mmio s =
     (let t = s\<lparr>mmio_rvalid_q := mmio \<noteq> None, start_pulse := False\<rparr>
      in case mmio of
           None \<Rightarrow> t
         | Some q \<Rightarrow>
             if w_wen q then dma_write (w_addr q) (w_wdata q) (t\<lparr>mmio_rdata_q := 0\<rparr>)
             else t\<lparr>mmio_rdata_q := dma_register (w_addr q) s\<rparr>)"

text \<open>
  One edge: the register block, then the state machine, whose assignments come later in the block and
  so win; both read the state before the edge, \<open>s\<close>.
\<close>

definition dma_start :: "dma \<Rightarrow> dma \<Rightarrow> dma" where
  "dma_start s t =
     (let u = t\<lparr>st_busy := False\<rparr>
      in if \<not> start_pulse s then u
         else if is_bad_align (r_src s) \<or> is_bad_align (r_dst s) \<or> is_bad_align (r_len s)
           then u\<lparr>st_done := False, st_err := True, dma_state := ERR\<rparr>
         else if r_len s = 0 then u\<lparr>st_err := False, st_done := True, dma_state := DONE\<rparr>
         else u\<lparr>st_done := False, st_err := False, st_busy := True, cur_src := r_src s - MMAP_RAM_BEGIN,
                cur_dst := r_dst s - MMAP_RAM_BEGIN, rem := r_len s, dma_state := READ_REQ\<rparr>)"

definition dma_step :: "mem_req option \<Rightarrow> bool \<Rightarrow> bool \<Rightarrow> u64 \<Rightarrow> dma \<Rightarrow> dma" where
  "dma_step mmio ready rvalid rdata s =
     (let t = dma_mmio mmio s
      in case dma_state s of
           IDLE \<Rightarrow> dma_start s t
         | READ_REQ \<Rightarrow> if ready then t\<lparr>dma_state := READ_WAIT\<rparr> else t
         | READ_WAIT \<Rightarrow> if rvalid then t\<lparr>rd_buf := rdata, dma_state := WRITE_REQ\<rparr> else t
         | WRITE_REQ \<Rightarrow>
             if ready
             then t\<lparr>cur_src := cur_src s + 8, cur_dst := cur_dst s + 8, rem := rem s - 8,
                    dma_state := (if rem s = 8 then DONE else READ_REQ)\<rparr>
             else t
         | DONE \<Rightarrow> t\<lparr>st_busy := False, st_done := True, dma_state := IDLE\<rparr>
         | ERR \<Rightarrow> t\<lparr>st_busy := False, dma_state := IDLE\<rparr>)"


section \<open>The engine on the RAM arbiter (top.sv)\<close>

record dma_side =
  memory_side :: ram_side
  engine :: dma

definition engine_ready :: "mem_req option \<Rightarrow> dma_side \<Rightarrow> bool" where
  "engine_ready cpu s = ram_dma_ready cpu (dma_ram_request (engine s)) (memory_side s)"

definition dma_side_step :: "mem_req option \<Rightarrow> mem_req option \<Rightarrow> dma_side \<Rightarrow> dma_side" where
  "dma_side_step cpu mmio s =
     \<lparr>memory_side = ram_step cpu (dma_ram_request (engine s)) (memory_side s),
      engine = dma_step mmio (engine_ready cpu s) (ram_dma_rvalid (memory_side s)) (m_rdata (ram_mem (memory_side s))) (engine s)\<rparr>"

definition dma_side_log :: "mem_req option \<Rightarrow> dma_side \<Rightarrow> ram_log \<Rightarrow> ram_log" where
  "dma_side_log cpu s l = ram_log_step cpu (dma_ram_request (engine s)) (memory_side s) l"


section \<open>Transfers\<close>

text \<open>
  The specification: the forward copy of \<open>n\<close> words, one at a time. A transfer starts where the start bit
  has been taken with valid registers; while it runs the core may do anything outside the two ranges.
\<close>

fun copy_words :: "ram_word \<Rightarrow> ram_word \<Rightarrow> nat \<Rightarrow> (ram_word \<Rightarrow> u64) \<Rightarrow> ram_word \<Rightarrow> u64" where
  "copy_words src dst 0 f = f"
| "copy_words src dst (Suc n) f =
     (let g = copy_words src dst n f in g(dst + of_nat n := g (src + of_nat n)))"

definition ram_cell :: "u64 \<Rightarrow> ram_word" where
  "ram_cell a = addr_to_ramaddr (a - MMAP_RAM_BEGIN)"

definition words_of :: "dma \<Rightarrow> nat" where
  "words_of d = unat (r_len d) div 8"

definition ranges :: "dma \<Rightarrow> ram_word set" where
  "ranges d = (\<Union>i < words_of d. {ram_cell (r_src d) + of_nat i, ram_cell (r_dst d) + of_nat i})"

definition starting :: "dma \<Rightarrow> bool" where
  "starting d \<longleftrightarrow> dma_state d = IDLE \<and> start_pulse d \<and> \<not> is_bad_align (r_src d) \<and> \<not> is_bad_align (r_dst d) \<and>
     \<not> is_bad_align (r_len d) \<and> r_len d \<noteq> 0"

definition keeps_off :: "ram_word set \<Rightarrow> mem_req option \<Rightarrow> bool" where
  "keeps_off T cpu \<longleftrightarrow> (\<forall>q. cpu = Some q \<longrightarrow> w_wen q \<longrightarrow> addr_to_ramaddr (w_addr q) \<notin> T)"

inductive dma_run :: "dma_side \<Rightarrow> ram_log \<Rightarrow> dma_side \<Rightarrow> ram_log \<Rightarrow> bool" for s0 l0 where
  start: "dma_run s0 l0 s0 l0"
| edge: "dma_run s0 l0 s l \<Longrightarrow> dma_state (engine s) \<noteq> DONE \<Longrightarrow> keeps_off (ranges (engine s0)) cpu \<Longrightarrow>
    dma_run s0 l0 (dma_side_step cpu mmio s) (dma_side_log cpu s l)"

text \<open>What the core's own accesses since the start make of the memory.\<close>

definition core_since :: "ram_log \<Rightarrow> ram_log \<Rightarrow> (port \<times> mem_req) list" where
  "core_since l0 l = filter (\<lambda>x. fst x = CpuPort) (drop (length (taken_reqs l0)) (taken_reqs l))"

definition copied :: "(ram_word \<Rightarrow> u64) \<Rightarrow> dma_side \<Rightarrow> ram_log \<Rightarrow> ram_log \<Rightarrow> nat \<Rightarrow> bool" where
  "copied init s0 l0 l n \<longleftrightarrow>
     (let d = engine s0; f = ram_after init (taken_reqs l0)
      in \<forall>a. ram_after init (taken_reqs l) a =
           (if a \<in> ranges d then copy_words (ram_cell (r_src d)) (ram_cell (r_dst d)) n f a
            else ram_after f (core_since l0 l) a))"

lemma unat_ramaddr: "unat (addr_to_ramaddr a) = unat a div 8 mod 2 ^ 24"
  by (simp add: addr_to_ramaddr_def unsigned_ucast_eq take_bit_eq_mod unat_drop_bit_eq)
    (simp add: drop_bit_eq_div)

lemma ramaddr_add: "addr_to_ramaddr (a + 8 * of_nat i) = addr_to_ramaddr a + of_nat i"
proof -
  have "unat (a + 8 * of_nat i) = (unat a + 8 * i) mod 2 ^ 64"
    by (simp add: unat_word_ariths unat_of_nat mod_simps)
  moreover have "(x mod 2 ^ 64) div 8 mod 2 ^ 24 = (x div 8) mod (2 ^ 24 :: nat)" for x
  proof -
    have "x mod 2 ^ 64 = 8 * (x div 8 mod 2 ^ 61) + x mod 8" using mod_mult2_eq [of x 8 "2 ^ 61"] by simp
    then have "(x mod 2 ^ 64) div 8 = x div 8 mod 2 ^ 61" by simp
    then show ?thesis by (simp add: mod_mod_cancel)
  qed
  moreover have "(unat a + 8 * i) div 8 = unat a div 8 + i" by simp
  ultimately have "unat (addr_to_ramaddr (a + 8 * of_nat i)) = (unat a div 8 + i) mod 2 ^ 24"
    unfolding unat_ramaddr by metis
  also have "\<dots> = unat (addr_to_ramaddr a + of_nat i)"
    by (simp add: unat_ramaddr unat_word_ariths unat_of_nat mod_simps)
  finally show ?thesis by (simp add: word_unat_eq_iff)
qed

lemma apply_req_read [simp]: "\<not> w_wen q \<Longrightarrow> apply_req q f = f"
  by (simp add: apply_req_def)

lemma apply_req_other: "addr_to_ramaddr (w_addr q) \<noteq> a \<Longrightarrow> apply_req q f a = f a"
  by (simp add: apply_req_def)

lemma apply_req_cong: "f a = g a \<Longrightarrow> apply_req q f a = apply_req q g a"
  by (auto simp: apply_req_def)

lemma expand_all: "wmask_expand (-1) = -1"
  by (simp add: wmask_expand_def) (rule bit_word_eqI, simp add: bit_horner_sum_bit_word_iff)

lemma apply_req_full:
  "w_wen q \<Longrightarrow> w_wmask q = -1 \<Longrightarrow> apply_req q f = f(addr_to_ramaddr (w_addr q) := w_wdata q)"
  by (simp add: apply_req_def expand_all)


lemma aligned_words: "\<not> is_bad_align x \<Longrightarrow> 8 * (unat x div 8) = unat x"
proof -
  assume "\<not> is_bad_align x"
  then have "unat (bits 2 0 x) = 0" by (simp add: is_bad_align_def)
  then have "unat x mod 8 = 0" by (simp add: unat_bits)
  then show ?thesis by (metis add.right_neutral mult_div_mod_eq)
qed

lemma ram_after_append: "ram_after f (xs @ ys) = ram_after (ram_after f xs) ys"
  by (simp add: ram_after_def)

text \<open>Which accesses an edge adds to the log, by the arbiter's state.\<close>

lemma log_waits:
  assumes "astate (ram_arb (memory_side s)) = A_WAIT"
  shows "taken_reqs (dma_side_log cpu s l) = taken_reqs l" "\<not> engine_ready cpu s"
  using assms by (simp_all add: dma_side_log_def ram_log_step_def engine_ready_def ram_port_defs)

lemma log_idle:
  assumes "ram_inv init (memory_side s) l" "astate (ram_arb (memory_side s)) = A_IDLE"
  shows "taken_reqs (dma_side_log cpu s l) = taken_reqs l @
      (case cpu of Some q \<Rightarrow> [(CpuPort, q)] | None \<Rightarrow> case dma_ram_request (engine s) of Some q \<Rightarrow> [(DmaPort, q)] | None \<Rightarrow> [])"
    "engine_ready cpu s \<longleftrightarrow> cpu = None \<and> dma_ram_request (engine s) \<noteq> None"
  using assms
  by (auto simp: dma_side_log_def ram_log_step_def engine_ready_def ram_port_defs ram_inv_def Let_def split: option.splits)

lemma core_since_core [simp]:
  "length (taken_reqs l0) \<le> length (taken_reqs l) \<Longrightarrow> taken_reqs l' = taken_reqs l @ [(CpuPort, q)] \<Longrightarrow>
   core_since l0 l' = core_since l0 l @ [(CpuPort, q)]"
  by (simp add: core_since_def)

lemma core_since_engine [simp]:
  "length (taken_reqs l0) \<le> length (taken_reqs l) \<Longrightarrow> taken_reqs l' = taken_reqs l @ [(DmaPort, q)] \<Longrightarrow>
   core_since l0 l' = core_since l0 l"
  by (simp add: core_since_def)

text \<open>The three ways an accepted access changes what has been copied.\<close>

lemma copied_core:
  assumes "copied init s0 l0 l k" "length (taken_reqs l0) \<le> length (taken_reqs l)" "keeps_off (ranges (engine s0)) (Some q)"
    "taken_reqs l' = taken_reqs l @ [(CpuPort, q)]"
  shows "copied init s0 l0 l' k"
proof -
  have off: "a \<in> ranges (engine s0) \<Longrightarrow> apply_req q f a = f a" for a f
    using assms(3) by (auto simp: keeps_off_def apply_req_def)
  show ?thesis using assms(1,2,4)
    by (auto simp: copied_def Let_def off intro!: apply_req_cong)
qed

lemma copied_read:
  assumes "copied init s0 l0 l k" "length (taken_reqs l0) \<le> length (taken_reqs l)" "\<not> w_wen q"
    "taken_reqs l' = taken_reqs l @ [(DmaPort, q)]"
  shows "copied init s0 l0 l' k"
  using assms by (simp add: copied_def Let_def)

lemma copied_write:
  assumes "copied init s0 l0 l k" "length (taken_reqs l0) \<le> length (taken_reqs l)" "k < words_of (engine s0)"
    "w_wen q" "w_wmask q = -1" "addr_to_ramaddr (w_addr q) = ram_cell (r_dst (engine s0)) + of_nat k"
    "w_wdata q = ram_after init (taken_reqs l) (ram_cell (r_src (engine s0)) + of_nat k)"
    "taken_reqs l' = taken_reqs l @ [(DmaPort, q)]"
  shows "copied init s0 l0 l' (Suc k)"
proof -
  have "ram_cell (r_src (engine s0)) + of_nat k \<in> ranges (engine s0)" "ram_cell (r_dst (engine s0)) + of_nat k \<in> ranges (engine s0)"
    using assms(3) by (auto simp: ranges_def)
  moreover have "ram_after init (taken_reqs l') = (ram_after init (taken_reqs l))(ram_cell (r_dst (engine s0)) + of_nat k := w_wdata q)"
    using assms(4-6,8) by (simp add: apply_req_full)
  ultimately show ?thesis using assms(1,7) core_since_engine [OF assms(2,8)]
    by (auto simp: copied_def Let_def)
qed

lemma core_since_same: "taken_reqs l' = taken_reqs l \<Longrightarrow> core_since l0 l' = core_since l0 l"
  by (simp add: core_since_def)

lemma copied_same:
  "copied init s0 l0 l k \<Longrightarrow> taken_reqs l' = taken_reqs l \<Longrightarrow> copied init s0 l0 l' k"
  using core_since_same [of l' l l0] by (simp add: copied_def Let_def)


text \<open>
  The invariant of a transfer: \<open>k\<close> words have been copied, and the engine's registers hold the rest.
\<close>

definition at_word :: "dma \<Rightarrow> nat \<Rightarrow> dma \<Rightarrow> bool" where
  "at_word d0 k d \<longleftrightarrow> k < words_of d0 \<and> cur_src d = r_src d0 - MMAP_RAM_BEGIN + 8 * of_nat k \<and>
     cur_dst d = r_dst d0 - MMAP_RAM_BEGIN + 8 * of_nat k \<and> unat (rem d) = 8 * (words_of d0 - k)"

definition dma_inv :: "(ram_word \<Rightarrow> u64) \<Rightarrow> dma_side \<Rightarrow> ram_log \<Rightarrow> dma_side \<Rightarrow> ram_log \<Rightarrow> bool" where
  "dma_inv init s0 l0 s l \<longleftrightarrow>
     (let d0 = engine s0; d = engine s; from = (\<lambda>k. ram_cell (r_src d0) + of_nat k)
      in ram_inv init (memory_side s) l \<and> length (taken_reqs l0) \<le> length (taken_reqs l) \<and>
         (case dma_state d of
            IDLE \<Rightarrow> s = s0 \<and> l = l0
          | READ_REQ \<Rightarrow> \<exists>k. at_word d0 k d \<and> copied init s0 l0 l k
          | READ_WAIT \<Rightarrow> \<exists>k qs q. at_word d0 k d \<and> copied init s0 l0 l k \<and> astate (ram_arb (memory_side s)) = A_WAIT \<and>
              taken_reqs l = qs @ [(DmaPort, q)] \<and> \<not> w_wen q \<and> addr_to_ramaddr (w_addr q) = from k
          | WRITE_REQ \<Rightarrow> \<exists>k. at_word d0 k d \<and> copied init s0 l0 l k \<and> rd_buf d = ram_after init (taken_reqs l) (from k)
          | DONE \<Rightarrow> copied init s0 l0 l (words_of d0)
          | ERR \<Rightarrow> False))"


lemma engine_step_frames [frame]:
  "cur_src (dma_mmio m d) = cur_src d" "cur_dst (dma_mmio m d) = cur_dst d" "rem (dma_mmio m d) = rem d"
  "rd_buf (dma_mmio m d) = rd_buf d" "dma_state (dma_mmio m d) = dma_state d"
  by (auto simp: dma_mmio_def dma_write_def Let_def split: option.splits)

lemma memory_side_step [simp]:
  "memory_side (dma_side_step cpu m s) = ram_step cpu (dma_ram_request (engine s)) (memory_side s)"
  "engine (dma_side_step cpu m s) =
     dma_step m (engine_ready cpu s) (ram_dma_rvalid (memory_side s)) (m_rdata (ram_mem (memory_side s))) (engine s)"
  by (simp_all add: dma_side_step_def)

lemma at_word_frame:
  "at_word d0 k d \<Longrightarrow> cur_src d' = cur_src d \<Longrightarrow> cur_dst d' = cur_dst d \<Longrightarrow> rem d' = rem d \<Longrightarrow> at_word d0 k d'"
  by (simp add: at_word_def)

text \<open>An edge at which the arbiter does not take the engine's request.\<close>

lemma copied_stall:
  assumes "ram_inv init (memory_side s) l" "copied init s0 l0 l k" "length (taken_reqs l0) \<le> length (taken_reqs l)"
    "keeps_off (ranges (engine s0)) cpu" "\<not> engine_ready cpu s"
  shows "copied init s0 l0 (dma_side_log cpu s l) k"
    "(\<And>a. a \<in> ranges (engine s0) \<Longrightarrow> ram_after init (taken_reqs (dma_side_log cpu s l)) a = ram_after init (taken_reqs l) a)"
proof -
  have t: "taken_reqs (dma_side_log cpu s l) = taken_reqs l \<or>
      (\<exists>q. cpu = Some q \<and> taken_reqs (dma_side_log cpu s l) = taken_reqs l @ [(CpuPort, q)])"
    using assms(5) log_waits(1) [of s] log_idle [OF assms(1)]
    by (cases "astate (ram_arb (memory_side s))") (auto split: option.splits)
  then show "copied init s0 l0 (dma_side_log cpu s l) k"
    using assms copied_core copied_same by blast
  fix a assume "a \<in> ranges (engine s0)"
  then show "ram_after init (taken_reqs (dma_side_log cpu s l)) a = ram_after init (taken_reqs l) a"
    using t assms(4) by (auto simp: keeps_off_def apply_req_def)
qed

lemma log_grows: "length (taken_reqs l) \<le> length (taken_reqs (dma_side_log cpu s l))"
  by (simp add: dma_side_log_def ram_log_step_def)

lemma ram_inv_side: "ram_inv init (memory_side s) l \<Longrightarrow>
  ram_inv init (ram_step cpu (dma_ram_request (engine s)) (memory_side s)) (dma_side_log cpu s l)"
  unfolding dma_side_log_def by (rule ram_inv_step)

lemma range_words:
  "k < words_of d \<Longrightarrow> ram_cell (r_src d) + of_nat k \<in> ranges d"
  by (auto simp: ranges_def)

lemma at_word_cells:
  assumes "at_word d0 k d"
  shows "addr_to_ramaddr (cur_src d) = ram_cell (r_src d0) + of_nat k" "addr_to_ramaddr (cur_dst d) = ram_cell (r_dst d0) + of_nat k"
  using assms by (simp_all add: at_word_def ram_cell_def ramaddr_add)


text \<open>One edge from each of the engine's states.\<close>

lemma dma_inv_idle:
  assumes inv: "dma_inv init s0 l0 s l" and off: "keeps_off (ranges (engine s0)) cpu" and st: "starting (engine s0)"
    and IDLE: "dma_state (engine s) = IDLE"
  shows "dma_inv init s0 l0 (dma_side_step cpu m s) (dma_side_log cpu s l)"
proof -
  let ?l = "dma_side_log cpu s l" and ?s = "dma_side_step cpu m s" and ?d0 = "engine s0"
  have ri: "ram_inv init (memory_side s) l" and len: "length (taken_reqs l0) \<le> length (taken_reqs l)"
    using inv by (simp_all add: dma_inv_def Let_def)
  note common = ram_inv_side [OF ri] order_trans [OF len log_grows]
  have s: "s = s0" "l = l0" using inv IDLE by (auto simp: dma_inv_def Let_def)
  have "copied init s0 l0 l 0" using s by (simp add: copied_def core_since_def Let_def)
  moreover have "\<not> engine_ready cpu s" using IDLE
    by (auto simp: engine_ready_def ram_port_defs dma_ram_request_def)
  ultimately have "copied init s0 l0 ?l 0" using copied_stall [OF ri _ len off] by simp
  moreover have "at_word ?d0 0 (engine ?s)" "dma_state (engine ?s) = READ_REQ"
    using st s IDLE aligned_words [of "r_len ?d0"] unat_gt_0 [of "r_len ?d0"]
    by (auto simp: at_word_def dma_step_def dma_start_def starting_def words_of_def Let_def)
  ultimately show ?thesis using common by (auto simp: dma_inv_def Let_def)
qed

lemma dma_inv_read_req:
  assumes inv: "dma_inv init s0 l0 s l" and off: "keeps_off (ranges (engine s0)) cpu"
    and READ_REQ: "dma_state (engine s) = READ_REQ"
  shows "dma_inv init s0 l0 (dma_side_step cpu m s) (dma_side_log cpu s l)"
proof -
  let ?l = "dma_side_log cpu s l" and ?s = "dma_side_step cpu m s" and ?d0 = "engine s0"
  have ri: "ram_inv init (memory_side s) l" and len: "length (taken_reqs l0) \<le> length (taken_reqs l)"
    using inv by (simp_all add: dma_inv_def Let_def)
  note common = ram_inv_side [OF ri] order_trans [OF len log_grows]
  obtain k where k: "at_word ?d0 k (engine s)" "copied init s0 l0 l k" using inv READ_REQ by (auto simp: dma_inv_def Let_def)
  have k': "at_word ?d0 k (engine ?s)"
    using k(1) by (rule at_word_frame) (simp_all add: dma_step_def READ_REQ frame Let_def)
  show ?thesis
  proof (cases "engine_ready cpu s")
    case True
    then have idle: "astate (ram_arb (memory_side s)) = A_IDLE" by (auto simp: engine_ready_def ram_port_defs)
    then have cpu: "cpu = None" using log_idle(2) [OF ri idle] True by simp
    let ?q = "\<lparr>w_addr = cur_src (engine s), w_wen = False, w_wdata = 0, w_wmask = 0\<rparr>"
    have q: "dma_ram_request (engine s) = Some ?q" using READ_REQ by (simp add: dma_ram_request_def)
    then have t: "taken_reqs ?l = taken_reqs l @ [(DmaPort, ?q)]" using log_idle(1) [OF ri idle] cpu by simp
    have a: "astate (ram_arb (memory_side ?s)) = A_WAIT" using idle q cpu True
      by (simp add: ram_step_def arbiter_step_def arb_out_def engine_ready_def ram_port_defs)
    have d: "dma_state (engine ?s) = READ_WAIT" using READ_REQ True by (simp add: dma_step_def Let_def)
    have c: "copied init s0 l0 ?l k" using copied_read [OF k(2) len _ t] by simp
    show ?thesis using common len k' a d t c at_word_cells [OF k(1)] by (auto simp: dma_inv_def Let_def)
  next
    case False
    then have "dma_state (engine ?s) = READ_REQ" using READ_REQ by (simp add: dma_step_def Let_def frame)
    then show ?thesis using common k' copied_stall(1) [OF ri k(2) len off False] by (auto simp: dma_inv_def Let_def)
  qed
qed

lemma dma_inv_read_wait:
  assumes inv: "dma_inv init s0 l0 s l" and off: "keeps_off (ranges (engine s0)) cpu"
    and READ_WAIT: "dma_state (engine s) = READ_WAIT"
  shows "dma_inv init s0 l0 (dma_side_step cpu m s) (dma_side_log cpu s l)"
proof -
  let ?l = "dma_side_log cpu s l" and ?s = "dma_side_step cpu m s" and ?d0 = "engine s0"
  have ri: "ram_inv init (memory_side s) l" and len: "length (taken_reqs l0) \<le> length (taken_reqs l)"
    using inv by (simp_all add: dma_inv_def Let_def)
  note common = ram_inv_side [OF ri] order_trans [OF len log_grows]
  obtain k qs q where k: "at_word ?d0 k (engine s)" "copied init s0 l0 l k"
    and w: "astate (ram_arb (memory_side s)) = A_WAIT" "taken_reqs l = qs @ [(DmaPort, q)]" "\<not> w_wen q"
      "addr_to_ramaddr (w_addr q) = ram_cell (r_src ?d0) + of_nat k"
    using inv READ_WAIT by (auto simp: dma_inv_def Let_def)
  have k': "at_word ?d0 k (engine ?s)"
    using k(1) by (rule at_word_frame) (simp_all add: dma_step_def READ_WAIT frame Let_def)
  have t: "taken_reqs ?l = taken_reqs l" using log_waits [OF w(1)] by simp
  have c: "copied init s0 l0 ?l k" using k(2) t by (rule copied_same)
  show ?thesis
  proof (cases "m_rvalid (ram_mem (memory_side s))")
    case True
    then have v: "m_rdata (ram_mem (memory_side s)) = ram_after init (taken_reqs l) (ram_cell (r_src ?d0) + of_nat k)"
      "ram_dma_rvalid (memory_side s)"
      using ri w by (auto simp: ram_inv_def Let_def ram_port_defs split: mem_state.splits)
    then have "dma_state (engine ?s) = WRITE_REQ" "rd_buf (engine ?s) = ram_after init (taken_reqs ?l) (ram_cell (r_src ?d0) + of_nat k)"
      using READ_WAIT t by (simp_all add: dma_step_def Let_def)
    then show ?thesis using common k' c by (auto simp: dma_inv_def Let_def)
  next
    case False
    then have "dma_state (engine ?s) = READ_WAIT" "astate (ram_arb (memory_side ?s)) = A_WAIT"
      using READ_WAIT w by (simp_all add: dma_step_def ram_dma_rvalid_def arb_dma_rvalid_def frame Let_def ram_step_def arbiter_step_def)
    then show ?thesis using common len k' c w t by (auto simp: dma_inv_def Let_def)
  qed
qed

lemma dma_inv_write_req:
  assumes inv: "dma_inv init s0 l0 s l" and off: "keeps_off (ranges (engine s0)) cpu"
    and WRITE_REQ: "dma_state (engine s) = WRITE_REQ"
  shows "dma_inv init s0 l0 (dma_side_step cpu m s) (dma_side_log cpu s l)"
proof -
  let ?l = "dma_side_log cpu s l" and ?s = "dma_side_step cpu m s" and ?d0 = "engine s0"
  have ri: "ram_inv init (memory_side s) l" and len: "length (taken_reqs l0) \<le> length (taken_reqs l)"
    using inv by (simp_all add: dma_inv_def Let_def)
  note common = ram_inv_side [OF ri] order_trans [OF len log_grows]
  obtain k where k: "at_word ?d0 k (engine s)" "copied init s0 l0 l k"
    and b: "rd_buf (engine s) = ram_after init (taken_reqs l) (ram_cell (r_src ?d0) + of_nat k)"
    using inv WRITE_REQ by (auto simp: dma_inv_def Let_def)
  show ?thesis
  proof (cases "engine_ready cpu s")
    case True
    then have idle: "astate (ram_arb (memory_side s)) = A_IDLE" by (auto simp: engine_ready_def ram_port_defs)
    then have cpu: "cpu = None" using log_idle(2) [OF ri idle] True by simp
    let ?q = "\<lparr>w_addr = cur_dst (engine s), w_wen = True, w_wdata = rd_buf (engine s), w_wmask = -1\<rparr>"
    have q: "dma_ram_request (engine s) = Some ?q" using WRITE_REQ by (simp add: dma_ram_request_def)
    then have t: "taken_reqs ?l = taken_reqs l @ [(DmaPort, ?q)]" using log_idle(1) [OF ri idle] cpu by simp
    have kn: "k < words_of ?d0" using k(1) by (simp add: at_word_def)
    have c: "copied init s0 l0 ?l (Suc k)"
      by (rule copied_write [OF k(2) len kn _ _ _ _ t]) (simp_all add: at_word_cells [OF k(1)] b)
    show ?thesis
    proof (cases "Suc k = words_of ?d0")
      case last: True
      then have "rem (engine s) = 8" using k(1) by (simp add: at_word_def word_unat_eq_iff)
      then have "dma_state (engine ?s) = DONE" using WRITE_REQ True by (simp add: dma_step_def Let_def)
      then show ?thesis using common c last by (auto simp: dma_inv_def Let_def)
    next
      case more: False
      then have "unat (rem (engine s)) = 8 * (words_of ?d0 - k)" "Suc k < words_of ?d0" using k(1) kn by (auto simp: at_word_def)
      then have "rem (engine s) \<noteq> 8" "unat (rem (engine s) - 8) = 8 * (words_of ?d0 - Suc k)"
        by (auto simp: unat_sub word_le_nat_alt)
      moreover from this have "dma_state (engine ?s) = READ_REQ" using WRITE_REQ True by (simp add: dma_step_def Let_def)
      moreover have "at_word ?d0 (Suc k) (engine ?s)"
        using k(1) WRITE_REQ True \<open>Suc k < words_of ?d0\<close> calculation(2) by (simp add: at_word_def dma_step_def Let_def)
      ultimately show ?thesis using common c by (auto simp: dma_inv_def Let_def)
    qed
  next
    case False
    then have "dma_state (engine ?s) = WRITE_REQ" "rd_buf (engine ?s) = rd_buf (engine s)" "at_word ?d0 k (engine ?s)"
      using WRITE_REQ k(1) by (auto simp: dma_step_def frame Let_def intro: at_word_frame)
    moreover have "k < words_of ?d0" using k(1) by (simp add: at_word_def)
    ultimately show ?thesis using common copied_stall [OF ri k(2) len off False] range_words [of k ?d0] b
      by (auto simp: dma_inv_def Let_def)
  qed
qed

lemma dma_inv_step:
  assumes "dma_inv init s0 l0 s l" "starting (engine s0)" "keeps_off (ranges (engine s0)) cpu" "dma_state (engine s) \<noteq> DONE"
  shows "dma_inv init s0 l0 (dma_side_step cpu m s) (dma_side_log cpu s l)"
proof -
  have "dma_state (engine s) \<noteq> ERR" using assms(1) by (auto simp: dma_inv_def Let_def)
  then show ?thesis
    using assms dma_inv_idle dma_inv_read_req dma_inv_read_wait dma_inv_write_req by (cases "dma_state (engine s)") (blast | simp)+
qed

lemma dma_run_inv:
  "dma_run s0 l0 s l \<Longrightarrow> ram_reach init (memory_side s0) l0 \<Longrightarrow> starting (engine s0) \<Longrightarrow> dma_inv init s0 l0 s l"
proof (induction rule: dma_run.induct)
  case start
  then show ?case using ram_reach_inv by (auto simp: dma_inv_def starting_def Let_def)
next
  case (edge s l cpu mmio)
  then show ?case by (intro dma_inv_step)
qed


section \<open>How long a transfer takes\<close>

text \<open>The edges left when the core offers the memory nothing: five for each word.\<close>

definition arbiter_wait :: "ram_side \<Rightarrow> nat" where
  "arbiter_wait s =
     (case astate (ram_arb s) of A_IDLE \<Rightarrow> 0 | A_WAIT \<Rightarrow> if m_state (ram_mem s) = WriteValid then 2 else 1)"

definition words_left :: "dma \<Rightarrow> nat" where
  "words_left d =
     (case dma_state d of IDLE \<Rightarrow> words_of d | DONE \<Rightarrow> 0 | ERR \<Rightarrow> 0 | _ \<Rightarrow> unat (rem d) div 8)"

definition edges_left :: "dma_side \<Rightarrow> nat" where
  "edges_left s =
     (let w = arbiter_wait (memory_side s); k = unat (rem (engine s)) div 8
      in case dma_state (engine s) of
           IDLE \<Rightarrow> 5 * words_of (engine s) + 1
         | READ_REQ \<Rightarrow> w + 5 * k - 2
         | READ_WAIT \<Rightarrow> 5 * k - 3
         | WRITE_REQ \<Rightarrow> w + 5 * k - 4
         | _ \<Rightarrow> 0)"

lemma arbiter_wait_step:
  assumes "ram_inv init s l" "astate (ram_arb s) = A_WAIT"
  shows "arbiter_wait s = Suc (arbiter_wait (ram_step cpu dma s))"
  using assms
  by (auto simp: ram_inv_def Let_def arbiter_wait_def ram_step_def arbiter_step_def memory_step_def split: mem_state.splits)

lemma arbiter_wait_take:
  assumes "ram_inv init s l" "astate (ram_arb s) = A_IDLE"
  shows "arbiter_wait (ram_step None (Some q) s) = (if w_wen q then 2 else 1)"
  using assms
  by (auto simp: ram_inv_def Let_def arbiter_wait_def ram_step_def arbiter_step_def arb_out_def memory_step_def memory_ready_def
      ram_req_def driven_def)

lemma arbiter_wait_bound: "arbiter_wait s \<le> 2"
  by (simp add: arbiter_wait_def split: arb_state.split)


lemma edges_left_step:
  assumes inv: "dma_inv init s0 l0 s l" and st: "starting (engine s0)" and nd: "dma_state (engine s) \<noteq> DONE"
  shows "edges_left (dma_side_step None m s) < edges_left s"
proof -
  let ?s = "dma_side_step None m s" and ?m = "memory_side s"
  have ri: "ram_inv init ?m l" using inv by (simp add: dma_inv_def Let_def)
  note simps = edges_left_def dma_step_def frame Let_def
  have ready: "engine_ready None s \<longleftrightarrow> astate (ram_arb ?m) = A_IDLE \<and> dma_ram_request (engine s) \<noteq> None"
    using log_idle(2) [OF ri, of None] log_waits(2) [of s None] by (cases "astate (ram_arb ?m)") auto
  show ?thesis
  proof (cases "dma_state (engine s)")
    case IDLE
    then have s: "s = s0" using inv by (simp add: dma_inv_def Let_def)
    have "unat (r_len (engine s)) \<noteq> 0" using st s by (auto simp: starting_def unat_eq_0)
    then show ?thesis using st s IDLE arbiter_wait_bound [of "ram_step None (dma_ram_request (engine s0)) (memory_side s0)"]
      by (auto simp: simps starting_def words_of_def dma_start_def)
  next
    case READ_REQ
    then have k: "0 < unat (rem (engine s)) div 8" using inv by (auto simp: dma_inv_def at_word_def Let_def)
    obtain q where q: "dma_ram_request (engine s) = Some q" "\<not> w_wen q" using READ_REQ by (simp add: dma_ram_request_def)
    show ?thesis using READ_REQ k q ready arbiter_wait_step [OF ri, of None "Some q"]
      by (cases "astate (ram_arb ?m)") (auto simp: simps arbiter_wait_def)
  next
    case READ_WAIT
    then obtain k qs q where k: "at_word (engine s0) k (engine s)"
      and w: "astate (ram_arb ?m) = A_WAIT" "taken_reqs l = qs @ [(DmaPort, q)]" "\<not> w_wen q"
      using inv by (auto simp: dma_inv_def Let_def)
    then have "m_rvalid (ram_mem ?m)" "ram_dma_rvalid ?m" "arbiter_wait ?m = 1"
      using ri by (auto simp: ram_inv_def Let_def ram_port_defs arbiter_wait_def split: mem_state.splits)
    moreover have "0 < unat (rem (engine s)) div 8" using k by (simp add: at_word_def)
    moreover have "arbiter_wait (ram_step None (dma_ram_request (engine s)) ?m) = 0"
      using arbiter_wait_step [OF ri w(1), of None] \<open>arbiter_wait ?m = 1\<close> by simp
    ultimately show ?thesis using READ_WAIT by (simp add: simps)
  next
    case WRITE_REQ
    then obtain k where k: "at_word (engine s0) k (engine s)" using inv by (auto simp: dma_inv_def Let_def)
    then have r: "unat (rem (engine s)) = 8 * (words_of (engine s0) - k)" "k < words_of (engine s0)" by (simp_all add: at_word_def)
    obtain q where q: "dma_ram_request (engine s) = Some q" "w_wen q" using WRITE_REQ by (simp add: dma_ram_request_def)
    show ?thesis
    proof (cases "astate (ram_arb ?m)")
      case A_IDLE
      then have "arbiter_wait (ram_step None (Some q) ?m) = 2" "engine_ready None s" "arbiter_wait ?m = 0"
        using q ready arbiter_wait_take [OF ri A_IDLE] by (simp_all add: arbiter_wait_def)
      moreover have "rem (engine s) \<noteq> 8 \<Longrightarrow> unat (rem (engine s) - 8) div 8 = words_of (engine s0) - Suc k"
        using r by (simp add: unat_sub word_le_nat_alt)
      moreover have "rem (engine s) \<noteq> 8 \<Longrightarrow> Suc k < words_of (engine s0)"
        using r by (auto simp: word_unat_eq_iff)
      ultimately show ?thesis using WRITE_REQ r q by (auto simp: simps)
    next
      case A_WAIT
      then show ?thesis using WRITE_REQ r q ready arbiter_wait_step [OF ri A_WAIT, of None "Some q"]
        by (simp add: simps)
    qed
  qed (use inv nd in \<open>auto simp: dma_inv_def Let_def\<close>)
qed

lemma keeps_off_none [simp]: "keeps_off T None"
  by (simp add: keeps_off_def)

lemma transfer_ends:
  assumes "ram_reach init (memory_side s0) l0" "starting (engine s0)"
  shows "dma_run s0 l0 s l \<Longrightarrow> edges_left s \<le> length ms \<Longrightarrow>
    \<exists>n \<le> edges_left s. \<exists>l'. dma_run s0 l0 (fold (dma_side_step None) (take n ms) s) l' \<and>
      dma_state (engine (fold (dma_side_step None) (take n ms) s)) = DONE"
proof (induction ms arbitrary: s l)
  case Nil
  then have "dma_state (engine s) = DONE"
    using edges_left_step [OF dma_run_inv [OF Nil.prems(1) assms] assms(2)] by fastforce
  then show ?case using Nil.prems by auto
next
  case (Cons m ms)
  show ?case
  proof (cases "dma_state (engine s) = DONE")
    case True
    then show ?thesis using Cons.prems by (intro exI [of _ 0]) auto
  next
    case False
    let ?s = "dma_side_step None m s"
    have less: "edges_left ?s < edges_left s"
      using edges_left_step [OF dma_run_inv [OF Cons.prems(1) assms] assms(2) False] .
    have "dma_run s0 l0 ?s (dma_side_log None s l)" using Cons.prems(1) False by (rule dma_run.edge) simp
    moreover have "edges_left ?s \<le> length ms" using Cons.prems(2) less by simp
    ultimately obtain n l' where "n \<le> edges_left ?s" "dma_run s0 l0 (fold (dma_side_step None) (take n ms) ?s) l'"
      "dma_state (engine (fold (dma_side_step None) (take n ms) ?s)) = DONE"
      using Cons.IH [of ?s] by blast
    then show ?thesis using less by (intro exI [of _ "Suc n"]) auto
  qed
qed


section \<open>Properties\<close>

text \<open>
  C17. When a transfer started on valid registers reaches its end, the words of its two ranges are those
  of the forward copy, word after word, of the memory at the start, overlapping ranges included, and
  every other word is what the core's own accesses since have made of it: however the core's reads and
  its writes outside the ranges interleave with the transfer, and whatever it writes to the engine's
  registers. The next edge reports success.
\<close>
theorem dma_copies:
  assumes "ram_reach init (memory_side s0) l0" and "starting (engine s0)"
    and "dma_run s0 l0 s l" and "dma_state (engine s) = DONE"
  shows "(\<forall>a. ram_after init (taken_reqs l) a =
      (if a \<in> ranges (engine s0)
       then copy_words (ram_cell (r_src (engine s0))) (ram_cell (r_dst (engine s0))) (words_of (engine s0))
              (ram_after init (taken_reqs l0)) a
       else ram_after (ram_after init (taken_reqs l0)) (core_since l0 l) a)) \<and>
    st_done (engine (dma_side_step cpu m s)) \<and> \<not> st_busy (engine (dma_side_step cpu m s))"
proof -
  have "copied init s0 l0 l (words_of (engine s0))"
    using dma_run_inv [OF assms(3,1,2)] assms(4) by (simp add: dma_inv_def Let_def)
  moreover have "st_done (engine (dma_side_step cpu m s)) \<and> \<not> st_busy (engine (dma_side_step cpu m s))"
    using assms(4) by (simp add: dma_step_def Let_def)
  ultimately show ?thesis by (simp add: copied_def Let_def)
qed

text \<open>
  C18. The core has priority at the arbiter, but from the moment it offers the memory nothing a transfer
  started on valid registers comes to its end, within five edges for each word it still has to copy
  and one more, wherever it was and whatever is written to the engine's registers meanwhile.
\<close>
theorem dma_finishes:
  assumes "ram_reach init (memory_side s0) l0" and "starting (engine s0)"
    and "dma_run s0 l0 s l" and "5 * words_left (engine s) + 1 \<le> length ms"
  shows "\<exists>n \<le> 5 * words_left (engine s) + 1. \<exists>l'. dma_run s0 l0 (fold (dma_side_step None) (take n ms) s) l' \<and>
    dma_state (engine (fold (dma_side_step None) (take n ms) s)) = DONE"
proof -
  have "edges_left s \<le> 5 * words_left (engine s) + 1"
    using arbiter_wait_bound [of "memory_side s"]
    by (auto simp: edges_left_def words_left_def Let_def split: dma_state.split)
  then show ?thesis using transfer_ends [OF assms(1,2,3), of ms] assms(4) by (meson order_trans)
qed

text \<open>A two-word transfer onto itself shifted by a word, programmed through the registers.\<close>

definition reg_write :: "u64 \<Rightarrow> u64 \<Rightarrow> mem_req option" where
  "reg_write a v = Some \<lparr>w_addr = a, w_wen = True, w_wdata = v, w_wmask = -1\<rparr>"

definition demo_init :: "ram_word \<Rightarrow> u64" where
  "demo_init a = (if a = 0 then 7 else 9)"

definition demo_program :: "mem_req option list" where
  "demo_program = [reg_write MMAP_DMA_SRC 0x80000000, reg_write MMAP_DMA_DST 0x80000008, reg_write MMAP_DMA_LEN 16,
     reg_write MMAP_DMA_CTRL 1]"

fun dma_side_run :: "mem_req option list \<Rightarrow> dma_side \<times> ram_log \<Rightarrow> dma_side \<times> ram_log" where
  "dma_side_run [] sl = sl"
| "dma_side_run (m # ms) (s, l) = dma_side_run ms (dma_side_step None m s, dma_side_log None s l)"

lemma ram_reach_side:
  "ram_reach init (memory_side s) l \<Longrightarrow>
   ram_reach init (memory_side (fst (dma_side_run ms (s, l)))) (snd (dma_side_run ms (s, l)))"
proof (induction ms arbitrary: s l)
  case (Cons m ms)
  then show ?case using ram_reach.edge [OF Cons.prems, of None] by (simp add: dma_side_log_def)
qed simp

definition demo_programmed :: "dma_side \<times> ram_log" where
  "demo_programmed = dma_side_run demo_program
     (\<lparr>memory_side = ram_reset demo_init, engine = dma_reset\<rparr>, \<lparr>taken_reqs = [], answers = []\<rparr>)"

lemma demo_programmed_facts:
  "ram_reach demo_init (memory_side (fst demo_programmed)) (snd demo_programmed)"
  "starting (engine (fst demo_programmed))" "taken_reqs (snd demo_programmed) = []"
  "ranges (engine (fst demo_programmed)) = {0, 1, 2}" "words_of (engine (fst demo_programmed)) = 2"
  "ram_cell (r_src (engine (fst demo_programmed))) = 0" "ram_cell (r_dst (engine (fst demo_programmed))) = 1"
proof -
  show "ram_reach demo_init (memory_side (fst demo_programmed)) (snd demo_programmed)"
    unfolding demo_programmed_def by (rule ram_reach_side) (simp add: ram_reach.start)
  show "starting (engine (fst demo_programmed))" "taken_reqs (snd demo_programmed) = []" by code_simp+
  show w: "words_of (engine (fst demo_programmed)) = 2" and
    c: "ram_cell (r_src (engine (fst demo_programmed))) = 0" "ram_cell (r_dst (engine (fst demo_programmed))) = 1" by code_simp+
  show "ranges (engine (fst demo_programmed)) = {0, 1, 2}"
    by (auto simp: ranges_def w c lessThan_Suc numeral_2_eq_2)
qed

lemma demo_dma_ends:
  "\<exists>n \<le> 11. \<exists>l'. dma_run (fst demo_programmed) (snd demo_programmed)
     (fold (dma_side_step None) (take n (replicate 11 None)) (fst demo_programmed)) l' \<and>
     dma_state (engine (fold (dma_side_step None) (take n (replicate 11 None)) (fst demo_programmed))) = DONE"
proof -
  have "edges_left (fst demo_programmed) = 11" by code_simp
  then show ?thesis
    using transfer_ends [OF demo_programmed_facts(1,2) dma_run.start, of "replicate 11 None"] by simp
qed

theorem dma_copies_witness:
  "\<exists>s l. dma_run (fst demo_programmed) (snd demo_programmed) s l \<and> ram_after demo_init (taken_reqs l) 2 = 7"
proof -
  obtain s l where r: "dma_run (fst demo_programmed) (snd demo_programmed) s l" "dma_state (engine s) = DONE"
    using demo_dma_ends by blast
  have "copy_words 0 1 2 demo_init 2 = 7" by code_simp
  then have "ram_after demo_init (taken_reqs l) 2 = 7"
    using dma_copies [OF demo_programmed_facts(1,2) r, of None None, THEN conjunct1, rule_format, of 2] by (simp add: demo_programmed_facts(3-7))
  then show ?thesis using r by blast
qed

theorem dma_finishes_witness:
  "\<exists>n \<le> 11. dma_state (engine (fold (dma_side_step None) (take n (replicate 11 None)) (fst demo_programmed))) = DONE"
proof -
  have "words_left (engine (fst demo_programmed)) = 2" by code_simp
  then show ?thesis
    using dma_finishes [OF demo_programmed_facts(1,2) dma_run.start, of "replicate 11 None"] by auto
qed

end
