(* ===== verification/Icache.thy ===== *)
theory Icache
  imports LoadStore Platform
begin

text \<open>
  The instruction cache, \<open>src/rtl/cache/icache.sv\<close>, with its 128 lines of 32 bytes: lookups, line fills
  critical word first, hits on the line being filled, cancelled requests and invalidation. Its answers
  are shown to be words memory has held since the last invalidation.
\<close>

section \<open>State and ports\<close>

datatype ic_state = IcIdle | FillReq | FillWait | IcResponse | InvalidateWait

text \<open>The counters for the performance summary are left out.\<close>

record icache =
  ic_state :: ic_state
  ic_valid :: "7 word \<Rightarrow> bool"
  ic_tags :: "7 word \<Rightarrow> 52 word"
  ic_data :: "7 word \<Rightarrow> 2 word \<Rightarrow> u64"
  ic_fill_line_addr :: u64
  ic_fill_active :: bool
  ic_fill_cacheable :: bool
  ic_fill_uncached :: bool
  ic_fill_allocate :: bool
  ic_fill_cpu_waiting :: bool
  ic_fill_index :: "7 word"
  ic_fill_tag :: "52 word"
  ic_fill_next_word :: "2 word"
  ic_fill_response_word :: "2 word"
  ic_fill_count :: "3 word"
  ic_fill_word_valid :: "2 word \<Rightarrow> bool"
  ic_fill_data :: "2 word \<Rightarrow> u64"
  ic_rsp_valid :: bool
  ic_rsp_data :: u64

record ic_in =
  ic_cancel :: bool
  ic_invalidate :: bool
  ic_req :: "u64 option"
  ic_rsp_ready :: bool
  ic_mem_ready :: bool
  ic_mem_rvalid :: bool
  ic_mem_rdata :: u64

text \<open>A reset leaves the arrays as they are.\<close>

definition ic_reset :: "icache \<Rightarrow> icache" where
  "ic_reset s = s\<lparr>ic_state := IcIdle, ic_rsp_valid := False, ic_rsp_data := 0, ic_fill_line_addr := 0,
     ic_fill_active := False, ic_fill_cacheable := False, ic_fill_uncached := False, ic_fill_allocate := False,
     ic_fill_cpu_waiting := False, ic_fill_index := 0, ic_fill_tag := 0, ic_fill_next_word := 0,
     ic_fill_response_word := 0, ic_fill_count := 0, ic_fill_word_valid := (\<lambda>w. False), ic_valid := (\<lambda>k. False)\<rparr>"


section \<open>Addresses\<close>

definition line_addr :: "u64 \<Rightarrow> u64" where "line_addr a = push_bit 5 (drop_bit 5 a)"
definition beat_addr :: "u64 \<Rightarrow> u64" where "beat_addr a = push_bit 3 (drop_bit 3 a)"
definition line_index :: "u64 \<Rightarrow> 7 word" where "line_index a = ucast (drop_bit 5 a)"
definition line_tag :: "u64 \<Rightarrow> 52 word" where "line_tag a = ucast (drop_bit 12 a)"
definition word_offset :: "u64 \<Rightarrow> 2 word" where "word_offset a = ucast (drop_bit 3 a)"

definition MMAP_ROM_END :: u64 where "MMAP_ROM_END = MMAP_ROM_BEGIN + 0x3ff"

definition ic_cacheable :: "u64 \<Rightarrow> bool" where
  "ic_cacheable a \<longleftrightarrow> MMAP_RAM_BEGIN \<le> a \<and> a < MMAP_RAM_END \<or> MMAP_ROM_BEGIN \<le> a \<and> a \<le> MMAP_ROM_END"


section \<open>Combinational signals\<close>

definition ic_hit :: "icache \<Rightarrow> u64 \<Rightarrow> bool" where
  "ic_hit s a \<longleftrightarrow> ic_cacheable a \<and> ic_valid s (line_index a) \<and> ic_tags s (line_index a) = line_tag a"

definition fill_line_match :: "icache \<Rightarrow> u64 \<Rightarrow> bool" where
  "fill_line_match s a \<longleftrightarrow> ic_fill_active s \<and> ic_fill_allocate s \<and> ic_cacheable a \<and> ic_fill_cacheable s \<and>
     line_addr a = ic_fill_line_addr s"

definition fill_hit :: "icache \<Rightarrow> u64 \<Rightarrow> bool" where
  "fill_hit s a \<longleftrightarrow> fill_line_match s a \<and> ic_fill_word_valid s (word_offset a)"

definition fill_response_now :: "ic_in \<Rightarrow> icache \<Rightarrow> bool" where
  "fill_response_now i s \<longleftrightarrow> ic_fill_cpu_waiting s \<and> \<not> ic_fill_uncached s \<and>
     ic_fill_next_word s = ic_fill_response_word s \<and> \<not> ic_cancel i"

definition mem_will_respond_cpu :: "ic_in \<Rightarrow> icache \<Rightarrow> bool" where
  "mem_will_respond_cpu i s \<longleftrightarrow> ic_state s = FillWait \<and> ic_mem_rvalid i \<and>
     (ic_fill_uncached s \<and> ic_fill_cpu_waiting s \<and> \<not> ic_cancel i \<or> fill_response_now i s)"

definition rsp_remains :: "ic_in \<Rightarrow> icache \<Rightarrow> bool" where
  "rsp_remains i s \<longleftrightarrow> ic_rsp_valid s \<and> \<not> ic_rsp_ready i \<or> fill_response_now i s"

definition ic_req_ready :: "ic_in \<Rightarrow> icache \<Rightarrow> u64 \<Rightarrow> bool" where
  "ic_req_ready i s a \<longleftrightarrow> \<not> ic_cancel i \<and> \<not> ic_invalidate i \<and>
     (ic_state s = IcIdle \<or> ic_state s = IcResponse \<and> ic_rsp_ready i \<or>
      (ic_state s = FillReq \<or> ic_state s = FillWait) \<and> fill_hit s a \<and> \<not> ic_rsp_valid s \<and> \<not> mem_will_respond_cpu i s)"

definition ic_accept :: "ic_in \<Rightarrow> icache \<Rightarrow> u64 option" where
  "ic_accept i s = (case ic_req i of Some a \<Rightarrow> if ic_req_ready i s a then Some a else None | None \<Rightarrow> None)"

definition ic_mem_valid :: "icache \<Rightarrow> bool" where
  "ic_mem_valid s \<longleftrightarrow> ic_state s = FillReq"

definition ic_mem_addr :: "icache \<Rightarrow> u64" where
  "ic_mem_addr s =
     (if ic_fill_uncached s then push_bit 3 (drop_bit 3 (ic_fill_line_addr s))
      else ic_fill_line_addr s + push_bit 3 (ucast (ic_fill_next_word s)))"


section \<open>The clock edge\<close>

text \<open>In each piece \<open>s\<close> is the state before the edge and \<open>t\<close> what has been assigned so far.\<close>

definition ic_head :: "ic_in \<Rightarrow> icache \<Rightarrow> icache" where
  "ic_head i s =
     (let t = (if ic_rsp_valid s \<and> ic_rsp_ready i then s\<lparr>ic_rsp_valid := False\<rparr> else s)
      in if ic_cancel i then t\<lparr>ic_rsp_valid := False, ic_fill_cpu_waiting := False\<rparr> else t)"

definition ic_invalidated :: "ic_in \<Rightarrow> icache \<Rightarrow> icache \<Rightarrow> icache" where
  "ic_invalidated i s t =
     (let u = t\<lparr>ic_valid := (\<lambda>k. False), ic_rsp_valid := False, ic_fill_allocate := False,
                ic_fill_cpu_waiting := False, ic_fill_word_valid := (\<lambda>w. False)\<rparr>
      in case ic_state s of
           FillReq \<Rightarrow> if ic_mem_ready i then u\<lparr>ic_state := InvalidateWait\<rparr> else u\<lparr>ic_fill_active := False, ic_state := IcIdle\<rparr>
         | FillWait \<Rightarrow> if ic_mem_rvalid i then u\<lparr>ic_fill_active := False, ic_state := IcIdle\<rparr> else u\<lparr>ic_state := InvalidateWait\<rparr>
         | _ \<Rightarrow> u\<lparr>ic_fill_active := False, ic_state := IcIdle\<rparr>)"

definition ic_lookup :: "u64 \<Rightarrow> icache \<Rightarrow> icache \<Rightarrow> icache" where
  "ic_lookup a s t =
     (if ic_hit s a
      then t\<lparr>ic_rsp_data := ic_data s (line_index a) (word_offset a), ic_rsp_valid := True, ic_state := IcResponse\<rparr>
      else t\<lparr>ic_fill_line_addr := (if ic_cacheable a then line_addr a else beat_addr a), ic_fill_active := True,
             ic_fill_cacheable := ic_cacheable a, ic_fill_uncached := \<not> ic_cacheable a, ic_fill_allocate := ic_cacheable a,
             ic_fill_cpu_waiting := True, ic_fill_index := line_index a, ic_fill_tag := line_tag a,
             ic_fill_next_word := (if ic_cacheable a then word_offset a else 0), ic_fill_response_word := word_offset a,
             ic_fill_count := 0, ic_fill_word_valid := (\<lambda>w. False), ic_state := FillReq\<rparr>)"

definition ic_fill_answer :: "ic_in \<Rightarrow> icache \<Rightarrow> icache \<Rightarrow> icache" where
  "ic_fill_answer i s t =
     (case ic_accept i s of
        Some a \<Rightarrow> if fill_hit s a then t\<lparr>ic_rsp_data := ic_fill_data s (word_offset a), ic_rsp_valid := True\<rparr> else t
      | None \<Rightarrow> t)"

definition ic_uncached_word :: "ic_in \<Rightarrow> icache \<Rightarrow> icache \<Rightarrow> icache" where
  "ic_uncached_word i s t =
     (let asking = ic_fill_cpu_waiting s \<and> \<not> ic_cancel i;
          u = (if asking then t\<lparr>ic_rsp_data := ic_mem_rdata i, ic_rsp_valid := True\<rparr> else t)
      in u\<lparr>ic_fill_cpu_waiting := False, ic_fill_active := False, ic_state := (if asking then IcResponse else IcIdle)\<rparr>)"

definition ic_cached_word :: "ic_in \<Rightarrow> icache \<Rightarrow> icache \<Rightarrow> icache" where
  "ic_cached_word i s t =
     (let w = ic_fill_next_word s;
          line = (ic_fill_data s)(w := ic_mem_rdata i);
          u = t\<lparr>ic_fill_data := line, ic_fill_word_valid := (ic_fill_word_valid s)(w := True)\<rparr>;
          v = (if fill_response_now i s
               then u\<lparr>ic_rsp_data := ic_mem_rdata i, ic_rsp_valid := True, ic_fill_cpu_waiting := False\<rparr> else u)
      in if ic_fill_count s = 3
         then (if ic_fill_allocate s
               then v\<lparr>ic_valid := (ic_valid s)(ic_fill_index s := True), ic_tags := (ic_tags s)(ic_fill_index s := ic_fill_tag s),
                      ic_data := (ic_data s)(ic_fill_index s := line)\<rparr>
               else v)\<lparr>ic_fill_active := False, ic_state := (if rsp_remains i s then IcResponse else IcIdle)\<rparr>
         else v\<lparr>ic_fill_next_word := w + 1, ic_fill_count := ic_fill_count s + 1, ic_state := FillReq\<rparr>)"

definition ic_step :: "ic_in \<Rightarrow> icache \<Rightarrow> icache" where
  "ic_step i s =
     (let t = ic_head i s
      in if ic_invalidate i then ic_invalidated i s t
         else case ic_state s of
           IcIdle \<Rightarrow> (case ic_accept i s of Some a \<Rightarrow> ic_lookup a s t | None \<Rightarrow> t)
         | FillReq \<Rightarrow>
             let u = ic_fill_answer i s t in if ic_mem_ready i then u\<lparr>ic_state := FillWait\<rparr> else u
         | FillWait \<Rightarrow>
             let u = ic_fill_answer i s t
             in if ic_mem_rvalid i then (if ic_fill_uncached s then ic_uncached_word i s u else ic_cached_word i s u) else u
         | InvalidateWait \<Rightarrow>
             if ic_mem_rvalid i
             then t\<lparr>ic_fill_active := False, ic_fill_cpu_waiting := False, ic_fill_word_valid := (\<lambda>w. False), ic_state := IcIdle\<rparr>
             else t
         | IcResponse \<Rightarrow>
             (case ic_accept i s of
                Some a \<Rightarrow> ic_lookup a s t
              | None \<Rightarrow> if \<not> ic_rsp_valid s \<or> ic_rsp_ready i then t\<lparr>ic_state := IcIdle\<rparr> else t))"



section \<open>Runs\<close>

text \<open>
  Memory as the cache's environment: \<open>m\<close> is its contents in a cycle. It takes a read only when none is
  under way (\<open>asked\<close>) and answers with a word it has held since (\<open>window\<close>); the fetch stage offers a
  request only when none is unanswered (\<open>owed\<close>) or with the answer of the last. \<open>seen\<close> collects, for
  every word, what memory has held since the last invalidation.
\<close>

record ic_env =
  asked :: "u64 option"
  window :: "u64 set"
  owed :: "u64 option"
  seen :: "u64 \<Rightarrow> u64 set"

definition ic_env_ok :: "ic_in \<Rightarrow> icache \<Rightarrow> ic_env \<Rightarrow> bool" where
  "ic_env_ok i s g \<longleftrightarrow>
     (ic_mem_rvalid i \<longrightarrow> asked g \<noteq> None \<and> ic_mem_rdata i \<in> window g) \<and>
     (ic_mem_ready i \<longrightarrow> asked g = None) \<and>
     (ic_req i \<noteq> None \<longrightarrow> owed g = None \<or> ic_rsp_valid s \<and> ic_rsp_ready i)"

definition ic_env_step :: "ic_in \<Rightarrow> (u64 \<Rightarrow> u64) \<Rightarrow> icache \<Rightarrow> ic_env \<Rightarrow> ic_env" where
  "ic_env_step i m s g =
     (let asks = ic_mem_valid s \<and> ic_mem_ready i
      in \<lparr>asked = (if asks then Some (ic_mem_addr s) else if ic_mem_rvalid i then None else asked g),
          window = (if asks then {m (ic_mem_addr s)}
                    else case asked g of Some a \<Rightarrow> insert (m a) (window g) | None \<Rightarrow> window g),
          owed = (case ic_accept i s of
                    Some a \<Rightarrow> Some a
                  | None \<Rightarrow> if ic_cancel i \<or> ic_invalidate i \<or> ic_rsp_valid s \<and> ic_rsp_ready i then None else owed g),
          seen = (if ic_invalidate i then (\<lambda>a. {}) else (\<lambda>a. insert (m a) (seen g a)))\<rparr>)"

inductive ic_reach :: "icache \<Rightarrow> ic_env \<Rightarrow> bool" where
  start: "ic_reach (ic_reset s) \<lparr>asked = None, window = {}, owed = None, seen = (\<lambda>a. {})\<rparr>"
| edge: "ic_reach s g \<Longrightarrow> ic_env_ok i s g \<Longrightarrow> ic_reach (ic_step i s) (ic_env_step i m s g)"


section \<open>The invariant\<close>

definition word_of_line :: "u64 \<Rightarrow> 2 word \<Rightarrow> u64" where
  "word_of_line l w = l + push_bit 3 (ucast w)"

definition line_of :: "52 word \<Rightarrow> 7 word \<Rightarrow> u64" where
  "line_of t k = push_bit 12 (ucast t) OR push_bit 5 (ucast k)"

lemma word_of_line_or: "word_of_line (push_bit 5 l) w = push_bit 5 l OR push_bit 3 (ucast w)"
  unfolding word_of_line_def
  by (rule disjunctive_add) (auto simp: bit_simps dest: bit_imp_le_length)

lemma line_parts: "line_of (line_tag a) (line_index a) = line_addr a"
  by (rule bit_word_eqI) (auto simp: line_of_def line_tag_def line_index_def line_addr_def bit_simps)

lemma beat_parts: "word_of_line (line_addr a) (word_offset a) = beat_addr a"
  unfolding line_addr_def word_of_line_or
proof (rule bit_word_eqI)
  fix n assume "n < LENGTH(64)"
  then show "bit (push_bit 5 (drop_bit 5 a) OR push_bit 3 (ucast (word_offset a))) n = bit (beat_addr a) n"
    by (cases "5 \<le> n") (auto simp: beat_addr_def word_offset_def bit_simps)
qed

definition ic_lines_ok :: "icache \<Rightarrow> ic_env \<Rightarrow> bool" where
  "ic_lines_ok s g \<longleftrightarrow> (\<forall>k w. ic_valid s k \<longrightarrow> ic_data s k w \<in> seen g (word_of_line (line_of (ic_tags s k) k) w))"

definition ic_answer_ok :: "icache \<Rightarrow> ic_env \<Rightarrow> bool" where
  "ic_answer_ok s g \<longleftrightarrow> (ic_rsp_valid s \<longrightarrow> (\<exists>a. owed g = Some a \<and> ic_rsp_data s \<in> seen g (beat_addr a)))"

definition ic_fill_ok :: "icache \<Rightarrow> ic_env \<Rightarrow> bool" where
  "ic_fill_ok s g \<longleftrightarrow>
     (if ic_fill_uncached s
      then (ic_fill_cpu_waiting s \<longrightarrow> \<not> ic_rsp_valid s \<and> (\<exists>a. owed g = Some a \<and> beat_addr a = ic_fill_line_addr s)) \<and>
        \<not> ic_fill_allocate s
      else ic_fill_line_addr s = line_of (ic_fill_tag s) (ic_fill_index s) \<and>
        unat (ic_fill_count s) \<le> 3 \<and> ic_fill_next_word s = ic_fill_response_word s + of_nat (unat (ic_fill_count s)) \<and>
        (\<forall>w. ic_fill_word_valid s w \<longleftrightarrow> unat (w - ic_fill_response_word s) < unat (ic_fill_count s)) \<and>
        (\<forall>w. ic_fill_word_valid s w \<longrightarrow> ic_fill_data s w \<in> seen g (word_of_line (ic_fill_line_addr s) w)) \<and>
        (ic_fill_cpu_waiting s \<longrightarrow> ic_fill_count s = 0 \<and> \<not> ic_rsp_valid s \<and>
           (\<exists>a. owed g = Some a \<and> word_offset a = ic_fill_response_word s \<and> line_addr a = ic_fill_line_addr s)))"

definition ic_inv :: "icache \<Rightarrow> ic_env \<Rightarrow> bool" where
  "ic_inv s g \<longleftrightarrow> ic_lines_ok s g \<and> ic_answer_ok s g \<and>
     (ic_state s = FillReq \<or> ic_state s = FillWait \<longrightarrow> ic_fill_ok s g) \<and>
     (ic_state s = FillWait \<longrightarrow> asked g = Some (ic_mem_addr s) \<and> window g \<subseteq> seen g (ic_mem_addr s))"


lemma head_simps [simp]:
  "ic_rsp_valid (ic_head i s) \<longleftrightarrow> ic_rsp_valid s \<and> \<not> ic_rsp_ready i \<and> \<not> ic_cancel i"
  "ic_fill_cpu_waiting (ic_head i s) \<longleftrightarrow> ic_fill_cpu_waiting s \<and> \<not> ic_cancel i"
  by (auto simp: ic_head_def Let_def)

lemma head_frame [simp]:
  "ic_state (ic_head i s) = ic_state s" "ic_valid (ic_head i s) = ic_valid s" "ic_tags (ic_head i s) = ic_tags s"
  "ic_data (ic_head i s) = ic_data s" "ic_fill_line_addr (ic_head i s) = ic_fill_line_addr s"
  "ic_fill_active (ic_head i s) = ic_fill_active s" "ic_fill_cacheable (ic_head i s) = ic_fill_cacheable s"
  "ic_fill_uncached (ic_head i s) = ic_fill_uncached s" "ic_fill_allocate (ic_head i s) = ic_fill_allocate s"
  "ic_fill_index (ic_head i s) = ic_fill_index s" "ic_fill_tag (ic_head i s) = ic_fill_tag s"
  "ic_fill_next_word (ic_head i s) = ic_fill_next_word s" "ic_fill_response_word (ic_head i s) = ic_fill_response_word s"
  "ic_fill_count (ic_head i s) = ic_fill_count s" "ic_fill_word_valid (ic_head i s) = ic_fill_word_valid s"
  "ic_fill_data (ic_head i s) = ic_fill_data s" "ic_rsp_data (ic_head i s) = ic_rsp_data s"
  by (auto simp: ic_head_def Let_def)

lemma accept_free:
  assumes "ic_accept i s = Some a" "ic_env_ok i s g" "ic_answer_ok s g"
  shows "ic_req i = Some a" "\<not> ic_cancel i" "\<not> ic_invalidate i" "\<not> (ic_rsp_valid s \<and> \<not> ic_rsp_ready i)"
  using assms
  by (auto simp: ic_accept_def ic_req_ready_def ic_env_ok_def ic_answer_ok_def split: option.splits if_splits)

lemma seen_grows: "\<not> ic_invalidate i \<Longrightarrow> seen g a \<subseteq> seen (ic_env_step i m s g) a"
  by (auto simp: ic_env_step_def Let_def)

lemma seen_now: "\<not> ic_invalidate i \<Longrightarrow> m a \<in> seen (ic_env_step i m s g) a"
  by (simp add: ic_env_step_def Let_def)

lemma lines_kept:
  assumes "ic_lines_ok s g" "\<not> ic_invalidate i" "ic_valid s' = ic_valid s" "ic_tags s' = ic_tags s" "ic_data s' = ic_data s"
  shows "ic_lines_ok s' (ic_env_step i m s g)"
  using assms seen_grows [OF assms(2)] by (fastforce simp: ic_lines_ok_def)

lemma answer_kept:
  assumes "ic_answer_ok s g" "\<not> ic_invalidate i" "ic_accept i s = None" "ic_rsp_data s' = ic_rsp_data s"
    "ic_rsp_valid s' \<longleftrightarrow> ic_rsp_valid s \<and> \<not> ic_rsp_ready i \<and> \<not> ic_cancel i"
  shows "ic_answer_ok s' (ic_env_step i m s g)"
  using assms by (auto simp: ic_answer_ok_def ic_env_step_def Let_def)

lemma ic_inv_invalidated:
  assumes "ic_invalidate i"
  shows "ic_inv (ic_step i s) (ic_env_step i m s g)"
  using assms
  by (cases "ic_state s")
    (auto simp: ic_inv_def ic_step_def ic_invalidated_def ic_lines_ok_def ic_answer_ok_def Let_def)

text \<open>A lookup: a hit answers with a word of the line, a miss starts a fill.\<close>

lemma hit_seen:
  assumes "ic_lines_ok s g" "ic_hit s a"
  shows "ic_data s (line_index a) (word_offset a) \<in> seen g (beat_addr a)"
proof -
  have "ic_data s (line_index a) (word_offset a) \<in>
      seen g (word_of_line (line_of (ic_tags s (line_index a)) (line_index a)) (word_offset a))"
    using assms unfolding ic_lines_ok_def ic_hit_def by blast
  then show ?thesis using assms(2) by (simp add: ic_hit_def line_parts beat_parts)
qed

lemma ic_inv_lookup:
  assumes inv: "ic_inv s g" and env: "ic_env_ok i s g" and a: "ic_accept i s = Some a"
  shows "ic_inv (ic_lookup a s (ic_head i s)) (ic_env_step i m s g)"
proof -
  let ?g = "ic_env_step i m s g" and ?s = "ic_lookup a s (ic_head i s)"
  have lines: "ic_lines_ok s g" and ans: "ic_answer_ok s g" using inv by (simp_all add: ic_inv_def)
  note free = accept_free [OF a env ans]
  have owed: "owed ?g = Some a" using a by (simp add: ic_env_step_def Let_def)
  have "ic_lines_ok ?s ?g"
    using lines free(3) by (rule lines_kept) (simp_all add: ic_lookup_def)
  moreover have "ic_answer_ok ?s ?g"
    using hit_seen [OF lines, of a] seen_grows [OF free(3), of g "beat_addr a" m s] owed free
    by (auto simp: ic_answer_ok_def ic_lookup_def)
  moreover have "ic_fill_ok ?s ?g" if "\<not> ic_hit s a"
    using that free owed by (auto simp: ic_fill_ok_def ic_lookup_def line_parts)
  ultimately show ?thesis by (auto simp: ic_inv_def ic_lookup_def split: if_splits)
qed


text \<open>While a line is filled, a request for a word of it that has arrived is answered.\<close>

lemma fill_answer_frame [simp]:
  "ic_state (ic_fill_answer i s t) = ic_state t" "ic_valid (ic_fill_answer i s t) = ic_valid t"
  "ic_tags (ic_fill_answer i s t) = ic_tags t" "ic_data (ic_fill_answer i s t) = ic_data t"
  "ic_fill_line_addr (ic_fill_answer i s t) = ic_fill_line_addr t" "ic_fill_allocate (ic_fill_answer i s t) = ic_fill_allocate t"
  "ic_fill_uncached (ic_fill_answer i s t) = ic_fill_uncached t" "ic_fill_cpu_waiting (ic_fill_answer i s t) = ic_fill_cpu_waiting t"
  "ic_fill_index (ic_fill_answer i s t) = ic_fill_index t" "ic_fill_tag (ic_fill_answer i s t) = ic_fill_tag t"
  "ic_fill_next_word (ic_fill_answer i s t) = ic_fill_next_word t"
  "ic_fill_response_word (ic_fill_answer i s t) = ic_fill_response_word t"
  "ic_fill_count (ic_fill_answer i s t) = ic_fill_count t" "ic_fill_word_valid (ic_fill_answer i s t) = ic_fill_word_valid t"
  "ic_fill_data (ic_fill_answer i s t) = ic_fill_data t"
  by (auto simp: ic_fill_answer_def split: option.splits)

lemma not_waiting:
  assumes "ic_accept i s = Some a" "ic_env_ok i s g" "ic_answer_ok s g" "ic_fill_ok s g"
  shows "\<not> ic_fill_cpu_waiting s"
  using assms accept_free(1) [OF assms(1-3)] by (auto simp: ic_env_ok_def ic_fill_ok_def split: if_splits)

lemma waiting_owed:
  assumes "ic_fill_cpu_waiting s" "\<not> ic_cancel i" "\<not> ic_invalidate i" "ic_env_ok i s g" "ic_answer_ok s g" "ic_fill_ok s g"
  shows "owed (ic_env_step i m s g) = owed g" "ic_accept i s = None" "\<not> ic_rsp_valid s"
proof -
  show "ic_accept i s = None" using not_waiting [OF _ assms(4-6)] assms(1) by (cases "ic_accept i s") auto
  moreover show "\<not> ic_rsp_valid s" using assms(1,6) by (auto simp: ic_fill_ok_def split: if_splits)
  ultimately show "owed (ic_env_step i m s g) = owed g" using assms by (simp add: ic_env_step_def Let_def)
qed

lemma fill_kept:
  assumes f: "ic_fill_ok s g" and env: "ic_env_ok i s g" and ans: "ic_answer_ok s g" and ni: "\<not> ic_invalidate i"
    and same: "ic_fill_uncached s' = ic_fill_uncached s" "ic_fill_allocate s' = ic_fill_allocate s"
      "ic_fill_line_addr s' = ic_fill_line_addr s" "ic_fill_tag s' = ic_fill_tag s" "ic_fill_index s' = ic_fill_index s"
      "ic_fill_count s' = ic_fill_count s" "ic_fill_next_word s' = ic_fill_next_word s"
      "ic_fill_response_word s' = ic_fill_response_word s" "ic_fill_word_valid s' = ic_fill_word_valid s"
      "ic_fill_data s' = ic_fill_data s"
    and w: "ic_fill_cpu_waiting s' \<Longrightarrow> ic_fill_cpu_waiting s \<and> \<not> ic_cancel i"
    and r: "ic_rsp_valid s' \<Longrightarrow> ic_rsp_valid s \<or> ic_accept i s \<noteq> None"
  shows "ic_fill_ok s' (ic_env_step i m s g)"
proof -
  let ?g = "ic_env_step i m s g"
  have o: "ic_fill_cpu_waiting s' \<Longrightarrow> owed ?g = owed g \<and> \<not> ic_rsp_valid s'"
    using waiting_owed(1) [OF _ _ ni env ans f, of m] waiting_owed(2,3) [OF _ _ ni env ans f] w r by blast
  have v: "ic_fill_data s k \<in> seen g b \<Longrightarrow> ic_fill_data s k \<in> seen ?g b" for k b
    using seen_grows [OF ni, of g b m s] by blast
  show ?thesis using f w o v unfolding ic_fill_ok_def same by (auto split: if_splits)
qed

lemma fill_answer_ok:
  assumes f: "ic_fill_ok s g" and env: "ic_env_ok i s g" and ans: "ic_answer_ok s g" and ni: "\<not> ic_invalidate i"
    and st: "ic_state s = FillReq \<or> ic_state s = FillWait"
  shows "ic_answer_ok (ic_fill_answer i s (ic_head i s)) (ic_env_step i m s g)"
proof (cases "ic_accept i s")
  case None
  show ?thesis by (rule answer_kept [OF ans ni None]) (simp_all add: ic_fill_answer_def None)
next
  case (Some a)
  then have h: "fill_hit s a" using st by (auto simp: ic_accept_def ic_req_ready_def split: option.splits if_splits)
  then have "\<not> ic_fill_uncached s" using f by (auto simp: fill_hit_def fill_line_match_def ic_fill_ok_def)
  then have "ic_fill_data s (word_offset a) \<in> seen g (word_of_line (line_addr a) (word_offset a))"
    using f h by (auto simp: fill_hit_def fill_line_match_def ic_fill_ok_def)
  then have "ic_fill_data s (word_offset a) \<in> seen (ic_env_step i m s g) (beat_addr a)"
    using seen_grows [OF ni, of g "beat_addr a" m s] by (auto simp: beat_parts)
  moreover have "owed (ic_env_step i m s g) = Some a" using Some by (simp add: ic_env_step_def Let_def)
  ultimately show ?thesis using Some h by (simp add: ic_answer_ok_def ic_fill_answer_def)
qed

lemma ic_inv_fill_req:
  assumes inv: "ic_inv s g" and env: "ic_env_ok i s g" and ni: "\<not> ic_invalidate i" and st: "ic_state s = FillReq"
  shows "ic_inv (ic_step i s) (ic_env_step i m s g)"
proof -
  let ?g = "ic_env_step i m s g" and ?u = "ic_fill_answer i s (ic_head i s)"
  have ok: "ic_lines_ok s g" "ic_answer_ok s g" "ic_fill_ok s g" using inv st by (simp_all add: ic_inv_def)
  have s: "ic_step i s = (if ic_mem_ready i then ?u\<lparr>ic_state := FillWait\<rparr> else ?u)"
    using st ni by (simp add: ic_step_def Let_def)
  have "ic_lines_ok (ic_step i s) ?g" by (rule lines_kept [OF ok(1) ni]) (simp_all add: s)
  moreover have "ic_answer_ok (ic_step i s) ?g"
    using fill_answer_ok [OF ok(3) env ok(2) ni] st by (simp add: s ic_answer_ok_def)
  moreover have "ic_fill_ok (ic_step i s) ?g"
    by (rule fill_kept [OF ok(3) env ok(2) ni]) (auto simp: s ic_fill_answer_def split: if_splits option.splits)
  moreover have "ic_mem_addr (ic_step i s) = ic_mem_addr s" by (simp add: s ic_mem_addr_def)
  moreover have "ic_state (ic_step i s) = FillWait \<Longrightarrow> asked ?g = Some (ic_mem_addr s) \<and> window ?g \<subseteq> seen ?g (ic_mem_addr s)"
    using st seen_now [OF ni] by (auto simp: s ic_env_step_def ic_mem_valid_def Let_def ni split: if_splits)
  ultimately show ?thesis by (simp add: ic_inv_def)
qed


lemma beat_again: "push_bit 3 (drop_bit 3 (beat_addr a)) = beat_addr a"
  unfolding beat_addr_def by (rule bit_word_eqI) (auto simp: bit_simps)

text \<open>A word arrives: of the line, or of an uncached fetch.\<close>

lemma arrived:
  assumes "ic_inv s g" "ic_env_ok i s g" "\<not> ic_invalidate i" "ic_state s = FillWait" "ic_mem_rvalid i"
  shows "ic_mem_rdata i \<in> seen (ic_env_step i m s g) (ic_mem_addr s)"
  using assms seen_grows [OF assms(3), of g "ic_mem_addr s" m s] by (auto simp: ic_inv_def ic_env_ok_def)

lemma uncached_word_ok:
  assumes inv: "ic_inv s g" and env: "ic_env_ok i s g" and ni: "\<not> ic_invalidate i" and st: "ic_state s = FillWait"
    and v: "ic_mem_rvalid i" and u: "ic_fill_uncached s"
  shows "ic_inv (ic_uncached_word i s (ic_fill_answer i s (ic_head i s))) (ic_env_step i m s g)"
proof -
  let ?g = "ic_env_step i m s g" and ?u = "ic_fill_answer i s (ic_head i s)" and ?s = "ic_uncached_word i s (ic_fill_answer i s (ic_head i s))"
  have ok: "ic_lines_ok s g" "ic_answer_ok s g" "ic_fill_ok s g" using inv st by (simp_all add: ic_inv_def)
  have "ic_lines_ok ?s ?g" by (rule lines_kept [OF ok(1) ni]) (simp_all add: ic_uncached_word_def Let_def)
  moreover have "ic_answer_ok ?s ?g"
  proof (cases "ic_fill_cpu_waiting s \<and> \<not> ic_cancel i")
    case True
    then obtain a where a: "owed g = Some a" "beat_addr a = ic_fill_line_addr s"
      using ok(3) u by (auto simp: ic_fill_ok_def)
    have "ic_mem_addr s = beat_addr a" using u by (simp add: ic_mem_addr_def beat_again flip: a(2))
    moreover have "owed ?g = Some a" using waiting_owed(1) [of s i g m] True ni env ok a by simp
    ultimately show ?thesis using arrived [OF inv env ni st v, of m] True
      by (simp add: ic_answer_ok_def ic_uncached_word_def Let_def)
  next
    case False
    then show ?thesis using fill_answer_ok [OF ok(3) env ok(2) ni] st
      by (auto simp: ic_answer_ok_def ic_uncached_word_def Let_def)
  qed
  ultimately show ?thesis by (simp add: ic_inv_def ic_uncached_word_def Let_def)
qed

lemma next_word:
  assumes "unat (c :: 3 word) \<le> 3"
  shows "unat ((w :: 2 word) - r) < unat c \<or> w = r + of_nat (unat c) \<longleftrightarrow> unat (w - r) < Suc (unat c)"
proof -
  have "w = r + of_nat (unat c) \<longleftrightarrow> w - r = of_nat (unat c)" by (auto simp: algebra_simps)
  also have "\<dots> \<longleftrightarrow> unat (w - r) = unat c" using assms by (simp add: word_unat_eq_iff unsigned_ucast_eq take_bit_eq_mod)
  finally show ?thesis by auto
qed

lemma filling_ok:
  assumes inv: "ic_inv s g" and env: "ic_env_ok i s g" and ni: "\<not> ic_invalidate i" and st: "ic_state s = FillWait"
    and v: "ic_mem_rvalid i" and u: "\<not> ic_fill_uncached s"
  shows "((ic_fill_word_valid s)(ic_fill_next_word s := True)) w \<longleftrightarrow>
      unat (w - ic_fill_response_word s) < Suc (unat (ic_fill_count s))"
    "((ic_fill_word_valid s)(ic_fill_next_word s := True)) w \<Longrightarrow>
      ((ic_fill_data s)(ic_fill_next_word s := ic_mem_rdata i)) w \<in> seen (ic_env_step i m s g) (word_of_line (ic_fill_line_addr s) w)"
proof -
  have f: "ic_fill_ok s g" using inv st by (simp add: ic_inv_def)
  show "((ic_fill_word_valid s)(ic_fill_next_word s := True)) w \<longleftrightarrow>
      unat (w - ic_fill_response_word s) < Suc (unat (ic_fill_count s))"
    using f u next_word [of "ic_fill_count s" w "ic_fill_response_word s"] by (auto simp: ic_fill_ok_def)
  assume "((ic_fill_word_valid s)(ic_fill_next_word s := True)) w"
  moreover have "ic_mem_addr s = word_of_line (ic_fill_line_addr s) (ic_fill_next_word s)"
    using u by (simp add: ic_mem_addr_def word_of_line_def)
  ultimately show "((ic_fill_data s)(ic_fill_next_word s := ic_mem_rdata i)) w
      \<in> seen (ic_env_step i m s g) (word_of_line (ic_fill_line_addr s) w)"
    using arrived [OF inv env ni st v, of m] f u seen_grows [OF ni, of g _ m s] by (auto simp: ic_fill_ok_def split: if_splits)
qed

lemma cached_answer_ok:
  assumes inv: "ic_inv s g" and env: "ic_env_ok i s g" and ni: "\<not> ic_invalidate i" and st: "ic_state s = FillWait"
    and v: "ic_mem_rvalid i" and u: "\<not> ic_fill_uncached s"
  shows "ic_answer_ok (ic_cached_word i s (ic_fill_answer i s (ic_head i s))) (ic_env_step i m s g)"
proof (cases "fill_response_now i s")
  case True
  have ok: "ic_answer_ok s g" "ic_fill_ok s g" using inv st by (simp_all add: ic_inv_def)
  then obtain a where a: "owed g = Some a" "word_offset a = ic_fill_next_word s" "line_addr a = ic_fill_line_addr s"
    using True u by (auto simp: fill_response_now_def ic_fill_ok_def)
  have "ic_mem_addr s = beat_addr a" using u a by (simp add: ic_mem_addr_def flip: beat_parts word_of_line_def)
  moreover have "owed (ic_env_step i m s g) = Some a"
    using waiting_owed(1) [of s i g m] True ni env ok a by (simp add: fill_response_now_def)
  ultimately show ?thesis using arrived [OF inv env ni st v, of m] True
    by (simp add: ic_answer_ok_def ic_cached_word_def Let_def)
next
  case False
  have ok: "ic_answer_ok s g" "ic_fill_ok s g" using inv st by (simp_all add: ic_inv_def)
  show ?thesis using False fill_answer_ok [OF ok(2) env ok(1) ni] st
    by (auto simp: ic_answer_ok_def ic_cached_word_def Let_def)
qed

lemma cached_word_ok:
  assumes inv: "ic_inv s g" and env: "ic_env_ok i s g" and ni: "\<not> ic_invalidate i" and st: "ic_state s = FillWait"
    and v: "ic_mem_rvalid i" and u: "\<not> ic_fill_uncached s"
  shows "ic_inv (ic_cached_word i s (ic_fill_answer i s (ic_head i s))) (ic_env_step i m s g)"
proof -
  let ?g = "ic_env_step i m s g" and ?s = "ic_cached_word i s (ic_fill_answer i s (ic_head i s))"
  have ok: "ic_lines_ok s g" "ic_answer_ok s g" "ic_fill_ok s g" using inv st by (simp_all add: ic_inv_def)
  note word = filling_ok [OF inv env ni st v u]
  have lines: "ic_lines_ok ?s ?g"
  proof (cases "ic_fill_count s = 3 \<and> ic_fill_allocate s")
    case True
    have all: "((ic_fill_data s)(ic_fill_next_word s := ic_mem_rdata i)) w \<in> seen ?g (word_of_line (ic_fill_line_addr s) w)" for w
      using word(2) word(1) [of w] True unsigned_less [of "w - ic_fill_response_word s", where 'a = nat] by simp
    have old: "ic_lines_ok s ?g" by (rule lines_kept [OF ok(1) ni]) simp_all
    have "ic_fill_line_addr s = line_of (ic_fill_tag s) (ic_fill_index s)" using ok(3) u by (simp add: ic_fill_ok_def)
    then show ?thesis using True all old by (auto simp: ic_lines_ok_def ic_cached_word_def Let_def)
  next
    case False
    then show ?thesis by (intro lines_kept [OF ok(1) ni]) (auto simp: ic_cached_word_def Let_def)
  qed
  have "ic_fill_ok ?s ?g" if "ic_fill_count s \<noteq> 3"
  proof -
    have c: "unat (ic_fill_count s) < 3" using ok(3) u that by (auto simp: ic_fill_ok_def word_unat_eq_iff)
    then have c1: "unat (ic_fill_count s + 1) = Suc (unat (ic_fill_count s))" by (simp add: unat_word_ariths)
    have "\<not> ic_fill_cpu_waiting ?s"
      using that ok(3) u by (auto simp: ic_cached_word_def Let_def fill_response_now_def ic_fill_ok_def)
    moreover have "ic_fill_uncached ?s = ic_fill_uncached s" "ic_fill_line_addr ?s = ic_fill_line_addr s"
      "ic_fill_tag ?s = ic_fill_tag s" "ic_fill_index ?s = ic_fill_index s" "ic_fill_count ?s = ic_fill_count s + 1"
      "ic_fill_next_word ?s = ic_fill_next_word s + 1" "ic_fill_response_word ?s = ic_fill_response_word s"
      "ic_fill_word_valid ?s = (ic_fill_word_valid s)(ic_fill_next_word s := True)"
      "ic_fill_data ?s = (ic_fill_data s)(ic_fill_next_word s := ic_mem_rdata i)"
      using that by (simp_all add: ic_cached_word_def Let_def)
    moreover have "ic_fill_next_word s + 1 = ic_fill_response_word s + of_nat (Suc (unat (ic_fill_count s)))"
      using ok(3) u by (simp add: ic_fill_ok_def)
    moreover have "ic_fill_line_addr s = line_of (ic_fill_tag s) (ic_fill_index s)" using ok(3) u by (simp add: ic_fill_ok_def)
    ultimately show ?thesis using u c c1 word unfolding ic_fill_ok_def by simp
  qed
  then show ?thesis using lines cached_answer_ok [OF inv env ni st v u]
    by (auto simp: ic_inv_def ic_cached_word_def Let_def split: if_splits)
qed


lemma ic_inv_fill_wait:
  assumes inv: "ic_inv s g" and env: "ic_env_ok i s g" and ni: "\<not> ic_invalidate i" and st: "ic_state s = FillWait"
  shows "ic_inv (ic_step i s) (ic_env_step i m s g)"
proof (cases "ic_mem_rvalid i")
  case True
  then show ?thesis
    using uncached_word_ok [OF inv env ni st True] cached_word_ok [OF inv env ni st True] st ni
    by (simp add: ic_step_def Let_def)
next
  case False
  let ?g = "ic_env_step i m s g" and ?u = "ic_fill_answer i s (ic_head i s)"
  have ok: "ic_lines_ok s g" "ic_answer_ok s g" "ic_fill_ok s g" using inv st by (simp_all add: ic_inv_def)
  have s: "ic_step i s = ?u" using st ni False by (simp add: ic_step_def Let_def)
  have "ic_lines_ok ?u ?g" by (rule lines_kept [OF ok(1) ni]) simp_all
  moreover have "ic_answer_ok ?u ?g" using fill_answer_ok [OF ok(3) env ok(2) ni] st by simp
  moreover have "ic_fill_ok ?u ?g"
    by (rule fill_kept [OF ok(3) env ok(2) ni]) (auto simp: ic_fill_answer_def split: if_splits option.splits)
  moreover have "ic_mem_addr ?u = ic_mem_addr s" by (simp add: ic_mem_addr_def)
  moreover have "asked ?g = Some (ic_mem_addr s) \<and> window ?g \<subseteq> seen ?g (ic_mem_addr s)"
    using inv st False ni by (auto simp: ic_inv_def ic_env_step_def ic_mem_valid_def Let_def)
  ultimately show ?thesis using st by (simp add: ic_inv_def s)
qed

lemma ic_inv_step:
  assumes inv: "ic_inv s g" and env: "ic_env_ok i s g"
  shows "ic_inv (ic_step i s) (ic_env_step i m s g)"
proof (cases "ic_invalidate i")
  case True
  then show ?thesis by (rule ic_inv_invalidated)
next
  case False
  have ok: "ic_lines_ok s g" "ic_answer_ok s g" using inv by (simp_all add: ic_inv_def)
  have rest: "ic_inv s' (ic_env_step i m s g)"
    if "ic_accept i s = None" "ic_state s' \<notin> {FillReq, FillWait}" "ic_valid s' = ic_valid s" "ic_tags s' = ic_tags s"
      "ic_data s' = ic_data s" "ic_rsp_data s' = ic_rsp_data s"
      "ic_rsp_valid s' \<longleftrightarrow> ic_rsp_valid s \<and> \<not> ic_rsp_ready i \<and> \<not> ic_cancel i" for s'
    using that lines_kept [OF ok(1) False, of s' m] answer_kept [OF ok(2) False, of s' m] by (auto simp: ic_inv_def)
  show ?thesis
  proof (cases "ic_state s")
    case IcIdle
    then show ?thesis using False ic_inv_lookup [OF inv env] rest
      by (cases "ic_accept i s") (simp_all add: ic_step_def Let_def)
  next
    case FillReq
    then show ?thesis by (rule ic_inv_fill_req [OF inv env False])
  next
    case FillWait
    then show ?thesis by (rule ic_inv_fill_wait [OF inv env False])
  next
    case IcResponse
    then show ?thesis using False ic_inv_lookup [OF inv env] rest
      by (cases "ic_accept i s") (simp_all add: ic_step_def Let_def)
  next
    case InvalidateWait
    then have "ic_accept i s = None" by (auto simp: ic_accept_def ic_req_ready_def split: option.splits)
    then show ?thesis using False InvalidateWait rest by (simp add: ic_step_def Let_def)
  qed
qed

lemma ic_reach_inv: "ic_reach s g \<Longrightarrow> ic_inv s g"
proof (induction rule: ic_reach.induct)
  case (start s)
  then show ?case by (simp add: ic_inv_def ic_lines_ok_def ic_answer_ok_def ic_reset_def)
next
  case (edge s g i m)
  then show ?case by (intro ic_inv_step)
qed


section \<open>Properties\<close>

text \<open>
  C15. The instruction cache never answers with stale words: whatever was fetched, filled, cancelled or
  invalidated before, and however memory changes meanwhile, the word it offers belongs to the one
  unanswered request that was not cancelled, and memory has held it at that request's address since
  the last invalidation (so if the word has not changed since, it is the word in memory).
\<close>
theorem icache_coherent:
  assumes "ic_reach s g" and "ic_rsp_valid s"
  shows "\<exists>a. owed g = Some a \<and> ic_rsp_data s \<in> seen g (beat_addr a)"
  using ic_reach_inv [OF assms(1)] assms(2) by (simp add: ic_inv_def ic_answer_ok_def)

text \<open>A miss: request, memory's acceptance and the critical word, in a memory that holds its addresses.\<close>

definition demo_power_up :: icache where
  "demo_power_up = \<lparr>ic_state = IcResponse, ic_valid = (\<lambda>k. True), ic_tags = (\<lambda>k. 0), ic_data = (\<lambda>k w. 7),
     ic_fill_line_addr = 0, ic_fill_active = True, ic_fill_cacheable = True, ic_fill_uncached = True,
     ic_fill_allocate = True, ic_fill_cpu_waiting = True, ic_fill_index = 0, ic_fill_tag = 0, ic_fill_next_word = 0,
     ic_fill_response_word = 0, ic_fill_count = 0, ic_fill_word_valid = (\<lambda>w. True), ic_fill_data = (\<lambda>w. 7),
     ic_rsp_valid = True, ic_rsp_data = 7\<rparr>"

definition demo_cycle :: "u64 option \<Rightarrow> bool \<Rightarrow> bool \<Rightarrow> ic_in" where
  "demo_cycle q ready rvalid = \<lparr>ic_cancel = False, ic_invalidate = False, ic_req = q, ic_rsp_ready = False,
     ic_mem_ready = ready, ic_mem_rvalid = rvalid, ic_mem_rdata = 0x80000010\<rparr>"

definition demo_miss :: "nat \<Rightarrow> icache \<times> ic_env" where
  "demo_miss n = fold (\<lambda>i (s, g). (ic_step i s, ic_env_step i (\<lambda>a. a) s g))
     (take n [demo_cycle (Some 0x80000014) False False, demo_cycle None True False, demo_cycle None False True])
     (ic_reset demo_power_up, \<lparr>asked = None, window = {}, owed = None, seen = (\<lambda>a. {})\<rparr>)"

lemma demo_miss_steps:
  "demo_miss 1 = (let (s, g) = demo_miss 0; i = demo_cycle (Some 0x80000014) False False
     in (ic_step i s, ic_env_step i (\<lambda>a. a) s g))"
  "demo_miss 2 = (let (s, g) = demo_miss 1; i = demo_cycle None True False in (ic_step i s, ic_env_step i (\<lambda>a. a) s g))"
  "demo_miss 3 = (let (s, g) = demo_miss 2; i = demo_cycle None False True in (ic_step i s, ic_env_step i (\<lambda>a. a) s g))"
  by (simp_all add: demo_miss_def eval_nat_numeral Let_def)

lemma demo_miss_env:
  "ic_env_ok (demo_cycle (Some 0x80000014) False False) (fst (demo_miss 0)) (snd (demo_miss 0))"
  "ic_env_ok (demo_cycle None True False) (fst (demo_miss 1)) (snd (demo_miss 1))"
  "ic_env_ok (demo_cycle None False True) (fst (demo_miss 2)) (snd (demo_miss 2))"
  by code_simp+

lemma demo_miss_reach: "ic_reach (fst (demo_miss 3)) (snd (demo_miss 3))"
proof -
  have "ic_reach (fst (demo_miss 0)) (snd (demo_miss 0))" by (simp add: demo_miss_def ic_reach.start)
  then have "ic_reach (fst (demo_miss 1)) (snd (demo_miss 1))"
    unfolding demo_miss_steps(1) case_prod_unfold Let_def using ic_reach.edge [OF _ demo_miss_env(1)] by simp
  then have "ic_reach (fst (demo_miss 2)) (snd (demo_miss 2))"
    unfolding demo_miss_steps(2) case_prod_unfold Let_def using ic_reach.edge [OF _ demo_miss_env(2)] by simp
  then show ?thesis
    unfolding demo_miss_steps(3) case_prod_unfold Let_def using ic_reach.edge [OF _ demo_miss_env(3)] by simp
qed

theorem icache_coherent_witness:
  "ic_rsp_data (fst (demo_miss 3)) = 0x80000010 \<and> 0x80000010 \<in> seen (snd (demo_miss 3)) 0x80000010"
proof -
  have v: "ic_rsp_valid (fst (demo_miss 3))" "ic_rsp_data (fst (demo_miss 3)) = 0x80000010"
    "owed (snd (demo_miss 3)) = Some 0x80000014" "beat_addr 0x80000014 = 0x80000010" by code_simp+
  show ?thesis using icache_coherent [OF demo_miss_reach v(1)] v by auto
qed

end
