(* ===== verification/Dcache.thy ===== *)
theory Dcache
  imports Icache Ram
begin

text \<open>
  The data cache, \<open>src/rtl/cache/dcache.sv\<close>: 128 lines of 32 bytes, a store buffer of four, uncached
  and atomic accesses passed through, the fast-load port, and both write policies (\<open>wb\<close> is the parameter
  \<open>WRITE_BACK\<close>). For the write-through cache that \<open>src/top.sv\<close> builds by default, the core is shown to
  see its own accesses in program order. The performance counters are left out.
\<close>

section \<open>State and ports\<close>

datatype dc_state = DcIdle | LoadFillReq | LoadFillWait | BypassReq | BypassWait | WritebackReq | FlushScan | DcResponse

record sb_entry =
  sb_addr :: u64
  sb_wdata :: u64
  sb_wmask :: u8
  sb_funct3 :: "3 word"

text \<open>\<open>saved\<close> is the group of registers \<open>saved_addr\<close> to \<open>saved_funct3\<close>; the buffer's count stays at most four.\<close>

record dcache =
  dc_state :: dc_state
  dc_valid :: "7 word \<Rightarrow> bool"
  dc_dirty :: "7 word \<Rightarrow> bool"
  dc_tags :: "7 word \<Rightarrow> 52 word"
  dc_data :: "7 word \<Rightarrow> 2 word \<Rightarrow> u64"
  saved :: bus_req
  fill_line_addr :: u64
  fill_index :: "7 word"
  fill_tag :: "52 word"
  fill_next_word :: "2 word"
  fill_response_word :: "2 word"
  fill_count :: "3 word"
  fill_word_valid :: "2 word \<Rightarrow> bool"
  fill_data :: "2 word \<Rightarrow> u64"
  fill_allocate :: bool
  rsp_valid_q :: bool
  rsp_data_q :: u64
  writeback_line_addr :: u64
  writeback_index :: "7 word"
  writeback_word :: "2 word"
  writeback_resume_bypass :: bool
  writeback_resume_flush :: bool
  flush_active :: bool
  flush_index :: "7 word"
  store_buffer :: "2 word \<Rightarrow> sb_entry"
  store_buffer_head :: "2 word"
  store_buffer_tail :: "2 word"
  store_buffer_count :: nat

record dc_in =
  invalidate :: bool
  cpu :: "bus_req option"
  fast_load :: "(u64 \<times> 3 word) option"
  dm_ready :: bool
  dm_rvalid :: bool
  dm_rdata :: u64

definition zero_req :: bus_req where
  "zero_req = \<lparr>r_addr = 0, r_wen = False, r_wdata = 0, r_wmask = 0, r_is_amo = False, r_amoop = 0, r_aq = False,
     r_rl = False, r_funct3 = 0\<rparr>"

definition dc_reset :: "dcache \<Rightarrow> dcache" where
  "dc_reset s = s\<lparr>dc_state := DcIdle, saved := zero_req, fill_line_addr := 0, fill_index := 0, fill_tag := 0,
     fill_next_word := 0, fill_response_word := 0, fill_count := 0, fill_word_valid := (\<lambda>w. False), rsp_valid_q := False,
     rsp_data_q := 0, writeback_line_addr := 0, writeback_index := 0, writeback_word := 0,
     writeback_resume_bypass := False, writeback_resume_flush := False, flush_active := False, flush_index := 0,
     store_buffer_head := 0, store_buffer_tail := 0, store_buffer_count := 0, fill_allocate := False,
     dc_valid := (\<lambda>k. False), dc_dirty := (\<lambda>k. False)\<rparr>"


section \<open>Functions of the module\<close>

definition STORE_BUFFER_DEPTH :: nat where "STORE_BUFFER_DEPTH = 4"

definition dirty_any :: "dcache \<Rightarrow> bool" where
  "dirty_any s \<longleftrightarrow> list_ex (\<lambda>k. dc_valid s (of_nat k) \<and> dc_dirty s (of_nat k)) [0 ..< 128]"

definition is_ram :: "u64 \<Rightarrow> bool" where
  "is_ram a \<longleftrightarrow> MMAP_RAM_BEGIN \<le> a \<and> a < MMAP_RAM_END"

definition merge_word :: "u64 \<Rightarrow> u64 \<Rightarrow> u8 \<Rightarrow> u64" where
  "merge_word old_data new_data wmask =
     (new_data AND wmask_expand wmask) OR (old_data AND NOT (wmask_expand wmask))"

definition access_byte_mask :: "3 word \<Rightarrow> 3 word \<Rightarrow> u8" where
  "access_byte_mask f3 off =
     (let sz = 2 ^ unat (f3 AND 3); available = 8 - unat off; bytes = min sz available
      in push_bit (unat off) (mask bytes))"

definition sb_slot :: "dcache \<Rightarrow> nat \<Rightarrow> sb_entry" where
  "sb_slot s i = store_buffer s (store_buffer_head s + of_nat i)"

definition store_buffer_overlaps :: "dcache \<Rightarrow> u64 \<Rightarrow> u8 \<Rightarrow> bool" where
  "store_buffer_overlaps s addr m \<longleftrightarrow>
     list_ex (\<lambda>i. i < store_buffer_count s \<and> drop_bit 3 (sb_addr (sb_slot s i)) = drop_bit 3 addr \<and>
       sb_wmask (sb_slot s i) AND m \<noteq> 0) [0 ..< STORE_BUFFER_DEPTH]"

definition dc_cacheable :: "bus_req \<Rightarrow> bool" where
  "dc_cacheable r \<longleftrightarrow> is_ram (r_addr r) \<and> \<not> r_is_amo r"

definition line_present :: "dcache \<Rightarrow> u64 \<Rightarrow> bool" where
  "line_present s a \<longleftrightarrow> dc_valid s (line_index a) \<and> dc_tags s (line_index a) = line_tag a"

definition cache_hit :: "dcache \<Rightarrow> bus_req \<Rightarrow> bool" where
  "cache_hit s r \<longleftrightarrow> dc_cacheable r \<and> line_present s (r_addr r)"

definition dirty_victim_hit :: "bool \<Rightarrow> dcache \<Rightarrow> bus_req \<Rightarrow> bool" where
  "dirty_victim_hit wb s r \<longleftrightarrow> wb \<and> dc_valid s (line_index (r_addr r)) \<and> dc_dirty s (line_index (r_addr r))"

definition victim_line_addr :: "dcache \<Rightarrow> 7 word \<Rightarrow> u64" where
  "victim_line_addr s k = push_bit 12 (ucast (dc_tags s k)) OR push_bit 5 (ucast k)"

definition store_buffer_full :: "dcache \<Rightarrow> bool" where
  "store_buffer_full s \<longleftrightarrow> store_buffer_count s = STORE_BUFFER_DEPTH"

definition can_accept_without_drain :: "bool \<Rightarrow> dcache \<Rightarrow> bus_req \<Rightarrow> bool" where
  "can_accept_without_drain wb s r \<longleftrightarrow> dc_cacheable r \<and> r_wen r \<and> (wb \<and> cache_hit s r \<or> \<not> store_buffer_full s)"

definition load_can_bypass :: "dcache \<Rightarrow> bus_req \<Rightarrow> bool" where
  "load_can_bypass s r \<longleftrightarrow> dc_cacheable r \<and> \<not> r_wen r \<and> cache_hit s r \<and>
     \<not> store_buffer_overlaps s (r_addr r) (access_byte_mask (r_funct3 r) (ucast (r_addr r)))"

definition store_buffer_issue_valid :: "bool \<Rightarrow> dc_in \<Rightarrow> dcache \<Rightarrow> bool" where
  "store_buffer_issue_valid wb i s \<longleftrightarrow> dc_state s = DcIdle \<and> store_buffer_count s \<noteq> 0 \<and>
     (flush_active s \<or>
      (case cpu i of Some r \<Rightarrow> \<not> can_accept_without_drain wb s r \<and> \<not> load_can_bypass s r | None \<Rightarrow> True))"

definition store_buffer_issue_fire :: "bool \<Rightarrow> dc_in \<Rightarrow> dcache \<Rightarrow> bool" where
  "store_buffer_issue_fire wb i s \<longleftrightarrow> store_buffer_issue_valid wb i s \<and> dm_ready i"

definition store_buffer_drain_urgent :: "dc_in \<Rightarrow> dcache \<Rightarrow> bool" where
  "store_buffer_drain_urgent i s \<longleftrightarrow> STORE_BUFFER_DEPTH - 1 \<le> store_buffer_count s \<or>
     (case cpu i of Some r \<Rightarrow> \<not> (dc_cacheable r \<and> r_wen r) | None \<Rightarrow> False)"

definition dc_cpu_ready :: "bool \<Rightarrow> dc_in \<Rightarrow> dcache \<Rightarrow> bus_req \<Rightarrow> bool" where
  "dc_cpu_ready wb i s r \<longleftrightarrow> dc_state s = DcIdle \<and> \<not> flush_active s \<and> \<not> rsp_valid_q s \<and>
     (if dc_cacheable r \<and> r_wen r
      then wb \<and> cache_hit s r \<or> \<not> (store_buffer_full s \<and> \<not> store_buffer_issue_fire wb i s)
      else load_can_bypass s r \<or> store_buffer_count s = 0)"

definition dc_accept :: "bool \<Rightarrow> dc_in \<Rightarrow> dcache \<Rightarrow> bus_req option" where
  "dc_accept wb i s = (case cpu i of Some r \<Rightarrow> if dc_cpu_ready wb i s r then Some r else None | None \<Rightarrow> None)"

definition flush_busy :: "bool \<Rightarrow> dcache \<Rightarrow> bool" where
  "flush_busy wb s \<longleftrightarrow> wb \<and> flush_active s"

definition fast_load_hit :: "dc_in \<Rightarrow> dcache \<Rightarrow> u64 option" where
  "fast_load_hit i s =
     (case fast_load i of
        Some (a, f3) \<Rightarrow>
          if dc_state s = DcIdle \<and> \<not> flush_active s \<and> \<not> invalidate i \<and> \<not> rsp_valid_q s \<and> is_ram a \<and> line_present s a \<and>
             \<not> store_buffer_overlaps s a (access_byte_mask f3 (ucast a))
          then Some (dc_data s (line_index a) (word_offset a)) else None
      | None \<Rightarrow> None)"

text \<open>The port to memory.\<close>

definition store_request :: "sb_entry \<Rightarrow> bus_req" where
  "store_request e = zero_req\<lparr>r_addr := sb_addr e, r_wen := True, r_wdata := sb_wdata e, r_wmask := sb_wmask e,
     r_funct3 := sb_funct3 e\<rparr>"

definition read_request :: "u64 \<Rightarrow> bus_req" where
  "read_request a = zero_req\<lparr>r_addr := a, r_funct3 := 3\<rparr>"

definition dc_mem_request :: "bool \<Rightarrow> dc_in \<Rightarrow> dcache \<Rightarrow> bus_req option" where
  "dc_mem_request wb i s =
     (case dc_state s of
        DcIdle \<Rightarrow>
          if store_buffer_issue_valid wb i s then Some (store_request (store_buffer s (store_buffer_head s)))
          else (case dc_accept wb i s of Some r \<Rightarrow> if r_is_amo r \<or> \<not> dc_cacheable r then Some r else None | None \<Rightarrow> None)
      | LoadFillReq \<Rightarrow> Some (read_request (fill_line_addr s + push_bit 3 (ucast (fill_next_word s))))
      | BypassReq \<Rightarrow> Some (saved s)
      | WritebackReq \<Rightarrow>
          Some (zero_req\<lparr>r_addr := writeback_line_addr s + push_bit 3 (ucast (writeback_word s)), r_wen := True,
            r_wdata := dc_data s (writeback_index s) (writeback_word s), r_wmask := -1, r_funct3 := 3\<rparr>)
      | _ \<Rightarrow> None)"

definition mem_low_priority :: "bool \<Rightarrow> dc_in \<Rightarrow> dcache \<Rightarrow> bool" where
  "mem_low_priority wb i s \<longleftrightarrow> dc_state s = DcIdle \<and> store_buffer_issue_valid wb i s \<and> \<not> store_buffer_drain_urgent i s"



section \<open>The clock edge\<close>

text \<open>
  As in the instruction cache, \<open>s\<close> is the state before the edge and \<open>t\<close> what has been assigned so far;
  \<open>store_buffer_count t\<close> is the variable \<open>store_buffer_count_next\<close>.
\<close>

definition dc_drain :: "bool \<Rightarrow> dc_in \<Rightarrow> dcache \<Rightarrow> dcache" where
  "dc_drain wb i s =
     (let t = s\<lparr>rsp_valid_q := False\<rparr>
      in if store_buffer_issue_fire wb i s
         then t\<lparr>store_buffer_head := store_buffer_head s + 1, store_buffer_count := store_buffer_count s - 1\<rparr> else t)"

definition dc_start_flush :: "bool \<Rightarrow> dcache \<Rightarrow> dcache \<Rightarrow> dcache" where
  "dc_start_flush wb s t =
     (let u = t\<lparr>fill_word_valid := (\<lambda>w. False), fill_allocate := False\<rparr>
      in if wb
         then (if dirty_any s \<or> store_buffer_count t \<noteq> 0
               then u\<lparr>flush_active := True, flush_index := 0, writeback_resume_bypass := False,
                      writeback_resume_flush := False,
                      dc_state := (if dc_state s \<in> {WritebackReq, BypassReq, BypassWait} then dc_state s else DcIdle)\<rparr>
               else u)
         else u\<lparr>dc_valid := (\<lambda>k. False), dc_dirty := (\<lambda>k. False)\<rparr>)"

definition dc_enqueue :: "bus_req \<Rightarrow> dcache \<Rightarrow> dcache \<Rightarrow> dcache" where
  "dc_enqueue r s t =
     t\<lparr>store_buffer := (store_buffer s)(store_buffer_tail s :=
          \<lparr>sb_addr = r_addr r, sb_wdata = r_wdata r, sb_wmask = r_wmask r, sb_funct3 = r_funct3 r\<rparr>),
       store_buffer_tail := store_buffer_tail s + 1, store_buffer_count := store_buffer_count t + 1\<rparr>"

definition dc_store :: "bool \<Rightarrow> bus_req \<Rightarrow> dcache \<Rightarrow> dcache \<Rightarrow> dcache" where
  "dc_store wb r s t =
     (let k = line_index (r_addr r); w = word_offset (r_addr r); hit = cache_hit s r;
          u = (if hit
               then t\<lparr>dc_data := (dc_data s)(k := (dc_data s k)(w := merge_word (dc_data s k w) (r_wdata r) (r_wmask r))),
                      dc_dirty := (if wb then (dc_dirty t)(k := True) else dc_dirty t)\<rparr>
               else t)
      in (if wb \<and> hit then u else dc_enqueue r s u)\<lparr>dc_state := DcIdle\<rparr>)"

definition dc_start_fill :: "bool \<Rightarrow> bus_req \<Rightarrow> dcache \<Rightarrow> dcache \<Rightarrow> dcache" where
  "dc_start_fill wb r s t =
     (let k = line_index (r_addr r); w = word_offset (r_addr r);
          u = t\<lparr>fill_line_addr := line_addr (r_addr r), fill_index := k, fill_tag := line_tag (r_addr r),
                fill_next_word := w, fill_response_word := w, fill_count := 0, fill_word_valid := (\<lambda>w. False),
                fill_allocate := True\<rparr>
      in if dirty_victim_hit wb s r
         then u\<lparr>writeback_line_addr := victim_line_addr s k, writeback_index := k, writeback_word := 0,
                writeback_resume_bypass := False, dc_state := WritebackReq\<rparr>
         else u\<lparr>dc_state := LoadFillReq\<rparr>)"

definition dc_request :: "bool \<Rightarrow> dc_in \<Rightarrow> bus_req \<Rightarrow> dcache \<Rightarrow> dcache \<Rightarrow> dcache" where
  "dc_request wb i r s t =
     (let k = line_index (r_addr r);
          present = is_ram (r_addr r) \<and> line_present s (r_addr r);
          u = t\<lparr>saved := r\<rparr>;
          u = (if r_is_amo r \<and> present \<and> \<not> (wb \<and> dc_dirty s k)
               then u\<lparr>dc_valid := (dc_valid s)(k := False), dc_dirty := (dc_dirty s)(k := False)\<rparr> else u)
      in if wb \<and> r_is_amo r \<and> present \<and> dc_dirty s k
         then u\<lparr>writeback_line_addr := victim_line_addr s k, writeback_index := k, writeback_word := 0,
                writeback_resume_bypass := True, dc_state := WritebackReq\<rparr>
         else if dc_cacheable r \<and> \<not> r_wen r \<and> cache_hit s r
         then u\<lparr>rsp_data_q := dc_data s k (word_offset (r_addr r)), rsp_valid_q := True, dc_state := DcResponse\<rparr>
         else if dc_cacheable r \<and> \<not> r_wen r then dc_start_fill wb r s u
         else if dc_cacheable r \<and> r_wen r then dc_store wb r s u
         else if dm_ready i then u\<lparr>dc_state := (if r_wen r \<and> \<not> r_is_amo r then DcIdle else BypassWait)\<rparr>
         else u\<lparr>dc_state := BypassReq\<rparr>)"

definition dc_fill_word :: "dc_in \<Rightarrow> dcache \<Rightarrow> dcache \<Rightarrow> dcache" where
  "dc_fill_word i s t =
     (let w = fill_next_word s;
          line = (fill_data s)(w := dm_rdata i);
          u = t\<lparr>fill_data := line, fill_word_valid := (fill_word_valid s)(w := True)\<rparr>;
          v = (if w = fill_response_word s then u\<lparr>rsp_data_q := dm_rdata i, rsp_valid_q := True\<rparr> else u)
      in if fill_count s = 3
         then (if fill_allocate s
               then v\<lparr>dc_valid := (dc_valid s)(fill_index s := True), dc_dirty := (dc_dirty s)(fill_index s := False),
                      dc_tags := (dc_tags s)(fill_index s := fill_tag s), dc_data := (dc_data s)(fill_index s := line)\<rparr>
               else v)\<lparr>fill_allocate := False, dc_state := DcIdle\<rparr>
         else v\<lparr>fill_next_word := w + 1, fill_count := fill_count s + 1, dc_state := LoadFillReq\<rparr>)"

definition dc_written_back :: "dcache \<Rightarrow> dcache \<Rightarrow> dcache" where
  "dc_written_back s t =
     (let k = writeback_index s
      in if writeback_word s = 3
         then (let u = t\<lparr>dc_dirty := (dc_dirty s)(k := False)\<rparr>
               in if writeback_resume_flush s
                  then (let v = u\<lparr>dc_valid := (dc_valid s)(k := False), writeback_resume_flush := False\<rparr>
                        in if k = -1 then v\<lparr>flush_active := False, dc_state := DcIdle\<rparr>
                           else v\<lparr>flush_index := k + 1, dc_state := FlushScan\<rparr>)
                  else if writeback_resume_bypass s
                  then u\<lparr>dc_valid := (dc_valid s)(k := False), writeback_resume_bypass := False, dc_state := BypassReq\<rparr>
                  else u\<lparr>dc_state := LoadFillReq\<rparr>)
         else t\<lparr>writeback_word := writeback_word s + 1\<rparr>)"

definition dc_scan :: "dcache \<Rightarrow> dcache \<Rightarrow> dcache" where
  "dc_scan s t =
     (let k = flush_index s
      in if \<not> flush_active s then t\<lparr>dc_state := DcIdle\<rparr>
         else if dc_valid s k \<and> dc_dirty s k
         then t\<lparr>writeback_line_addr := victim_line_addr s k, writeback_index := k, writeback_word := 0,
                writeback_resume_bypass := False, writeback_resume_flush := True, dc_state := WritebackReq\<rparr>
         else (let u = t\<lparr>dc_valid := (dc_valid s)(k := False), dc_dirty := (dc_dirty s)(k := False)\<rparr>
               in if k = -1 then u\<lparr>flush_active := False, dc_state := DcIdle\<rparr> else u\<lparr>flush_index := k + 1\<rparr>))"

definition dc_step :: "bool \<Rightarrow> dc_in \<Rightarrow> dcache \<Rightarrow> dcache" where
  "dc_step wb i s =
     (let t = dc_drain wb i s;
          t = (if invalidate i \<and> \<not> flush_active s then dc_start_flush wb s t else t)
      in if invalidate i then t
         else case dc_state s of
           DcIdle \<Rightarrow>
             if flush_active s then (if store_buffer_count t = 0 then t\<lparr>dc_state := FlushScan\<rparr> else t)
             else (case dc_accept wb i s of Some r \<Rightarrow> dc_request wb i r s t | None \<Rightarrow> t)
         | LoadFillReq \<Rightarrow> if dm_ready i then t\<lparr>dc_state := LoadFillWait\<rparr> else t
         | LoadFillWait \<Rightarrow> if dm_rvalid i then dc_fill_word i s t else t
         | WritebackReq \<Rightarrow> if dm_ready i then dc_written_back s t else t
         | FlushScan \<Rightarrow> dc_scan s t
         | BypassReq \<Rightarrow> if dm_ready i then t\<lparr>dc_state := (if r_wen (saved s) \<and> \<not> r_is_amo (saved s) then DcIdle else BypassWait)\<rparr> else t
         | BypassWait \<Rightarrow>
             if dm_rvalid i
             then (if \<not> r_wen (saved s) \<or> r_is_amo (saved s)
                   then t\<lparr>rsp_data_q := dm_rdata i, rsp_valid_q := True, dc_state := DcResponse\<rparr> else t\<lparr>dc_state := DcIdle\<rparr>)
             else t
         | DcResponse \<Rightarrow> t\<lparr>dc_state := DcIdle\<rparr>)"

end
