(* ===== verification/DcacheProof.thy ===== *)
theory DcacheProof
  imports Dcache
begin

text \<open>
  The write-through data cache between the core and memory: runs, the invariant, and the properties.
  \<open>core_view\<close> is memory as the core's accepted stores and passed-through accesses make it, one after
  another; the cache, its buffer and memory are shown to present exactly that to the core.
\<close>

section \<open>Runs\<close>

text \<open>
  The environment of a cycle: memory takes a request only when none is unanswered or with the answer,
  answers once, and answers a plain read of RAM with the word. What an atomic leaves in its word
  (\<open>new\<close>) and what it or a device answers (\<open>res\<close>) is left open. The core does not have a request taken
  in a cycle of invalidation, nor memory a passed-through one.
\<close>

record dc_env =
  memory_now :: "u64 \<Rightarrow> u64"
  core_view :: "u64 \<Rightarrow> u64"
  pending :: "u64 option"
  want :: "bus_req option"
  reply :: "u64 option"
  asked_by :: "bus_req list"
  passed :: "bus_req list"

definition mem_effect :: "u64 \<Rightarrow> bus_req \<Rightarrow> (u64 \<Rightarrow> u64) \<Rightarrow> u64 \<Rightarrow> u64" where
  "mem_effect new q M =
     (let b = beat_addr (r_addr q)
      in if r_is_amo q then M(b := new) else if r_wen q then M(b := merge_word (M b) (r_wdata q) (r_wmask q)) else M)"

definition passes :: "bus_req \<Rightarrow> bool" where
  "passes q \<longleftrightarrow> r_is_amo q \<or> \<not> is_ram (r_addr q)"

definition fired :: "dc_in \<Rightarrow> dcache \<Rightarrow> bus_req option" where
  "fired i s = (if dm_ready i then dc_mem_request False i s else None)"

definition dc_env_ok :: "dc_in \<Rightarrow> u64 \<Rightarrow> dcache \<Rightarrow> dc_env \<Rightarrow> bool" where
  "dc_env_ok i res s g \<longleftrightarrow>
     (dm_rvalid i \<longrightarrow> pending g = Some (dm_rdata i)) \<and>
     (dm_ready i \<longrightarrow> pending g = None \<or> dm_rvalid i) \<and>
     (case fired i s of
        Some q \<Rightarrow> \<not> passes q \<and> \<not> r_wen q \<longrightarrow> res = memory_now g (beat_addr (r_addr q)) | None \<Rightarrow> True) \<and>
     (invalidate i \<longrightarrow> dc_accept False i s = None \<and> \<not> (dc_state s = BypassReq \<and> dm_ready i))"

definition dc_env_step :: "dc_in \<Rightarrow> u64 \<Rightarrow> u64 \<Rightarrow> dcache \<Rightarrow> dc_env \<Rightarrow> dc_env" where
  "dc_env_step i new res s g =
     (let f = fired i s; p = (case f of Some q \<Rightarrow> if passes q then Some q else None | None \<Rightarrow> None); a = dc_accept False i s;
          view = (case p of Some q \<Rightarrow> mem_effect new q (core_view g) | None \<Rightarrow> core_view g)
      in \<lparr>memory_now = (case f of Some q \<Rightarrow> mem_effect new q (memory_now g) | None \<Rightarrow> memory_now g),
          core_view = (case a of Some r \<Rightarrow> if dc_cacheable r then mem_effect new r view else view | None \<Rightarrow> view),
          pending = (if f \<noteq> None then Some res else if dm_rvalid i then None else pending g),
          want = (case a of Some r \<Rightarrow> if r_is_amo r \<or> \<not> r_wen r then Some r else want g
                  | None \<Rightarrow> if rsp_valid_q s then None else want g),
          reply = (if p \<noteq> None then Some res else reply g),
          asked_by = asked_by g @ (case a of Some r \<Rightarrow> if dc_cacheable r then [] else [r] | None \<Rightarrow> []),
          passed = passed g @ (case p of Some q \<Rightarrow> [q] | None \<Rightarrow> [])\<rparr>)"

inductive dc_reach :: "dcache \<Rightarrow> dc_env \<Rightarrow> bool" where
  start: "dc_reach (dc_reset s) \<lparr>memory_now = M, core_view = M, pending = None, want = None, reply = None,
            asked_by = [], passed = []\<rparr>"
| edge: "dc_reach s g \<Longrightarrow> dc_env_ok i res s g \<Longrightarrow> dc_reach (dc_step False i s) (dc_env_step i new res s g)"


section \<open>Addresses\<close>

lemma line_of_shift: "line_of t k = push_bit 5 (push_bit 7 (ucast t) OR ucast k)"
  unfolding line_of_def by (rule bit_word_eqI) (auto simp: bit_simps)

lemma word_of_line_bits: "word_of_line (line_of t k) w = push_bit 12 (ucast t) OR push_bit 5 (ucast k) OR push_bit 3 (ucast w)"
  unfolding line_of_shift word_of_line_or by (rule bit_word_eqI) (auto simp: bit_simps)

lemma word_parts [simp]:
  "line_index (word_of_line (line_of t k) w) = k" "line_tag (word_of_line (line_of t k) w) = t"
  "word_offset (word_of_line (line_of t k) w) = w" "beat_addr (word_of_line (line_of t k) w) = word_of_line (line_of t k) w"
  unfolding word_of_line_bits line_index_def line_tag_def word_offset_def beat_addr_def
  by (rule bit_word_eqI, auto simp: bit_simps dest: bit_imp_le_length)+

lemma beat_addr_parts [simp]:
  "line_index (beat_addr a) = line_index a" "line_tag (beat_addr a) = line_tag a" "word_offset (beat_addr a) = word_offset a"
  "beat_addr (beat_addr a) = beat_addr a"
  unfolding line_index_def line_tag_def word_offset_def beat_addr_def
  by (rule bit_word_eqI, auto simp: bit_simps)+

lemma word_is_beat:
  "word_of_line (line_of t k) w = beat_addr a \<longleftrightarrow> k = line_index a \<and> t = line_tag a \<and> w = word_offset a"
  by (metis beat_addr_parts(1-3) beat_parts line_parts word_parts(1-3))

lemma is_ram_top: "is_ram a \<longleftrightarrow> drop_bit 24 a = 0x80"
proof -
  have "drop_bit 24 a = 0x80 \<longleftrightarrow> unat a div 2 ^ 24 = 0x80"
    by (simp add: word_unat_eq_iff unat_drop_bit_eq) (simp add: drop_bit_eq_div)
  also have "\<dots> \<longleftrightarrow> 0x80000000 \<le> unat a \<and> unat a < 0x81000000" by auto
  finally show ?thesis by (simp add: is_ram_def MMAP_RAM_BEGIN_def MMAP_RAM_END_def word_le_nat_alt word_less_nat_alt)
qed

lemma ram_line: "is_ram (word_of_line (line_addr a) w) \<longleftrightarrow> is_ram a"
proof -
  have "drop_bit 24 (word_of_line (line_addr a) w) = drop_bit 24 a"
    unfolding line_addr_def word_of_line_or by (rule bit_word_eqI) (auto simp: bit_simps dest: bit_imp_le_length)
  then show ?thesis by (simp add: is_ram_top)
qed

lemma ram_beat [simp]: "is_ram (beat_addr a) \<longleftrightarrow> is_ram a"
  using ram_line [of a "word_offset a"] by (simp add: beat_parts)



section \<open>The store buffer\<close>

definition entries :: "dcache \<Rightarrow> sb_entry list" where
  "entries s = map (sb_slot s) [0 ..< store_buffer_count s]"

definition drained :: "sb_entry list \<Rightarrow> (u64 \<Rightarrow> u64) \<Rightarrow> u64 \<Rightarrow> u64" where
  "drained es M = fold (\<lambda>e. mem_effect 0 (store_request e)) es M"

lemma drained_simps [simp]:
  "drained [] M = M" "drained (e # es) M = drained es (mem_effect 0 (store_request e) M)"
  "drained (es @ [e]) M = mem_effect 0 (store_request e) (drained es M)"
  by (simp_all add: drained_def)

lemma store_request_simps [simp]:
  "r_addr (store_request e) = sb_addr e" "r_wen (store_request e)" "\<not> r_is_amo (store_request e)"
  "r_wdata (store_request e) = sb_wdata e" "r_wmask (store_request e) = sb_wmask e"
  by (simp_all add: store_request_def zero_req_def)

lemma effect_not_amo: "\<not> r_is_amo q \<Longrightarrow> mem_effect new q M = mem_effect 0 q M"
  by (simp add: mem_effect_def Let_def)

lemma entries_none [simp]: "store_buffer_count s = 0 \<Longrightarrow> entries s = []"
  by (simp add: entries_def)

lemma entries_cong:
  "store_buffer s' = store_buffer s \<Longrightarrow> store_buffer_head s' = store_buffer_head s \<Longrightarrow>
   store_buffer_count s' = store_buffer_count s \<Longrightarrow> entries s' = entries s"
  by (simp add: entries_def sb_slot_def)

lemma entries_head:
  "store_buffer_count s \<noteq> 0 \<Longrightarrow> entries s = store_buffer s (store_buffer_head s) # tl (entries s)"
  by (cases "store_buffer_count s") (simp_all add: entries_def sb_slot_def upt_conv_Cons del: upt_Suc)

lemma entries_pop:
  assumes "store_buffer_count s \<noteq> 0" "store_buffer s' = store_buffer s" "store_buffer_head s' = store_buffer_head s + 1"
    "store_buffer_count s' = store_buffer_count s - 1"
  shows "entries s' = tl (entries s)"
proof -
  obtain n where n: "store_buffer_count s = Suc n" using assms(1) by (cases "store_buffer_count s") auto
  have "entries s = map (sb_slot s) (0 # map Suc [0 ..< n])" unfolding entries_def n by (simp add: map_Suc_upt upt_conv_Cons del: upt_Suc)
  moreover have "sb_slot s' i = sb_slot s (Suc i)" for i using assms by (simp add: sb_slot_def algebra_simps)
  ultimately show ?thesis using assms n by (simp add: entries_def)
qed

lemma entries_push:
  assumes "store_buffer_count t \<le> 3" "store_buffer_tail t = store_buffer_head t + of_nat (store_buffer_count t)"
    "store_buffer s' = (store_buffer t)(store_buffer_tail t := e)" "store_buffer_head s' = store_buffer_head t"
    "store_buffer_count s' = store_buffer_count t + 1"
  shows "entries s' = entries t @ [e]"
proof -
  have "(of_nat i :: 2 word) \<noteq> of_nat (store_buffer_count t)" if "i < store_buffer_count t" for i
    using that assms(1) by (simp add: word_unat_eq_iff unat_of_nat)
  then have "sb_slot s' i = sb_slot t i" if "i < store_buffer_count t" for i
    using that assms by (simp add: sb_slot_def)
  moreover have "sb_slot s' (store_buffer_count t) = e" using assms by (simp add: sb_slot_def)
  ultimately show ?thesis using assms(5) by (simp add: entries_def)
qed


section \<open>The invariant\<close>

definition dc_lines_ok :: "dcache \<Rightarrow> (u64 \<Rightarrow> u64) \<Rightarrow> bool" where
  "dc_lines_ok s view \<longleftrightarrow>
     (\<forall>k w. dc_valid s k \<longrightarrow> is_ram (word_of_line (line_of (dc_tags s k) k) w) \<and>
        dc_data s k w = view (word_of_line (line_of (dc_tags s k) k) w))"

definition dc_buffer_ok :: "dcache \<Rightarrow> dc_env \<Rightarrow> bool" where
  "dc_buffer_ok s g \<longleftrightarrow> store_buffer_count s \<le> 4 \<and>
     store_buffer_tail s = store_buffer_head s + of_nat (store_buffer_count s) \<and>
     (\<forall>e \<in> set (entries s). is_ram (sb_addr e)) \<and> drained (entries s) (memory_now g) = core_view g"

definition dc_answer_ok :: "dcache \<Rightarrow> dc_env \<Rightarrow> bool" where
  "dc_answer_ok s g \<longleftrightarrow>
     (rsp_valid_q s \<longrightarrow> (\<exists>r. want g = Some r \<and>
        (if passes r then reply g = Some (rsp_data_q s) else rsp_data_q s = core_view g (beat_addr (r_addr r)))))"

definition dc_fill_addr :: "dcache \<Rightarrow> u64" where
  "dc_fill_addr s = word_of_line (fill_line_addr s) (fill_next_word s)"

definition dc_fill_ok :: "dcache \<Rightarrow> dc_env \<Rightarrow> bool" where
  "dc_fill_ok s g \<longleftrightarrow> store_buffer_count s = 0 \<and> unat (fill_count s) \<le> 3 \<and>
     fill_next_word s = fill_response_word s + of_nat (unat (fill_count s)) \<and>
     fill_line_addr s = line_of (fill_tag s) (fill_index s) \<and> (\<forall>w. is_ram (word_of_line (fill_line_addr s) w)) \<and>
     (fill_allocate s \<longrightarrow>
        (\<forall>w. fill_word_valid s w \<longleftrightarrow> unat (w - fill_response_word s) < unat (fill_count s)) \<and>
        (\<forall>w. fill_word_valid s w \<longrightarrow> fill_data s w = core_view g (word_of_line (fill_line_addr s) w))) \<and>
     (fill_count s = 0 \<longrightarrow> \<not> rsp_valid_q s \<and>
        (\<exists>r. want g = Some r \<and> \<not> passes r \<and> beat_addr (r_addr r) = word_of_line (fill_line_addr s) (fill_response_word s)))"

definition dc_pass_ok :: "dcache \<Rightarrow> dc_env \<Rightarrow> bool" where
  "dc_pass_ok s g \<longleftrightarrow> store_buffer_count s = 0 \<and> \<not> rsp_valid_q s \<and> passes (saved s) \<and>
     (r_is_amo (saved s) \<or> \<not> r_wen (saved s) \<longrightarrow> want g = Some (saved s))"

definition dc_inv :: "dcache \<Rightarrow> dc_env \<Rightarrow> bool" where
  "dc_inv s g \<longleftrightarrow> \<not> flush_active s \<and> dc_lines_ok s (core_view g) \<and> dc_buffer_ok s g \<and> dc_answer_ok s g \<and>
     (case dc_state s of
        DcIdle \<Rightarrow> passed g = asked_by g
      | DcResponse \<Rightarrow> passed g = asked_by g
      | LoadFillReq \<Rightarrow> passed g = asked_by g \<and> dc_fill_ok s g
      | LoadFillWait \<Rightarrow> passed g = asked_by g \<and> dc_fill_ok s g \<and>
          (\<forall>v. pending g = Some v \<longrightarrow> v = core_view g (dc_fill_addr s))
      | BypassReq \<Rightarrow> asked_by g = passed g @ [saved s] \<and> dc_pass_ok s g \<and>
          (is_ram (r_addr (saved s)) \<longrightarrow> \<not> line_present s (r_addr (saved s)))
      | BypassWait \<Rightarrow> passed g = asked_by g \<and> dc_pass_ok s g \<and> (r_is_amo (saved s) \<or> \<not> r_wen (saved s)) \<and>
          (\<forall>v. pending g = Some v \<longrightarrow> reply g = Some v)
      | _ \<Rightarrow> False)"



section \<open>Lines and effects\<close>

lemma passes_cacheable: "passes r \<longleftrightarrow> \<not> dc_cacheable r"
  by (auto simp: passes_def dc_cacheable_def)

lemma lines_other:
  assumes "dc_lines_ok s view" "\<not> (is_ram a \<and> line_present s a)"
  shows "dc_lines_ok s (view(beat_addr a := x))"
  unfolding dc_lines_ok_def
proof (intro allI impI)
  fix k w assume v: "dc_valid s k"
  then have r: "is_ram (word_of_line (line_of (dc_tags s k) k) w)"
    and d: "dc_data s k w = view (word_of_line (line_of (dc_tags s k) k) w)" using assms(1) by (auto simp: dc_lines_ok_def)
  have "word_of_line (line_of (dc_tags s k) k) w \<noteq> beat_addr a"
  proof
    assume eq: "word_of_line (line_of (dc_tags s k) k) w = beat_addr a"
    then have "line_present s a" using v unfolding word_is_beat line_present_def by auto
    moreover have "is_ram a" using r unfolding eq by simp
    ultimately show False using assms(2) by blast
  qed
  then show "is_ram (word_of_line (line_of (dc_tags s k) k) w) \<and>
      dc_data s k w = (view(beat_addr a := x)) (word_of_line (line_of (dc_tags s k) k) w)" using r d by simp
qed

lemma lines_effect:
  "dc_lines_ok s view \<Longrightarrow> \<not> (is_ram (r_addr q) \<and> line_present s (r_addr q)) \<Longrightarrow> dc_lines_ok s (mem_effect new q view)"
  by (simp add: mem_effect_def Let_def lines_other)

lemma lines_cong:
  "dc_lines_ok s view \<Longrightarrow> dc_valid s' = dc_valid s \<Longrightarrow> dc_tags s' = dc_tags s \<Longrightarrow> dc_data s' = dc_data s \<Longrightarrow> dc_lines_ok s' view"
  by (simp add: dc_lines_ok_def)

lemma lines_fewer:
  "dc_lines_ok s view \<Longrightarrow> (\<And>k. dc_valid s' k \<Longrightarrow> dc_valid s k) \<Longrightarrow> dc_tags s' = dc_tags s \<Longrightarrow> dc_data s' = dc_data s \<Longrightarrow>
   dc_lines_ok s' view"
  by (simp add: dc_lines_ok_def)

lemma hit_word:
  "dc_lines_ok s view \<Longrightarrow> line_present s a \<Longrightarrow> dc_data s (line_index a) (word_offset a) = view (beat_addr a)"
  unfolding dc_lines_ok_def line_present_def by (metis beat_parts line_parts)

lemma lines_store_hit:
  assumes l: "dc_lines_ok s view" and h: "line_present s (r_addr r)" and w: "r_wen r" "\<not> r_is_amo r"
    and s': "dc_valid s' = dc_valid s" "dc_tags s' = dc_tags s"
      "dc_data s' = (let k = line_index (r_addr r); w = word_offset (r_addr r)
         in (dc_data s)(k := (dc_data s k)(w := merge_word (dc_data s k w) (r_wdata r) (r_wmask r))))"
  shows "dc_lines_ok s' (mem_effect new r view)"
  unfolding dc_lines_ok_def s'(1,2)
proof (intro allI impI)
  fix k w assume v: "dc_valid s k"
  let ?a = "word_of_line (line_of (dc_tags s k) k) w"
  have r: "is_ram ?a" and d: "dc_data s k w = view ?a" using l v by (auto simp: dc_lines_ok_def)
  have e: "mem_effect new r view = view(beat_addr (r_addr r) := merge_word (view (beat_addr (r_addr r))) (r_wdata r) (r_wmask r))"
    using w by (simp add: mem_effect_def Let_def)
  have t: "dc_tags s (line_index (r_addr r)) = line_tag (r_addr r)" using h by (simp add: line_present_def)
  show "is_ram ?a \<and> dc_data s' k w = mem_effect new r view ?a"
  proof (cases "?a = beat_addr (r_addr r)")
    case True
    then have kw: "k = line_index (r_addr r)" "w = word_offset (r_addr r)" unfolding word_is_beat by simp_all
    then show ?thesis using r d True by (simp add: e s'(3) Let_def)
  next
    case False
    then have "\<not> (k = line_index (r_addr r) \<and> w = word_offset (r_addr r))" using t unfolding word_is_beat by auto
    then show ?thesis using r d False by (auto simp: e s'(3) Let_def)
  qed
qed


section \<open>What memory takes\<close>

lemma accept_ready: "dc_accept False i s = Some r \<Longrightarrow> cpu i = Some r \<and> dc_cpu_ready False i s r"
  by (auto simp: dc_accept_def split: option.splits if_splits)

lemma accept_idle: "dc_accept False i s = Some r \<Longrightarrow> dc_state s = DcIdle \<and> \<not> rsp_valid_q s"
  by (auto dest!: accept_ready simp: dc_cpu_ready_def)

lemma accept_reads:
  assumes "dc_accept False i s = Some r" "\<not> (dc_cacheable r \<and> r_wen r)"
  shows "\<not> store_buffer_issue_valid False i s" "\<not> cache_hit s r \<Longrightarrow> store_buffer_count s = 0"
  using accept_ready [OF assms(1)] assms(2)
  by (auto simp: dc_cpu_ready_def store_buffer_issue_valid_def load_can_bypass_def)

lemma fired_idle:
  assumes "dc_state s = DcIdle"
  shows "fired i s =
    (if store_buffer_issue_fire False i s then Some (store_request (store_buffer s (store_buffer_head s)))
     else case dc_accept False i s of Some r \<Rightarrow> if passes r \<and> dm_ready i then Some r else None | None \<Rightarrow> None)"
  using assms by (auto simp: fired_def dc_mem_request_def store_buffer_issue_fire_def passes_cacheable dc_cacheable_def split: option.splits)

lemma drain_frame [simp]:
  "dc_state (dc_drain wb i s) = dc_state s" "dc_valid (dc_drain wb i s) = dc_valid s" "dc_tags (dc_drain wb i s) = dc_tags s"
  "dc_data (dc_drain wb i s) = dc_data s" "saved (dc_drain wb i s) = saved s" "fill_line_addr (dc_drain wb i s) = fill_line_addr s"
  "fill_index (dc_drain wb i s) = fill_index s" "fill_tag (dc_drain wb i s) = fill_tag s"
  "fill_next_word (dc_drain wb i s) = fill_next_word s" "fill_response_word (dc_drain wb i s) = fill_response_word s"
  "fill_count (dc_drain wb i s) = fill_count s" "fill_word_valid (dc_drain wb i s) = fill_word_valid s"
  "fill_data (dc_drain wb i s) = fill_data s" "fill_allocate (dc_drain wb i s) = fill_allocate s"
  "\<not> rsp_valid_q (dc_drain wb i s)" "flush_active (dc_drain wb i s) = flush_active s"
  "store_buffer (dc_drain wb i s) = store_buffer s" "store_buffer_tail (dc_drain wb i s) = store_buffer_tail s"
  by (auto simp: dc_drain_def Let_def)

lemma drain_idle_only:
  assumes "\<not> store_buffer_issue_fire wb i s"
  shows "store_buffer_head (dc_drain wb i s) = store_buffer_head s" "store_buffer_count (dc_drain wb i s) = store_buffer_count s"
  using assms by (simp_all add: dc_drain_def Let_def)

lemma no_issue: "dc_state s \<noteq> DcIdle \<Longrightarrow> \<not> store_buffer_issue_fire wb i s"
  by (simp add: store_buffer_issue_fire_def store_buffer_issue_valid_def)

text \<open>The drain moves the oldest entry to memory: the buffer over memory shows the same words.\<close>

lemma drain_buffer:
  assumes "dc_buffer_ok s g"
    and M: "memory_now g' = (if store_buffer_issue_fire False i s
              then mem_effect 0 (store_request (store_buffer s (store_buffer_head s))) (memory_now g) else memory_now g)"
    and v: "core_view g' = core_view g"
  shows "dc_buffer_ok (dc_drain False i s) g'"
proof (cases "store_buffer_issue_fire False i s")
  case True
  then have n: "store_buffer_count s \<noteq> 0" by (auto simp: store_buffer_issue_fire_def store_buffer_issue_valid_def)
  have d: "store_buffer_head (dc_drain False i s) = store_buffer_head s + 1" "store_buffer_count (dc_drain False i s) = store_buffer_count s - 1"
    using True by (simp_all add: dc_drain_def Let_def)
  have e: "entries (dc_drain False i s) = tl (entries s)" using n d by (intro entries_pop) simp_all
  have "of_nat (store_buffer_count s) = (1 :: 2 word) + of_nat (store_buffer_count s - 1)"
    using n by (metis of_nat_Suc Suc_pred neq0_conv One_nat_def)
  then show ?thesis using assms(1) M v d e True entries_head [OF n]
    by (auto simp: dc_buffer_ok_def dest: list.set_sel(2) [rotated]) (metis drained_simps(2))
next
  case False
  have "entries (dc_drain False i s) = entries s" using drain_idle_only [OF False] by (intro entries_cong) simp_all
  then show ?thesis using assms False drain_idle_only [OF False] by (simp add: dc_buffer_ok_def)
qed



section \<open>One edge\<close>

lemma env_step_simps:
  "core_view (dc_env_step i new res s g) =
     (let view = (case fired i s of Some q \<Rightarrow> if passes q then mem_effect new q (core_view g) else core_view g | None \<Rightarrow> core_view g)
      in case dc_accept False i s of Some r \<Rightarrow> if dc_cacheable r then mem_effect new r view else view | None \<Rightarrow> view)"
  "memory_now (dc_env_step i new res s g) = (case fired i s of Some q \<Rightarrow> mem_effect new q (memory_now g) | None \<Rightarrow> memory_now g)"
  "pending (dc_env_step i new res s g) = (if fired i s \<noteq> None then Some res else if dm_rvalid i then None else pending g)"
  "want (dc_env_step i new res s g) =
     (case dc_accept False i s of Some r \<Rightarrow> if r_is_amo r \<or> \<not> r_wen r then Some r else want g
      | None \<Rightarrow> if rsp_valid_q s then None else want g)"
  "reply (dc_env_step i new res s g) = (case fired i s of Some q \<Rightarrow> if passes q then Some res else reply g | None \<Rightarrow> reply g)"
  "asked_by (dc_env_step i new res s g) =
     asked_by g @ (case dc_accept False i s of Some r \<Rightarrow> if dc_cacheable r then [] else [r] | None \<Rightarrow> [])"
  "passed (dc_env_step i new res s g) = passed g @ (case fired i s of Some q \<Rightarrow> if passes q then [q] else [] | None \<Rightarrow> [])"
  by (auto simp: dc_env_step_def Let_def split: option.splits)

text \<open>A cycle in which nothing the core asked for reaches memory, and the core has no store taken.\<close>

lemma view_same:
  assumes "dc_accept False i s = None \<or> (\<exists>r. dc_accept False i s = Some r \<and> dc_cacheable r \<and> \<not> r_wen r)"
    and "fired i s = None \<or> (\<exists>q. fired i s = Some q \<and> \<not> passes q)"
  shows "core_view (dc_env_step i new res s g) = core_view g" "reply (dc_env_step i new res s g) = reply g"
    "passed (dc_env_step i new res s g) = passed g" "asked_by (dc_env_step i new res s g) = asked_by g"
  using assms by (auto simp: env_step_simps Let_def mem_effect_def dc_cacheable_def split: option.splits)

lemma head_ram:
  assumes "dc_buffer_ok s g" "store_buffer_issue_fire False i s"
  shows "\<not> passes (store_request (store_buffer s (store_buffer_head s)))"
proof -
  have "store_buffer_count s \<noteq> 0" using assms(2) by (auto simp: store_buffer_issue_fire_def store_buffer_issue_valid_def)
  then have "store_buffer s (store_buffer_head s) \<in> set (entries s)" by (metis entries_head list.set_intros(1))
  then show ?thesis using assms(1) by (auto simp: dc_buffer_ok_def passes_def)
qed

lemma drain_memory:
  assumes "dc_buffer_ok s g" "dc_state s = DcIdle" "\<And>r. dc_accept False i s = Some r \<Longrightarrow> \<not> (passes r \<and> dm_ready i)"
  shows "memory_now (dc_env_step i new res s g) = (if store_buffer_issue_fire False i s
      then mem_effect 0 (store_request (store_buffer s (store_buffer_head s))) (memory_now g) else memory_now g)"
    "fired i s = None \<or> (\<exists>q. fired i s = Some q \<and> \<not> passes q)"
proof -
  have f: "fired i s = (if store_buffer_issue_fire False i s then Some (store_request (store_buffer s (store_buffer_head s))) else None)"
    using assms(3) unfolding fired_idle [OF assms(2)] by (auto split: option.splits)
  show "memory_now (dc_env_step i new res s g) = (if store_buffer_issue_fire False i s
      then mem_effect 0 (store_request (store_buffer s (store_buffer_head s))) (memory_now g) else memory_now g)"
    using effect_not_amo [of "store_request (store_buffer s (store_buffer_head s))" new "memory_now g"]
    by (simp add: env_step_simps f)
  show "fired i s = None \<or> (\<exists>q. fired i s = Some q \<and> \<not> passes q)"
    using head_ram [OF assms(1), of i] by (simp add: f)
qed

text \<open>Outside \<open>DcIdle\<close> the buffer is as it was; a fill's read of RAM leaves memory as it is.\<close>

lemma fill_fired:
  assumes "dc_state s = LoadFillReq" "dc_fill_ok s g"
  shows "fired i s = (if dm_ready i then Some (read_request (dc_fill_addr s)) else None)"
    "\<not> passes (read_request (dc_fill_addr s))" "mem_effect new (read_request (dc_fill_addr s)) M = M"
    "beat_addr (r_addr (read_request (dc_fill_addr s))) = dc_fill_addr s"
  using assms
  by (auto simp: fired_def dc_mem_request_def dc_fill_addr_def word_of_line_def dc_fill_ok_def passes_def read_request_def
      zero_req_def mem_effect_def Let_def simp flip: word_of_line_def)

lemma quiet_fired: "dc_state s \<in> {LoadFillWait, BypassWait, DcResponse} \<Longrightarrow> fired i s = None"
  by (auto simp: fired_def dc_mem_request_def)

lemma buffer_kept:
  assumes "dc_buffer_ok s g" "store_buffer s' = store_buffer s" "store_buffer_head s' = store_buffer_head s"
    "store_buffer_tail s' = store_buffer_tail s" "store_buffer_count s' = store_buffer_count s"
    "memory_now g' = memory_now g" "core_view g' = core_view g"
  shows "dc_buffer_ok s' g'"
  using assms entries_cong [of s' s] by (simp add: dc_buffer_ok_def)


lemma busy_no_accept: "dc_state s \<noteq> DcIdle \<Longrightarrow> dc_accept False i s = None"
  using accept_idle by (cases "dc_accept False i s") auto

lemma no_lines: "dc_valid s = (\<lambda>k. False) \<Longrightarrow> dc_lines_ok s view"
  by (simp add: dc_lines_ok_def)

lemma no_answer: "\<not> rsp_valid_q s \<Longrightarrow> dc_answer_ok s g"
  by (simp add: dc_answer_ok_def)

lemma fill_ok_kept:
  assumes ok: "dc_fill_ok s g"
    and same: "store_buffer_count s' = store_buffer_count s" "fill_count s' = fill_count s" "fill_next_word s' = fill_next_word s"
      "fill_response_word s' = fill_response_word s" "fill_line_addr s' = fill_line_addr s" "fill_tag s' = fill_tag s"
      "fill_index s' = fill_index s"
    and data: "fill_allocate s' \<Longrightarrow> fill_allocate s \<and> fill_word_valid s' = fill_word_valid s \<and> fill_data s' = fill_data s"
    and rest: "\<not> rsp_valid_q s'" "want g' = (if rsp_valid_q s then None else want g)" "core_view g' = core_view g"
  shows "dc_fill_ok s' g'"
  using ok data rest unfolding dc_fill_ok_def same by fastforce

lemma dc_inv_invalidated:
  assumes inv: "dc_inv s g" and env: "dc_env_ok i res s g" and iv: "invalidate i"
  shows "dc_inv (dc_step False i s) (dc_env_step i new res s g)"
proof -
  let ?g = "dc_env_step i new res s g" and ?s = "dc_step False i s"
  have nf: "\<not> flush_active s" and buf: "dc_buffer_ok s g" using inv by (simp_all add: dc_inv_def)
  have s: "?s = (dc_drain False i s)\<lparr>fill_word_valid := (\<lambda>w. False), fill_allocate := False, dc_valid := (\<lambda>k. False),
      dc_dirty := (\<lambda>k. False)\<rparr>"
    using iv nf by (simp add: dc_step_def dc_start_flush_def Let_def)
  have a: "dc_accept False i s = None" and br: "\<not> (dc_state s = BypassReq \<and> dm_ready i)" using env iv by (auto simp: dc_env_ok_def)
  have ff: "fired i s = None \<or> (\<exists>q. fired i s = Some q \<and> \<not> passes q)" "dc_buffer_ok ?s ?g"
  proof -
    show 1: "fired i s = None \<or> (\<exists>q. fired i s = Some q \<and> \<not> passes q)"
    proof (cases "dc_state s")
      case DcIdle
      then show ?thesis using a by (intro drain_memory(2) [OF buf]) auto
    next
      case LoadFillReq
      then show ?thesis using fill_fired [of s g] inv by (auto simp: dc_inv_def)
    next
      case BypassReq
      then show ?thesis using br by (simp add: fired_def)
    qed (use inv quiet_fired in \<open>auto simp: dc_inv_def\<close>)
    have v: "core_view ?g = core_view g" using view_same(1) [OF _ 1] a by simp
    have "memory_now ?g = (if store_buffer_issue_fire False i s
        then mem_effect 0 (store_request (store_buffer s (store_buffer_head s))) (memory_now g) else memory_now g)"
    proof (cases "dc_state s")
      case DcIdle
      then show ?thesis using a by (intro drain_memory(1) [OF buf]) auto
    next
      case LoadFillReq
      then show ?thesis using fill_fired [of s g] inv no_issue [of s] by (auto simp: dc_inv_def env_step_simps)
    next
      case BypassReq
      then show ?thesis using br no_issue [of s] by (simp add: env_step_simps fired_def)
    qed (use inv quiet_fired no_issue in \<open>auto simp: dc_inv_def env_step_simps\<close>)
    then have "dc_buffer_ok (dc_drain False i s) ?g" by (rule drain_buffer [OF buf _ v])
    then show "dc_buffer_ok ?s ?g" by (rule buffer_kept) (simp_all add: s)
  qed
  note same = view_same [OF disjI1 [OF a] ff(1), of new res g]
  have w: "want ?g = (if rsp_valid_q s then None else want g)" using a by (simp add: env_step_simps)
  have st: "dc_state s \<noteq> DcIdle \<Longrightarrow> store_buffer_count ?s = store_buffer_count s"
    using drain_idle_only(2) [OF no_issue] by (simp add: s)
  have "dc_fill_ok ?s ?g" if "dc_fill_ok s g" "dc_state s \<noteq> DcIdle"
    using that st w by (intro fill_ok_kept [OF that(1)]) (simp_all add: s same)
  moreover have "dc_pass_ok ?s ?g" if "dc_pass_ok s g" "dc_state s \<noteq> DcIdle"
    using that st w by (simp add: dc_pass_ok_def s)
  moreover have "dc_fill_addr ?s = dc_fill_addr s" by (simp add: s dc_fill_addr_def)
  moreover have "dc_lines_ok ?s (core_view ?g)" "dc_answer_ok ?s ?g" by (simp_all add: s no_lines no_answer)
  ultimately show ?thesis using inv ff(2) same nf quiet_fired [of s]
    by (cases "dc_state s") (auto simp: dc_inv_def s env_step_simps(3) line_present_def split: if_splits)
qed


lemma buffer_busy:
  assumes "dc_buffer_ok s g" "dc_state s \<noteq> DcIdle" "memory_now g' = memory_now g" "core_view g' = core_view g"
    "store_buffer s' = store_buffer s" "store_buffer_head s' = store_buffer_head (dc_drain False i s)"
    "store_buffer_tail s' = store_buffer_tail s" "store_buffer_count s' = store_buffer_count (dc_drain False i s)"
  shows "dc_buffer_ok s' g'"
  using assms drain_idle_only [OF no_issue [OF assms(2)], of False i] by (intro buffer_kept [OF assms(1)]) simp_all

lemma dc_inv_fill_req:
  assumes inv: "dc_inv s g" and env: "dc_env_ok i res s g" and ni: "\<not> invalidate i" and st: "dc_state s = LoadFillReq"
  shows "dc_inv (dc_step False i s) (dc_env_step i new res s g)"
proof -
  let ?g = "dc_env_step i new res s g" and ?s = "dc_step False i s"
  have ok: "dc_fill_ok s g" "dc_buffer_ok s g" "dc_lines_ok s (core_view g)" "\<not> flush_active s" "passed g = asked_by g"
    using inv st by (simp_all add: dc_inv_def)
  have s: "?s = (if dm_ready i then (dc_drain False i s)\<lparr>dc_state := LoadFillWait\<rparr> else dc_drain False i s)"
    using st ni by (simp add: dc_step_def Let_def)
  note f = fill_fired [OF st ok(1)]
  have a: "dc_accept False i s = None" using st by (simp add: busy_no_accept)
  have ff: "fired i s = None \<or> (\<exists>q. fired i s = Some q \<and> \<not> passes q)" using f(1,2) by simp
  note same = view_same [OF disjI1 [OF a] ff, of new res g]
  have m: "memory_now ?g = memory_now g" using f by (simp add: env_step_simps)
  have "dc_buffer_ok ?s ?g" by (rule buffer_busy [OF ok(2)]) (simp_all add: s st m same)
  moreover have "dc_fill_ok ?s ?g"
    by (rule fill_ok_kept [OF ok(1)]) (auto simp: s st same drain_idle_only no_issue env_step_simps(4) a split: if_splits)
  moreover have "v = core_view ?g (dc_fill_addr ?s)" if "dm_ready i" "pending ?g = Some v" for v
  proof -
    have "v = memory_now g (dc_fill_addr s)" using that env f by (simp add: dc_env_ok_def env_step_simps(3) read_request_def zero_req_def)
    moreover have "memory_now g = core_view g" using ok by (simp add: dc_buffer_ok_def dc_fill_ok_def)
    ultimately show ?thesis using that by (simp add: same s dc_fill_addr_def)
  qed
  moreover have "dc_lines_ok ?s (core_view ?g)" unfolding same(1) by (rule lines_cong [OF ok(3)]) (simp_all add: s)
  moreover have "dc_answer_ok ?s ?g" by (rule no_answer) (simp add: s)
  moreover have "\<not> flush_active ?s" "passed ?g = asked_by ?g" "dc_state ?s = (if dm_ready i then LoadFillWait else LoadFillReq)"
    using ok(4,5) st by (simp_all add: s same)
  ultimately show ?thesis by (cases "dm_ready i") (simp_all add: dc_inv_def)
qed

lemma dc_filling_ok:
  assumes ok: "dc_fill_ok s g" and al: "fill_allocate s" and v: "v = core_view g (dc_fill_addr s)"
  shows "((fill_word_valid s)(fill_next_word s := True)) w \<longleftrightarrow> unat (w - fill_response_word s) < Suc (unat (fill_count s))"
    "((fill_word_valid s)(fill_next_word s := True)) w \<Longrightarrow>
       ((fill_data s)(fill_next_word s := v)) w = core_view g (word_of_line (fill_line_addr s) w)"
proof -
  show "((fill_word_valid s)(fill_next_word s := True)) w \<longleftrightarrow> unat (w - fill_response_word s) < Suc (unat (fill_count s))"
    using ok al next_word [of "fill_count s" w "fill_response_word s"] by (auto simp: dc_fill_ok_def)
  show "((fill_word_valid s)(fill_next_word s := True)) w \<Longrightarrow>
       ((fill_data s)(fill_next_word s := v)) w = core_view g (word_of_line (fill_line_addr s) w)"
    using ok al v unfolding dc_fill_ok_def dc_fill_addr_def by (auto split: if_splits)
qed

lemma fill_word_answer:
  assumes inv: "dc_inv s g" and st: "dc_state s = LoadFillWait" and v: "dm_rdata i = core_view g (dc_fill_addr s)"
  shows "rsp_valid_q (dc_fill_word i s (dc_drain False i s)) \<longleftrightarrow> fill_count s = 0"
    "dc_answer_ok (dc_fill_word i s (dc_drain False i s)) (dc_env_step i new res s g)"
proof -
  let ?s = "dc_fill_word i s (dc_drain False i s)"
  have ok: "dc_fill_ok s g" using inv st by (simp add: dc_inv_def)
  have "fill_next_word s = fill_response_word s \<longleftrightarrow> fill_count s = 0"
  proof -
    have "unat (fill_count s) \<le> 3" "fill_next_word s = fill_response_word s + ucast (fill_count s)"
      using ok by (simp_all add: dc_fill_ok_def)
    moreover from this have "(ucast (fill_count s) :: 2 word) = 0 \<longleftrightarrow> fill_count s = 0"
      by (simp add: word_unat_eq_iff unsigned_ucast_eq take_bit_eq_mod)
    ultimately show ?thesis by simp
  qed
  then show rsp: "rsp_valid_q ?s \<longleftrightarrow> fill_count s = 0" by (auto simp: dc_fill_word_def Let_def)
  have a: "dc_accept False i s = None" "fired i s = None" using st by (simp_all add: busy_no_accept quiet_fired)
  show "dc_answer_ok ?s (dc_env_step i new res s g)"
  proof (cases "fill_count s = 0")
    case True
    then obtain r where r: "want g = Some r" "\<not> passes r" "beat_addr (r_addr r) = word_of_line (fill_line_addr s) (fill_response_word s)"
      and nr: "\<not> rsp_valid_q s" and n: "fill_next_word s = fill_response_word s"
      using ok by (auto simp: dc_fill_ok_def)
    have "rsp_data_q ?s = core_view g (beat_addr (r_addr r))"
      using True n v r by (simp add: dc_fill_word_def Let_def dc_fill_addr_def)
    then show ?thesis using r nr a by (simp add: dc_answer_ok_def env_step_simps)
  next
    case False
    then show ?thesis using rsp by (simp add: dc_answer_ok_def)
  qed
qed


lemma dc_inv_fill_wait:
  assumes inv: "dc_inv s g" and env: "dc_env_ok i res s g" and ni: "\<not> invalidate i" and st: "dc_state s = LoadFillWait"
  shows "dc_inv (dc_step False i s) (dc_env_step i new res s g)"
proof -
  let ?g = "dc_env_step i new res s g" and ?s = "dc_step False i s"
  have ok: "dc_fill_ok s g" "dc_buffer_ok s g" "dc_lines_ok s (core_view g)" "\<not> flush_active s" "passed g = asked_by g"
    "\<forall>v. pending g = Some v \<longrightarrow> v = core_view g (dc_fill_addr s)"
    using inv st by (simp_all add: dc_inv_def)
  have a: "dc_accept False i s = None" "fired i s = None" using st by (simp_all add: busy_no_accept quiet_fired)
  note same = view_same [OF disjI1 [OF a(1)] disjI1 [OF a(2)], of new res g]
  have m: "memory_now ?g = memory_now g" "pending ?g = (if dm_rvalid i then None else pending g)"
    "want ?g = (if rsp_valid_q s then None else want g)" using a by (simp_all add: env_step_simps)
  have d: "store_buffer_head (dc_drain False i s) = store_buffer_head s" "store_buffer_count (dc_drain False i s) = store_buffer_count s"
    using drain_idle_only [OF no_issue] st by simp_all
  show ?thesis
  proof (cases "dm_rvalid i")
    case False
    then have s: "?s = dc_drain False i s" using st ni by (simp add: dc_step_def Let_def)
    have "dc_buffer_ok ?s ?g" by (rule buffer_busy [OF ok(2)]) (simp_all add: s st m same)
    moreover have "dc_fill_ok ?s ?g" by (rule fill_ok_kept [OF ok(1)]) (simp_all add: s same d m)
    moreover have "dc_lines_ok ?s (core_view ?g)" unfolding same(1) by (rule lines_cong [OF ok(3)]) (simp_all add: s)
    moreover have "dc_fill_addr ?s = dc_fill_addr s" by (simp add: s dc_fill_addr_def)
    ultimately show ?thesis using ok False m st s same by (simp add: dc_inv_def no_answer)
  next
    case True
    then have s: "?s = dc_fill_word i s (dc_drain False i s)" using st ni by (simp add: dc_step_def Let_def)
    have v: "dm_rdata i = core_view g (dc_fill_addr s)" using env True ok(6) by (simp add: dc_env_ok_def)
    note word = dc_filling_ok [OF ok(1) _ v]
    have "dc_buffer_ok ?s ?g" by (rule buffer_busy [OF ok(2)]) (simp_all add: s st m same dc_fill_word_def Let_def)
    moreover have "dc_lines_ok ?s (core_view ?g)"
    proof (cases "fill_count s = 3 \<and> fill_allocate s")
      case al: True
      then have all: "((fill_data s)(fill_next_word s := dm_rdata i)) w = core_view g (word_of_line (fill_line_addr s) w)" for w
        using word(2) word(1) [of w] unsigned_less [of "w - fill_response_word s", where 'a = nat] by simp
      have "fill_line_addr s = line_of (fill_tag s) (fill_index s)" "\<forall>w. is_ram (word_of_line (fill_line_addr s) w)"
        using ok(1) unfolding dc_fill_ok_def by blast+
      then show ?thesis using al all ok(3) unfolding same(1) by (auto simp: dc_lines_ok_def s dc_fill_word_def Let_def)
    next
      case False
      then show ?thesis unfolding same(1) by (intro lines_cong [OF ok(3)]) (auto simp: s dc_fill_word_def Let_def)
    qed
    moreover have "dc_fill_ok ?s ?g" if n3: "fill_count s \<noteq> 3"
    proof -
      have c: "unat (fill_count s) < 3" using ok(1) n3 by (auto simp: dc_fill_ok_def word_unat_eq_iff)
      then have c1: "unat (fill_count s + 1) = Suc (unat (fill_count s))" by (simp add: unat_word_ariths)
      have n: "fill_next_word s + 1 = fill_response_word s + of_nat (Suc (unat (fill_count s)))"
        using ok(1) by (simp add: dc_fill_ok_def)
      have f: "store_buffer_count ?s = store_buffer_count s" "fill_count ?s = fill_count s + 1" "fill_next_word ?s = fill_next_word s + 1"
        "fill_response_word ?s = fill_response_word s" "fill_line_addr ?s = fill_line_addr s" "fill_tag ?s = fill_tag s"
        "fill_index ?s = fill_index s" "fill_allocate ?s = fill_allocate s"
        "fill_word_valid ?s = (fill_word_valid s)(fill_next_word s := True)"
        "fill_data ?s = (fill_data s)(fill_next_word s := dm_rdata i)"
        using n3 by (simp_all add: s dc_fill_word_def Let_def d)
      have "\<forall>w. is_ram (word_of_line (line_of (fill_tag s) (fill_index s)) w)"
        using ok(1) unfolding dc_fill_ok_def by metis
      moreover have "fill_count s + 1 \<noteq> 0" using c1 by (metis nat.distinct(1) unat_0)
      ultimately show ?thesis using ok(1) word c c1 n unfolding dc_fill_ok_def f same(1) by simp
    qed
    moreover have "dc_answer_ok ?s ?g" using fill_word_answer(2) [OF inv st v] by (simp add: s)
    ultimately show ?thesis using ok True m same by (auto simp: dc_inv_def s dc_fill_word_def Let_def)
  qed
qed


lemma dc_inv_response:
  assumes inv: "dc_inv s g" and ni: "\<not> invalidate i" and st: "dc_state s = DcResponse"
  shows "dc_inv (dc_step False i s) (dc_env_step i new res s g)"
proof -
  let ?g = "dc_env_step i new res s g" and ?s = "dc_step False i s"
  have ok: "dc_buffer_ok s g" "dc_lines_ok s (core_view g)" "\<not> flush_active s" "passed g = asked_by g"
    using inv st by (simp_all add: dc_inv_def)
  have a: "dc_accept False i s = None" "fired i s = None" using st by (simp_all add: busy_no_accept quiet_fired)
  note same = view_same [OF disjI1 [OF a(1)] disjI1 [OF a(2)], of new res g]
  have s: "?s = (dc_drain False i s)\<lparr>dc_state := DcIdle\<rparr>" using st ni by (simp add: dc_step_def Let_def)
  have "dc_buffer_ok ?s ?g" by (rule buffer_busy [OF ok(1)]) (simp_all add: s st same env_step_simps(2) a)
  moreover have "dc_lines_ok ?s (core_view ?g)" unfolding same(1) by (rule lines_cong [OF ok(2)]) (simp_all add: s)
  ultimately show ?thesis using ok same by (simp add: dc_inv_def no_answer s)
qed

lemma pass_kept:
  assumes "dc_pass_ok s g" "store_buffer_count s' = store_buffer_count s" "saved s' = saved s" "\<not> rsp_valid_q s'"
    "want g' = (if rsp_valid_q s then None else want g)"
  shows "dc_pass_ok s' g'"
  using assms by (simp add: dc_pass_ok_def)

lemma dc_inv_bypass_wait:
  assumes inv: "dc_inv s g" and env: "dc_env_ok i res s g" and ni: "\<not> invalidate i" and st: "dc_state s = BypassWait"
  shows "dc_inv (dc_step False i s) (dc_env_step i new res s g)"
proof -
  let ?g = "dc_env_step i new res s g" and ?s = "dc_step False i s"
  have ok: "dc_buffer_ok s g" "dc_lines_ok s (core_view g)" "\<not> flush_active s" "passed g = asked_by g" "dc_pass_ok s g"
    "\<forall>v. pending g = Some v \<longrightarrow> reply g = Some v" "r_is_amo (saved s) \<or> \<not> r_wen (saved s)"
    using inv st by (simp_all add: dc_inv_def)
  have a: "dc_accept False i s = None" "fired i s = None" using st by (simp_all add: busy_no_accept quiet_fired)
  note same = view_same [OF disjI1 [OF a(1)] disjI1 [OF a(2)], of new res g]
  have m: "memory_now ?g = memory_now g" "pending ?g = (if dm_rvalid i then None else pending g)"
    "want ?g = (if rsp_valid_q s then None else want g)" using a by (simp_all add: env_step_simps)
  have d: "store_buffer_head (dc_drain False i s) = store_buffer_head s" "store_buffer_count (dc_drain False i s) = store_buffer_count s"
    using drain_idle_only [OF no_issue] st by simp_all
  have s: "?s = (if dm_rvalid i then (dc_drain False i s)\<lparr>rsp_data_q := dm_rdata i, rsp_valid_q := True, dc_state := DcResponse\<rparr>
      else dc_drain False i s)"
    using st ni ok(7) by (auto simp: dc_step_def Let_def)
  have b: "dc_buffer_ok ?s ?g" by (rule buffer_busy [OF ok(1)]) (simp_all add: s st m same)
  have l: "dc_lines_ok ?s (core_view ?g)" unfolding same(1) by (rule lines_cong [OF ok(2)]) (simp_all add: s)
  show ?thesis
  proof (cases "dm_rvalid i")
    case True
    then have "reply ?g = Some (dm_rdata i)" using env ok(6) same by (simp add: dc_env_ok_def)
    then have "dc_answer_ok ?s ?g" using True ok(5,7) m by (auto simp: dc_answer_ok_def s dc_pass_ok_def)
    then show ?thesis using True b l ok same by (simp add: dc_inv_def s)
  next
    case False
    have "dc_pass_ok ?s ?g" by (rule pass_kept [OF ok(5)]) (simp_all add: s False d m)
    then show ?thesis using False b l ok same m st by (simp add: dc_inv_def s no_answer)
  qed
qed

text \<open>An access passed through takes effect when memory takes it.\<close>

lemma pass_effect:
  assumes "dc_buffer_ok s g" "store_buffer_count s = 0" "fired i s = Some q" "passes q"
    "\<And>r. dc_accept False i s = Some r \<Longrightarrow> \<not> dc_cacheable r"
  shows "memory_now (dc_env_step i new res s g) = mem_effect new q (core_view g)"
    "core_view (dc_env_step i new res s g) = mem_effect new q (core_view g)"
    "pending (dc_env_step i new res s g) = Some res" "reply (dc_env_step i new res s g) = Some res"
  using assms by (auto simp: env_step_simps dc_buffer_ok_def Let_def split: option.splits)

lemma empty_buffer:
  "dc_buffer_ok s g \<Longrightarrow> store_buffer_count s = 0 \<Longrightarrow> store_buffer_head s' = store_buffer_head s \<Longrightarrow>
   store_buffer_tail s' = store_buffer_tail s \<Longrightarrow> store_buffer_count s' = 0 \<Longrightarrow> memory_now g' = core_view g' \<Longrightarrow>
   dc_buffer_ok s' g'"
  by (simp add: dc_buffer_ok_def)

lemma dc_inv_bypass_req:
  assumes inv: "dc_inv s g" and ni: "\<not> invalidate i" and st: "dc_state s = BypassReq"
  shows "dc_inv (dc_step False i s) (dc_env_step i new res s g)"
proof -
  let ?g = "dc_env_step i new res s g" and ?s = "dc_step False i s"
  have ok: "dc_buffer_ok s g" "dc_lines_ok s (core_view g)" "\<not> flush_active s" "asked_by g = passed g @ [saved s]" "dc_pass_ok s g"
    "is_ram (r_addr (saved s)) \<longrightarrow> \<not> line_present s (r_addr (saved s))"
    using inv st by (simp_all add: dc_inv_def)
  have a: "dc_accept False i s = None" using st by (simp add: busy_no_accept)
  have w: "want ?g = (if rsp_valid_q s then None else want g)" "asked_by ?g = asked_by g" using a by (simp_all add: env_step_simps)
  have d: "store_buffer_head (dc_drain False i s) = store_buffer_head s" "store_buffer_count (dc_drain False i s) = store_buffer_count s"
    using drain_idle_only [OF no_issue] st by simp_all
  have p: "passes (saved s)" "store_buffer_count s = 0" using ok(5) by (simp_all add: dc_pass_ok_def)
  show ?thesis
  proof (cases "dm_ready i")
    case False
    then have f: "fired i s = None" by (simp add: fired_def)
    note same = view_same [OF disjI1 [OF a] disjI1 [OF f], of new res g]
    have s: "?s = dc_drain False i s" using st ni False by (simp add: dc_step_def Let_def)
    have "dc_buffer_ok ?s ?g" by (rule buffer_busy [OF ok(1)]) (simp_all add: s st same env_step_simps(2) f)
    moreover have "dc_lines_ok ?s (core_view ?g)" unfolding same(1) by (rule lines_cong [OF ok(2)]) (simp_all add: s)
    moreover have "dc_pass_ok ?s ?g" by (rule pass_kept [OF ok(5)]) (simp_all add: s d w)
    ultimately show ?thesis using ok same st by (simp add: dc_inv_def s no_answer line_present_def)
  next
    case True
    have f: "fired i s = Some (saved s)" using st True by (simp add: fired_def dc_mem_request_def)
    have e: "memory_now ?g = mem_effect new (saved s) (core_view g)" "core_view ?g = mem_effect new (saved s) (core_view g)"
      "pending ?g = Some res" "reply ?g = Some res"
      using a by (intro pass_effect [OF ok(1) p(2) f p(1)]; simp)+
    let ?done = "r_wen (saved s) \<and> \<not> r_is_amo (saved s)"
    have s: "?s = (dc_drain False i s)\<lparr>dc_state := (if ?done then DcIdle else BypassWait)\<rparr>"
      using st ni True by (simp add: dc_step_def Let_def)
    have "dc_buffer_ok ?s ?g" by (rule empty_buffer [OF ok(1) p(2)]) (simp_all add: s d p e)
    moreover have "dc_lines_ok s (core_view ?g)" using lines_effect [OF ok(2), of "saved s" new] ok(6) e(2) by simp
    then have "dc_lines_ok ?s (core_view ?g)" by (rule lines_cong) (simp_all add: s)
    moreover have "dc_pass_ok ?s ?g" by (rule pass_kept [OF ok(5)]) (simp_all add: s d w)
    moreover have "passed ?g = asked_by ?g" using ok(4) f p w by (simp add: env_step_simps(7))
    moreover have "\<not> rsp_valid_q ?s" "\<not> flush_active ?s" "saved ?s = saved s" "dc_state ?s = (if ?done then DcIdle else BypassWait)"
      using ok(3) by (simp_all add: s)
    ultimately show ?thesis using e(3,4) by (auto simp: dc_inv_def no_answer)
  qed
qed


text \<open>An idle edge: nothing taken, a hit, a miss, a store, or an access passed through.\<close>

lemma dc_inv_idle_none:
  assumes inv: "dc_inv s g" and ni: "\<not> invalidate i" and st: "dc_state s = DcIdle" and a: "dc_accept False i s = None"
  shows "dc_inv (dc_step False i s) (dc_env_step i new res s g)"
proof -
  let ?g = "dc_env_step i new res s g" and ?s = "dc_step False i s"
  have ok: "dc_buffer_ok s g" "dc_lines_ok s (core_view g)" "\<not> flush_active s" "passed g = asked_by g"
    using inv st by (simp_all add: dc_inv_def)
  have s: "?s = dc_drain False i s" using st ni ok(3) a by (simp add: dc_step_def Let_def)
  have m: "memory_now ?g = (if store_buffer_issue_fire False i s
      then mem_effect 0 (store_request (store_buffer s (store_buffer_head s))) (memory_now g) else memory_now g)"
    and f: "fired i s = None \<or> (\<exists>q. fired i s = Some q \<and> \<not> passes q)"
    using a by (intro drain_memory [OF ok(1) st]; simp)+
  note same = view_same [OF disjI1 [OF a] f, of new res g]
  have "dc_buffer_ok ?s ?g" unfolding s by (rule drain_buffer [OF ok(1) m same(1)])
  moreover have "dc_lines_ok ?s (core_view ?g)" unfolding same(1) by (rule lines_cong [OF ok(2)]) (simp_all add: s)
  ultimately show ?thesis using ok st same by (simp add: dc_inv_def s no_answer)
qed

lemma load_quiet:
  assumes "dc_state s = DcIdle" "dc_accept False i s = Some r" "dc_cacheable r" "\<not> r_wen r"
  shows "fired i s = None" "\<not> store_buffer_issue_fire False i s" "\<not> passes r"
  using assms accept_reads(1) [OF assms(2)] by (simp_all add: fired_idle store_buffer_issue_fire_def passes_cacheable)

lemma dc_inv_load_hit:
  assumes inv: "dc_inv s g" and ni: "\<not> invalidate i" and st: "dc_state s = DcIdle" and a: "dc_accept False i s = Some r"
    and r: "dc_cacheable r" "\<not> r_wen r" and hit: "cache_hit s r"
  shows "dc_inv (dc_step False i s) (dc_env_step i new res s g)"
proof -
  let ?g = "dc_env_step i new res s g" and ?s = "dc_step False i s"
  have ok: "dc_buffer_ok s g" "dc_lines_ok s (core_view g)" "\<not> flush_active s" "passed g = asked_by g"
    using inv st by (simp_all add: dc_inv_def)
  note q = load_quiet [OF st a r]
  have na: "\<not> r_is_amo r" using r by (simp add: dc_cacheable_def)
  have s: "?s = (dc_drain False i s)\<lparr>saved := r, rsp_data_q := dc_data s (line_index (r_addr r)) (word_offset (r_addr r)),
      rsp_valid_q := True, dc_state := DcResponse\<rparr>"
    using st ni ok(3) a r na hit by (simp add: dc_step_def dc_request_def Let_def)
  have same: "core_view ?g = core_view g" "passed ?g = passed g" "asked_by ?g = asked_by g" "memory_now ?g = memory_now g"
    "want ?g = Some r"
    using a r na q by (auto simp: env_step_simps mem_effect_def)
  have "dc_buffer_ok ?s ?g" by (rule buffer_kept [OF ok(1)]) (simp_all add: s same drain_idle_only q)
  moreover have "dc_lines_ok ?s (core_view ?g)" unfolding same(1) by (rule lines_cong [OF ok(2)]) (simp_all add: s)
  moreover have "dc_answer_ok ?s ?g"
    using hit_word [OF ok(2), of "r_addr r"] hit q(3) same by (simp add: dc_answer_ok_def s cache_hit_def)
  ultimately show ?thesis using ok same by (simp add: dc_inv_def s)
qed

lemma dc_inv_load_miss:
  assumes inv: "dc_inv s g" and ni: "\<not> invalidate i" and st: "dc_state s = DcIdle" and a: "dc_accept False i s = Some r"
    and r: "dc_cacheable r" "\<not> r_wen r" and miss: "\<not> cache_hit s r"
  shows "dc_inv (dc_step False i s) (dc_env_step i new res s g)"
proof -
  let ?g = "dc_env_step i new res s g" and ?s = "dc_step False i s" and ?w = "word_offset (r_addr r)"
  have ok: "dc_buffer_ok s g" "dc_lines_ok s (core_view g)" "\<not> flush_active s" "passed g = asked_by g"
    using inv st by (simp_all add: dc_inv_def)
  note q = load_quiet [OF st a r]
  have na: "\<not> r_is_amo r" and ram: "is_ram (r_addr r)" using r by (simp_all add: dc_cacheable_def)
  have c: "store_buffer_count s = 0" using accept_reads(2) [OF a] r miss by simp
  have s: "?s = (dc_drain False i s)\<lparr>saved := r, fill_line_addr := line_addr (r_addr r), fill_index := line_index (r_addr r),
      fill_tag := line_tag (r_addr r), fill_next_word := ?w, fill_response_word := ?w, fill_count := 0,
      fill_word_valid := (\<lambda>w. False), fill_allocate := True, dc_state := LoadFillReq\<rparr>"
    using st ni ok(3) a r na miss by (simp add: dc_step_def dc_request_def dc_start_fill_def dirty_victim_hit_def Let_def)
  have same: "core_view ?g = core_view g" "passed ?g = passed g" "asked_by ?g = asked_by g" "memory_now ?g = memory_now g"
    "want ?g = Some r"
    using a r na q by (auto simp: env_step_simps mem_effect_def)
  have "dc_buffer_ok ?s ?g" by (rule buffer_kept [OF ok(1)]) (simp_all add: s same drain_idle_only q)
  moreover have "dc_lines_ok ?s (core_view ?g)" unfolding same(1) by (rule lines_cong [OF ok(2)]) (simp_all add: s)
  moreover have "dc_fill_ok ?s ?g"
    using ram q c same by (simp add: dc_fill_ok_def s drain_idle_only line_parts ram_line beat_parts)
  ultimately show ?thesis using ok same by (simp add: dc_inv_def s no_answer)
qed


definition entry_of :: "bus_req \<Rightarrow> sb_entry" where
  "entry_of r = \<lparr>sb_addr = r_addr r, sb_wdata = r_wdata r, sb_wmask = r_wmask r, sb_funct3 = r_funct3 r\<rparr>"

lemma entry_effect:
  "r_wen r \<Longrightarrow> \<not> r_is_amo r \<Longrightarrow> mem_effect 0 (store_request (entry_of r)) M = mem_effect new r M"
  by (simp add: mem_effect_def entry_of_def Let_def)

lemma store_room:
  assumes "dc_buffer_ok s g" "dc_accept False i s = Some r" "dc_cacheable r" "r_wen r"
  shows "store_buffer_count (dc_drain False i s) \<le> 3"
  using assms(1,3,4) accept_ready [OF assms(2)] drain_idle_only(2) [of False i s]
  by (cases "store_buffer_issue_fire False i s")
    (auto simp: dc_buffer_ok_def dc_cpu_ready_def store_buffer_full_def STORE_BUFFER_DEPTH_def dc_drain_def Let_def)

lemma dc_inv_store:
  assumes inv: "dc_inv s g" and ni: "\<not> invalidate i" and st: "dc_state s = DcIdle" and a: "dc_accept False i s = Some r"
    and r: "dc_cacheable r" "r_wen r"
  shows "dc_inv (dc_step False i s) (dc_env_step i new res s g)"
proof -
  let ?g = "dc_env_step i new res s g" and ?s = "dc_step False i s" and ?t = "dc_drain False i s"
  let ?k = "line_index (r_addr r)" and ?w = "word_offset (r_addr r)"
  have ok: "dc_buffer_ok s g" "dc_lines_ok s (core_view g)" "\<not> flush_active s" "passed g = asked_by g"
    using inv st by (simp_all add: dc_inv_def)
  have na: "\<not> r_is_amo r" "is_ram (r_addr r)" using r by (simp_all add: dc_cacheable_def)
  have np: "\<not> passes r" using na by (simp add: passes_def)
  have s: "?s = (if cache_hit s r
      then ?t\<lparr>saved := r, dc_data := (dc_data s)(?k := (dc_data s ?k)(?w := merge_word (dc_data s ?k ?w) (r_wdata r) (r_wmask r))),
             store_buffer := (store_buffer ?t)(store_buffer_tail ?t := entry_of r), store_buffer_tail := store_buffer_tail ?t + 1,
             store_buffer_count := store_buffer_count ?t + 1, dc_state := DcIdle, dc_dirty := dc_dirty ?t\<rparr>
      else ?t\<lparr>saved := r, store_buffer := (store_buffer ?t)(store_buffer_tail ?t := entry_of r),
             store_buffer_tail := store_buffer_tail ?t + 1, store_buffer_count := store_buffer_count ?t + 1, dc_state := DcIdle\<rparr>)"
    using st ni ok(3) a r na by (simp add: dc_step_def dc_request_def dc_store_def dc_enqueue_def entry_of_def Let_def)
  have m: "memory_now ?g = (if store_buffer_issue_fire False i s
      then mem_effect 0 (store_request (store_buffer s (store_buffer_head s))) (memory_now g) else memory_now g)"
    and f: "fired i s = None \<or> (\<exists>q. fired i s = Some q \<and> \<not> passes q)"
    using a np by (intro drain_memory [OF ok(1) st]; simp)+
  have same: "core_view ?g = mem_effect new r (core_view g)" "passed ?g = passed g" "asked_by ?g = asked_by g"
    using a r f by (auto simp: env_step_simps)
  have t: "dc_buffer_ok ?t (g\<lparr>memory_now := memory_now ?g\<rparr>)" by (rule drain_buffer [OF ok(1)]) (simp_all add: m)
  have room: "store_buffer_count ?t \<le> 3" using store_room [OF ok(1) a r] .
  have e: "entries ?s = entries ?t @ [entry_of r]"
    using t by (intro entries_push [OF room]) (simp_all add: s dc_buffer_ok_def)
  have "dc_buffer_ok ?s ?g"
    using t room na e entry_effect [OF r(2) na(1), of "core_view g" new]
    by (simp add: dc_buffer_ok_def same) (simp add: s entry_of_def add.assoc)
  moreover have "dc_lines_ok ?s (core_view ?g)"
  proof (cases "cache_hit s r")
    case True
    then have "line_present s (r_addr r)" by (simp add: cache_hit_def)
    then show ?thesis unfolding same(1) using True
      by (intro lines_store_hit [OF ok(2) _ r(2) na(1)]) (simp_all add: s Let_def)
  next
    case False
    then have "dc_lines_ok s (mem_effect new r (core_view g))" using r by (intro lines_effect [OF ok(2)]) (simp add: cache_hit_def)
    then show ?thesis unfolding same(1) using False by (rule_tac lines_cong) (simp_all add: s)
  qed
  moreover have "\<not> rsp_valid_q ?s" "\<not> flush_active ?s" "dc_state ?s = DcIdle" using ok(3) by (simp_all add: s)
  ultimately show ?thesis using ok(4) same by (simp add: dc_inv_def no_answer)
qed

lemma dc_inv_pass:
  assumes inv: "dc_inv s g" and ni: "\<not> invalidate i" and st: "dc_state s = DcIdle" and a: "dc_accept False i s = Some r"
    and r: "\<not> dc_cacheable r"
  shows "dc_inv (dc_step False i s) (dc_env_step i new res s g)"
proof -
  let ?g = "dc_env_step i new res s g" and ?s = "dc_step False i s" and ?t = "dc_drain False i s"
  have ok: "dc_buffer_ok s g" "dc_lines_ok s (core_view g)" "\<not> flush_active s" "passed g = asked_by g"
    using inv st by (simp_all add: dc_inv_def)
  have p: "passes r" "\<not> cache_hit s r" using r by (simp_all add: passes_cacheable cache_hit_def)
  have nr: "\<not> rsp_valid_q s" using accept_idle [OF a] by simp
  have c: "store_buffer_count s = 0" "\<not> store_buffer_issue_fire False i s"
    using accept_reads [OF a] r p(2) by (simp_all add: store_buffer_issue_fire_def)
  let ?drop = "r_is_amo r \<and> is_ram (r_addr r) \<and> line_present s (r_addr r)"
  let ?st = "if dm_ready i then (if r_wen r \<and> \<not> r_is_amo r then DcIdle else BypassWait) else BypassReq"
  let ?k = "line_index (r_addr r)"
  have s: "?s = (if ?drop then ?t\<lparr>saved := r, dc_valid := (dc_valid s)(?k := False), dc_dirty := (dc_dirty s)(?k := False), dc_state := ?st\<rparr>
      else ?t\<lparr>saved := r, dc_state := ?st\<rparr>)"
    using st ni ok(3) a r by (simp add: dc_step_def dc_request_def Let_def)
  have f: "fired i s = (if dm_ready i then Some r else None)" using a p c st by (simp add: fired_idle)
  have fields: "store_buffer_count ?s = 0" "store_buffer ?s = store_buffer s" "store_buffer_head ?s = store_buffer_head s"
    "store_buffer_tail ?s = store_buffer_tail s" "saved ?s = r" "\<not> rsp_valid_q ?s" "\<not> flush_active ?s" "dc_state ?s = ?st"
    using ok(3) c drain_idle_only [OF c(2)] by (simp_all add: s)
  have absent: "\<not> (is_ram (r_addr r) \<and> line_present ?s (r_addr r))"
    using p by (auto simp: s line_present_def passes_def)
  have kept: "dc_lines_ok ?s (core_view g)" by (rule lines_fewer [OF ok(2)]) (auto simp: s split: if_splits)
  have w: "r_is_amo r \<or> \<not> r_wen r \<longrightarrow> want ?g = Some r" using a by (simp add: env_step_simps)
  have pass: "dc_pass_ok ?s ?g" using fields p w by (simp add: dc_pass_ok_def)
  show ?thesis
  proof (cases "dm_ready i")
    case True
    then have fs: "fired i s = Some r" using f by simp
    have e: "memory_now ?g = mem_effect new r (core_view g)" "core_view ?g = mem_effect new r (core_view g)"
      "pending ?g = Some res" "reply ?g = Some res"
      using a r by (intro pass_effect [OF ok(1) c(1) fs p(1)]; simp)+
    have "dc_buffer_ok ?s ?g" by (rule empty_buffer [OF ok(1) c(1)]) (simp_all add: fields e)
    moreover have "dc_lines_ok ?s (core_view ?g)" unfolding e(2) by (rule lines_effect [OF kept absent])
    moreover have "passed ?g = asked_by ?g" using ok(4) fs p a r by (simp add: env_step_simps)
    ultimately show ?thesis using True fields pass e(3,4) by (auto simp: dc_inv_def no_answer)
  next
    case False
    then have fs: "fired i s = None" using f by simp
    have e: "memory_now ?g = memory_now g" "core_view ?g = core_view g" "asked_by ?g = passed ?g @ [r]"
      using fs a r ok(4) by (simp_all add: env_step_simps)
    have "dc_buffer_ok ?s ?g" by (rule buffer_kept [OF ok(1)]) (simp_all add: fields e c)
    then show ?thesis using False fields pass e kept absent by (simp add: dc_inv_def no_answer)
  qed
qed

lemma dc_inv_step:
  assumes inv: "dc_inv s g" and env: "dc_env_ok i res s g"
  shows "dc_inv (dc_step False i s) (dc_env_step i new res s g)"
proof (cases "invalidate i")
  case True
  then show ?thesis by (rule dc_inv_invalidated [OF inv env])
next
  case ni: False
  show ?thesis
  proof (cases "dc_state s")
    case DcIdle
    show ?thesis
    proof (cases "dc_accept False i s")
      case None
      then show ?thesis by (rule dc_inv_idle_none [OF inv ni DcIdle])
    next
      case (Some r)
      consider "dc_cacheable r" "r_wen r" | "dc_cacheable r" "\<not> r_wen r" "cache_hit s r"
        | "dc_cacheable r" "\<not> r_wen r" "\<not> cache_hit s r" | "\<not> dc_cacheable r" by blast
      then show ?thesis
        using dc_inv_store dc_inv_load_hit dc_inv_load_miss dc_inv_pass inv ni DcIdle Some by cases blast+
    qed
  qed (use inv env ni dc_inv_fill_req dc_inv_fill_wait dc_inv_bypass_req dc_inv_bypass_wait dc_inv_response in
      \<open>auto simp: dc_inv_def\<close>)
qed

lemma dc_reach_inv: "dc_reach s g \<Longrightarrow> dc_inv s g"
proof (induction rule: dc_reach.induct)
  case (start s M)
  then show ?case by (simp add: dc_inv_def dc_lines_ok_def dc_buffer_ok_def dc_answer_ok_def dc_reset_def)
next
  case (edge s g i res new)
  then show ?case by (intro dc_inv_step)
qed



section \<open>Properties\<close>

text \<open>
  C14. Behind the write-through cache the core sees its own accesses in program order, as if the cache
  and the store buffer were not there: a cacheable load is answered, on the ordinary port and on the
  fast one, with the word all stores taken before have left, hit, miss, buffered or being filled; an
  uncached or atomic access reaches memory once, in order, after every buffered store, and returns
  memory's answer; and an empty buffer means that memory holds everything.
\<close>
theorem dcache_transparent:
  assumes "dc_reach s g"
  shows "(rsp_valid_q s \<longrightarrow> (\<exists>r. want g = Some r \<and>
      (if passes r then reply g = Some (rsp_data_q s) else rsp_data_q s = core_view g (beat_addr (r_addr r))))) \<and>
    (\<forall>i a f3 v. fast_load i = Some (a, f3) \<longrightarrow> fast_load_hit i s = Some v \<longrightarrow> v = core_view g (beat_addr a)) \<and>
    (passed g = asked_by g \<or> asked_by g = passed g @ [saved s]) \<and>
    store_buffer_count s \<le> 4 \<and> (store_buffer_count s = 0 \<longrightarrow> memory_now g = core_view g)"
proof -
  have inv: "dc_inv s g" using assms by (rule dc_reach_inv)
  then have ok: "dc_lines_ok s (core_view g)" "dc_buffer_ok s g" "dc_answer_ok s g" by (simp_all add: dc_inv_def)
  have "passed g = asked_by g \<or> asked_by g = passed g @ [saved s]"
    using inv by (cases "dc_state s") (auto simp: dc_inv_def)
  moreover have "v = core_view g (beat_addr a)" if "fast_load i = Some (a, f3)" "fast_load_hit i s = Some v" for i a f3 v
    using that hit_word [OF ok(1), of a] by (auto simp: fast_load_hit_def split: if_splits)
  ultimately show ?thesis using ok by (auto simp: dc_answer_ok_def dc_buffer_ok_def)
qed

text \<open>A load that misses, and its critical word.\<close>

definition demo_missing_load :: bus_req where
  "demo_missing_load = zero_req\<lparr>r_addr := 0x80000014, r_funct3 := 2\<rparr>"

definition demo_dc_in :: "bus_req option \<Rightarrow> bool \<Rightarrow> u64 option \<Rightarrow> dc_in" where
  "demo_dc_in q ready answer = \<lparr>invalidate = False, cpu = q, fast_load = None, dm_ready = ready,
     dm_rvalid = (answer \<noteq> None), dm_rdata = (case answer of Some v \<Rightarrow> v | None \<Rightarrow> 0)\<rparr>"

definition demo_dc_off :: dcache where
  "demo_dc_off = \<lparr>dc_state = DcResponse, dc_valid = (\<lambda>k. True), dc_dirty = (\<lambda>k. True), dc_tags = (\<lambda>k. 0), dc_data = (\<lambda>k w. 7),
     saved = zero_req, fill_line_addr = 0, fill_index = 0, fill_tag = 0, fill_next_word = 0, fill_response_word = 0,
     fill_count = 0, fill_word_valid = (\<lambda>w. True), fill_data = (\<lambda>w. 7), fill_allocate = True, rsp_valid_q = True,
     rsp_data_q = 7, writeback_line_addr = 0, writeback_index = 0, writeback_word = 0, writeback_resume_bypass = True,
     writeback_resume_flush = True, flush_active = True, flush_index = 0,
     store_buffer = (\<lambda>i. \<lparr>sb_addr = 0, sb_wdata = 0, sb_wmask = 0, sb_funct3 = 0\<rparr>), store_buffer_head = 0,
     store_buffer_tail = 0, store_buffer_count = 3\<rparr>"

definition demo_dc_inputs :: "(dc_in \<times> u64) list" where
  "demo_dc_inputs = [(demo_dc_in (Some demo_missing_load) False None, 0), (demo_dc_in None True None, 0x80000010),
     (demo_dc_in None False (Some 0x80000010), 0), (demo_dc_in None True None, 0x80000018)]"

fun dc_demo :: "nat \<Rightarrow> dcache \<times> dc_env" where
  "dc_demo 0 = (dc_reset demo_dc_off, \<lparr>memory_now = (\<lambda>a. a), core_view = (\<lambda>a. a), pending = None, want = None, reply = None,
     asked_by = [], passed = []\<rparr>)"
| "dc_demo (Suc n) =
     (let (s, g) = dc_demo n; (i, res) = demo_dc_inputs ! n in (dc_step False i s, dc_env_step i 0 res s g))"

lemma dc_demo_ok:
  "dc_env_ok (fst (demo_dc_inputs ! 0)) (snd (demo_dc_inputs ! 0)) (fst (dc_demo 0)) (snd (dc_demo 0))"
  "dc_env_ok (fst (demo_dc_inputs ! 1)) (snd (demo_dc_inputs ! 1)) (fst (dc_demo 1)) (snd (dc_demo 1))"
  "dc_env_ok (fst (demo_dc_inputs ! 2)) (snd (demo_dc_inputs ! 2)) (fst (dc_demo 2)) (snd (dc_demo 2))"
  "dc_env_ok (fst (demo_dc_inputs ! 3)) (snd (demo_dc_inputs ! 3)) (fst (dc_demo 3)) (snd (dc_demo 3))"
  by code_simp+

lemma dc_demo_reach: "n \<le> 4 \<Longrightarrow> dc_reach (fst (dc_demo n)) (snd (dc_demo n))"
proof (induction n)
  case 0
  show ?case by (simp add: dc_reach.start)
next
  case (Suc n)
  then have "n \<in> {0, 1, 2, 3}" by auto
  then have "dc_env_ok (fst (demo_dc_inputs ! n)) (snd (demo_dc_inputs ! n)) (fst (dc_demo n)) (snd (dc_demo n))"
    using dc_demo_ok by (elim insertE) simp_all
  then show ?case using dc_reach.edge Suc by (simp add: case_prod_unfold Let_def)
qed

theorem dcache_transparent_witness:
  "rsp_valid_q (fst (dc_demo 3)) \<and> rsp_data_q (fst (dc_demo 3)) = 0x80000010"
proof -
  have v: "rsp_valid_q (fst (dc_demo 3))" "want (snd (dc_demo 3)) = Some demo_missing_load" "\<not> passes demo_missing_load"
    "core_view (snd (dc_demo 3)) (beat_addr (r_addr demo_missing_load)) = 0x80000010" by code_simp+
  show ?thesis using dcache_transparent [OF dc_demo_reach, of 3] v by auto
qed

text \<open>The run after a cycle, to say what never happens again.\<close>

inductive dc_run :: "dcache \<Rightarrow> dc_env \<Rightarrow> dcache \<Rightarrow> dc_env \<Rightarrow> bool" for s g where
  here: "dc_run s g s g"
| on: "dc_run s g t h \<Longrightarrow> dc_env_ok i res t h \<Longrightarrow> dc_run s g (dc_step False i t) (dc_env_step i new res t h)"

lemma stuck_step:
  assumes "dc_state t = LoadFillWait" "pending h = None" "\<not> flush_active t" "dc_env_ok i res t h"
  shows "dc_state (dc_step False i t) = LoadFillWait" "pending (dc_env_step i new res t h) = None"
    "\<not> flush_active (dc_step False i t)" "\<not> rsp_valid_q (dc_step False i t)"
  using assms quiet_fired [of t i]
  by (auto simp: dc_env_ok_def dc_step_def dc_start_flush_def env_step_simps Let_def)

text \<open>
  C19. A flush (\<open>sfence.vma\<close>, an access to \<open>satp\<close>) in the very cycle in which a word of a line being
  filled arrives loses that word, and the cache waits for it for ever: from then on, whatever the core
  offers, it takes nothing, answers nothing and asks memory for nothing, on either port. The load that
  missed has been answered by the line's first word, so nothing keeps a flush from coming then.
\<close>
theorem dcache_flush_loses_fill:
  assumes "dc_reach s g" and "dc_state s = LoadFillWait" and "invalidate i" and "dm_rvalid i" and "dc_env_ok i res s g"
    and "dc_run (dc_step False i s) (dc_env_step i new res s g) t h"
  shows "\<forall>j r. \<not> dc_cpu_ready False j t r \<and> dc_mem_request False j t = None \<and> fast_load_hit j t = None \<and> \<not> rsp_valid_q t"
proof -
  have nf: "\<not> flush_active s" using dc_reach_inv [OF assms(1)] by (simp add: dc_inv_def)
  have "dc_state t = LoadFillWait \<and> pending h = None \<and> \<not> flush_active t \<and> \<not> rsp_valid_q t"
    using assms(6)
  proof (induction rule: dc_run.induct)
    case here
    then show ?case using assms(2-4) nf quiet_fired [of s i]
      by (simp add: dc_step_def dc_start_flush_def env_step_simps Let_def)
  next
    case (on t h i res new)
    then show ?case using stuck_step [OF _ _ _ on.hyps(2)] by simp
  qed
  then show ?thesis by (simp add: dc_cpu_ready_def dc_mem_request_def fast_load_hit_def split: option.splits)
qed

text \<open>The second word of the line in \<open>dc_demo\<close> arrives with the flush.\<close>

definition demo_dc_flush :: dc_in where
  "demo_dc_flush = demo_dc_in None False (Some 0x80000018)\<lparr>invalidate := True\<rparr>"

theorem dcache_flush_loses_fill_witness:
  "\<forall>j. \<not> dc_cpu_ready False j (dc_step False demo_dc_flush (fst (dc_demo 4))) demo_missing_load"
proof -
  have f: "dc_state (fst (dc_demo 4)) = LoadFillWait" "invalidate demo_dc_flush" "dm_rvalid demo_dc_flush"
    "dc_env_ok demo_dc_flush 0 (fst (dc_demo 4)) (snd (dc_demo 4))" by code_simp+
  show ?thesis using dcache_flush_loses_fill [OF dc_demo_reach f dc_run.here] by simp
qed

end
