(* ===== verification/LoadSize.thy ===== *)
theory LoadSize
  imports Lockstep Decode
begin

text \<open>
  The load sizes of the reference (\<open>scalar_load_size\<close> of \<open>WhisperRef.cpp\<close>) against the instruction decoder
  of the core, for full instructions and for compressed ones.
\<close>

unbundle bit_operations_syntax

lemma load_fields:
  "(b AND 0x7f = 0x03) = (op_of b = OP_LOAD)" "drop_bit 12 b AND 0x7 = ucast (f3_of b)"
  "b AND 0x3 = ucast (take_bit 2 (op_of b))"
proof -
  have m: "(0x7f :: u32) = mask 7" "(0x7 :: u32) = mask 3" "(0x3 :: u32) = mask 2" by (simp_all add: mask_eq_exp_minus_1)
  show "drop_bit 12 b AND 0x7 = ucast (f3_of b)" "b AND 0x3 = ucast (take_bit 2 (op_of b))"
    unfolding m by (rule bit_word_eqI; auto simp: f3_of_def op_of_def bit_simps word_slices)+
  have op: "op_of b = ucast (b AND 0x7f)" and b: "b AND 0x7f = ucast (op_of b)"
    unfolding m by (rule bit_word_eqI; auto simp: op_of_def bit_simps word_slices)+
  show "(b AND 0x7f = 0x03) = (op_of b = OP_LOAD)"
  proof
    show "op_of b = OP_LOAD" if "b AND 0x7f = 0x03" unfolding op that by simp
    show "b AND 0x7f = 0x03" if "op_of b = OP_LOAD" unfolding b that by simp
  qed
qed

lemma three_bits: "(f :: 3 word) \<in> {0, 1, 2, 3, 4, 5, 6, 7}"
proof -
  have "unat f < 2 ^ LENGTH(3)" by (rule unsigned_less)
  then have "unat f \<in> {0, 1, 2, 3, 4, 5, 6, 7}" by auto
  then show ?thesis by (auto simp: word_unat_eq_iff)
qed

lemma load_size_valid:
  assumes "decode_valid b"
  shows "scalar_load_size b = (if op_of b = OP_LOAD then 2 ^ unat (f3_of b AND 3) else 0)"
proof -
  have "take_bit 2 (op_of b) = 3"
    using assms by (auto simp: decode_valid_def Let_def split: if_splits)
  then have "b AND 0x3 = 0x3" by (simp add: load_fields)
  moreover have "op_of b = OP_LOAD \<Longrightarrow> f3_of b \<noteq> 7" using assms by (simp add: decode_valid_def Let_def)
  ultimately show ?thesis
    using three_bits [of "f3_of b"] unfolding scalar_load_size_def load_fields(1,2) Let_def by auto
qed

lemma up16: "(ucast (x :: u16) :: u32) = ucast y \<longleftrightarrow> x = y"
proof
  assume "(ucast x :: u32) = ucast y"
  then have "ucast (ucast x :: u32) = (ucast (ucast y :: u32) :: u16)" by simp
  moreover have "ucast (ucast z :: u32) = z" for z :: u16
    by (rule bit_word_eqI) (auto simp: bit_simps)
  ultimately show "x = y" by simp
qed simp

lemma up16_numerals:
  "(ucast (x :: u16) :: u32) = 0 \<longleftrightarrow> x = 0" "(ucast x :: u32) = 2 \<longleftrightarrow> x = 2" "(ucast x :: u32) = 3 \<longleftrightarrow> x = 3"
  using up16 [of x 0] up16 [of x 2] up16 [of x 3] by simp_all

lemma load_size_parcel:
  assumes "rvc_is_rvc i"
  shows "scalar_load_size (ucast i) =
    (if bits 1 0 i = 0 \<or> bits 1 0 i = 2 then (if rvc_funct3 i = 2 then 4 else if rvc_funct3 i = 3 then 8 else 0) else 0)"
proof -
  have m: "(0x7 :: u32) = mask 3" "(0x3 :: u32) = mask 2" by (simp_all add: mask_eq_exp_minus_1)
  have q: "(ucast i :: u32) AND 0x3 = ucast (bits 1 0 i)"
    unfolding m by (rule bit_word_eqI) (auto simp: bit_simps word_slices)
  have f: "drop_bit 13 (ucast i :: u32) AND 0x7 = ucast (rvc_funct3 i)"
    unfolding m rvc_funct3_def by (rule bit_word_eqI) (auto simp: bit_simps word_slices dest: bit_imp_le_length)
  have "op_of (ucast i) \<noteq> OP_LOAD"
  proof
    assume "op_of (ucast i) = OP_LOAD"
    then have "(ucast i :: u32) AND 0x3 = 3" by (simp add: load_fields(3))
    then show False using assms unfolding q up16_numerals rvc_is_rvc_def by simp
  qed
  then show ?thesis
    using assms unfolding scalar_load_size_def load_fields(1) q f up16_numerals rvc_is_rvc_def Let_def by simp
qed

lemma load_size_expansion:
  assumes "rvc_is_rvc i"
  shows "scalar_load_size (ucast i) = scalar_load_size (rvc_converter i)"
proof (cases "rvc_expansion i")
  case None
  then show ?thesis by (simp add: rvc_converter_def)
next
  case (Some w)
  have s: "scalar_load_size w = (if op_of w = OP_LOAD then 2 ^ unat (f3_of w AND 3) else 0)"
    by (rule load_size_valid [OF rvc_some_valid [OF Some]])
  have "(if op_of w = OP_LOAD then 2 ^ unat (f3_of w AND 3) else 0) =
    (if bits 1 0 i = 0 \<or> bits 1 0 i = 2 then (if rvc_funct3 i = 2 then 4 else if rvc_funct3 i = 3 then 8 else 0 :: u32) else 0)"
    using Some
    by (auto simp: rvc_expansion_def rvc_c0_def rvc_c1_def rvc_c1_alu_def rvc_c2_def Let_def gen_defs fields
        split: if_splits)
  then show ?thesis unfolding load_size_parcel [OF assms] rvc_converter_def Some option.case s by simp
qed



section \<open>Properties\<close>

text \<open>
  C24. Reference and core agree on the size of a load. For every instruction the decoder accepts,
  \<open>scalar_load_size\<close>, which decides how many bytes of an MMIO load are handed to the reference, is the
  decoder's access size when the instruction is a load and zero otherwise; for a compressed
  instruction it is that of the expansion, whichever of the two forms is presented.
\<close>

theorem load_size_matches_decoder:
  "(decode_valid b \<longrightarrow>
      scalar_load_size b = (if is_load (decode_ctrl r b) then 2 ^ unat (funct3 (decode_ctrl r b) AND 3) else 0)) \<and>
   (rvc_is_rvc i \<longrightarrow> scalar_load_size (ucast i) = scalar_load_size (rvc_converter i))"
proof -
  have "is_load (decode_ctrl r b) \<longleftrightarrow> op_of b = OP_LOAD" "op_of b = OP_LOAD \<Longrightarrow> funct3 (decode_ctrl r b) = f3_of b"
    by (simp_all add: decode_ctrl_def Let_def)
  then show ?thesis using load_size_valid [of b] load_size_expansion [of i] by simp
qed

text \<open>\<open>c.lw a5, 4(a4)\<close>.\<close>

theorem load_size_matches_decoder_witness:
  "scalar_load_size (rvc_converter 0x435c) = 4"
proof -
  have p: "rvc_is_rvc 0x435c" "bits 1 0 (0x435c :: u16) = 0" "rvc_funct3 0x435c = 2"
    by (simp_all add: rvc_is_rvc_def rvc_funct3_def field_eq)
  then show ?thesis
    using load_size_matches_decoder [of undefined undefined "0x435c"] load_size_parcel [OF p(1)] by metis
qed

end
