(* ===== verification/Plic.thy ===== *)
theory Plic
  imports Prelude
begin

text \<open>
  The interrupt controller, \<open>plic.sv\<close>: its registers, the selection of the best pending source for a
  context, and one clock edge with the bus access it serves. The trace outputs are left out.
\<close>

unbundle bit_operations_syntax

type_synonym irqs = "33 word"

record plic =
  irq_priority :: "nat \<Rightarrow> 3 word"
  pending :: irqs
  in_service :: irqs
  enable_m :: irqs
  enable_s :: irqs
  threshold_m :: "3 word"
  threshold_s :: "3 word"
  bus_wait_valid_low :: bool
  bus_rvalid :: bool
  bus_rdata :: u64

record plic_in =
  bus_valid :: bool
  bus_addr :: u64
  bus_wen :: bool
  bus_wdata :: u64
  source_irq :: irqs

abbreviation PLIC_NUM_SOURCES :: nat where "PLIC_NUM_SOURCES \<equiv> 32"
abbreviation PLIC_PENDING_BASE :: u64 where "PLIC_PENDING_BASE \<equiv> 0x1000"
abbreviation PLIC_ENABLE_M :: u64 where "PLIC_ENABLE_M \<equiv> 0x2000"
abbreviation PLIC_ENABLE_S :: u64 where "PLIC_ENABLE_S \<equiv> 0x2080"
abbreviation PLIC_CONTEXT_M :: u64 where "PLIC_CONTEXT_M \<equiv> 0x200000"
abbreviation PLIC_CONTEXT_S :: u64 where "PLIC_CONTEXT_S \<equiv> 0x201000"

definition plic_reset :: plic where
  "plic_reset = \<lparr>irq_priority = (\<lambda>_. 0), pending = 0, in_service = 0, enable_m = 0, enable_s = 0,
     threshold_m = 0, threshold_s = 0, bus_wait_valid_low = False, bus_rvalid = False, bus_rdata = 0\<rparr>"

definition word_from_bus :: "u64 \<Rightarrow> u64 \<Rightarrow> u32" where
  "word_from_bus wdata addr = (if bit addr 2 then ucast (drop_bit 32 wdata) else ucast wdata)"

definition word_to_bus :: "u32 \<Rightarrow> u64 \<Rightarrow> u64" where
  "word_to_bus v addr = (if bit addr 2 then push_bit 32 (ucast v) else ucast v)"

definition enable_from_word :: "u32 \<Rightarrow> irqs" where
  "enable_from_word v = push_bit 1 (ucast (bits 31 1 v))"

text \<open>The loop of \<open>select_irq\<close>, with its variables \<open>best_irq\<close> and \<open>best_priority\<close>.\<close>

definition select_loop :: "irqs \<Rightarrow> plic \<Rightarrow> nat list \<Rightarrow> nat \<times> 3 word \<Rightarrow> nat \<times> 3 word" where
  "select_loop enable s = fold (\<lambda>i (best_irq, best_priority).
     if bit (pending s) i \<and> bit enable i \<and> irq_priority s i > best_priority then (i, irq_priority s i)
     else (best_irq, best_priority))"

definition select_irq :: "irqs \<Rightarrow> 3 word \<Rightarrow> plic \<Rightarrow> nat" where
  "select_irq enable threshold s = fst (select_loop enable s [1 ..< Suc PLIC_NUM_SOURCES] (0, threshold))"

definition selected_m :: "plic \<Rightarrow> nat" where "selected_m s = select_irq (enable_m s) (threshold_m s) s"
definition selected_s :: "plic \<Rightarrow> nat" where "selected_s s = select_irq (enable_s s) (threshold_s s) s"
definition meip :: "plic \<Rightarrow> bool" where "meip s \<longleftrightarrow> selected_m s \<noteq> 0"
definition seip :: "plic \<Rightarrow> bool" where "seip s \<longleftrightarrow> selected_s s \<noteq> 0"

definition irq_index :: "u64 \<Rightarrow> nat" where "irq_index addr = unat (bits 7 2 addr)"

definition plic_read_reg :: "u64 \<Rightarrow> plic \<Rightarrow> u32" where
  "plic_read_reg addr s =
     (if addr < PLIC_PENDING_BASE
      then (if irq_index addr \<le> PLIC_NUM_SOURCES then ucast (irq_priority s (irq_index addr)) else 0)
      else if addr = PLIC_PENDING_BASE then ucast (pending s)
      else if addr = PLIC_PENDING_BASE + 4 then of_bool (bit (pending s) 32)
      else if addr = PLIC_ENABLE_M then ucast (enable_m s)
      else if addr = PLIC_ENABLE_S then ucast (enable_s s)
      else if addr = PLIC_ENABLE_M + 4 then of_bool (bit (enable_m s) 32)
      else if addr = PLIC_ENABLE_S + 4 then of_bool (bit (enable_s s) 32)
      else if addr = PLIC_CONTEXT_M then ucast (threshold_m s)
      else if addr = PLIC_CONTEXT_M + 4 then of_nat (selected_m s)
      else if addr = PLIC_CONTEXT_S then ucast (threshold_s s)
      else if addr = PLIC_CONTEXT_S + 4 then of_nat (selected_s s)
      else 0)"

definition bus_fire :: "plic_in \<Rightarrow> plic \<Rightarrow> bool" where
  "bus_fire i s \<longleftrightarrow> bus_valid i \<and> \<not> bus_wait_valid_low s"

definition plic_bus :: "plic_in \<Rightarrow> plic \<Rightarrow> plic \<Rightarrow> plic" where
  "plic_bus i s t =
     (if bus_fire i s
      then t\<lparr>bus_wait_valid_low := True, bus_rvalid := True,
             bus_rdata := word_to_bus (plic_read_reg (bus_addr i) s) (bus_addr i)\<rparr>
      else if \<not> bus_valid i then t\<lparr>bus_rvalid := False, bus_rdata := 0, bus_wait_valid_low := False\<rparr>
      else t\<lparr>bus_rvalid := False, bus_rdata := 0\<rparr>)"

definition plic_complete :: "u32 \<Rightarrow> plic \<Rightarrow> plic" where
  "plic_complete wword t =
     (let n = unat (take_bit 6 wword)
      in if n \<le> PLIC_NUM_SOURCES then t\<lparr>in_service := put_bit n False (in_service t)\<rparr> else t)"

definition plic_write :: "plic_in \<Rightarrow> plic \<Rightarrow> plic" where
  "plic_write i t =
     (let addr = bus_addr i; wword = word_from_bus (bus_wdata i) addr; n = irq_index addr
      in if addr < PLIC_PENDING_BASE
         then (if 1 \<le> n \<and> n \<le> PLIC_NUM_SOURCES
               then t\<lparr>irq_priority := (irq_priority t)(n := ucast (bits 2 0 wword))\<rparr> else t)
         else if addr = PLIC_ENABLE_M then t\<lparr>enable_m := enable_from_word wword\<rparr>
         else if addr = PLIC_ENABLE_S then t\<lparr>enable_s := enable_from_word wword\<rparr>
         else if addr = PLIC_ENABLE_M + 4 then t\<lparr>enable_m := put_bit 32 (bit wword 0) (enable_m t)\<rparr>
         else if addr = PLIC_ENABLE_S + 4 then t\<lparr>enable_s := put_bit 32 (bit wword 0) (enable_s t)\<rparr>
         else if addr = PLIC_CONTEXT_M then t\<lparr>threshold_m := ucast (bits 2 0 wword)\<rparr>
         else if addr = PLIC_CONTEXT_M + 4 then plic_complete wword t
         else if addr = PLIC_CONTEXT_S then t\<lparr>threshold_s := ucast (bits 2 0 wword)\<rparr>
         else if addr = PLIC_CONTEXT_S + 4 then plic_complete wword t
         else t)"

definition plic_claim :: "plic_in \<Rightarrow> plic \<Rightarrow> plic \<Rightarrow> plic" where
  "plic_claim i s t =
     (if bus_addr i = PLIC_CONTEXT_M + 4 \<and> selected_m s \<noteq> 0
      then t\<lparr>pending := put_bit (selected_m s) False (pending t), in_service := put_bit (selected_m s) True (in_service t)\<rparr>
      else if bus_addr i = PLIC_CONTEXT_S + 4 \<and> selected_s s \<noteq> 0
      then t\<lparr>pending := put_bit (selected_s s) False (pending t), in_service := put_bit (selected_s s) True (in_service t)\<rparr>
      else t)"

text \<open>One edge: the assignments in the order of the source, a later one to the same bit prevailing.\<close>

definition plic_step :: "plic_in \<Rightarrow> plic \<Rightarrow> plic" where
  "plic_step i s =
     (let t = plic_bus i s s;
          t = t\<lparr>pending := put_bit 0 False (pending s OR (source_irq i AND NOT (in_service s))),
                in_service := put_bit 0 False (in_service s)\<rparr>
      in if bus_fire i s then (if bus_wen i then plic_write i t else plic_claim i s t) else t)"

fun plic_run :: "plic_in list \<Rightarrow> plic \<Rightarrow> plic" where
  "plic_run [] s = s"
| "plic_run (i # is) s = plic_run is (plic_step i s)"


section \<open>Selection\<close>

text \<open>The sources that may interrupt a context, and how the best one is chosen.\<close>

definition candidate :: "irqs \<Rightarrow> 3 word \<Rightarrow> plic \<Rightarrow> nat \<Rightarrow> bool" where
  "candidate enable threshold s i \<longleftrightarrow>
     1 \<le> i \<and> i \<le> 32 \<and> bit (pending s) i \<and> bit enable i \<and> threshold < irq_priority s i"

definition best_candidate :: "irqs \<Rightarrow> 3 word \<Rightarrow> plic \<Rightarrow> nat \<Rightarrow> bool" where
  "best_candidate enable threshold s k \<longleftrightarrow>
     candidate enable threshold s k \<and>
     (\<forall>i. candidate enable threshold s i \<longrightarrow>
        irq_priority s i < irq_priority s k \<or> (irq_priority s i = irq_priority s k \<and> k \<le> i))"

lemma select_loop_best:
  assumes "n \<le> 32"
  shows "case select_loop enable s [1 ..< Suc n] (0, th) of (k, p) \<Rightarrow>
    (\<forall>i. candidate enable th s i \<and> i \<le> n \<longrightarrow> irq_priority s i \<le> p \<and> (irq_priority s i = p \<longrightarrow> k \<le> i)) \<and>
    (if k = 0 then p = th else candidate enable th s k \<and> k \<le> n \<and> p = irq_priority s k)"
  using assms
proof (induction n)
  case 0
  then show ?case by (auto simp: select_loop_def candidate_def)
next
  case (Suc n)
  obtain k p where kp: "select_loop enable s [1 ..< Suc n] (0, th) = (k, p)" by fastforce
  have step: "select_loop enable s [1 ..< Suc (Suc n)] (0, th) =
      (if bit (pending s) (Suc n) \<and> bit enable (Suc n) \<and> p < irq_priority s (Suc n)
       then (Suc n, irq_priority s (Suc n)) else (k, p))"
    using kp by (simp add: select_loop_def)
  have IH: "\<forall>i. candidate enable th s i \<and> i \<le> n \<longrightarrow> irq_priority s i \<le> p \<and> (irq_priority s i = p \<longrightarrow> k \<le> i)"
    "if k = 0 then p = th else candidate enable th s k \<and> k \<le> n \<and> p = irq_priority s k"
    using Suc kp by simp_all
  have "th \<le> p" using IH(2) by (auto simp: candidate_def split: if_splits)
  then show ?case unfolding step using IH Suc.prems
    by (auto simp: candidate_def le_Suc_eq split: if_splits)
qed

lemma select_cases:
  "if select_irq enable th s = 0 then \<forall>i. \<not> candidate enable th s i
   else best_candidate enable th s (select_irq enable th s)"
proof -
  obtain k p where kp: "select_loop enable s [1 ..< Suc 32] (0, th) = (k, p)" by fastforce
  then have k: "select_irq enable th s = k" by (simp add: select_irq_def)
  have c: "i \<le> 32 \<and> th < irq_priority s i" if "candidate enable th s i" for i
    using that by (simp add: candidate_def)
  have best: "irq_priority s i \<le> p \<and> (irq_priority s i = p \<longrightarrow> k \<le> i)" if "candidate enable th s i" for i
    using select_loop_best [where n = 32 and enable = enable and s = s and th = th] kp c [OF that] that by simp
  have found: "if k = 0 then p = th else candidate enable th s k \<and> p = irq_priority s k"
    using select_loop_best [where n = 32 and enable = enable and s = s and th = th] kp by (simp split: if_splits)
  show ?thesis
  proof (cases "k = 0")
    case True
    then have "p = th" using found by simp
    then show ?thesis using True k best c by (metis not_le)
  next
    case False
    then have "best_candidate enable th s k"
      using found best unfolding best_candidate_def by (metis order_le_less)
    then show ?thesis using False k by simp
  qed
qed

lemma selected_range: "candidate enable th s (select_irq enable th s)" if "select_irq enable th s \<noteq> 0"
  using select_cases [of enable th s] that by (simp add: best_candidate_def)

lemma raised_iff:
  "meip s \<longleftrightarrow> (\<exists>i. candidate (enable_m s) (threshold_m s) s i)" "seip s \<longleftrightarrow> (\<exists>i. candidate (enable_s s) (threshold_s s) s i)"
  using select_cases [of "enable_m s" "threshold_m s" s] select_cases [of "enable_s s" "threshold_s s" s]
  by (auto simp: meip_def seip_def selected_m_def selected_s_def best_candidate_def split: if_splits)


section \<open>Claim and completion\<close>

definition claims :: "plic_in \<Rightarrow> plic \<Rightarrow> nat \<Rightarrow> bool" where
  "claims i s k \<longleftrightarrow> bus_fire i s \<and> \<not> bus_wen i \<and> k \<noteq> 0 \<and>
     (bus_addr i = PLIC_CONTEXT_M + 4 \<and> k = selected_m s \<or> bus_addr i = PLIC_CONTEXT_S + 4 \<and> k = selected_s s)"

definition completes :: "plic_in \<Rightarrow> nat \<Rightarrow> bool" where
  "completes i k \<longleftrightarrow> bus_valid i \<and> bus_wen i \<and> bus_addr i \<in> {PLIC_CONTEXT_M + 4, PLIC_CONTEXT_S + 4} \<and>
     unat (take_bit 6 (word_from_bus (bus_wdata i) (bus_addr i))) = k"

inductive plic_reach :: "plic \<Rightarrow> bool" where
  reset: "plic_reach plic_reset"
| edge: "plic_reach s \<Longrightarrow> plic_reach (plic_step i s)"

lemma claims_range: "claims i s k \<Longrightarrow> bit (pending s) k \<and> 1 \<le> k \<and> k \<le> 32"
  using selected_range [of "enable_m s" "threshold_m s" s] selected_range [of "enable_s s" "threshold_s s" s]
  by (auto simp: claims_def selected_m_def selected_s_def candidate_def)

text \<open>What a write and a claim do to one bit; the bus registers have no part in it.\<close>

lemma bus_frame [simp]:
  "pending (plic_bus i s t) = pending t" "in_service (plic_bus i s t) = in_service t"
  by (simp_all add: plic_bus_def)

lemma write_frame [simp]: "pending (plic_write i t) = pending t"
  by (simp add: plic_write_def plic_complete_def Let_def)

lemma write_in_service:
  "bus_valid i \<Longrightarrow> bus_wen i \<Longrightarrow> bit (in_service (plic_write i t)) k \<longleftrightarrow> bit (in_service t) k \<and> \<not> completes i k"
  by (auto simp: plic_write_def plic_complete_def completes_def Let_def bit_put_bit_iff dest: bit_imp_le_length)

lemma claim_bits:
  assumes "bus_fire i s" "\<not> bus_wen i"
  shows "bit (pending (plic_claim i s t)) k \<longleftrightarrow> bit (pending t) k \<and> \<not> claims i s k"
    "bit (in_service (plic_claim i s t)) k \<longleftrightarrow> bit (in_service t) k \<or> claims i s k"
  using assms claims_range [of i s k]
  by (auto simp: plic_claim_def claims_def bit_put_bit_iff)

lemma pending_step:
  "bit (pending (plic_step i s)) k \<longleftrightarrow>
     k \<noteq> 0 \<and> (bit (pending s) k \<or> bit (source_irq i) k \<and> \<not> bit (in_service s) k) \<and> \<not> claims i s k"
proof -
  have "bit (put_bit 0 False (pending s OR (source_irq i AND NOT (in_service s)))) k \<longleftrightarrow>
      k \<noteq> 0 \<and> (bit (pending s) k \<or> bit (source_irq i) k \<and> \<not> bit (in_service s) k)"
    by (auto simp: bit_put_bit_iff bit_simps dest: bit_imp_le_length)
  moreover have "\<not> bus_fire i s \<or> bus_wen i \<Longrightarrow> \<not> claims i s k" by (auto simp: claims_def)
  ultimately show ?thesis by (auto simp: plic_step_def Let_def claim_bits)
qed

lemma in_service_step:
  "bit (in_service (plic_step i s)) k \<longleftrightarrow>
     (k \<noteq> 0 \<and> bit (in_service s) k \<and> \<not> (completes i k \<and> bus_fire i s)) \<or> claims i s k"
proof -
  have "bit (put_bit 0 False (in_service s)) k \<longleftrightarrow> k \<noteq> 0 \<and> bit (in_service s) k"
    by (auto simp: bit_put_bit_iff)
  moreover have "\<not> bus_fire i s \<or> bus_wen i \<Longrightarrow> \<not> claims i s k" by (auto simp: claims_def)
  moreover have "bus_fire i s \<Longrightarrow> bus_valid i" by (simp add: bus_fire_def)
  moreover have "completes i k \<Longrightarrow> bus_wen i" by (simp add: completes_def)
  ultimately show ?thesis by (auto simp: plic_step_def Let_def claim_bits write_in_service)
qed

lemma reach_disjoint:
  "plic_reach s \<Longrightarrow> \<not> (bit (pending s) k \<and> bit (in_service s) k) \<and> \<not> bit (in_service s) 0"
proof (induction rule: plic_reach.induct)
  case reset
  then show ?case by (simp add: plic_reset_def)
next
  case (edge s i)
  then show ?case using claims_range [of i s k] claims_range [of i s 0]
    by (auto simp: pending_step in_service_step)
qed

lemma served_until_completed:
  assumes "plic_reach s" "bit (in_service s) k" "\<not> (\<exists>e \<in> set es. completes e k)"
  shows "plic_reach (plic_run es s) \<and> bit (in_service (plic_run es s)) k"
  using assms
proof (induction es arbitrary: s)
  case (Cons e es)
  have "k \<noteq> 0" using Cons.prems(1,2) reach_disjoint by metis
  then show ?case using Cons by (simp add: plic_reach.edge in_service_step)
qed simp

lemma claim_starts: "claims i s k \<Longrightarrow> bit (in_service (plic_step i s)) k"
  by (simp add: in_service_step)

lemma claim_value:
  "claims i s k \<Longrightarrow> bus_rdata (plic_step i s) = word_to_bus (of_nat k) (bus_addr i)"
proof -
  assume c: "claims i s k"
  have "bus_rdata (plic_claim i s t) = bus_rdata t" for t by (simp add: plic_claim_def)
  then have "bus_rdata (plic_step i s) = word_to_bus (plic_read_reg (bus_addr i) s) (bus_addr i)"
    using c by (simp add: plic_step_def plic_bus_def claims_def Let_def)
  moreover have "plic_read_reg (bus_addr i) s = of_nat k"
    using c by (auto simp: claims_def plic_read_reg_def)
  ultimately show ?thesis by simp
qed

lemma enable_word_32: "\<not> bit (enable_from_word v) 32"
  unfolding enable_from_word_def by (simp only: bit_simps word_slices) simp

text \<open>The first enable word also clears the bit of source 32, which lives in the second.\<close>

lemma enable_word_clears_last:
  assumes "bus_fire i s" "bus_wen i" "bus_addr i = PLIC_ENABLE_M \<or> bus_addr i = PLIC_ENABLE_S"
  shows "\<not> bit (if bus_addr i = PLIC_ENABLE_M then enable_m (plic_step i s) else enable_s (plic_step i s)) 32"
  using assms
  by (auto simp: plic_step_def plic_write_def Let_def enable_word_32)


section \<open>Properties\<close>

text \<open>
  C22. An interrupt is served once. In every reachable state the external interrupt lines are raised
  exactly when a source is pending, enabled and above the threshold of the context; a claim reads the
  lowest-numbered of those with the highest priority for the context whose claim register it reads,
  and from then on no read of either context claims that source again until its completion is
  written, even while the device keeps its line raised.
\<close>

theorem plic_serves_once:
  assumes "plic_reach s" and "claims i s k" and "\<not> (\<exists>e \<in> set es. completes e k)"
  shows "meip s = (\<exists>n. candidate (enable_m s) (threshold_m s) s n) \<and>
    seip s = (\<exists>n. candidate (enable_s s) (threshold_s s) s n) \<and>
    (bus_addr i = PLIC_CONTEXT_M + 4 \<and> best_candidate (enable_m s) (threshold_m s) s k \<or>
     bus_addr i = PLIC_CONTEXT_S + 4 \<and> best_candidate (enable_s s) (threshold_s s) s k) \<and>
    bus_rdata (plic_step i s) = word_to_bus (of_nat k) (bus_addr i) \<and>
    (\<forall>e. \<not> claims e (plic_run es (plic_step i s)) k)"
proof -
  have r: "plic_reach (plic_run es (plic_step i s)) \<and> bit (in_service (plic_run es (plic_step i s))) k"
    using served_until_completed [OF plic_reach.edge [OF assms(1)] claim_starts [OF assms(2)] assms(3)] .
  then have "\<not> claims e (plic_run es (plic_step i s)) k" for e
    using claims_range [of e] reach_disjoint [of _ k] by blast
  moreover have "bus_addr i = PLIC_CONTEXT_M + 4 \<and> best_candidate (enable_m s) (threshold_m s) s k \<or>
      bus_addr i = PLIC_CONTEXT_S + 4 \<and> best_candidate (enable_s s) (threshold_s s) s k"
    using assms(2) select_cases [of "enable_m s" "threshold_m s" s] select_cases [of "enable_s s" "threshold_s s" s]
    by (auto simp: claims_def selected_m_def selected_s_def split: if_splits)
  ultimately show ?thesis using raised_iff claim_value [OF assms(2)] by blast
qed

text \<open>The UART (source 10) for the supervisor: priority 1, enabled, its line raised, then claimed.\<close>

definition demo_bus :: "bool \<Rightarrow> u64 \<Rightarrow> bool \<Rightarrow> u64 \<Rightarrow> plic_in" where
  "demo_bus v a w d = \<lparr>bus_valid = v, bus_addr = a, bus_wen = w, bus_wdata = d, source_irq = 0x400\<rparr>"

definition demo_setup :: "plic_in list" where
  "demo_setup = [demo_bus True 0x28 True 1, demo_bus False 0 False 0, demo_bus True 0x2080 True 0x400, demo_bus False 0 False 0]"

definition demo_claim :: plic_in where "demo_claim = demo_bus True 0x201004 False 0"

lemma reach_run: "plic_reach s \<Longrightarrow> plic_reach (plic_run es s)"
  by (induction es arbitrary: s) (simp_all add: plic_reach.edge)

lemma demo_setup_state:
  "plic_run demo_setup plic_reset =
     plic_reset\<lparr>irq_priority := (\<lambda>_. 0)(10 := 1), pending := 0x400, enable_s := 0x400\<rparr>"
  by (simp add: demo_setup_def demo_bus_def plic_step_def plic_bus_def bus_fire_def plic_write_def plic_reset_def
      put_bit_def word_from_bus_def irq_index_def bits_def enable_from_word_def Let_def)

lemma demo_claims: "claims demo_claim (plic_run demo_setup plic_reset) 10"
proof -
  have "selected_s (plic_run demo_setup plic_reset) = 10"
    unfolding demo_setup_state
    by (simp add: selected_s_def select_irq_def select_loop_def plic_reset_def upt_rec)
  moreover have "\<not> bus_wait_valid_low (plic_run demo_setup plic_reset)"
    unfolding demo_setup_state by (simp add: plic_reset_def)
  ultimately show ?thesis by (simp add: claims_def demo_claim_def demo_bus_def bus_fire_def)
qed

theorem plic_serves_once_witness:
  "bus_rdata (plic_step demo_claim (plic_run demo_setup plic_reset)) = push_bit 32 10 \<and>
   \<not> claims demo_claim (plic_run [demo_bus False 0 False 0] (plic_step demo_claim (plic_run demo_setup plic_reset))) 10"
proof -
  have "\<not> (\<exists>e \<in> set [demo_bus False 0 False 0]. completes e 10)" by (simp add: completes_def demo_bus_def)
  note t = plic_serves_once [OF reach_run [OF plic_reach.reset] demo_claims this]
  moreover have "word_to_bus (of_nat 10) (bus_addr demo_claim) = push_bit 32 10"
    by (simp add: word_to_bus_def demo_claim_def demo_bus_def)
  ultimately show ?thesis by simp
qed

end
