(* ===== verification/Uart.thy ===== *)
theory Uart
  imports Fifo Platform
begin

text \<open>
  The UART, \<open>uart_ns16550.sv\<close>, one clock edge at a time, together with the host input it polls through
  the DPI function \<open>get_input_dpic\<close>: \<open>host\<close> is the list of characters the host still has to give.
  \<open>debug_input\<close> is the macro \<open>ENABLE_DEBUG_INPUT\<close>; the trace outputs are left out. The receive FIFO is an
  instance of \<open>handshake_queue\<close>.
\<close>

unbundle bit_operations_syntax

section \<open>Registers and inputs\<close>

text \<open>\<open>rx_head\<close> and \<open>rx_tail\<close> are four bits wide, \<open>rx_count\<close> five.\<close>

record uart_rx =
  rx_fifo :: "nat \<Rightarrow> u8"
  rx_head :: nat
  rx_tail :: nat
  rx_count :: nat

record uart = uart_rx +
  lcr :: u8
  ier :: u8
  dll :: u8
  dlm :: u8
  fcr :: u8
  mcr :: u8
  scr :: u8
  tx_irq_pending :: bool
  tx_empty_event :: bool
  uart_wait :: bool
  uart_rvalid :: bool
  uart_rdata :: u64
  tx_char_valid :: bool
  tx_char :: u8

record uart_in =
  u_valid :: bool
  u_addr :: u64
  u_wen :: bool
  u_wdata :: u64
  u_wmask :: u8

abbreviation RX_FIFO_DEPTH :: nat where "RX_FIFO_DEPTH \<equiv> 16"



section \<open>Combinational logic\<close>

definition rx_valid :: "'a uart_rx_scheme \<Rightarrow> bool" where "rx_valid s \<longleftrightarrow> rx_count s \<noteq> 0"
definition rx_data :: "'a uart_rx_scheme \<Rightarrow> u8" where "rx_data s = rx_fifo s (rx_head s)"

definition uart_irq :: "uart \<Rightarrow> bool" where
  "uart_irq s \<longleftrightarrow> rx_valid s \<and> bit (ier s) 0 \<or> tx_irq_pending s \<and> bit (ier s) 1"

definition reg_addr :: "uart_in \<Rightarrow> nat" where "reg_addr i = unat (take_bit 3 (u_addr i))"

definition get_write_byte :: "uart_in \<Rightarrow> u8" where
  "get_write_byte i = ucast (drop_bit (reg_addr i * 8) (u_wdata i))"

definition uart_read_reg :: "uart_in \<Rightarrow> uart \<Rightarrow> u8" where
  "uart_read_reg i s =
     (let dlab = bit (lcr s) 7; r = reg_addr i in
      if r = 0 then (if dlab then dll s else rx_data s)
      else if r = 1 then (if dlab then dlm s else ier s)
      else if r = 2
      then 0xc0 OR (if rx_valid s \<and> bit (ier s) 0 then 0x04 else if tx_irq_pending s \<and> bit (ier s) 1 then 0x02 else 0x01)
      else if r = 3 then lcr s
      else if r = 4 then mcr s
      else if r = 5 then 0x60 OR of_bool (rx_valid s)
      else if r = 6 then 0
      else scr s)"

definition read_lane_data :: "uart_in \<Rightarrow> uart \<Rightarrow> u64" where
  "read_lane_data i s = push_bit (reg_addr i * 8) (ucast (uart_read_reg i s))"

definition uart_fire :: "uart_in \<Rightarrow> uart \<Rightarrow> bool" where
  "uart_fire i s \<longleftrightarrow> u_valid i \<and> \<not> uart_wait s"

definition rbr_read :: "uart_in \<Rightarrow> uart \<Rightarrow> bool" where
  "rbr_read i s \<longleftrightarrow> uart_fire i s \<and> \<not> u_wen i \<and> \<not> bit (lcr s) 7 \<and> reg_addr i = 0"

definition iir_read :: "uart_in \<Rightarrow> uart \<Rightarrow> bool" where
  "iir_read i s \<longleftrightarrow> uart_fire i s \<and> \<not> u_wen i \<and> \<not> bit (lcr s) 7 \<and> reg_addr i = 2"

definition iir_reports_thre :: "uart_in \<Rightarrow> uart \<Rightarrow> bool" where
  "iir_reports_thre i s \<longleftrightarrow>
     iir_read i s \<and> \<not> (rx_valid s \<and> bit (ier s) 0) \<and> tx_irq_pending s \<and> bit (ier s) 1"

definition rx_pop :: "uart_in \<Rightarrow> uart \<Rightarrow> bool" where "rx_pop i s \<longleftrightarrow> rbr_read i s \<and> rx_valid s"

definition rx_count_after_pop :: "bool \<Rightarrow> 'a uart_rx_scheme \<Rightarrow> nat" where
  "rx_count_after_pop pop s = (rx_count s + 32 - of_bool pop) mod 32"

definition byte_write_valid :: "uart_in \<Rightarrow> bool" where "byte_write_valid i = bit (u_wmask i) (reg_addr i)"

definition rx_clear :: "uart_in \<Rightarrow> uart \<Rightarrow> bool" where
  "rx_clear i s \<longleftrightarrow>
     uart_fire i s \<and> u_wen i \<and> byte_write_valid i \<and> reg_addr i = 2 \<and> bit (get_write_byte i) 1"


section \<open>One clock edge\<close>

text \<open>
  The host: the UART calls \<open>get_input\<close> in every cycle in which its FIFO has room, whether or not the
  character can then be kept.
\<close>

definition polls_host :: "bool \<Rightarrow> uart_in \<Rightarrow> uart \<Rightarrow> bool" where
  "polls_host debug_input i s \<longleftrightarrow> debug_input \<and> rx_count_after_pop (rx_pop i s) s < RX_FIFO_DEPTH"

definition input_value :: "u8 list \<Rightarrow> u64" where
  "input_value host = get_input_dpic (case host of [] \<Rightarrow> None | c # _ \<Rightarrow> Some c)"

definition input_offered :: "u8 list \<Rightarrow> bool" where
  "input_offered host \<longleftrightarrow> bits 63 44 (input_value host) = 0x01010"


definition rx_update :: "bool \<Rightarrow> bool \<Rightarrow> u8 \<Rightarrow> bool \<Rightarrow> 'a uart_rx_scheme \<Rightarrow> 'a uart_rx_scheme" where
  "rx_update clear push data pop s =
     (if clear then s\<lparr>rx_head := 0, rx_tail := 0, rx_count := 0\<rparr>
      else if \<not> push \<and> pop then s\<lparr>rx_head := (rx_head s + 1) mod 16, rx_count := (rx_count s + 31) mod 32\<rparr>
      else if push \<and> \<not> pop
      then s\<lparr>rx_fifo := (rx_fifo s)(rx_tail s := data), rx_tail := (rx_tail s + 1) mod 16,
             rx_count := (rx_count s + 1) mod 32\<rparr>
      else if push \<and> pop
      then s\<lparr>rx_fifo := (rx_fifo s)(rx_tail s := data), rx_head := (rx_head s + 1) mod 16,
             rx_tail := (rx_tail s + 1) mod 16\<rparr>
      else s)"

definition uart_bus :: "uart_in \<Rightarrow> uart \<Rightarrow> uart" where
  "uart_bus i s =
     (if uart_fire i s then s\<lparr>uart_wait := True, uart_rvalid := True, uart_rdata := read_lane_data i s\<rparr>
      else if \<not> u_valid i then s\<lparr>uart_rvalid := False, uart_rdata := 0, uart_wait := False\<rparr>
      else s\<lparr>uart_rvalid := False, uart_rdata := 0\<rparr>)"

text \<open>\<open>t\<close> holds the assignments made so far in the edge, \<open>s\<close> the registers before it.\<close>

definition uart_tx_event :: "uart \<Rightarrow> uart \<Rightarrow> uart" where
  "uart_tx_event s t =
     (if tx_empty_event s
      then t\<lparr>tx_empty_event := False, tx_irq_pending := (if bit (ier s) 1 then True else tx_irq_pending t)\<rparr>
      else t)"

definition uart_write :: "uart_in \<Rightarrow> uart \<Rightarrow> uart \<Rightarrow> uart" where
  "uart_write i s t =
     (let dlab = bit (lcr s) 7; wbyte = get_write_byte i; r = reg_addr i in
      if r = 0
      then (if dlab then t\<lparr>dll := wbyte\<rparr>
            else t\<lparr>tx_char_valid := True, tx_char := wbyte, tx_irq_pending := False, tx_empty_event := True\<rparr>)
      else if r = 1
      then (if dlab then t\<lparr>dlm := wbyte\<rparr>
            else (let t = t\<lparr>ier := wbyte AND 0x0f\<rparr> in
                  if \<not> bit wbyte 1 then t\<lparr>tx_irq_pending := False, tx_empty_event := False\<rparr>
                  else if \<not> bit (ier s) 1 then t\<lparr>tx_irq_pending := True\<rparr> else t))
      else if r = 2 then t\<lparr>fcr := wbyte\<rparr>
      else if r = 3 then t\<lparr>lcr := wbyte\<rparr>
      else if r = 4 then t\<lparr>mcr := wbyte\<rparr>
      else if r = 7 then t\<lparr>scr := wbyte\<rparr>
      else t)"

definition uart_access :: "uart_in \<Rightarrow> uart \<Rightarrow> uart \<Rightarrow> uart" where
  "uart_access i s t =
     (if u_wen i then (if byte_write_valid i then uart_write i s t else t)
      else if \<not> bit (lcr s) 7 \<and> reg_addr i = 0 then t
      else if reg_addr i = 2 then (if iir_reports_thre i s then t\<lparr>tx_irq_pending := False\<rparr> else t)
      else t)"

definition uart_step :: "bool \<Rightarrow> uart_in \<Rightarrow> u8 list \<Rightarrow> uart \<Rightarrow> uart" where
  "uart_step debug_input i host s =
     (let t = (uart_bus i s)\<lparr>tx_char_valid := False, tx_char := 0\<rparr>;
          t = uart_tx_event s t;
          t = (if uart_fire i s then uart_access i s t else t)
      in rx_update (rx_clear i s) (polls_host debug_input i s \<and> input_offered host) (ucast (input_value host))
           (rx_pop i s) t)"





section \<open>The receive FIFO as a queue\<close>


definition rx_contents :: "'a uart_rx_scheme \<Rightarrow> u8 list" where
  "rx_contents s = cells 16 (rx_fifo s) (rx_head s) (rx_count s)"

definition rx_wready :: "u8 fifo_in \<Rightarrow> 'a uart_rx_scheme \<Rightarrow> bool" where
  "rx_wready i s \<longleftrightarrow> rx_count_after_pop (in_rready i \<and> rx_valid s) s < RX_FIFO_DEPTH"

definition rx_edge :: "u8 fifo_in \<Rightarrow> 'a uart_rx_scheme \<Rightarrow> 'a uart_rx_scheme" where
  "rx_edge i s =
     rx_update (in_flush i) (rx_wready i s \<and> in_wvalid i) (in_wdata i) (in_rready i \<and> rx_valid s) s"








section \<open>One edge of the UART as one edge of the queue\<close>


definition uart_others :: "uart_in \<Rightarrow> uart \<Rightarrow> uart" where
  "uart_others i s =
     (let t = uart_tx_event s ((uart_bus i s)\<lparr>tx_char_valid := False, tx_char := 0\<rparr>)
      in if uart_fire i s then uart_access i s t else t)"

lemma others_frame [simp]:
  "rx_fifo (uart_others i s) = rx_fifo s" "rx_head (uart_others i s) = rx_head s"
  "rx_tail (uart_others i s) = rx_tail s" "rx_count (uart_others i s) = rx_count s"
  "uart_rdata (uart_others i s) = uart_rdata (uart_bus i s)"
  by (simp_all add: uart_others_def uart_tx_event_def uart_access_def uart_write_def uart_bus_def Let_def)


lemma rdata_frame [simp]: "uart_rdata (rx_edge e t) = uart_rdata (t :: uart)"
  by (simp add: rx_edge_def rx_update_def)







text \<open>
  What becomes of a character the UART has taken, in the order of the host's input: the program reads
  it, or it is thrown away by a write to FCR that clears the FIFO, which empties the FIFO and drops
  the character polled in that very cycle.
\<close>

datatype fate = ReadOut (the_char: u8) | Cleared (the_char: u8)

definition edge_fates :: "bool \<Rightarrow> uart_in \<Rightarrow> u8 list \<Rightarrow> uart \<Rightarrow> fate list" where
  "edge_fates d i host s =
     (if rx_clear i s
      then map Cleared (rx_contents s @ (if polls_host d i s \<and> host \<noteq> [] then [hd host] else []))
      else if rx_pop i s then [ReadOut (ucast (uart_rdata (uart_step d i host s)))] else [])"





text \<open>The characters read are those the bus delivers, whatever is cleared in between.\<close>

definition is_read :: "fate \<Rightarrow> bool" where
  "is_read f \<longleftrightarrow> (case f of ReadOut _ \<Rightarrow> True | Cleared _ \<Rightarrow> False)"

lemma is_read_simps [simp]: "is_read (ReadOut c)" "\<not> is_read (Cleared c)"
  by (simp_all add: is_read_def)






section \<open>Properties\<close>


text \<open>One character from the host, two cycles without an access: the debug port would get nothing.\<close>

definition quiet_bus :: uart_in where
  "quiet_bus = \<lparr>u_valid = False, u_addr = 0, u_wen = False, u_wdata = 0, u_wmask = 0\<rparr>"

lemma quiet_fates [simp]: "edge_fates d quiet_bus host s = []"
  by (simp add: quiet_bus_def edge_fates_def rx_clear_def rx_pop_def rbr_read_def uart_fire_def)


end
