(* ===== verification/Terminal.thy ===== *)
theory Terminal
  imports Prelude
begin

text \<open>
  The terminal set-up of \<open>tb/tb_verilator.cpp\<close> (builds with \<open>ENABLE_DEBUG_INPUT\<close>): raw,
  non-blocking standard input, and the three ways the old setting comes back. The system calls are
  POSIX: their answers and constants are the record \<open>posix\<close>. \<open>set_nonblocking\<close> yields the states
  after each of its effects, since a signal can arrive between any two of them.
\<close>

section \<open>The system\<close>

record termios =
  c_iflag :: u32
  c_oflag :: u32
  c_cflag :: u32
  c_lflag :: u32
  c_cc :: "nat \<Rightarrow> u8"

text \<open>The signals the program names, the one \<open>std::terminate\<close> raises, and any other by its number.\<close>

datatype signal = SIGINT | SIGTERM | SIGQUIT | SIGABRT | Other_signal int

record posix =
  stdin_is_tty :: bool
  tcgetattr_ok :: bool
  tcsetattr_ok :: bool
  restore_ok :: bool
  getfl_ok :: bool
  setfl_ok :: bool
  ICANON :: u32
  ECHO :: u32
  VMIN :: nat
  VTIME :: nat
  O_NONBLOCK :: u32
  signo :: "signal \<Rightarrow> int"

text \<open>
  What the process shares with the system (the terminal's setting and the flags of the open file,
  which outlive it), its two static variables, the installed handlers and its exit handler.
\<close>

record process =
  tty :: termios
  stdin_flags :: u32
  old_setting :: termios
  termios_changed :: bool
  handled :: "signal \<Rightarrow> bool"
  at_exit :: bool
  complaints :: "string list"


section \<open>Set-up and restoration\<close>

definition restore_termios_setting :: "posix \<Rightarrow> process \<Rightarrow> process" where
  "restore_termios_setting P p =
     (if termios_changed p \<and> restore_ok P then p\<lparr>tty := old_setting p\<rparr> else p)"

definition raw_setting :: "posix \<Rightarrow> termios \<Rightarrow> termios" where
  "raw_setting P t = t\<lparr>c_lflag := c_lflag t AND NOT (ICANON P OR ECHO P),
     c_cc := (c_cc t)(VMIN P := 0, VTIME P := 0)\<rparr>"

definition perror :: "string \<Rightarrow> process \<Rightarrow> process" where
  "perror what p = p\<lparr>complaints := complaints p @ [what]\<rparr>"

definition handle :: "signal \<Rightarrow> process \<Rightarrow> process" where
  "handle sg p = p\<lparr>handled := (handled p)(sg := True)\<rparr>"

text \<open>The states after each effect, the first being the state before the call.\<close>

definition set_flags :: "posix \<Rightarrow> process \<Rightarrow> process list" where
  "set_flags P p =
     (if \<not> getfl_ok P then [perror ''fcntl(F_GETFL)'' p]
      else if \<not> setfl_ok P then [perror ''fcntl(F_SETFL)'' p]
      else [p\<lparr>stdin_flags := stdin_flags p OR O_NONBLOCK P\<rparr>])"

definition install :: "posix \<Rightarrow> process \<Rightarrow> process list" where
  "install P p1 =
     (let p2 = p1\<lparr>termios_changed := True\<rparr>;
          p3 = handle SIGINT p2;
          p4 = handle SIGTERM p3;
          p5 = handle SIGQUIT p4;
          p6 = p5\<lparr>at_exit := True\<rparr>
      in [p1, p2, p3, p4, p5, p6] @ set_flags P p6)"

definition set_nonblocking :: "posix \<Rightarrow> process \<Rightarrow> process list" where
  "set_nonblocking P p =
     (if \<not> stdin_is_tty P then [p]
      else if \<not> tcgetattr_ok P then [p, perror ''tcgetattr'' p]
      else let p0 = p\<lparr>old_setting := tty p\<rparr>
           in if \<not> tcsetattr_ok P then [p, p0, perror ''tcsetattr'' p0]
              else [p, p0] @ install P (p0\<lparr>tty := raw_setting P (old_setting p0)\<rparr>))"

text \<open>
  How the process ends: \<open>return\<close> from \<open>main\<close> runs the exit handler, a handled signal \<open>sighandler\<close>
  (which ends in \<open>_Exit\<close> with the signal's number), and an exception nobody catches \<open>std::terminate\<close>,
  that is \<open>SIGABRT\<close>. \<open>Signalled sg\<close> with an unhandled signal is its default action where that ends the
  process (\<open>SIGHUP\<close>, \<open>SIGSEGV\<close>, \<open>SIGKILL\<close> and the like); a signal the system ignores or that only
  stops the process is no ending.
\<close>

datatype ending = Return int | Signalled signal

datatype status = Exit_status int | Killed signal

definition sighandler :: "posix \<Rightarrow> signal \<Rightarrow> process \<Rightarrow> process \<times> status" where
  "sighandler P sg p = (restore_termios_setting P p, Exit_status (signo P sg))"

definition end_process :: "posix \<Rightarrow> ending \<Rightarrow> process \<Rightarrow> process \<times> status" where
  "end_process P e p =
     (case e of
        Return n \<Rightarrow> (if at_exit p then restore_termios_setting P p else p, Exit_status n)
      | Signalled sg \<Rightarrow> (if handled p sg then sighandler P sg p else (p, Killed sg)))"

definition process_start :: "process \<Rightarrow> bool" where
  "process_start p \<longleftrightarrow> \<not> termios_changed p \<and> \<not> at_exit p \<and> \<not> (\<exists>sg. handled p sg)"


section \<open>Lemmas\<close>

lemma perror_frame [simp]:
  "tty (perror w p) = tty p" "termios_changed (perror w p) = termios_changed p" "at_exit (perror w p) = at_exit p"
  "handled (perror w p) = handled p" "old_setting (perror w p) = old_setting p" "stdin_flags (perror w p) = stdin_flags p"
  by (simp_all add: perror_def)

lemma handle_frame [simp]:
  "tty (handle sg p) = tty p" "termios_changed (handle sg p) = termios_changed p" "at_exit (handle sg p) = at_exit p"
  "handled (handle sg p) = (handled p)(sg := True)" "old_setting (handle sg p) = old_setting p"
  "stdin_flags (handle sg p) = stdin_flags p"
  by (simp_all add: handle_def)

text \<open>
  At every moment a set flag means that the old setting is kept, a handler or an exit handler means
  that the flag is set, and an altered terminal that the set-up had got past its second call.
\<close>

definition guarded :: "termios \<Rightarrow> process \<Rightarrow> bool" where
  "guarded t p \<longleftrightarrow>
     (termios_changed p \<longrightarrow> old_setting p = t) \<and> (\<not> termios_changed p \<longrightarrow> \<not> at_exit p \<and> \<not> (\<exists>sg. handled p sg)) \<and>
     (\<forall>sg. handled p sg \<longrightarrow> sg \<in> {SIGINT, SIGTERM, SIGQUIT})"

lemma set_flags_frame:
  "q \<in> set (set_flags P p) \<Longrightarrow> tty q = tty p \<and> termios_changed q = termios_changed p \<and> at_exit q = at_exit p \<and>
     handled q = handled p \<and> old_setting q = old_setting p"
  by (auto simp: set_flags_def split: if_splits)

lemma install_guarded:
  assumes "old_setting p = t" and "\<not> termios_changed p" and "\<not> at_exit p" and "\<not> (\<exists>sg. handled p sg)"
  shows "q \<in> set (install P p) \<Longrightarrow> guarded t q"
  using assms by (auto simp: install_def guarded_def Let_def split: if_splits dest: set_flags_frame)

lemma set_nonblocking_guarded:
  assumes "process_start p"
  shows "q \<in> set (set_nonblocking P p) \<Longrightarrow> guarded (tty p) q"
  using assms install_guarded [of "p\<lparr>old_setting := tty p, tty := raw_setting P (tty p)\<rparr>" "tty p" q P]
  by (auto simp: set_nonblocking_def process_start_def guarded_def Let_def split: if_splits)

text \<open>Where a guarded process leaves the terminal.\<close>

lemma end_process_tty:
  assumes "guarded t p" and "restore_ok P"
  shows "tty (fst (end_process P e p)) =
    (if (case e of Return n \<Rightarrow> at_exit p | Signalled sg \<Rightarrow> handled p sg) then t else tty p)"
  using assms
  by (auto simp: end_process_def sighandler_def restore_termios_setting_def guarded_def split: ending.splits)

lemma set_nonblocking_nonempty: "set_nonblocking P p \<noteq> []"
  by (simp add: set_nonblocking_def install_def Let_def)

text \<open>The set-up as a whole: it takes effect or leaves everything but \<open>old_setting\<close> and the complaint.\<close>

lemma set_nonblocking_last:
  "let q = last (set_nonblocking P p) in
     if stdin_is_tty P \<and> tcgetattr_ok P \<and> tcsetattr_ok P
     then tty q = raw_setting P (tty p) \<and> at_exit q \<and> termios_changed q \<and>
          handled q = (handled p)(SIGINT := True, SIGTERM := True, SIGQUIT := True) \<and>
          stdin_flags q = stdin_flags p OR (if getfl_ok P \<and> setfl_ok P then O_NONBLOCK P else 0)
     else tty q = tty p \<and> at_exit q = at_exit p \<and> handled q = handled p \<and> stdin_flags q = stdin_flags p"
  by (simp add: set_nonblocking_def install_def set_flags_def Let_def)


section \<open>Properties\<close>

text \<open>
  C33. Provided the system accepts the restoring call (\<open>restore_ok\<close>): once \<open>set_nonblocking\<close> has
  returned, the terminal gets its old setting back when \<open>main\<close> returns and on \<open>SIGINT\<close>, \<open>SIGTERM\<close> and
  \<open>SIGQUIT\<close>, which end the process with the signal's number as its status wherever the set-up took
  effect. Every other signal that ends the process then leaves the terminal raw: \<open>SIGABRT\<close>, so an exception
  nobody catches, but also \<open>SIGHUP\<close>, \<open>SIGSEGV\<close> or \<open>SIGKILL\<close>. A signal that arrives during the set-up
  leaves the terminal raw only before its own handler is installed. \<open>O_NONBLOCK\<close>, a property of the
  open file shared with the shell, is never taken back.
\<close>
theorem terminal_restored:
  assumes "process_start p" and "restore_ok P"
  shows "let q = last (set_nonblocking P p);
             works = stdin_is_tty P \<and> tcgetattr_ok P \<and> tcsetattr_ok P
         in (\<forall>n. end_process P (Return n) q = (fst (end_process P (Return n) q), Exit_status n) \<and>
                 tty (fst (end_process P (Return n) q)) = tty p) \<and>
            (\<forall>sg \<in> {SIGINT, SIGTERM, SIGQUIT}.
                 tty (fst (end_process P (Signalled sg) q)) = tty p \<and>
                 snd (end_process P (Signalled sg) q) = (if works then Exit_status (signo P sg) else Killed sg)) \<and>
            (\<forall>r \<in> set (set_nonblocking P p). \<forall>sg.
                 tty (fst (end_process P (Signalled sg) r)) \<noteq> tty p \<longrightarrow> tty r \<noteq> tty p \<and> \<not> handled r sg) \<and>
            (works \<longrightarrow> (\<forall>sg. sg \<notin> {SIGINT, SIGTERM, SIGQUIT} \<longrightarrow>
                 tty (fst (end_process P (Signalled sg) q)) = raw_setting P (tty p) \<and>
                 snd (end_process P (Signalled sg) q) = Killed sg)) \<and>
            (works \<and> getfl_ok P \<and> setfl_ok P \<longrightarrow>
                 stdin_flags (fst (end_process P e q)) = stdin_flags p OR O_NONBLOCK P)"
proof -
  let ?q = "last (set_nonblocking P p)"
  have g: "guarded (tty p) r" if "r \<in> set (set_nonblocking P p)" for r
    using set_nonblocking_guarded [OF assms(1) that] .
  then have gq: "guarded (tty p) ?q" by (simp add: set_nonblocking_nonempty)
  note at_end = end_process_tty [OF gq assms(2)]
  have flags: "stdin_flags (fst (end_process P e ?q)) = stdin_flags ?q" for e
    by (simp add: end_process_def sighandler_def restore_termios_setting_def split: ending.split)
  have during: "\<forall>r \<in> set (set_nonblocking P p). \<forall>sg.
      tty (fst (end_process P (Signalled sg) r)) \<noteq> tty p \<longrightarrow> tty r \<noteq> tty p \<and> \<not> handled r sg"
    by (simp add: end_process_tty [OF g assms(2)])
  have status: "snd (end_process P (Return n) ?q) = Exit_status n"
    "snd (end_process P (Signalled sg) ?q) = (if handled ?q sg then Exit_status (signo P sg) else Killed sg)" for n sg
    by (simp_all add: end_process_def sighandler_def)
  show ?thesis
    using set_nonblocking_last [of P p] assms(1) gq during
    by (simp add: Let_def at_end flags status prod_eq_iff process_start_def guarded_def split: if_splits)
qed

definition demo_posix :: posix where
  "demo_posix = \<lparr>stdin_is_tty = True, tcgetattr_ok = True, tcsetattr_ok = True, restore_ok = True, getfl_ok = True,
     setfl_ok = True, ICANON = 2, ECHO = 8, VMIN = 6, VTIME = 5, O_NONBLOCK = 0x800,
     signo = (\<lambda>sg. case sg of SIGINT \<Rightarrow> 2 | SIGTERM \<Rightarrow> 15 | SIGQUIT \<Rightarrow> 3 | SIGABRT \<Rightarrow> 6 | Other_signal n \<Rightarrow> n)\<rparr>"

definition demo_shell :: process where
  "demo_shell = \<lparr>tty = \<lparr>c_iflag = 0x500, c_oflag = 5, c_cflag = 0xbf, c_lflag = 0x8a3b, c_cc = (\<lambda>_. 1)\<rparr>,
     stdin_flags = 2, old_setting = \<lparr>c_iflag = 0, c_oflag = 0, c_cflag = 0, c_lflag = 0, c_cc = (\<lambda>_. 0)\<rparr>,
     termios_changed = False, handled = (\<lambda>_. False), at_exit = False, complaints = []\<rparr>"

theorem terminal_restored_witness:
  "snd (end_process demo_posix (Signalled SIGINT) (last (set_nonblocking demo_posix demo_shell))) = Exit_status 2 \<and>
   stdin_flags (fst (end_process demo_posix (Return 0) (last (set_nonblocking demo_posix demo_shell)))) = 0x802 \<and>
   tty (fst (end_process demo_posix (Signalled (Other_signal 1)) (last (set_nonblocking demo_posix demo_shell)))) \<noteq>
     tty demo_shell"
proof -
  have "process_start demo_shell" "restore_ok demo_posix"
    by (simp_all add: process_start_def demo_shell_def demo_posix_def)
  from terminal_restored [OF this, of "Return 0"] show ?thesis
    by (simp add: Let_def demo_posix_def raw_setting_def) (simp add: demo_shell_def)
qed

end
