(* ===== verification/Spec2Isabelle.thy ===== *)
theory Spec2Isabelle
  imports CLib Csr Pmp TrapFrame Platform Firmware Trap Boot Timer Handlers Lockstep Harness
    Payload MulDiv MulDivProof Fifo Ptw Tlb Translate Sfence LoadStore LoadStoreProof
    Amo Mmio Ram Dma Icache Dcache DcacheProof Decode LoadSize Plic Uart Terminal
begin

text \<open>
  Verification of the MiNTs RISC-V SoC: the lockstep checker that compares the RTL with a reference
  simulator, the privileged part of the core, and the test kernel that runs on it.

  \<^bold>\<open>The program.\<close> The SoC (\<open>src/*.sv\<close>) runs a bare-metal kernel (\<open>core/test/os2_min\<close>) or OpenSBI and
  Linux. The harness (\<open>tb/tb_verilator.cpp\<close>) clocks the Verilated SoC, collects the outputs of every
  half cycle, queues the interrupts the RTL takes, and at every retirement asks the reference
  (\<open>tools/whisper_lockstep/WhisperRef.cpp\<close>, a wrapper of the Whisper simulator) for the same
  instruction and compares the two. The kernel boots in M-mode, programs the PMP and the delegation
  registers, drops to S-mode and calls its own M-mode firmware by \<open>ecall\<close>.

  \<^bold>\<open>Theories and sources.\<close>
  \<^item> \<open>Prelude\<close>: the C and SystemVerilog integers as words, part-selects, memory in bytes, the error
    monad of undefined behaviour, the shared hints (\<open>word_slices\<close>).
  \<^item> \<open>CLib\<close>: \<open>common.c\<close>, \<open>common.h\<close> (\<open>printf\<close>, \<open>memset\<close>, \<open>memcpy\<close>, \<open>strcpy\<close>, \<open>strcmp\<close>); undefined behaviour
    of C is \<open>None\<close>, and so is not returning.
  \<^item> \<open>Csr\<close>: \<open>csrunit.sv\<close>, the register file \<open>csr_file\<close>, masked writes, trap entry, \<open>mret\<close>, \<open>sret\<close>,
    interrupt selection; \<open>csr_reachable\<close> is every register file a hart can reach.
  \<^item> \<open>Pmp\<close>: \<open>pmp_checker.sv\<close> and the set of bytes an entry stands for.
  \<^item> \<open>TrapFrame\<close>: \<open>struct trap_frame\<close> and \<open>trap_entry.S\<close>.
  \<^item> \<open>Platform\<close>: the address map (\<open>mmio_controller.sv\<close>), the debug port of \<open>top.sv\<close>, the timer of
    \<open>aclint_memory.sv\<close>, and \<open>platform.c\<close> on top of them; \<open>soc\<close> is the whole state.
  \<^item> \<open>Firmware\<close>, \<open>Trap\<close>, \<open>Boot\<close>: \<open>firmware.c\<close>, \<open>sbi.c\<close>, \<open>trap.c\<close>, \<open>kernel.c\<close> for all seven build variants; a
    C function that does not return has the outcome \<open>Hangs\<close>.
  \<^item> \<open>Timer\<close>, \<open>Handlers\<close>: the two paths through all of these, the timer interrupt and the SBI call.
  \<^item> \<open>Lockstep\<close>: \<open>WhisperRef.cpp\<close>. Whisper is third-party code and the record \<open>whisper\<close> of the library
    calls the wrapper makes, over an arbitrary hart type; exceptions are \<open>Inl\<close>.
  \<^item> \<open>Harness\<close>: \<open>tb_verilator.cpp\<close>. The Verilated SoC is a list of sampled outputs (\<open>dut\<close>), one per half
    cycle; \<open>half_cycle\<close> is the loop body and \<open>runs\<close> its iteration.
  \<^item> \<open>Payload\<close>: \<open>platform/opensbi_payload.c\<close>; OpenSBI's \<open>ecall\<close> is a parameter.
  \<^item> \<open>MulDiv\<close>, \<open>MulDivProof\<close>: \<open>muldivunit.sv\<close> cycle by cycle, and the M extension over the integers.
  \<^item> \<open>Fifo\<close>: \<open>fifo.sv\<close>, both variants.
  \<^item> \<open>Ptw\<close>: \<open>sv39_ptw.sv\<close> cycle by cycle beside the memory it reads (\<open>ptw_reach\<close>), and the Sv39 algorithm
    of the privileged specification over integers (\<open>sv39_translate\<close>).
  \<^item> \<open>Tlb\<close>, \<open>Translate\<close>: \<open>rtl/mmu/tlb.sv\<close> and \<open>rtl/mmu/address_translation.sv\<close> (fast path, walker behind the
    PMP, refill, held responses) between two changes of the tables (\<open>xl_reach\<close>); \<open>Sfence\<close>: how the memory
    stage of \<open>core.sv\<close> waits for the data cache and flushes them.
  \<^item> \<open>LoadStore\<close>, \<open>LoadStoreProof\<close>: \<open>memunit.sv\<close> beside its bus and the translation unit, and the byte-wise
    access it implements; \<open>Amo\<close>: \<open>amounit.sv\<close>; \<open>Mmio\<close>: the bus controller \<open>mmio_controller.sv\<close>.
  \<^item> \<open>Ram\<close>: \<open>memory.sv\<close>, \<open>ram_arbiter.sv\<close>, RAM behind the arbiter and the arbiter of fetches and data accesses
    of \<open>top.sv\<close>; \<open>Dma\<close>: \<open>dma.sv\<close> on that arbiter.
  \<^item> \<open>Icache\<close>: \<open>rtl/cache/icache.sv\<close>; \<open>Dcache\<close>, \<open>DcacheProof\<close>: \<open>rtl/cache/dcache.sv\<close> (\<open>wb\<close> is the write policy),
    each beside a memory that stalls and changes as it likes (\<open>ic_reach\<close>, \<open>dc_reach\<close>).
  \<^item> \<open>Decode\<close>: \<open>inst_gen_pkg.sv\<close>, \<open>rvc_converter.sv\<close>, \<open>inst_decoder.sv\<close>, \<open>corectrl.sv\<close>, \<open>alu.sv\<close>, \<open>brunit.sv\<close>;
    \<open>LoadSize\<close>: the decoder against \<open>scalar_load_size\<close> of the reference.
  \<^item> \<open>Plic\<close>: \<open>plic.sv\<close>, registers, selection and the claim/completion protocol.
  \<^item> \<open>Uart\<close>: \<open>uart_ns16550.sv\<close> with the host input it polls.
  \<^item> \<open>Terminal\<close>: the terminal set-up of \<open>tb_verilator.cpp\<close>; the system calls are the record \<open>posix\<close>.

  \<^bold>\<open>What the lemmas show.\<close> For the checker: an interrupt is injected exactly once and exactly at the
  retirement after the one it was taken behind; a run that passes compared every retirement and all
  agreed; \<open>step\<close> returns the first retiring instruction; the comparison decides equality of the
  architectural effect; the byte-lane normalisation inverts the store alignment of the core. For the
  SoC: reachable register files are well formed, privilege is enforced, the PMP checker decides its
  set specification, the multiplier and divider compute the M extension (but for REMW by zero), FIFOs
  are queues. For the kernel: the boot reaches S-mode with the intended policy, every \<open>ecall\<close> the
  firmware gets returns, the timer interrupt is served, the handlers stay within defined behaviour (but
  for the overflow of one counter), the C library meets its contracts. The walker reports
  the Sv39 translation under any stalls and flushes and always ends, caching it is invisible to the
  requests of an epoch (a hit for a non-canonical address apart), every load, store and atomic has the architecture's
  effect on bytes, the bus controller delivers and answers each request for a device once, RAM does
  the accesses of both its masters one at a time and the DMA engine copies, the instruction cache never
  answers with words older than the last invalidation and the write-through data cache is invisible to
  the core, a compressed instruction
  expands to a valid one (and so do four kinds of reserved encodings, but no other parcel), the interrupt
  controller serves a claimed source once, and the UART loses no input character but what the program
  clears.

  \<^bold>\<open>Interfaces.\<close> \<open>trap_gate\<close> (\<open>Csr\<close>) is what an entry and its return instruction promise each other, for
  M and S; \<open>char_sink\<close> (\<open>Platform\<close>) is the console \<open>printf\<close> writes to; \<open>sbi_firmware\<close> (\<open>Trap\<close>) is the SBI
  the S-mode code calls; \<open>handshake_queue\<close> (\<open>Fifo\<close>) is a queue between two pipeline stages, and the receive FIFO of
  the UART. Each is
  interpreted on the model's definitions.

  \<^bold>\<open>Bounds and fuel.\<close> \<open>WhisperRef::step\<close> gives up after \<open>kMaxNonRetiringSteps\<close> = 16 trap entries, which is
  the code's own limit. A multiplication takes 67 edges, a division 68, a division by zero 3 (1 when
  signed) and a signed overflow 1 (\<open>md_latency\<close>). A page walk needs at most nine edges the memory does
  not stall: request, answer and check at each of three levels. A DMA transfer takes at most five edges for each word left
  and one more once the core is silent, an access of the memory unit five stalled cycles beside its waits. A lockstep run is
  as long as its list of samples; the properties hold for every length. The two C loops that may not end (\<open>find_divisor\<close>, \<open>strcmp\<close>) are
  partial functions, and that they return is proved where it holds.

  \<^bold>\<open>Not modelled.\<close> The core pipeline (but for its handling of \<open>sfence.vma\<close>), the fetch queue and the branch
  predictor: microarchitecture whose contract is the instruction set that the lockstep checker tests.
  The test functions of \<open>tests.c\<close>. The units of the memory path are proved each against the bus
  contract and not composed into one system; for the write-back policy of the data cache (off by
  default) there is the model and no theorem. Performance counters and traces of the RTL. \<open>whisper_api_smoke.cpp\<close>: it calls \<open>step\<close> without its
  arguments and does not compile. Waveform tracing and the wording of diagnostics of the harness; the
  device test programs, benchmarks and scripts.
\<close>

end
